(* ===== verification/Prelude.thy ===== *)
theory Prelude
  imports Main "HOL-Library.Word"
begin

text \<open>
  Shared vocabulary of the development: the C types of the sources as Isabelle types,
  undefined behaviour as a value (\<open>fault\<close>) with a result type and its sequencing
  operator \<open>andthen\<close>, the integer conversions C performs implicitly, and the byte memory
  that the caller's input and output buffers live in.  The lemma collections \<open>res_simps\<close>
  (sequencing) and \<open>mem_simps\<close> (byte memory) carry the component proofs.
\<close>

named_theorems res_simps \<open>rewriting of sequenced results\<close>
named_theorems mem_simps \<open>reading and writing the byte memory\<close>

section \<open>C types\<close>

type_synonym byte = "8 word"
type_synonym uInt = "32 word"
type_synonym uLong = "64 word"
type_synonym addr = "64 word"
type_synonym ptr = nat
type_synonym mem = "addr \<Rightarrow> byte"

text \<open>
  \<open>addr\<close> is an address in the caller's buffers (pointer arithmetic wraps at 64 bits);
  \<open>ptr\<close> names an object obtained from \<open>malloc\<close> or from a library.  Both have 0 as \<open>NULL\<close>.
\<close>

abbreviation NULL_addr :: addr where "NULL_addr \<equiv> 0"
abbreviation NULL_ptr :: ptr where "NULL_ptr \<equiv> 0"

text \<open>A claim for the first few numbers, case by case.\<close>

lemma below_1: "{..<1 :: nat} = {0}" "{..<Suc 0} = {0}"
  by auto

lemmas below_numeral = lessThan_nat_numeral below_1

section \<open>Undefined behaviour as a value\<close>

datatype fault =
    NullDeref     \<comment> \<open>a field is read or written through \<open>NULL\<close>\<close>
  | NullCall      \<comment> \<open>a \<open>NULL\<close> function pointer is called\<close>
  | Dangling      \<comment> \<open>an object is used after it was freed\<close>
  | WrongType     \<comment> \<open>an object is accessed as a struct it is not\<close>
  | DoubleFree    \<comment> \<open>an object or handle that is not allocated is released\<close>
  | Indeterminate \<comment> \<open>a value that was never initialised is used\<close>
  | Overflow      \<comment> \<open>a number is not representable in the type it is converted to\<close>
  | OutOfBounds   \<comment> \<open>a byte outside an object is read or written\<close>
  | NoReturn      \<comment> \<open>a loop does not end\<close>

type_synonym 'a res = "fault + 'a"

definition andthen :: "'a res \<Rightarrow> ('a \<Rightarrow> 'b res) \<Rightarrow> 'b res" where
  "andthen m f = (case m of Inl e \<Rightarrow> Inl e | Inr x \<Rightarrow> f x)"

lemma andthen_Inr [simp, res_simps]: "andthen (Inr x) f = f x"
  by (simp add: andthen_def)

lemma andthen_Inl [simp, res_simps]: "andthen (Inl e) f = Inl e"
  by (simp add: andthen_def)

lemma andthen_eq_Inr [res_simps]:
  "andthen m f = Inr y \<longleftrightarrow> (\<exists>x. m = Inr x \<and> f x = Inr y)"
  by (simp add: andthen_def split: sum.splits)

lemma andthen_eq_Inl [res_simps]:
  "andthen m f = Inl e \<longleftrightarrow> m = Inl e \<or> (\<exists>x. m = Inr x \<and> f x = Inl e)"
  by (auto simp: andthen_def split: sum.splits)

lemma andthen_assoc: "andthen (andthen m f) g = andthen m (\<lambda>x. andthen (f x) g)"
  by (simp add: andthen_def split: sum.splits)

lemma andthen_if [res_simps]:
  "andthen (if b then x else y) f = (if b then andthen x f else andthen y f)"
  by simp

text \<open>\<open>ensures m Q\<close>: no fault, and the result satisfies \<open>Q\<close>.\<close>

definition ensures :: "'a res \<Rightarrow> ('a \<Rightarrow> bool) \<Rightarrow> bool" where
  "ensures m Q \<longleftrightarrow> (\<exists>x. m = Inr x \<and> Q x)"

lemma ensures_Inr [simp, res_simps]: "ensures (Inr x) Q = Q x"
  by (simp add: ensures_def)

lemma ensures_Inl [simp, res_simps]: "\<not> ensures (Inl e) Q"
  by (simp add: ensures_def)

lemma ensures_andthen [simp, res_simps]:
  "ensures (andthen m f) Q = ensures m (\<lambda>x. ensures (f x) Q)"
  by (auto simp: ensures_def andthen_eq_Inr)

lemma ensures_if [res_simps]:
  "ensures (if b then x else y) Q = ((b \<longrightarrow> ensures x Q) \<and> (\<not> b \<longrightarrow> ensures y Q))"
  by simp

lemma ensures_mono: "ensures m P \<Longrightarrow> (\<And>x. m = Inr x \<Longrightarrow> P x \<Longrightarrow> Q x) \<Longrightarrow> ensures m Q"
  by (auto simp: ensures_def)

lemma ensures_mono3:
  "ensures m (\<lambda>(x, y, z). P x y z) \<Longrightarrow> (\<And>x y z. m = Inr (x, y, z) \<Longrightarrow> P x y z \<Longrightarrow> Q x y z) \<Longrightarrow>
   ensures m (\<lambda>(x, y, z). Q x y z)"
  by (auto simp: ensures_def)

lemma ensures_mono2:
  "ensures m (\<lambda>(x, y). P x y) \<Longrightarrow> (\<And>x y. m = Inr (x, y) \<Longrightarrow> P x y \<Longrightarrow> Q x y) \<Longrightarrow>
   ensures m (\<lambda>(x, y). Q x y)"
  by (auto simp: ensures_def)

lemma ensuresE: "ensures m Q \<Longrightarrow> (\<And>x. m = Inr x \<Longrightarrow> Q x \<Longrightarrow> R) \<Longrightarrow> R"
  by (auto simp: ensures_def)

text \<open>A loop as a \<open>partial_function (option)\<close> is \<open>None\<close> when it does not end.\<close>

definition returning :: "'a res option \<Rightarrow> 'a res" where
  "returning m = (case m of None \<Rightarrow> Inl NoReturn | Some r \<Rightarrow> r)"

lemma returning_Some [simp]: "returning (Some r) = r"
  by (simp add: returning_def)

section \<open>Integer conversions\<close>

text \<open>
  C's \<open>int\<close> is modelled by \<open>int\<close>; unsigned types are words.  \<open>c_int\<close> is the conversion
  of an unsigned value to \<open>int\<close> (the low 32 bits read as two's complement);
  \<open>word_of_int\<close> is the conversion of an \<open>int\<close> to an unsigned type.
\<close>

definition c_int :: "'a::len word \<Rightarrow> int" where
  "c_int x = sint (ucast x :: 32 word)"

lemma c_int_small:
  "uint (x :: 'a::len word) < 2 ^ 31 \<Longrightarrow> c_int x = uint x"
  by (simp add: c_int_def signed_ucast_eq signed_take_bit_int_eq_self order_trans [of _ 0])

lemma c_int_unat:
  assumes "unat (x :: 'a::len word) < 2 ^ 31"
  shows "c_int x = int (unat x)"
proof -
  have "int (unat x) < int (2 ^ 31)" using assms by (simp only: of_nat_less_iff)
  then have "uint x < 2 ^ 31" by (simp only: uint_nat) simp
  then show ?thesis by (simp only: c_int_small uint_nat)
qed

lemma c_int_0 [simp]: "c_int (0 :: uLong) = 0" "c_int (0 :: uInt) = 0"
  by (simp_all add: c_int_def)

lemma unat_word_of_int_ulong:
  "0 \<le> i \<Longrightarrow> i < 2 ^ 64 \<Longrightarrow> unat (word_of_int i :: uLong) = nat i"
  by (simp add: unat_eq_nat_uint uint_word_of_int)

lemma uint_ucast_up [simp]: "uint (ucast (x :: uInt) :: uLong) = uint x"
  by transfer (simp add: take_bit_int_eq_self)

lemma unat_ucast_up: "unat (ucast (x :: uInt) :: uLong) = unat x"
  by (simp only: unat_eq_nat_uint uint_ucast_up)

lemma c_int_ucast_up [simp]: "c_int (ucast (x :: uInt) :: uLong) = c_int x"
  unfolding c_int_def by (rule arg_cong [of _ _ sint]) (transfer, simp)

lemma uint_minus_no_borrow:
  fixes a b :: "'a::len word"
  assumes "uint b \<le> uint a"
  shows "uint (a - b) = uint a - uint b"
proof -
  have "uint a - uint b < 2 ^ LENGTH('a)"
    using uint_lt2p [of a] by (simp add: order_le_less_trans [of _ "uint a"])
  then show ?thesis
    using assms by (simp add: uint_word_ariths)
qed

section \<open>Byte memory\<close>

definition read_mem :: "mem \<Rightarrow> addr \<Rightarrow> nat \<Rightarrow> byte list" where
  "read_mem m a n = map (\<lambda>i. m (a + of_nat i)) [0..<n]"

fun write_mem :: "mem \<Rightarrow> addr \<Rightarrow> byte list \<Rightarrow> mem" where
  "write_mem m a [] = m"
| "write_mem m a (x # xs) = write_mem (m(a := x)) (a + 1) xs"

lemma length_read_mem [simp, mem_simps]: "length (read_mem m a n) = n"
  by (simp add: read_mem_def)

lemma read_mem_0 [simp, mem_simps]: "read_mem m a 0 = []"
  by (simp add: read_mem_def)

lemma read_mem_Suc: "read_mem m a (Suc n) = m a # read_mem m (a + 1) n"
proof -
  have "[0..<Suc n] = 0 # map Suc [0..<n]"
    by (simp add: upt_conv_Cons map_Suc_upt del: upt_Suc)
  then show ?thesis
    by (simp add: read_mem_def algebra_simps comp_def del: upt_Suc)
qed

lemma write_mem_outside:
  "(\<forall>i < length xs. b \<noteq> a + of_nat i) \<Longrightarrow> write_mem m a xs b = m b"
proof (induction xs arbitrary: m a)
  case Nil
  then show ?case by simp
next
  case (Cons x xs)
  have "\<forall>i < length xs. b \<noteq> (a + 1) + of_nat i"
  proof (intro allI impI)
    fix i assume "i < length xs"
    then have "b \<noteq> a + of_nat (Suc i)" using Cons.prems by auto
    then show "b \<noteq> (a + 1) + of_nat i" by (simp add: algebra_simps)
  qed
  moreover have "b \<noteq> a" using Cons.prems by auto
  ultimately show ?case using Cons.IH by simp
qed

lemma write_mem_append:
  "write_mem m a (xs @ ys) = write_mem (write_mem m a xs) (a + of_nat (length xs)) ys"
  by (induction xs arbitrary: m a) (simp_all add: algebra_simps)

lemma of_nat_addr_neq_0: "0 < i \<Longrightarrow> i < 2 ^ 64 \<Longrightarrow> of_nat i \<noteq> (0 :: addr)"
  by (simp add: of_nat_eq_0_iff word_of_nat_eq_0_iff nat_dvd_not_less)

lemma read_write_mem [mem_simps]:
  "length xs \<le> 2 ^ 64 \<Longrightarrow> read_mem (write_mem m a xs) a (length xs) = xs"
proof (induction xs arbitrary: m a)
  case Nil
  then show ?case by simp
next
  case (Cons x xs)
  have "write_mem (m(a := x)) (a + 1) xs a = (m(a := x)) a"
  proof (rule write_mem_outside, intro allI impI)
    fix i assume "i < length xs"
    then have "of_nat (Suc i) \<noteq> (0 :: addr)"
      using Cons.prems by (intro of_nat_addr_neq_0) auto
    then show "a \<noteq> (a + 1) + of_nat i" by (simp add: algebra_simps)
  qed
  then show ?case using Cons by (simp add: read_mem_Suc)
qed

lemma read_mem_cong:
  "(\<And>i. i < n \<Longrightarrow> m (a + of_nat i) = m' (b + of_nat i)) \<Longrightarrow> read_mem m a n = read_mem m' b n"
  by (simp add: read_mem_def)

lemma read_write_mem_disjoint:
  "(\<And>i j. i < n \<Longrightarrow> j < length xs \<Longrightarrow> b + of_nat i \<noteq> a + of_nat j) \<Longrightarrow>
   read_mem (write_mem m a xs) b n = read_mem m b n"
  by (rule read_mem_cong) (auto intro: write_mem_outside)

lemma read_mem_add: "read_mem m a (i + j) = read_mem m a i @ read_mem m (a + of_nat i) j"
  by (induction i arbitrary: a) (simp_all add: read_mem_Suc algebra_simps)

text \<open>Two ranges of addresses have no byte in common.\<close>

definition disjoint_ranges :: "addr \<Rightarrow> nat \<Rightarrow> addr \<Rightarrow> nat \<Rightarrow> bool" where
  "disjoint_ranges a n b k \<longleftrightarrow> (\<forall>i < n. \<forall>j < k. a + of_nat i \<noteq> b + of_nat j)"

lemma disjoint_ranges_sym: "disjoint_ranges a n b k \<Longrightarrow> disjoint_ranges b k a n"
  by (auto simp: disjoint_ranges_def) metis

lemma disjoint_ranges_mono:
  "disjoint_ranges a n b k \<Longrightarrow> n' \<le> n \<Longrightarrow> k' \<le> k \<Longrightarrow> disjoint_ranges a n' b k'"
  by (auto simp: disjoint_ranges_def)

lemma read_write_disjoint [mem_simps]:
  "disjoint_ranges b n a (length xs) \<Longrightarrow> read_mem (write_mem m a xs) b n = read_mem m b n"
  by (rule read_write_mem_disjoint) (auto simp: disjoint_ranges_def)

lemma c_int_word_of_int:
  assumes "0 \<le> i" and "i < 2 ^ 31"
  shows "c_int (word_of_int i :: uLong) = i"
proof -
  have "unat (word_of_int i :: uLong) = nat i"
    using assms by (intro unat_word_of_int_ulong) auto
  then show ?thesis using assms by (simp add: c_int_unat)
qed

end
