(* ===== verification/Structs.thy ===== *)
theory Structs
  imports Prelude
begin

text \<open>
  The data of the library: the return codes of \<open>unizip_error_code.h\<close>, the algorithm
  numbers and \<open>unizip_stream\<close> of \<open>unizip_struct.h\<close>, one record per back-end context
  struct, and the store the contexts live in with C's \<open>malloc\<close> and \<open>free\<close>.
  Fields carry the suffix of their struct because Isabelle record fields share one name
  space.
\<close>

section \<open>Return codes\<close>

abbreviation UNIZIP_OK :: int where "UNIZIP_OK \<equiv> 0"
abbreviation UNIZIP_STREAM_END :: int where "UNIZIP_STREAM_END \<equiv> 1"
abbreviation UNIZIP_NEED_DICT :: int where "UNIZIP_NEED_DICT \<equiv> 2"
abbreviation UNIZIP_ERRNO :: int where "UNIZIP_ERRNO \<equiv> - 1"
abbreviation UNIZIP_STREAM_ERROR :: int where "UNIZIP_STREAM_ERROR \<equiv> - 2"
abbreviation UNIZIP_DATA_ERROR :: int where "UNIZIP_DATA_ERROR \<equiv> - 3"
abbreviation UNIZIP_MEM_ERROR :: int where "UNIZIP_MEM_ERROR \<equiv> - 4"
abbreviation UNIZIP_BUF_ERROR :: int where "UNIZIP_BUF_ERROR \<equiv> - 5"
abbreviation UNIZIP_VERSION_ERROR :: int where "UNIZIP_VERSION_ERROR \<equiv> - 6"
abbreviation UNIZIP_ALGO_ERROR :: int where "UNIZIP_ALGO_ERROR \<equiv> - 7"

text \<open>\<open>UINT64_MAX\<close>, \<open>ULONG_MAX\<close> and \<open>ULLONG_MAX\<close> on the LP64 targets of the build.\<close>

abbreviation ULONG_MAX :: uLong where "ULONG_MAX \<equiv> - 1"

section \<open>The stream object of the public interface\<close>

record unizip_stream =
  next_in :: addr
  avail_in :: uInt
  total_in :: uLong
  next_out :: addr
  avail_out :: uInt
  total_out :: uLong
  msg :: ptr
  state :: ptr
  zalloc :: ptr
  zfree :: ptr
  opaque :: ptr
  data_type :: int
  adler :: uLong
  reserved :: uLong
  compression_flag :: int
  ud :: ptr

text \<open>
  The \<open>reset\<close> helper that five back ends define with the same body (\<open>resetZstd\<close>,
  \<open>resetXz\<close>, \<open>resetBzip2\<close>, \<open>resetBrotli\<close>, \<open>resetSnappy\<close>, \<open>reset_7zip\<close>, \<open>resetUadk\<close>)
  is modelled once per back end in its theory; all of them are this function.
\<close>

definition reset_counters :: "unizip_stream \<Rightarrow> unizip_stream" where
  "reset_counters strm = strm\<lparr>next_in := NULL_addr, next_out := NULL_addr, avail_in := 0,
     avail_out := 0, total_in := 0, total_out := 0\<rparr>"

lemma reset_counters_simps [simp]:
  "next_in (reset_counters s) = 0" "next_out (reset_counters s) = 0"
  "avail_in (reset_counters s) = 0" "avail_out (reset_counters s) = 0"
  "total_in (reset_counters s) = 0" "total_out (reset_counters s) = 0"
  "ud (reset_counters s) = ud s" "compression_flag (reset_counters s) = compression_flag s"
  by (simp_all add: reset_counters_def)

lemma reset_counters_idem [simp]: "reset_counters (reset_counters s) = reset_counters s"
  by (simp add: reset_counters_def)

lemma reset_counters_ud [simp]: "reset_counters (s\<lparr>ud := p\<rparr>) = (reset_counters s)\<lparr>ud := p\<rparr>"
  by (simp add: reset_counters_def)

lemma reset_counters_flag [simp]:
  "reset_counters (s\<lparr>compression_flag := l\<rparr>) = (reset_counters s)\<lparr>compression_flag := l\<rparr>"
  by (simp add: reset_counters_def)

section \<open>Library structs whose fields the sources access\<close>

record bz_stream =
  next_in_bz :: addr
  avail_in_bz :: uInt
  total_in_lo32 :: uInt
  total_in_hi32 :: uInt
  next_out_bz :: addr
  avail_out_bz :: uInt
  total_out_lo32 :: uInt
  total_out_hi32 :: uInt
  state_bz :: ptr
  bzalloc :: ptr
  bzfree :: ptr
  opaque_bz :: ptr

record lzma_stream =
  next_in_lzma :: addr
  avail_in_lzma :: uLong
  total_in_lzma :: uLong
  next_out_lzma :: addr
  avail_out_lzma :: uLong
  total_out_lzma :: uLong
  internal_lzma :: ptr

text \<open>\<open>LZMA_STREAM_INIT\<close> and \<open>memset(.., 0, ..)\<close>: every field zero.\<close>

definition LZMA_STREAM_INIT :: lzma_stream where
  "LZMA_STREAM_INIT = \<lparr>next_in_lzma = 0, avail_in_lzma = 0, total_in_lzma = 0,
     next_out_lzma = 0, avail_out_lzma = 0, total_out_lzma = 0, internal_lzma = 0\<rparr>"

record ZSTD_inBuffer =
  src_in :: addr
  size_in :: uLong
  pos_in :: uLong

record ZSTD_outBuffer =
  dst_out :: addr
  size_out :: uLong
  pos_out :: uLong

section \<open>Context structs of the back ends\<close>

record lz4_ctx =
  next_in_lz4 :: addr
  next_out_lz4 :: addr
  avail_in_lz4 :: uInt
  avail_out_lz4 :: uInt
  total_in_lz4 :: uLong
  total_out_lz4 :: uLong
  level_lz4 :: int
  input_length_lz4 :: int
  src_lz4 :: addr
  dst_lz4 :: addr

record zstd_ctx =
  zdstream :: ptr
  zcstream :: ptr
  out_zstd :: ZSTD_outBuffer
  in_zstd :: ZSTD_inBuffer
  next_in_zstd :: addr
  next_out_zstd :: addr
  avail_in_zstd :: uInt
  avail_out_zstd :: uInt
  total_in_zstd :: uLong
  total_out_zstd :: uLong

record xz_ctx =
  xzstr :: lzma_stream
  next_in_xz :: addr
  next_out_xz :: addr
  avail_in_xz :: uInt
  avail_out_xz :: uInt
  total_in_xz :: uLong
  total_out_xz :: uLong

record bzip2_ctx =
  bzstr :: bz_stream
  next_in_bzip2 :: addr
  next_out_bzip2 :: addr
  avail_in_bzip2 :: uInt
  avail_out_bzip2 :: uInt
  total_in_bzip2 :: uLong
  total_out_bzip2 :: uLong

record brotli_ctx =
  compression_flags_brotli :: int
  Enstate :: ptr
  Destate :: ptr
  op_brotli :: int
  next_in_brotli :: addr
  available_in :: uLong
  next_out_brotli :: addr
  available_out :: uLong
  total_in_brotli :: uLong
  total_out_brotli :: uLong
  avail_in_temp :: uLong
  avail_out_temp :: uLong
  ret_brotli :: int

record snappy_ctx =
  compression_flags_snappy :: int
  input_snappy :: addr
  input_length_snappy :: uLong
  compressed_snappy :: addr
  compressed_length :: uLong
  uncompressed_snappy :: addr
  uncompressed_length :: uLong
  result_snappy :: uLong
  next_in_snappy :: addr
  avail_in_snappy :: uInt
  total_in_snappy :: uLong
  next_out_snappy :: addr
  avail_out_snappy :: uInt
  total_out_snappy :: uLong

text \<open>
  \<open>zip7_ctx\<close> declares \<open>avail_in\<close>, \<open>avail_out\<close> as \<open>int\<close> and \<open>total_in\<close>, \<open>total_out\<close> as
  \<open>long\<close>; they are kept as words holding the two's complement value.  The embedded
  \<open>CLzmaDec\<close> is opaque to the code, which only passes its address on: its bytes are kept
  as a list.
\<close>

record zip7_ctx =
  dest_7zip :: addr
  destLen_7zip :: uLong
  src_7zip :: addr
  srcLen_7zip :: uLong
  level_7zip :: int
  dec_7zip :: "byte list"
  status_7zip :: int
  next_in_7zip :: addr
  avail_in_7zip :: uInt
  total_in_7zip :: uLong
  next_out_7zip :: addr
  avail_out_7zip :: uInt
  total_out_7zip :: uLong

text \<open>
  The objects behind a UADK stream.  The \<open>in\<close> and \<open>out\<close> blocks come from the memory pool of
  the hardware and are addresses in the byte memory, as \<open>next_in\<close> and \<open>next_out\<close> are; the
  other pointers are objects or library handles.  The one-byte fields of the operation data
  (\<open>alg_type\<close>, \<open>flush\<close>, \<open>stream_pos\<close>, \<open>status\<close>) hold numbers of the library and are kept as
  \<open>int\<close>; \<open>wd_queue\<close> has the fields the code sets, and what the library keeps there.
\<close>

record zip_stream =
  next_in_hw :: addr
  avail_in_hw :: uLong
  total_in_hw :: uLong
  next_out_hw :: addr
  avail_out_hw :: uLong
  total_out_hw :: uLong
  msg_hw :: ptr
  workspace_hw :: ptr
  data_type_hw :: int
  adler_hw :: uLong
  reserved_hw :: ptr

record zip_ctl =
  pool_ctl :: ptr
  in_ctl :: addr
  out_ctl :: addr
  ctxbuf_ctl :: ptr
  queue_ctl :: ptr
  ctx_ctl :: ptr
  opdata_ctl :: ptr

record wcrypto_comp_op_data =
  alg_type_op :: int
  flush_op :: int
  stream_pos_op :: int
  status_op :: int
  in_op :: addr
  out_op :: addr
  in_len_op :: uInt
  avail_out_op :: uInt
  consumed_op :: uInt
  produced_op :: uInt
  isize_op :: uInt
  checksum_op :: uInt

record wd_queue =
  alg_queue :: "string option"
  throughput_queue :: int
  latency_queue :: int
  direction_queue :: int
  qinfo_queue :: ptr

section \<open>The store\<close>

datatype obj =
    Lz4_obj lz4_ctx
  | Zstd_obj zstd_ctx
  | Xz_obj xz_ctx
  | Bzip2_obj bzip2_ctx
  | Brotli_obj brotli_ctx
  | Snappy_obj snappy_ctx
  | Zip7_obj zip7_ctx
  | Chars_obj string
  | Hw_obj zip_stream
  | Ctl_obj zip_ctl
  | Op_obj wcrypto_comp_op_data
  | Queue_obj wd_queue

text \<open>
  \<open>heap\<close> holds the objects \<open>malloc\<close> returned, \<open>allocs\<close> counts the calls of \<open>malloc\<close>,
  \<open>oom k\<close> says that the call number \<open>k\<close> fails, \<open>bytes\<close> is the caller's byte memory and
  \<open>lib\<close> is the state of the compression libraries, of a type the model leaves open.
\<close>

record 'l world =
  heap :: "ptr \<rightharpoonup> obj"
  allocs :: nat
  oom :: "nat \<Rightarrow> bool"
  bytes :: mem
  lib :: 'l

text \<open>
  \<open>malloc u w\<close>: a fresh non-null pointer to an object with the indeterminate contents
  \<open>u\<close>, or \<open>NULL\<close>.
\<close>

definition malloc :: "obj \<Rightarrow> 'l world \<Rightarrow> ptr \<times> 'l world" where
  "malloc u w =
     (let k = allocs w; w = w\<lparr>allocs := Suc k\<rparr>
      in if oom w k then (NULL_ptr, w) else (Suc k, w\<lparr>heap := (heap w)(Suc k \<mapsto> u)\<rparr>))"

definition free :: "ptr \<Rightarrow> 'l world \<Rightarrow> 'l world res" where
  "free p w =
     (if p = NULL_ptr then Inr w
      else if heap w p = None then Inl DoubleFree
      else Inr (w\<lparr>heap := (heap w)(p := None)\<rparr>))"

definition deref :: "ptr \<Rightarrow> 'l world \<Rightarrow> obj res" where
  "deref p w =
     (if p = NULL_ptr then Inl NullDeref
      else case heap w p of None \<Rightarrow> Inl Dangling | Some ob \<Rightarrow> Inr ob)"

definition store :: "ptr \<Rightarrow> obj \<Rightarrow> 'l world \<Rightarrow> 'l world" where
  "store p ob w = w\<lparr>heap := (heap w)(p \<mapsto> ob)\<rparr>"

definition wf_heap :: "'l world \<Rightarrow> bool" where
  "wf_heap w \<longleftrightarrow> (\<forall>p \<in> dom (heap w). 0 < p \<and> p \<le> allocs w)"

text \<open>
  Reading an object through a pointer of a context type: \<open>as_lz4\<close> and its kin read an
  object as one struct, \<open>load\<close> faults where the pointer does not point to that struct.
\<close>

fun as_lz4 :: "obj \<Rightarrow> lz4_ctx option" where
  "as_lz4 (Lz4_obj c) = Some c" | "as_lz4 _ = None"

fun as_zstd :: "obj \<Rightarrow> zstd_ctx option" where
  "as_zstd (Zstd_obj c) = Some c" | "as_zstd _ = None"

fun as_xz :: "obj \<Rightarrow> xz_ctx option" where
  "as_xz (Xz_obj c) = Some c" | "as_xz _ = None"

fun as_bzip2 :: "obj \<Rightarrow> bzip2_ctx option" where
  "as_bzip2 (Bzip2_obj c) = Some c" | "as_bzip2 _ = None"

fun as_brotli :: "obj \<Rightarrow> brotli_ctx option" where
  "as_brotli (Brotli_obj c) = Some c" | "as_brotli _ = None"

fun as_snappy :: "obj \<Rightarrow> snappy_ctx option" where
  "as_snappy (Snappy_obj c) = Some c" | "as_snappy _ = None"

fun as_zip7 :: "obj \<Rightarrow> zip7_ctx option" where
  "as_zip7 (Zip7_obj c) = Some c" | "as_zip7 _ = None"

fun as_hw :: "obj \<Rightarrow> zip_stream option" where
  "as_hw (Hw_obj c) = Some c" | "as_hw _ = None"

fun as_ctl :: "obj \<Rightarrow> zip_ctl option" where
  "as_ctl (Ctl_obj c) = Some c" | "as_ctl _ = None"

fun as_op :: "obj \<Rightarrow> wcrypto_comp_op_data option" where
  "as_op (Op_obj c) = Some c" | "as_op _ = None"

fun as_queue :: "obj \<Rightarrow> wd_queue option" where
  "as_queue (Queue_obj c) = Some c" | "as_queue _ = None"

definition load :: "(obj \<Rightarrow> 'c option) \<Rightarrow> ptr \<Rightarrow> 'l world \<Rightarrow> 'c res" where
  "load as p w = andthen (deref p w)
     (\<lambda>ob. case as ob of None \<Rightarrow> Inl WrongType | Some c \<Rightarrow> Inr c)"

text \<open>Two worlds agree on every object but one.\<close>

definition frame :: "ptr \<Rightarrow> 'l world \<Rightarrow> 'l world \<Rightarrow> bool" where
  "frame p w w' \<longleftrightarrow> (\<forall>q. q \<noteq> p \<longrightarrow> heap w' q = heap w q)"

section \<open>Laws of the store\<close>

named_theorems store_simps \<open>the store after \<open>malloc\<close>, \<open>free\<close> and \<open>store\<close>\<close>

lemma store_fields [simp, store_simps]:
  "heap (store p ob w) = (heap w)(p \<mapsto> ob)" "allocs (store p ob w) = allocs w"
  "oom (store p ob w) = oom w" "bytes (store p ob w) = bytes w" "lib (store p ob w) = lib w"
  by (simp_all add: store_def)

lemma store_store [simp, store_simps]: "store p a (store p b w) = store p a w"
  by (simp add: store_def)

lemma store_bytes_lib [simp, store_simps]:
  "store p ob (w\<lparr>bytes := m\<rparr>) = (store p ob w)\<lparr>bytes := m\<rparr>"
  "store p ob (w\<lparr>lib := l\<rparr>) = (store p ob w)\<lparr>lib := l\<rparr>"
  by (simp_all add: store_def)

lemma deref_store [simp, store_simps]: "p \<noteq> 0 \<Longrightarrow> deref p (store p ob w) = Inr ob"
  by (simp add: deref_def)

lemma deref_null [simp, store_simps]: "deref 0 w = Inl NullDeref"
  by (simp add: deref_def)

lemma deref_bytes_lib [simp, store_simps]:
  "deref p (w\<lparr>bytes := m\<rparr>) = deref p w" "deref p (w\<lparr>lib := l\<rparr>) = deref p w"
  by (simp_all add: deref_def)

lemma deref_eq_Inr: "deref p w = Inr ob \<longleftrightarrow> p \<noteq> 0 \<and> heap w p = Some ob"
  by (auto simp: deref_def split: option.splits)

lemma frame_refl [simp]: "frame p w w"
  by (simp add: frame_def)

lemma frame_trans: "frame p w w' \<Longrightarrow> frame p w' w'' \<Longrightarrow> frame p w w''"
  by (simp add: frame_def)

lemma frame_store [simp]:
  "frame p w (store p ob w') = frame p w w'" "frame p (store p ob w) w' = frame p w w'"
  by (auto simp: frame_def)

lemma frame_bytes_lib [simp]:
  "frame p w (w'\<lparr>bytes := m\<rparr>) = frame p w w'" "frame p w (w'\<lparr>lib := l\<rparr>) = frame p w w'"
  by (simp_all add: frame_def)

lemma malloc_ok [store_simps]:
  "\<not> oom w (allocs w) \<Longrightarrow>
   malloc u w = (Suc (allocs w),
     w\<lparr>allocs := Suc (allocs w), heap := (heap w)(Suc (allocs w) \<mapsto> u)\<rparr>)"
  by (simp add: malloc_def Let_def)

lemma malloc_oom [store_simps]:
  "oom w (allocs w) \<Longrightarrow> malloc u w = (0, w\<lparr>allocs := Suc (allocs w)\<rparr>)"
  by (simp add: malloc_def Let_def)

lemma malloc_cases:
  fixes w :: "'l world"
  obtains (oom) "malloc u w = (0, w\<lparr>allocs := Suc (allocs w)\<rparr>)" "oom w (allocs w)"
  | (ok) "malloc u w = (Suc (allocs w),
       w\<lparr>allocs := Suc (allocs w), heap := (heap w)(Suc (allocs w) \<mapsto> u)\<rparr>)"
     "\<not> oom w (allocs w)"
  by (cases "oom w (allocs w)") (simp_all add: malloc_ok malloc_oom)

lemma wf_heap_fresh: "wf_heap w \<Longrightarrow> heap w (Suc (allocs w)) = None"
  by (fastforce simp: wf_heap_def dom_def)

lemma wf_heap_null: "wf_heap w \<Longrightarrow> heap w 0 = None"
  by (fastforce simp: wf_heap_def dom_def)

lemma wf_heap_store: "wf_heap w \<Longrightarrow> heap w p \<noteq> None \<Longrightarrow> wf_heap (store p ob w)"
  by (auto simp: wf_heap_def)

lemma wf_heap_bytes_lib [simp]:
  "wf_heap (w\<lparr>bytes := m\<rparr>) = wf_heap w" "wf_heap (w\<lparr>lib := l\<rparr>) = wf_heap w"
  by (simp_all add: wf_heap_def)

lemma wf_heap_malloc: "wf_heap w \<Longrightarrow> malloc u w = (p, w') \<Longrightarrow> wf_heap w'"
  by (rule malloc_cases [of u w]) (auto simp: wf_heap_def dest!: bspec intro: le_SucI)

lemma wf_heap_free: "wf_heap w \<Longrightarrow> free p w = Inr w' \<Longrightarrow> wf_heap w'"
  by (auto simp: wf_heap_def free_def split: if_splits)

lemma free_alloc: "p \<noteq> 0 \<Longrightarrow> heap w p \<noteq> None \<Longrightarrow> free p w = Inr (w\<lparr>heap := (heap w)(p := None)\<rparr>)"
  by (simp add: free_def)

lemma free_twice: "p \<noteq> 0 \<Longrightarrow> free p w = Inr w' \<Longrightarrow> free p w' = Inl DoubleFree"
  by (auto simp: free_def split: if_splits)

lemma as_eq_Some [simp]:
  "as_lz4 ob = Some a \<longleftrightarrow> ob = Lz4_obj a" "as_zstd ob = Some b \<longleftrightarrow> ob = Zstd_obj b"
  "as_xz ob = Some c \<longleftrightarrow> ob = Xz_obj c" "as_bzip2 ob = Some d \<longleftrightarrow> ob = Bzip2_obj d"
  "as_brotli ob = Some e \<longleftrightarrow> ob = Brotli_obj e" "as_snappy ob = Some f \<longleftrightarrow> ob = Snappy_obj f"
  "as_zip7 ob = Some g \<longleftrightarrow> ob = Zip7_obj g" "as_hw ob = Some h \<longleftrightarrow> ob = Hw_obj h"
  "as_ctl ob = Some i \<longleftrightarrow> ob = Ctl_obj i" "as_op ob = Some j \<longleftrightarrow> ob = Op_obj j"
  "as_queue ob = Some k \<longleftrightarrow> ob = Queue_obj k"
  by (cases ob; auto)+

lemma load_eq_Inr:
  "load as p w = Inr c \<longleftrightarrow> p \<noteq> 0 \<and> (\<exists>ob. heap w p = Some ob \<and> as ob = Some c)"
  by (auto simp: load_def andthen_eq_Inr deref_eq_Inr split: option.splits)

lemma load_heap [store_simps]:
  "p \<noteq> 0 \<Longrightarrow> heap w p = Some ob \<Longrightarrow> as ob = Some c \<Longrightarrow> load as p w = Inr c"
  by (simp add: load_eq_Inr)

lemma load_bytes_lib [simp, store_simps]:
  "load as p (w\<lparr>bytes := m\<rparr>) = load as p w" "load as p (w\<lparr>lib := l\<rparr>) = load as p w"
  by (simp_all add: load_def)

lemma load_nonnull: "load as p w = Inr c \<Longrightarrow> p \<noteq> 0"
  by (auto simp: load_eq_Inr)

lemma load_null [simp, store_simps]: "load as 0 w = Inl NullDeref"
  by (simp add: load_def)

lemma load_freed [store_simps]: "p \<noteq> 0 \<Longrightarrow> heap w p = None \<Longrightarrow> load as p w = Inl Dangling"
  by (simp add: load_def deref_def)

lemma load_store [simp, store_simps]:
  "p \<noteq> 0 \<Longrightarrow> as ob = Some c \<Longrightarrow> load as p (store p ob w) = Inr c"
  by (simp add: load_def)

text \<open>\<open>holds as p w\<close>: the pointer \<open>p\<close> points to a live context of the type \<open>as\<close> reads.\<close>

definition holds :: "(obj \<Rightarrow> 'c option) \<Rightarrow> ptr \<Rightarrow> 'l world \<Rightarrow> bool" where
  "holds as p w \<longleftrightarrow> (\<exists>c. load as p w = Inr c)"

lemma holds_iff: "holds as p w \<longleftrightarrow> p \<noteq> 0 \<and> (\<exists>ob c. heap w p = Some ob \<and> as ob = Some c)"
  by (auto simp: holds_def load_eq_Inr)

lemma holds_store [simp, store_simps]:
  "p \<noteq> 0 \<Longrightarrow> as ob = Some c \<Longrightarrow> holds as p (store p ob w)"
  by (simp add: holds_def)

lemma holds_bytes_lib [simp, store_simps]:
  "holds as p (w\<lparr>bytes := m\<rparr>) = holds as p w" "holds as p (w\<lparr>lib := l\<rparr>) = holds as p w"
  by (simp_all add: holds_iff)

lemma holds_alloc: "holds as p w \<Longrightarrow> p \<noteq> 0 \<and> heap w p \<noteq> None"
  by (auto simp: holds_iff)

lemma wf_heap_store_holds: "wf_heap w \<Longrightarrow> holds as p w \<Longrightarrow> wf_heap (store p ob w)"
  by (auto dest!: holds_alloc intro: wf_heap_store)

lemma free_holds:
  "holds as p w \<Longrightarrow> free p w = Inr (w\<lparr>heap := (heap w)(p := None)\<rparr>)"
  by (auto simp: holds_iff free_def)

text \<open>The world after the object at \<open>p\<close> was freed.\<close>

definition dealloc :: "ptr \<Rightarrow> 'l world \<Rightarrow> 'l world" where
  "dealloc p w = w\<lparr>heap := (heap w)(p := None)\<rparr>"

lemma dealloc_simps [simp, store_simps]:
  "heap (dealloc p w) = (heap w)(p := None)" "allocs (dealloc p w) = allocs w"
  "oom (dealloc p w) = oom w" "bytes (dealloc p w) = bytes w" "lib (dealloc p w) = lib w"
  by (simp_all add: dealloc_def)

lemma free_store [simp, store_simps]: "p \<noteq> 0 \<Longrightarrow> free p (store p ob w) = Inr (dealloc p w)"
  by (simp add: free_def dealloc_def store_def)

lemma free_bytes_lib [simp, store_simps]:
  "free p (w\<lparr>bytes := m\<rparr>) = andthen (free p w) (\<lambda>w. Inr (w\<lparr>bytes := m\<rparr>))"
  "free p (w\<lparr>lib := l\<rparr>) = andthen (free p w) (\<lambda>w. Inr (w\<lparr>lib := l\<rparr>))"
  by (simp_all add: free_def)

lemma dealloc_bytes_lib [simp, store_simps]:
  "dealloc p (w\<lparr>bytes := m\<rparr>) = (dealloc p w)\<lparr>bytes := m\<rparr>"
  "dealloc p (w\<lparr>lib := l\<rparr>) = (dealloc p w)\<lparr>lib := l\<rparr>"
  by (simp_all add: dealloc_def)

lemma wf_heap_store_load: "wf_heap w \<Longrightarrow> load as p w = Inr c \<Longrightarrow> wf_heap (store p ob w)"
  by (auto simp: load_eq_Inr intro: wf_heap_store)

lemma free_load: "load as p w = Inr c \<Longrightarrow> free p w = Inr (dealloc p w)"
  by (auto simp: load_eq_Inr free_def dealloc_def)

lemma wf_heap_dealloc [simp]: "wf_heap w \<Longrightarrow> wf_heap (dealloc p w)"
  by (auto simp: wf_heap_def)

lemma ensures_load: "holds as p w \<Longrightarrow> (\<And>c. load as p w = Inr c \<Longrightarrow> Q c) \<Longrightarrow> ensures (load as p w) Q"
  by (auto simp: holds_def)

text \<open>
  \<open>keeps as p w w'\<close>: going from \<open>w\<close> to \<open>w'\<close> the context at \<open>p\<close> stays a live context, no
  other object changes and nothing is allocated.
\<close>

definition keeps :: "(obj \<Rightarrow> 'c option) \<Rightarrow> ptr \<Rightarrow> 'l world \<Rightarrow> 'l world \<Rightarrow> bool" where
  "keeps as p w w' \<longleftrightarrow> holds as p w' \<and> frame p w w' \<and> allocs w' = allocs w"

lemma keeps_refl [simp]: "keeps as p w w = holds as p w"
  by (simp add: keeps_def)

lemma keeps_trans: "keeps as p w w' \<Longrightarrow> keeps as p w' w'' \<Longrightarrow> keeps as p w w''"
  by (auto simp: keeps_def intro: frame_trans)

lemma keeps_store [simp]:
  "p \<noteq> 0 \<Longrightarrow> as ob = Some c \<Longrightarrow>
   keeps as p w (store p ob w') \<longleftrightarrow> frame p w w' \<and> allocs w' = allocs w"
  "keeps as p (store p ob w) w' = keeps as p w w'"
  by (auto simp: keeps_def frame_def)

lemma keeps_bytes_lib [simp]:
  "keeps as p w (w'\<lparr>bytes := m\<rparr>) = keeps as p w w'" "keeps as p w (w'\<lparr>lib := l\<rparr>) = keeps as p w w'"
  "keeps as p (w\<lparr>bytes := m\<rparr>) w' = keeps as p w w'" "keeps as p (w\<lparr>lib := l\<rparr>) w' = keeps as p w w'"
  by (simp_all add: keeps_def frame_def)

lemma keeps_wf: "wf_heap w \<Longrightarrow> holds as p w \<Longrightarrow> keeps as p w w' \<Longrightarrow> wf_heap w'"
  unfolding wf_heap_def keeps_def frame_def by (metis domI domD holds_alloc option.exhaust)

text \<open>The two things a successful initialisation and an end do to the heap.\<close>

definition acquires :: "(obj \<Rightarrow> 'c option) \<Rightarrow> ptr \<Rightarrow> 'l world \<Rightarrow> 'l world \<Rightarrow> bool" where
  "acquires as p w w' \<longleftrightarrow> holds as p w' \<and> heap w p = None \<and> frame p w w'"

definition releases :: "ptr \<Rightarrow> 'l world \<Rightarrow> 'l world \<Rightarrow> bool" where
  "releases p w w' \<longleftrightarrow> heap w' p = None \<and> frame p w w'"

lemma free_releases:
  "holds as p w \<Longrightarrow> ensures (free p w) (\<lambda>w'. releases p w w' \<and> lib w' = lib w \<and> allocs w' = allocs w)"
  by (simp add: free_holds releases_def frame_def)

lemma releases_dealloc [simp]:
  "releases p w (dealloc p w)" "releases p w (w'\<lparr>lib := l\<rparr>) = releases p w w'"
  "releases p w (w'\<lparr>bytes := m\<rparr>) = releases p w w'"
  by (simp_all add: releases_def frame_def)

lemma releases_wf: "wf_heap w \<Longrightarrow> releases p w w' \<Longrightarrow> allocs w' = allocs w \<Longrightarrow> wf_heap w'"
  unfolding wf_heap_def releases_def frame_def by (metis domI domD option.distinct(1))

lemma malloc_acquires:
  assumes "malloc ob w = (p, w')" and "p \<noteq> 0" and "wf_heap w" and "as ob = Some c"
  shows "acquires as p w w'" and "wf_heap w'" and "lib w' = lib w" and "bytes w' = bytes w"
    and "holds as p w'"
proof -
  from assms(1,2) have ok: "\<not> oom w (allocs w)" by (auto simp: malloc_def Let_def)
  with assms(1) have p: "p = Suc (allocs w)"
    and w': "w' = w\<lparr>allocs := Suc (allocs w), heap := (heap w)(Suc (allocs w) \<mapsto> ob)\<rparr>"
    by (auto simp: malloc_ok)
  have fresh: "heap w p = None" using wf_heap_fresh [OF assms(3)] p by simp
  have h: "heap w' = (heap w)(p \<mapsto> ob)" by (simp add: w' p)
  show hold: "holds as p w'"
    unfolding holds_iff using assms(2,4) h by simp
  show "acquires as p w w'"
    unfolding acquires_def frame_def using hold fresh h by simp
  show "wf_heap w'" by (rule wf_heap_malloc [OF assms(3,1)])
  show "lib w' = lib w" "bytes w' = bytes w" by (simp_all add: w')
qed

lemma acquires_keeps: "acquires as p w w1 \<Longrightarrow> keeps as p w1 w2 \<Longrightarrow> acquires as p w w2"
  by (auto simp: acquires_def keeps_def intro: frame_trans)

text \<open>The heap without the object at \<open>p\<close>.\<close>

definition heap_but :: "ptr \<Rightarrow> 'l world \<Rightarrow> ptr \<rightharpoonup> obj" where
  "heap_but p w = (heap w)(p := None)"

lemma heap_but_keeps: "keeps as p w w' \<Longrightarrow> heap_but p w' = heap_but p w"
  by (rule ext) (auto simp: heap_but_def keeps_def frame_def)

lemma heap_but_acquires: "acquires as p w w' \<Longrightarrow> heap_but p w' = heap w"
  by (rule ext) (auto simp: heap_but_def acquires_def frame_def)

lemma heap_but_releases: "releases p w w' \<Longrightarrow> heap w' = heap_but p w"
  by (rule ext) (auto simp: heap_but_def releases_def frame_def)

lemma keeps_holds: "keeps as p w w' \<Longrightarrow> holds as p w'"
  by (simp add: keeps_def)

lemma acquires_holds: "acquires as p w w' \<Longrightarrow> holds as p w'"
  by (simp add: acquires_def)

end
