(* ===== verification/Sessions.thy ===== *)
theory Sessions
  imports Structs
begin

text \<open>
  What a client of the stream interface relies on, as locales, and what follows for whole
  sessions.  A client initialises a stream, calls \<open>deflate\<close> or \<open>inflate\<close> any number of
  times, refilling the stream's buffer fields in between, and ends it.

  \<^item> \<open>session\<close>: initialisation acquires one context, a call keeps it and touches no other
    object, ending releases it.  Derived: no session faults, and a session leaves the heap
    as it found it.  \<open>context_session\<close> gives it from laws about one heap object,
    \<open>handle_session\<close> from laws about one heap object and one handle of the library.
  \<^item> \<open>resettable\<close>: a reset is the end followed by the initialisation.  Derived: sessions with
    resets are as clean as those without.
  \<^item> \<open>accounting\<close>: a call moves \<open>next_in\<close> and \<open>next_out\<close> by what it adds to \<open>total_in\<close>
    and \<open>total_out\<close>.  Derived: the totals of a session are the distances the pointers moved.
  \<^item> \<open>deferred\<close>: the same for back ends that move the pointers only at the end of the stream.

  Each back end interprets them on its own operations.
\<close>

section \<open>Clients\<close>

type_synonym 'l stream_op =
  "unizip_stream \<Rightarrow> 'l world \<Rightarrow> (int \<times> unizip_stream \<times> 'l world) res"

text \<open>
  What the client does to the stream between two calls: nothing, new amounts, or new
  buffers (the input bytes are written to the new input buffer).
\<close>

datatype refill =
    Keep
  | Amounts uInt uInt
  | Buffers "byte list" addr uInt addr uInt

fun apply_refill :: "refill \<Rightarrow> unizip_stream \<Rightarrow> unizip_stream" where
  "apply_refill Keep s = s"
| "apply_refill (Amounts ai ao) s = s\<lparr>avail_in := ai, avail_out := ao\<rparr>"
| "apply_refill (Buffers xs ni ai no ao) s =
     s\<lparr>next_in := ni, avail_in := ai, next_out := no, avail_out := ao\<rparr>"

fun refill_world :: "refill \<Rightarrow> 'l world \<Rightarrow> 'l world" where
  "refill_world (Buffers xs ni ai no ao) w = w\<lparr>bytes := write_mem (bytes w) ni xs\<rparr>"
| "refill_world _ w = w"

fun run_calls ::
  "(int \<Rightarrow> 'l stream_op) \<Rightarrow> (refill \<times> int) list \<Rightarrow> unizip_stream \<Rightarrow> 'l world \<Rightarrow>
   (int list \<times> unizip_stream \<times> 'l world) res" where
  "run_calls step [] s w = Inr ([], s, w)"
| "run_calls step ((rf, f) # cs) s w =
     andthen (step f (apply_refill rf s) (refill_world rf w)) (\<lambda>(r, s, w).
     andthen (run_calls step cs s w) (\<lambda>(rs, s, w). Inr (r # rs, s, w)))"

lemma ud_apply_refill [simp]: "ud (apply_refill rf s) = ud s"
  by (cases rf) auto

lemma refill_world_simps [simp]:
  "heap (refill_world rf w) = heap w" "lib (refill_world rf w) = lib w"
  "allocs (refill_world rf w) = allocs w" "wf_heap (refill_world rf w) = wf_heap w"
  by (cases rf; simp add: wf_heap_def)+

lemma heap_but_refill_world [simp]: "heap_but p (refill_world rf w) = heap_but p w"
  by (simp add: heap_but_def)

lemma holds_refill_world [simp]: "holds as p (refill_world rf w) = holds as p w"
  by (cases rf) simp_all

section \<open>Sessions own their context\<close>

text \<open>
  \<open>whole w\<close> are the resources that exist in \<open>w\<close> (heap objects, library handles) and
  \<open>rest p w\<close> are those that do not belong to the context at \<open>p\<close>.
\<close>

locale session =
  fixes init :: "int \<Rightarrow> 'l stream_op"
    and step :: "int \<Rightarrow> 'l stream_op"
    and fin :: "'l stream_op"
    and inv :: "'l world \<Rightarrow> bool"
    and owns :: "ptr \<Rightarrow> 'l world \<Rightarrow> bool"
    and whole :: "'l world \<Rightarrow> 'r"
    and rest :: "ptr \<Rightarrow> 'l world \<Rightarrow> 'r"
  assumes init_owns: "inv w \<Longrightarrow> init level s w = Inr (UNIZIP_OK, s', w') \<Longrightarrow>
      inv w' \<and> owns (ud s') w' \<and> rest (ud s') w' = whole w"
    and step_owns: "inv w \<Longrightarrow> owns (ud s) w \<Longrightarrow>
      ensures (step f s w) (\<lambda>(r, s', w'). ud s' = ud s \<and> inv w' \<and> owns (ud s) w' \<and>
        rest (ud s) w' = rest (ud s) w)"
    and fin_releases: "inv w \<Longrightarrow> owns (ud s) w \<Longrightarrow>
      ensures (fin s w) (\<lambda>(r, s', w'). inv w' \<and> whole w' = rest (ud s) w)"
    and refill_stable: "inv w \<Longrightarrow> inv (refill_world rf w)"
      "owns p w \<Longrightarrow> owns p (refill_world rf w)"
      "rest p (refill_world rf w) = rest p w"
begin

lemma run_owns:
  "inv w \<Longrightarrow> owns (ud s) w \<Longrightarrow>
   ensures (run_calls step cs s w) (\<lambda>(rs, s', w'). length rs = length cs \<and>
     ud s' = ud s \<and> inv w' \<and> owns (ud s) w' \<and> rest (ud s) w' = rest (ud s) w)"
proof (induction cs arbitrary: s w)
  case Nil
  then show ?case by simp
next
  case (Cons c cs)
  obtain rf f where c: "c = (rf, f)" by (cases c)
  let ?s = "apply_refill rf s" and ?w = "refill_world rf w"
  have "inv ?w" "owns (ud ?s) ?w"
    using Cons.prems by (auto intro: refill_stable)
  from step_owns [OF this, of f] obtain r s1 w1 where
    one: "step f ?s ?w = Inr (r, s1, w1)" "ud s1 = ud s" "inv w1" "owns (ud s) w1"
      "rest (ud s) w1 = rest (ud s) w"
    by (auto simp: ensures_def refill_stable)
  with Cons.IH [of w1 s1] obtain rs s2 w2 where
    "run_calls step cs s1 w1 = Inr (rs, s2, w2)" "length rs = length cs"
    "ud s2 = ud s" "inv w2" "owns (ud s) w2" "rest (ud s) w2 = rest (ud s) w"
    by (auto simp: ensures_def)
  with one c show ?case by auto
qed

lemma run_fin:
  assumes "inv w" and "owns (ud s) w"
  shows "ensures (andthen (run_calls step cs s w) (\<lambda>(rs, s, w). fin s w))
    (\<lambda>(r, s', w'). whole w' = rest (ud s) w)"
proof -
  from run_owns [OF assms, of cs] obtain rs s2 w2 where
    r: "run_calls step cs s w = Inr (rs, s2, w2)" "ud s2 = ud s" "inv w2"
      "owns (ud s) w2" "rest (ud s) w2 = rest (ud s) w"
    by (auto simp: ensures_def)
  then have "ensures (fin s2 w2) (\<lambda>(r, s', w'). inv w' \<and> whole w' = rest (ud s) w2)"
    using fin_releases [of w2 s2] by simp
  with r show ?thesis by (auto elim!: ensures_mono)
qed

text \<open>A client that observes less of the resources sees a session too.\<close>

lemma observe: "session init step fin inv owns (\<lambda>w. h (whole w)) (\<lambda>p w. h (rest p w))"
proof unfold_locales
  fix level f s s' p rf and w w' :: "'l world"
  show "inv w \<Longrightarrow> init level s w = Inr (UNIZIP_OK, s', w') \<Longrightarrow>
      inv w' \<and> owns (ud s') w' \<and> h (rest (ud s') w') = h (whole w)"
    using init_owns by simp
  show "inv w \<Longrightarrow> owns (ud s) w \<Longrightarrow> ensures (step f s w) (\<lambda>(r, s', w'). ud s' = ud s \<and> inv w' \<and>
      owns (ud s) w' \<and> h (rest (ud s) w') = h (rest (ud s) w))"
    by (rule ensures_mono3 [OF step_owns]) simp_all
  show "inv w \<Longrightarrow> owns (ud s) w \<Longrightarrow>
      ensures (fin s w) (\<lambda>(r, s', w'). inv w' \<and> h (whole w') = h (rest (ud s) w))"
    by (rule ensures_mono3 [OF fin_releases]) simp_all
qed (simp_all add: refill_stable)

theorem session_clean:
  assumes "inv w" and "init level s w = Inr (UNIZIP_OK, s1, w1)"
  shows "ensures (andthen (run_calls step cs s1 w1) (\<lambda>(rs, s, w). fin s w))
    (\<lambda>(r, s', w'). whole w' = whole w)"
  using init_owns [OF assms] run_fin [of w1 s1 cs] by simp

end

section \<open>Sessions whose only resource is the context\<close>

text \<open>
  A back end whose library keeps nothing between the calls owns its context and nothing
  else; it is a session over the heap.
\<close>

locale context_session =
  fixes as :: "obj \<Rightarrow> 'c option"
    and init :: "int \<Rightarrow> 'l stream_op"
    and step :: "int \<Rightarrow> 'l stream_op"
    and fin :: "'l stream_op"
  assumes init_acquires: "wf_heap w \<Longrightarrow> init level s w = Inr (UNIZIP_OK, s', w') \<Longrightarrow>
      acquires as (ud s') w w' \<and> wf_heap w'"
    and step_keeps: "holds as (ud s) w \<Longrightarrow>
      ensures (step f s w) (\<lambda>(r, s', w'). ud s' = ud s \<and> keeps as (ud s) w w')"
    and fin_frees: "wf_heap w \<Longrightarrow> holds as (ud s) w \<Longrightarrow>
      ensures (fin s w) (\<lambda>(r, s', w'). wf_heap w' \<and> releases (ud s) w w')"

sublocale context_session \<subseteq> session init step fin wf_heap "holds as" heap heap_but
proof unfold_locales
  fix level f s s' w w'
  show "wf_heap w \<Longrightarrow> init level s w = Inr (UNIZIP_OK, s', w') \<Longrightarrow>
      wf_heap w' \<and> holds as (ud s') w' \<and> heap_but (ud s') w' = heap w"
    by (drule (1) init_acquires) (blast intro: acquires_holds heap_but_acquires)
  show "wf_heap w \<Longrightarrow> holds as (ud s) w \<Longrightarrow> ensures (step f s w) (\<lambda>(r, s', w').
      ud s' = ud s \<and> wf_heap w' \<and> holds as (ud s) w' \<and> heap_but (ud s) w' = heap_but (ud s) w)"
    by (rule ensures_mono3 [OF step_keeps]) (auto intro: keeps_wf keeps_holds heap_but_keeps)
  show "wf_heap w \<Longrightarrow> holds as (ud s) w \<Longrightarrow> ensures (fin s w)
      (\<lambda>(r, s', w'). wf_heap w' \<and> heap w' = heap_but (ud s) w)"
    by (rule ensures_mono3 [OF fin_frees]) (auto intro: heap_but_releases)
qed simp_all

context context_session begin

lemma over_heap: "session init step fin wf_heap (holds as) heap heap_but"
  by (rule session_axioms)

end

section \<open>Sessions whose context owns one library handle\<close>

text \<open>
  \<open>handle p c\<close> is the handle a context \<open>c\<close> at \<open>p\<close> holds, \<open>live l\<close> are the handles that exist in the
  library state \<open>l\<close>.  \<open>ok\<close> is the documented behaviour of the library about its handles.
\<close>

definition owns_handle ::
  "(obj \<Rightarrow> 'c option) \<Rightarrow> (ptr \<Rightarrow> 'c \<Rightarrow> 'h) \<Rightarrow> ('l \<Rightarrow> 'h set) \<Rightarrow> ptr \<Rightarrow> 'l world \<Rightarrow> bool" where
  "owns_handle as handle live p w \<longleftrightarrow> (\<exists>c. load as p w = Inr c \<and> handle p c \<in> live (lib w))"

definition without_handle ::
  "(obj \<Rightarrow> 'c option) \<Rightarrow> (ptr \<Rightarrow> 'c \<Rightarrow> 'h) \<Rightarrow> ('l \<Rightarrow> 'h set) \<Rightarrow> ptr \<Rightarrow> 'l world \<Rightarrow> (ptr \<rightharpoonup> obj) \<times> 'h set" where
  "without_handle as handle live p w =
     (heap_but p w, live (lib w) - {h. \<exists>c. load as p w = Inr c \<and> handle p c = h})"

lemma without_handle_load:
  "load as p w = Inr c \<Longrightarrow> without_handle as handle live p w = (heap_but p w, live (lib w) - {handle p c})"
  by (auto simp: without_handle_def)

lemma load_refill_world [simp]: "load as p (refill_world rf w) = load as p w"
  by (cases rf) simp_all

locale handle_session =
  fixes as :: "obj \<Rightarrow> 'c option"
    and handle :: "ptr \<Rightarrow> 'c \<Rightarrow> 'h"
    and live :: "'l \<Rightarrow> 'h set"
    and ok :: bool
    and init :: "int \<Rightarrow> 'l stream_op"
    and step :: "int \<Rightarrow> 'l stream_op"
    and fin :: "'l stream_op"
  assumes init_acquires: "ok \<Longrightarrow> wf_heap w \<Longrightarrow> init level s w = Inr (UNIZIP_OK, s', w') \<Longrightarrow>
      acquires as (ud s') w w' \<and> wf_heap w' \<and>
      (\<exists>c. load as (ud s') w' = Inr c \<and> handle (ud s') c \<notin> live (lib w) \<and>
         live (lib w') = insert (handle (ud s') c) (live (lib w)))"
    and step_keeps: "ok \<Longrightarrow> load as (ud s) w = Inr c \<Longrightarrow> handle (ud s) c \<in> live (lib w) \<Longrightarrow>
      ensures (step f s w) (\<lambda>(r, s', w'). ud s' = ud s \<and> keeps as (ud s) w w' \<and>
        live (lib w') = live (lib w) \<and> (\<exists>c'. load as (ud s) w' = Inr c' \<and> handle (ud s) c' = handle (ud s) c))"
    and fin_frees: "ok \<Longrightarrow> wf_heap w \<Longrightarrow> load as (ud s) w = Inr c \<Longrightarrow> handle (ud s) c \<in> live (lib w) \<Longrightarrow>
      ensures (fin s w) (\<lambda>(r, s', w'). wf_heap w' \<and> releases (ud s) w w' \<and>
        live (lib w') = live (lib w) - {handle (ud s) c})"

sublocale handle_session \<subseteq> session init step fin "\<lambda>w. ok \<and> wf_heap w"
  "owns_handle as handle live" "\<lambda>w. (heap w, live (lib w))" "without_handle as handle live"
proof unfold_locales
  fix level f s s' w w'
  show "ok \<and> wf_heap w \<Longrightarrow> init level s w = Inr (UNIZIP_OK, s', w') \<Longrightarrow> (ok \<and> wf_heap w') \<and>
      owns_handle as handle live (ud s') w' \<and>
      without_handle as handle live (ud s') w' = (heap w, live (lib w))"
    using init_acquires [of w level s s' w']
    by (auto simp: owns_handle_def without_handle_load heap_but_acquires)
  show "ensures (step f s w) (\<lambda>(r, s', w'). ud s' = ud s \<and> (ok \<and> wf_heap w') \<and>
      owns_handle as handle live (ud s) w' \<and>
      without_handle as handle live (ud s) w' = without_handle as handle live (ud s) w)"
    if *: "ok \<and> wf_heap w" "owns_handle as handle live (ud s) w"
  proof -
    from *(2) obtain c where c: "load as (ud s) w = Inr c" "handle (ud s) c \<in> live (lib w)"
      by (auto simp: owns_handle_def)
    have "holds as (ud s) w" using c(1) by (simp add: holds_def)
    with * c show ?thesis
      by (intro ensures_mono3 [OF step_keeps [OF _ c]])
        (auto simp: owns_handle_def without_handle_load heap_but_keeps intro: keeps_wf)
  qed
  show "ensures (fin s w) (\<lambda>(r, s', w'). (ok \<and> wf_heap w') \<and>
      (heap w', live (lib w')) = without_handle as handle live (ud s) w)"
    if *: "ok \<and> wf_heap w" "owns_handle as handle live (ud s) w"
  proof -
    from *(2) obtain c where c: "load as (ud s) w = Inr c" "handle (ud s) c \<in> live (lib w)"
      by (auto simp: owns_handle_def)
    with * show ?thesis
      by (intro ensures_mono3 [OF fin_frees [OF _ _ c]])
        (auto simp: without_handle_load heap_but_releases)
  qed
qed (auto simp: owns_handle_def without_handle_def)

context handle_session begin

lemma over_heap: "ok \<Longrightarrow> session init step fin wf_heap (owns_handle as handle live) heap heap_but"
  using observe [of fst] by (simp add: without_handle_def)

end

section \<open>Reset is end followed by init\<close>

text \<open>
  \<open>unizip_deflateReset\<close> and \<open>unizip_inflateReset\<close> are documented as equivalent to ending
  and initialising again.  \<open>prep\<close> is what the reset does to the stream before it ends it
  and \<open>lvl\<close> the level it initialises with.
\<close>

locale resettable = session +
  fixes reset :: "'a stream_op"
    and prep :: "unizip_stream \<Rightarrow> unizip_stream"
    and lvl :: "unizip_stream \<Rightarrow> int"
  assumes prep_ud: "ud (prep s) = ud s"
    and reset_end_init:
      "reset s w = andthen (fin (prep s) w) (\<lambda>(r, s', w'). init (lvl s) s' w')"
begin

lemma reset_owns:
  assumes "inv w" and "owns (ud s) w" and "reset s w = Inr (UNIZIP_OK, s', w')"
  shows "inv w' \<and> owns (ud s') w' \<and> rest (ud s') w' = rest (ud s) w"
proof -
  from fin_releases [of w "prep s"] assms(1,2) prep_ud obtain r s1 w1 where
    f: "fin (prep s) w = Inr (r, s1, w1)" "inv w1" "whole w1 = rest (ud s) w"
    by (auto simp: ensures_def)
  with assms(3) have "init (lvl s) s1 w1 = Inr (UNIZIP_OK, s', w')"
    by (simp add: reset_end_init)
  from init_owns [OF f(2) this] f show ?thesis by simp
qed

text \<open>A session in two parts, with a reset between them.\<close>

theorem reset_session_clean:
  assumes "inv w" and "init level s w = Inr (UNIZIP_OK, s1, w1)"
    and "run_calls step cs s1 w1 = Inr (rs, s2, w2)"
    and "reset s2 w2 = Inr (UNIZIP_OK, s3, w3)"
  shows "ensures (andthen (run_calls step cs' s3 w3) (\<lambda>(rs, s, w). fin s w))
    (\<lambda>(r, s', w'). whole w' = whole w)"
proof -
  from init_owns [OF assms(1,2)] have
    i: "inv w1" "owns (ud s1) w1" "rest (ud s1) w1 = whole w" by auto
  from run_owns [OF i(1,2), of cs] assms(3) i have
    r: "inv w2" "owns (ud s2) w2" "rest (ud s2) w2 = whole w"
    by auto
  from reset_owns [OF r(1,2) assms(4)] r(3) run_fin [of w3 s3 cs'] show ?thesis by simp
qed

end

section \<open>Totals agree with pointers\<close>

text \<open>The client keeps its buffers: it only says how much of them may be used.\<close>

fun keeps_buffers :: "refill \<Rightarrow> bool" where
  "keeps_buffers (Buffers _ _ _ _ _) = False"
| "keeps_buffers _ = True"

lemma keeps_buffers_refill [simp]:
  "keeps_buffers rf \<Longrightarrow> next_in (apply_refill rf s) = next_in s"
  "keeps_buffers rf \<Longrightarrow> next_out (apply_refill rf s) = next_out s"
  "total_in (apply_refill rf s) = total_in s"
  "total_out (apply_refill rf s) = total_out s"
  by (cases rf; simp)+

definition in_step :: "unizip_stream \<Rightarrow> unizip_stream \<Rightarrow> bool" where
  "in_step s s' \<longleftrightarrow> next_in s' - next_in s = total_in s' - total_in s \<and>
     next_out s' - next_out s = total_out s' - total_out s"

lemma in_step_refl [simp]: "in_step s s"
  by (simp add: in_step_def)

lemma in_step_trans:
  assumes "in_step s s'" and "in_step s' s''"
  shows "in_step s s''"
proof -
  have "x'' - x = (x'' - x') + (x' - x)" for x x' x'' :: uLong by simp
  with assms show ?thesis unfolding in_step_def by metis
qed

locale accounting =
  fixes ok :: bool
    and step :: "int \<Rightarrow> 'l stream_op"
  assumes step_accounts: "ok \<Longrightarrow> step f s w = Inr (r, s', w') \<Longrightarrow> in_step s s'"
begin

theorem run_accounts:
  assumes ok and "\<forall>(rf, f) \<in> set cs. keeps_buffers rf"
    and "run_calls step cs s w = Inr (rs, s', w')"
  shows "in_step s s'"
  using assms(2-)
proof (induction cs arbitrary: s w rs)
  case Nil
  then show ?case by simp
next
  case (Cons c cs)
  obtain rf f where c: "c = (rf, f)" by (cases c)
  from Cons.prems(2) c obtain r s1 w1 rs1 where
    one: "step f (apply_refill rf s) (refill_world rf w) = Inr (r, s1, w1)"
    and rest: "run_calls step cs s1 w1 = Inr (rs1, s', w')"
    by (auto simp: andthen_eq_Inr)
  have "in_step (apply_refill rf s) s1" using \<open>ok\<close> one by (rule step_accounts)
  then have "in_step s s1" using Cons.prems(1) c by (simp add: in_step_def)
  moreover have "in_step s1 s'" using Cons.prems(1) rest by (intro Cons.IH) auto
  ultimately show ?case by (rule in_step_trans)
qed

end

section \<open>Pointers advanced at the end only\<close>

text \<open>
  A back end may leave \<open>next_in\<close> and \<open>next_out\<close> where they are until the stream ends, and
  count in positions of its own (\<open>pos\<close>) meanwhile.  Under \<open>ok\<close>, the totals always
  agree with the positions, and when the end of the stream is reported the pointers have
  caught up with the totals.
\<close>

locale deferred =
  fixes ok :: bool
    and pos :: "ptr \<Rightarrow> 'l world \<Rightarrow> (uLong \<times> uLong) option"
    and step :: "int \<Rightarrow> 'l stream_op"
  assumes step_ok: "ok \<Longrightarrow> pos (ud s) w = Some (i, j) \<Longrightarrow> step f s w = Inr (UNIZIP_OK, s', w') \<Longrightarrow>
      \<exists>i' j'. pos (ud s') w' = Some (i', j') \<and> total_in s' = total_in s + (i' - i) \<and>
        total_out s' = total_out s + (j' - j) \<and> next_in s' = next_in s \<and> next_out s' = next_out s"
    and step_end: "ok \<Longrightarrow> pos (ud s) w = Some (i, j) \<Longrightarrow> step f s w = Inr (UNIZIP_STREAM_END, s', w') \<Longrightarrow>
      \<exists>i' j'. total_in s' = total_in s + (i' - i) \<and> total_out s' = total_out s + (j' - j) \<and>
        next_in s' = next_in s + i' \<and> next_out s' = next_out s + j'"
    and pos_refill: "pos p (refill_world rf w) = pos p w"
begin

theorem run_until_end:
  assumes ok and "pos (ud s) w = Some (total_in s, total_out s)"
    and "\<forall>(rf, f) \<in> set cs. keeps_buffers rf" and "set rs \<subseteq> {UNIZIP_OK}"
    and "run_calls step cs s w = Inr (rs @ [UNIZIP_STREAM_END], s', w')"
  shows "next_in s' = next_in s + total_in s' \<and> next_out s' = next_out s + total_out s'"
  using assms(2-)
proof (induction cs arbitrary: s w rs)
  case Nil
  then show ?case by simp
next
  case (Cons c cs)
  note IH = Cons.IH and prems = Cons.prems
  obtain rf f where c: "c = (rf, f)" by (cases c)
  let ?s = "apply_refill rf s" and ?w = "refill_world rf w"
  have same: "next_in ?s = next_in s" "next_out ?s = next_out s" "total_in ?s = total_in s"
    "total_out ?s = total_out s" using prems(2) c by simp_all
  have p: "pos (ud ?s) ?w = Some (total_in s, total_out s)"
    using prems(1) by (simp add: pos_refill)
  from prems(4) c obtain r s1 w1 rs1 where one: "step f ?s ?w = Inr (r, s1, w1)"
    and rest: "run_calls step cs s1 w1 = Inr (rs1, s', w')" and r: "r # rs1 = rs @ [1]"
    by (auto simp: andthen_eq_Inr)
  show ?case
  proof (cases rs)
    case Nil
    with r rest have "r = 1" "s' = s1" by (cases cs; auto simp: andthen_eq_Inr)+
    with step_end [OF \<open>ok\<close> p] one same show ?thesis by fastforce
  next
    case (Cons r0 rs0)
    with r prems(3) have r0: "r = 0" "rs1 = rs0 @ [1]" "set rs0 \<subseteq> {0}" by auto
    with step_ok [OF \<open>ok\<close> p, of f s1 w1] one same
    have s1: "pos (ud s1) w1 = Some (total_in s1, total_out s1)" "next_in s1 = next_in s"
      "next_out s1 = next_out s" by auto
    have "run_calls step cs s1 w1 = Inr (rs0 @ [1], s', w')" using rest r0(2) by simp
    from IH [OF s1(1) _ r0(3) this] prems(2) s1(2,3) show ?thesis by simp
  qed
qed

end

end
