(* ===== verification/Streams.thy ===== *)
theory Streams
  imports Sessions
begin

text \<open>
  The data of a stream session.  A client sees what a call consumed and produced by where it
  moved \<open>next_in\<close> and \<open>next_out\<close>; \<open>run_io\<close> collects both over a session.  The locale
  \<open>streaming\<close> says that a back end's calls consume and produce exactly what its library
  does; that a session that reaches the end of the stream has then encoded (or decoded) what
  the client saw follows from it once, and each streaming back end interprets it.
\<close>

definition consumed :: "unizip_stream \<Rightarrow> 'l world \<Rightarrow> unizip_stream \<Rightarrow> byte list" where
  "consumed s w s' = read_mem (bytes w) (next_in s) (unat (next_in s' - next_in s))"

definition produced :: "unizip_stream \<Rightarrow> unizip_stream \<Rightarrow> 'l world \<Rightarrow> byte list" where
  "produced s s' w' = read_mem (bytes w') (next_out s) (unat (next_out s' - next_out s))"

fun run_io ::
  "(int \<Rightarrow> 'l stream_op) \<Rightarrow> (refill \<times> int) list \<Rightarrow> unizip_stream \<Rightarrow> 'l world \<Rightarrow>
   (int list \<times> byte list \<times> byte list \<times> unizip_stream \<times> 'l world) res" where
  "run_io step [] s w = Inr ([], [], [], s, w)"
| "run_io step ((rf, f) # cs) s w =
     (let s0 = apply_refill rf s; w0 = refill_world rf w
      in andthen (step f s0 w0) (\<lambda>(r, s', w').
         andthen (run_io step cs s' w') (\<lambda>(rs, us, vs, s2, w2).
         Inr (r # rs, consumed s0 w0 s' @ us, produced s0 s' w' @ vs, s2, w2))))"

text \<open>
  \<open>inv s w xs ys\<close>: the library has consumed \<open>xs\<close> and produced \<open>ys\<close> on the stream \<open>s\<close>.  The law
  is about calls that report \<open>UNIZIP_OK\<close> or the end of the stream; \<open>complete xs ys\<close> is what the
  end means for the data.
\<close>

locale streaming =
  fixes ok :: bool
    and complete :: "byte list \<Rightarrow> byte list \<Rightarrow> bool"
    and init :: "int \<Rightarrow> 'l stream_op"
    and step :: "int \<Rightarrow> 'l stream_op"
    and inv :: "unizip_stream \<Rightarrow> 'l world \<Rightarrow> byte list \<Rightarrow> byte list \<Rightarrow> bool"
  assumes starts: "ok \<Longrightarrow> init level s w = Inr (UNIZIP_OK, s', w') \<Longrightarrow> inv s' w' [] []"
    and steps: "ok \<Longrightarrow> inv s w xs ys \<Longrightarrow> step f s w = Inr (r, s', w') \<Longrightarrow> r = UNIZIP_OK \<or> r = UNIZIP_STREAM_END \<Longrightarrow>
      inv s' w' (xs @ consumed s w s') (ys @ produced s s' w') \<and>
      (r = UNIZIP_STREAM_END \<longrightarrow> complete (xs @ consumed s w s') (ys @ produced s s' w'))"
    and refills: "inv s w xs ys \<Longrightarrow> inv (apply_refill rf s) (refill_world rf w) xs ys"
begin

lemma run_streams:
  assumes ok and "inv s w xs ys" and "set rs \<subseteq> {UNIZIP_OK}"
    and "run_io step cs s w = Inr (rs @ [UNIZIP_STREAM_END], us, vs, s', w')"
  shows "complete (xs @ us) (ys @ vs)"
  using assms(2-)
proof (induction cs arbitrary: s w xs ys rs us vs)
  case Nil
  then show ?case by simp
next
  case (Cons c cs)
  obtain rf f where c: "c = (rf, f)" by (cases c)
  let ?s = "apply_refill rf s" and ?w = "refill_world rf w"
  from Cons.prems(3) c obtain r s1 w1 rs1 us1 vs1 where one: "step f ?s ?w = Inr (r, s1, w1)"
    and rest: "run_io step cs s1 w1 = Inr (rs1, us1, vs1, s', w')" and r: "r # rs1 = rs @ [UNIZIP_STREAM_END]"
    and io: "us = consumed ?s ?w s1 @ us1" "vs = produced ?s s1 w1 @ vs1"
    by (auto simp: andthen_eq_Inr Let_def)
  have "r = UNIZIP_OK \<or> r = UNIZIP_STREAM_END" using r Cons.prems(2) by (cases rs) auto
  note st = steps [OF \<open>ok\<close> refills [OF Cons.prems(1)] one this]
  show ?case
  proof (cases rs)
    case Nil
    with r have "rs1 = []" "r = UNIZIP_STREAM_END" by simp_all
    moreover from this rest have "us1 = [] \<and> vs1 = []"
      by (cases cs) (auto simp: andthen_eq_Inr Let_def)
    ultimately show ?thesis using st io by simp
  next
    case (Cons r0 rs0)
    with r Cons.prems(2) have "rs1 = rs0 @ [UNIZIP_STREAM_END]" "set rs0 \<subseteq> {UNIZIP_OK}" by auto
    from Cons.IH [OF conjunct1 [OF st] this(2)] rest this(1) io show ?thesis by simp
  qed
qed

theorem session_streams:
  assumes ok and "init level s w = Inr (UNIZIP_OK, s1, w1)" and "set rs \<subseteq> {UNIZIP_OK}"
    and "run_io step cs s1 w1 = Inr (rs @ [UNIZIP_STREAM_END], us, vs, s2, w2)"
  shows "complete us vs"
  using run_streams [OF assms(1) starts [OF assms(1,2)] assms(3,4)] by simp

end

datatype direction = Deflating | Inflating

text \<open>The input and the output of a session of either direction, when \<open>dec\<close> decodes the format.\<close>

fun transcodes :: "(byte list \<Rightarrow> byte list option) \<Rightarrow> direction \<Rightarrow> byte list \<Rightarrow> byte list \<Rightarrow> bool" where
  "transcodes dec Deflating xs ys \<longleftrightarrow> dec ys = Some xs"
| "transcodes dec Inflating xs ys \<longleftrightarrow> dec xs = Some ys"

text \<open>What was moved over is what was read and written.\<close>

lemma unat_uLong: "unat (x :: uLong) < 2 ^ 64"
proof -
  have "unat x < 2 ^ LENGTH(64)" by (rule unsigned_less)
  then show ?thesis by simp
qed

lemma unat_uInt: "unat (x :: uInt) < 2 ^ 64"
proof -
  have "unat x < 2 ^ LENGTH(32)" by (rule unsigned_less)
  then show ?thesis by simp
qed

lemma consumed_moved:
  "next_in s' = next_in s + of_nat k \<Longrightarrow> k < 2 ^ 64 \<Longrightarrow> consumed s w s' = read_mem (bytes w) (next_in s) k"
  by (simp add: consumed_def unat_of_nat)

lemma produced_moved:
  "next_out s' = next_out s + of_nat (length vs) \<Longrightarrow> length vs < 2 ^ 64 \<Longrightarrow> bytes w' = write_mem m (next_out s) vs \<Longrightarrow>
   produced s s' w' = vs"
  by (simp add: produced_def unat_of_nat read_write_mem)

lemma still_there:
  "next_in s' = next_in s \<Longrightarrow> consumed s w s' = []" "next_out s' = next_out s \<Longrightarrow> produced s s' w' = []"
  by (simp_all add: consumed_def produced_def)

end
