(* ===== verification/Codecs.thy ===== *)
theory Codecs
  imports Streams
begin

text \<open>
  The one-shot interface, \<open>compress\<close> and \<open>uncompress\<close>.  A library's pair of one-shot
  functions is a \<open>codec\<close>: each reads a buffer, writes one and gives the length it wrote, or
  fails.  \<open>restoring\<close> is what every compression library promises of its codec.  The locale
  \<open>one_shot\<close> says that a back end's two functions implement a codec; the round trip of any
  such back end follows from it once, and each back end interprets it.
\<close>

type_synonym codec = "addr \<Rightarrow> uLong \<Rightarrow> addr \<Rightarrow> uLong \<Rightarrow> mem \<Rightarrow> (uLong \<times> mem) option"

type_synonym 'l shot_op =
  "addr \<Rightarrow> uLong option \<Rightarrow> addr \<Rightarrow> uLong \<Rightarrow> 'l world \<Rightarrow> (int \<times> uLong option \<times> 'l world) res"

text \<open>A function that cannot fault, as one that can.\<close>

definition sure :: "(addr \<Rightarrow> uLong option \<Rightarrow> addr \<Rightarrow> uLong \<Rightarrow> 'l world \<Rightarrow> int \<times> uLong option \<times> 'l world) \<Rightarrow> 'l shot_op" where
  "sure f dest destLen source sourceLen w = Inr (f dest destLen source sourceLen w)"

text \<open>
  What was encoded, wherever it has been moved meanwhile, decodes to the input into any
  buffer that can hold it.  The libraries state their limits differently; inputs and buffers
  of less than 2 GiB are within all of them.  The empty input is left out.
\<close>

definition restoring :: "codec \<Rightarrow> codec \<Rightarrow> bool" where
  "restoring enc dec \<longleftrightarrow>
     (\<forall>dst cap src n m k m'. 0 < n \<longrightarrow> uint n < 2 ^ 31 \<longrightarrow> uint cap < 2 ^ 31 \<longrightarrow>
        disjoint_ranges src (unat n) dst (unat cap) \<longrightarrow> enc dst cap src n m = Some (k, m') \<longrightarrow>
        (\<forall>dst' cap' src' m1. n \<le> cap' \<longrightarrow> uint cap' < 2 ^ 31 \<longrightarrow>
           disjoint_ranges src' (unat k) dst' (unat cap') \<longrightarrow>
           read_mem m1 src' (unat k) = read_mem m' dst (unat k) \<longrightarrow>
           (\<exists>m2. dec dst' cap' src' k m1 = Some (n, m2) \<and>
              read_mem m2 dst' (unat n) = read_mem m src (unat n))))"

lemma restoringD:
  assumes "restoring enc dec" and "0 < n" and "uint n < 2 ^ 31" and "uint cap < 2 ^ 31"
    and "disjoint_ranges src (unat n) dst (unat cap)" and "enc dst cap src n m = Some (k, m')"
    and "n \<le> cap'" and "uint cap' < 2 ^ 31" and "disjoint_ranges src' (unat k) dst' (unat cap')"
    and "read_mem m1 src' (unat k) = read_mem m' dst (unat k)"
  shows "\<exists>m2. dec dst' cap' src' k m1 = Some (n, m2) \<and> read_mem m2 dst' (unat n) = read_mem m src (unat n)"
  using assms unfolding restoring_def by blast

text \<open>
  \<open>comp\<close> and \<open>uncomp\<close> implement the codec \<open>enc\<close>, \<open>dec\<close> under the documented behaviour \<open>ok\<close> of the
  library.  They may keep \<open>extra\<close> bytes that the length they report does not count.
  \<open>trusted cap len\<close> says that a success with the reported length \<open>len\<close> and capacity \<open>cap\<close> is
  a success.
\<close>

locale one_shot =
  fixes ok :: bool
    and extra :: uLong
    and trusted :: "uLong \<Rightarrow> uLong \<Rightarrow> bool"
    and enc dec :: codec
    and comp uncomp :: "'l shot_op"
  assumes compresses: "ok \<Longrightarrow> dest \<noteq> 0 \<Longrightarrow> source \<noteq> 0 \<Longrightarrow> uint n < 2 ^ 31 \<Longrightarrow> uint cap < 2 ^ 31 \<Longrightarrow>
      comp dest (Some cap) source n w = Inr (UNIZIP_OK, Some len, w') \<Longrightarrow> trusted cap len \<Longrightarrow>
      enc dest (cap + extra) source n (bytes w) = Some (len + extra, bytes w')"
    and uncompresses: "ok \<Longrightarrow> dest \<noteq> 0 \<Longrightarrow> source \<noteq> 0 \<Longrightarrow> uint len < 2 ^ 31 \<Longrightarrow> uint cap < 2 ^ 31 \<Longrightarrow>
      dec dest cap source (len + extra) (bytes w) = Some (n, m) \<Longrightarrow> 0 < n \<Longrightarrow>
      \<exists>w'. uncomp dest (Some cap) source len w = Inr (UNIZIP_OK, Some n, w') \<and> bytes w' = m"
begin

theorem roundtrip:
  assumes ok: ok "restoring enc dec" and ptrs: "source \<noteq> 0" "dest \<noteq> 0" "source' \<noteq> 0" "dest' \<noteq> 0"
    and small: "0 < n" "uint n < 2 ^ 31" "uint cap + uint extra < 2 ^ 31" "n \<le> cap'" "uint cap' < 2 ^ 31"
    and comp: "comp dest (Some cap) source n w = Inr (UNIZIP_OK, Some len, w1)" "trusted cap len"
    and len: "uint len < 2 ^ 31"
    and apart: "disjoint_ranges source (unat n) dest (unat (cap + extra))"
      "disjoint_ranges source' (unat (len + extra)) dest' (unat cap')"
    and moved: "read_mem (bytes w2) source' (unat (len + extra)) = read_mem (bytes w1) dest (unat (len + extra))"
  shows "\<exists>w3. uncomp dest' (Some cap') source' len w2 = Inr (UNIZIP_OK, Some n, w3) \<and>
    read_mem (bytes w3) dest' (unat n) = read_mem (bytes w) source (unat n)"
proof -
  have c: "uint (cap + extra) = uint cap + uint extra" using small(3) by (intro uint_add_lem [THEN iffD1]) simp
  then have c': "uint (cap + extra) < 2 ^ 31" "uint cap < 2 ^ 31" using small(3) uint_ge_0 [of extra] by linarith+
  from compresses [OF ok(1) ptrs(2,1) small(2) c'(2) comp]
  have e: "enc dest (cap + extra) source n (bytes w) = Some (len + extra, bytes w1)" .
  from restoringD [OF ok(2) small(1,2) c'(1) apart(1) e small(4,5) apart(2) moved] obtain m2 where
    d: "dec dest' cap' source' (len + extra) (bytes w2) = Some (n, m2)"
      "read_mem m2 dest' (unat n) = read_mem (bytes w) source (unat n)" by blast
  from uncompresses [OF ok(1) ptrs(4,3) len small(5) d(1) small(1)] d(2) show ?thesis by auto
qed

end

section \<open>A codec that stores\<close>

definition keep_enc :: codec where
  "keep_enc dst cap src n m =
     (if n < cap then Some (n + 1, write_mem m dst (0 # read_mem m src (unat n))) else None)"

definition keep_dec :: codec where
  "keep_dec dst cap src n m =
     (if 0 < n \<and> n - 1 \<le> cap then Some (n - 1, write_mem m dst (read_mem m (src + 1) (unat (n - 1)))) else None)"

lemma store_word_roundtrip:
  fixes n :: uLong
  assumes "uint n < 2 ^ 32"
    and "read_mem m1 src' (unat (n + 1)) =
      read_mem (write_mem m dst (0 # read_mem m src (unat n))) dst (unat (n + 1))"
  shows "read_mem (write_mem m1 dst' (read_mem m1 (src' + 1) (unat n))) dst' (unat n) =
      read_mem m src (unat n)" and "0 < n + 1"
proof -
  have n0: "0 \<le> uint n" by simp
  have un: "uint (n + 1) = uint n + 1" using assms(1) n0 by (simp add: uint_word_ariths)
  have len: "unat (n + 1) = Suc (unat n)"
    unfolding unat_eq_nat_uint un using n0 by linarith
  show "0 < n + 1" unfolding word_less_def un using n0 by simp
  have small: "unat n \<le> 18446744073709551615"
    unfolding unat_eq_nat_uint nat_le_iff using assms(1) by simp
  have "read_mem (write_mem m dst (0 # read_mem m src (unat n))) dst (unat (n + 1)) =
      0 # read_mem m src (unat n)"
    using read_write_mem [of "0 # read_mem m src (unat n)" m dst] small unfolding len by simp
  with assms(2) have "read_mem m1 (src' + 1) (unat n) = read_mem m src (unat n)"
    unfolding len by (simp only: read_mem_Suc list.inject)
  then show "read_mem (write_mem m1 dst' (read_mem m1 (src' + 1) (unat n))) dst' (unat n) =
      read_mem m src (unat n)"
    using read_write_mem [of "read_mem m src (unat n)" m1 dst'] small by simp
qed

lemma keep_restoring: "restoring keep_enc keep_dec"
  unfolding restoring_def
proof (intro allI impI)
  fix dst cap src n dst' cap' src' :: uLong and m k m' m1
  assume n: "uint n < 2 ^ 31" and c: "keep_enc dst cap src n m = Some (k, m')" and out: "n \<le> cap'"
    "read_mem m1 src' (unat k) = read_mem m' dst (unat k)"
  then have k: "k = n + 1" "m' = write_mem m dst (0 # read_mem m src (unat n))"
    by (auto simp: keep_enc_def split: if_splits)
  have "uint n < 2 ^ 32" using n by simp
  from store_word_roundtrip [OF this, where m = m and dst = dst and src = src] out
  show "\<exists>m2. keep_dec dst' cap' src' k m1 = Some (n, m2) \<and> read_mem m2 dst' (unat n) = read_mem m src (unat n)"
    unfolding k by (auto simp: keep_dec_def simp del: write_mem.simps)
qed

end
