(* ===== verification/Instances.thy ===== *)
theory Instances
  imports Codecs
begin

text \<open>
  A concrete codec and a concrete world on which the properties with hypotheses about a
  compression library are applied.  The codec stores its input behind one zero byte, and
  refuses an output buffer that is too small.
\<close>

definition store_compress :: "addr \<Rightarrow> addr \<Rightarrow> int \<Rightarrow> int \<Rightarrow> mem \<Rightarrow> int \<times> mem" where
  "store_compress src dst n cap m =
     (if 0 \<le> n \<and> n + 1 \<le> cap then (n + 1, write_mem m dst (0 # read_mem m src (nat n)))
      else (0, m))"

definition store_decompress :: "addr \<Rightarrow> addr \<Rightarrow> int \<Rightarrow> int \<Rightarrow> mem \<Rightarrow> int \<times> mem" where
  "store_decompress src dst n cap m =
     (if 1 \<le> n \<and> n - 1 \<le> cap then (n - 1, write_mem m dst (read_mem m (src + 1) (nat (n - 1))))
      else (- 1, m))"

text \<open>
  What the LZ4 and Snappy block interfaces document about a pair of such functions:
  decompressing what was compressed gives the input back, wherever it was moved, if the
  buffers do not overlap and the output buffer is large enough.
\<close>

definition lossless ::
  "(addr \<Rightarrow> addr \<Rightarrow> int \<Rightarrow> int \<Rightarrow> mem \<Rightarrow> int \<times> mem) \<Rightarrow>
   (addr \<Rightarrow> addr \<Rightarrow> int \<Rightarrow> int \<Rightarrow> mem \<Rightarrow> int \<times> mem) \<Rightarrow> bool" where
  "lossless enc dec \<longleftrightarrow>
     (\<forall>src dst n cap m r m'. 0 \<le> n \<longrightarrow> n < 2 ^ 31 \<longrightarrow> cap < 2 ^ 31 \<longrightarrow>
        disjoint_ranges src (nat n) dst (nat cap) \<longrightarrow>
        enc src dst n cap m = (r, m') \<longrightarrow> 0 < r \<longrightarrow>
        r \<le> cap \<and>
        (\<forall>src' dst' cap' m1. n \<le> cap' \<longrightarrow> disjoint_ranges src' (nat r) dst' (nat cap') \<longrightarrow>
           read_mem m1 src' (nat r) = read_mem m' dst (nat r) \<longrightarrow>
           (\<exists>m2. dec src' dst' r cap' m1 = (n, m2) \<and>
              read_mem m2 dst' (nat n) = read_mem m src (nat n))))"

lemma losslessD:
  assumes "lossless enc dec" and "0 \<le> n" and "n < 2 ^ 31" and "cap < 2 ^ 31"
    and "disjoint_ranges src (nat n) dst (nat cap)" and "enc src dst n cap m = (r, m')" and "0 < r"
  shows "r \<le> cap"
    and "n \<le> cap' \<Longrightarrow> disjoint_ranges src' (nat r) dst' (nat cap') \<Longrightarrow>
      read_mem m1 src' (nat r) = read_mem m' dst (nat r) \<Longrightarrow>
      \<exists>m2. dec src' dst' r cap' m1 = (n, m2) \<and> read_mem m2 dst' (nat n) = read_mem m src (nat n)"
  using assms unfolding lossless_def by blast+

lemma store_lossless: "lossless store_compress store_decompress"
  unfolding lossless_def
proof (intro allI impI)
  fix src dst :: addr and n cap r :: int and m m' :: mem
  assume n: "0 \<le> n" "n < 2 ^ 31" and c: "store_compress src dst n cap m = (r, m')" "0 < r"
  then have r: "r = n + 1" "r \<le> cap"
    and m': "m' = write_mem m dst (0 # read_mem m src (nat n))"
    by (auto simp: store_compress_def split: if_splits)
  have len: "nat r = Suc (nat n)" using r n by simp
  have out: "read_mem m' dst (nat r) = 0 # read_mem m src (nat n)"
    using read_write_mem [of "0 # read_mem m src (nat n)" m dst] n by (simp add: m' len)
  show "r \<le> cap \<and> (\<forall>src' dst' cap' m1. n \<le> cap' \<longrightarrow>
      disjoint_ranges src' (nat r) dst' (nat cap') \<longrightarrow>
      read_mem m1 src' (nat r) = read_mem m' dst (nat r) \<longrightarrow>
      (\<exists>m2. store_decompress src' dst' r cap' m1 = (n, m2) \<and>
         read_mem m2 dst' (nat n) = read_mem m src (nat n)))"
  proof (intro conjI allI impI)
    show "r \<le> cap" by (rule r(2))
  next
    fix src' dst' :: addr and cap' :: int and m1 :: mem
    assume cap': "n \<le> cap'" and rd: "read_mem m1 src' (nat r) = read_mem m' dst (nat r)"
    from rd have "read_mem m1 (src' + 1) (nat n) = read_mem m src (nat n)"
      by (simp add: out) (simp add: len read_mem_Suc)
    moreover from this have "read_mem (write_mem m1 dst' (read_mem m1 (src' + 1) (nat n))) dst' (nat n)
        = read_mem m src (nat n)"
      using read_write_mem [of "read_mem m src (nat n)" m1 dst'] n by simp
    ultimately show "\<exists>m2. store_decompress src' dst' r cap' m1 = (n, m2) \<and>
         read_mem m2 dst' (nat n) = read_mem m src (nat n)"
      using n cap' by (simp add: store_decompress_def r(1))
  qed
qed

text \<open>A library whose state is the list of its live handles.\<close>

definition demo_create :: "ptr list \<Rightarrow> ptr \<times> ptr list" where
  "demo_create l = (Suc (sum_list l), Suc (sum_list l) # l)"

definition demo_use :: "ptr \<Rightarrow> 'a \<Rightarrow> ptr list \<Rightarrow> ('a \<times> ptr list) res" where
  "demo_use h x l = (if h \<in> set l then Inr (x, l) else Inl Dangling)"

definition demo_free :: "ptr \<Rightarrow> 'a \<Rightarrow> ptr list \<Rightarrow> ('a \<times> ptr list) res" where
  "demo_free h x l =
     (if h = 0 then Inr (x, l) else if h \<in> set l then Inr (x, removeAll h l) else Inl DoubleFree)"

definition demo_live :: "ptr list \<Rightarrow> ptr set" where
  "demo_live l = set l - {0}"

lemma demo_create_fresh:
  "demo_create l = (h, l') \<Longrightarrow> h \<noteq> 0 \<and> h \<notin> set l \<and> set l' = insert h (set l)"
  by (auto simp: demo_create_def dest: member_le_sum_list)

lemma demo_create_parts [simp]:
  "fst (demo_create l) \<noteq> 0" "fst (demo_create l) \<notin> set l"
  "set (snd (demo_create l)) = insert (fst (demo_create l)) (set l)"
  using demo_create_fresh [of l "fst (demo_create l)" "snd (demo_create l)"] by simp_all

lemma demo_use_live [simp]: "h \<in> set l \<Longrightarrow> demo_use h x l = Inr (x, l)"
  by (simp add: demo_use_def)

lemma demo_free_live [simp]:
  "h \<in> set l \<Longrightarrow> h \<noteq> 0 \<Longrightarrow> demo_free h x l = Inr (x, removeAll h l)"
  "demo_free 0 x l = Inr (x, l)"
  "h \<noteq> 0 \<Longrightarrow> h \<notin> set l \<Longrightarrow> demo_free h x l = Inl DoubleFree"
  by (simp_all add: demo_free_def)

text \<open>A world with the bytes 7, 8, 9 at the addresses 1000, 1001, 1002, and no object.\<close>

definition demo_world :: "ptr list world" where
  "demo_world = \<lparr>heap = Map.empty, allocs = 0, oom = (\<lambda>_. False),
     bytes = (\<lambda>_. 0)(1000 := 7, 1001 := 8, 1002 := 9), lib = []\<rparr>"

definition demo_stream :: unizip_stream where
  "demo_stream = \<lparr>next_in = 1000, avail_in = 3, total_in = 0, next_out = 2000, avail_out = 50,
     total_out = 0, msg = 0, state = 0, zalloc = 0, zfree = 0, opaque = 0, data_type = 0,
     adler = 0, reserved = 0, compression_flag = 0, ud = 0\<rparr>"

lemma demo_world_simps [simp]:
  "heap demo_world = Map.empty" "allocs demo_world = 0" "oom demo_world k = False"
  "bytes demo_world = (\<lambda>_. 0)(1000 := 7, 1001 := 8, 1002 := 9)" "lib demo_world = []"
  by (simp_all add: demo_world_def)

lemma demo_bytes: "read_mem (bytes demo_world) 1000 3 = [7, 8, 9]"
  by (simp add: numeral_3_eq_3 read_mem_Suc)

lemma wf_demo_world [simp]: "wf_heap demo_world"
  by (simp add: wf_heap_def)

lemma demo_stream_simps [simp]:
  "next_in demo_stream = 1000" "avail_in demo_stream = 3" "total_in demo_stream = 0"
  "next_out demo_stream = 2000" "avail_out demo_stream = 50" "total_out demo_stream = 0"
  "compression_flag demo_stream = 0" "ud demo_stream = 0"
  by (simp_all add: demo_stream_def)

lemma disjoint_ranges_far:
  assumes "unat a + n \<le> unat b" and "unat b + k \<le> 2 ^ 64"
  shows "disjoint_ranges a n b k"
  unfolding disjoint_ranges_def
proof (intro allI impI notI)
  fix i j assume ij: "i < n" "j < k" "a + of_nat i = b + of_nat j"
  have "unat (a + of_nat i) = unat a + i"
    using assms ij(1,2) by (simp add: unat_word_ariths unat_of_nat)
  moreover have "unat (b + of_nat j) = unat b + j"
    using assms ij(1,2) by (simp add: unat_word_ariths unat_of_nat)
  ultimately show False using assms ij by simp
qed

end
