(* ===== verification/Lz4.thy ===== *)
theory Lz4
  imports Instances
begin

text \<open>
  The LZ4 back end: \<open>lz4/unizip_algorithm_lz4.c\<close> and \<open>lz4/unizip_callback_lz4.c\<close>.
  LZ4 itself is a parameter, the record \<open>lz4_lib\<close>: its entry points act on the byte
  memory and return their \<open>int\<close>.  \<open>lz4_indet\<close> is the contents of freshly allocated
  memory, read as a context.
\<close>

record lz4_lib =
  LZ4_versionString :: string
  LZ4_MAX_INPUT_SIZE :: uLong
  LZ4_compress_default :: "addr \<Rightarrow> addr \<Rightarrow> int \<Rightarrow> int \<Rightarrow> mem \<Rightarrow> int \<times> mem"
  LZ4_compress_fast :: "addr \<Rightarrow> addr \<Rightarrow> int \<Rightarrow> int \<Rightarrow> int \<Rightarrow> mem \<Rightarrow> int \<times> mem"
  LZ4_decompress_safe :: "addr \<Rightarrow> addr \<Rightarrow> int \<Rightarrow> int \<Rightarrow> mem \<Rightarrow> int \<times> mem"
  lz4_indet :: lz4_ctx

abbreviation levelMin_lz4 :: int where "levelMin_lz4 \<equiv> 0"
abbreviation levelMax_lz4 :: int where "levelMax_lz4 \<equiv> 65537"
abbreviation zlibAction_end :: int where "zlibAction_end \<equiv> 4"

section \<open>The algorithm layer\<close>

definition lz4_allocate :: "lz4_lib \<Rightarrow> 'l world \<Rightarrow> ptr \<times> 'l world" where
  "lz4_allocate L w = malloc (Lz4_obj (lz4_indet L)) w"

definition lz4_copy :: "ptr \<Rightarrow> ptr \<Rightarrow> 'l world \<Rightarrow> (int \<times> 'l world) res" where
  "lz4_copy dest source w =
     (if dest \<noteq> NULL_ptr \<and> source \<noteq> NULL_ptr then
        andthen (load as_lz4 source w) (\<lambda>c.
        andthen (load as_lz4 dest w) (\<lambda>_.
        Inr (UNIZIP_OK, store dest (Lz4_obj c) w)))
      else Inr (UNIZIP_DATA_ERROR, w))"

definition lz4_compressBound :: "lz4_lib \<Rightarrow> uLong \<Rightarrow> uLong" where
  "lz4_compressBound L uncompressed_size =
     (if uncompressed_size > LZ4_MAX_INPUT_SIZE L then 0
      else uncompressed_size + (uncompressed_size div 255 + 16))"

text \<open>\<open>destLen\<close> is a pointer the code dereferences: \<open>None\<close> is \<open>NULL\<close>.\<close>

definition lz4_compress ::
  "lz4_lib \<Rightarrow> addr \<Rightarrow> uLong option \<Rightarrow> addr \<Rightarrow> uLong \<Rightarrow> 'l world \<Rightarrow> int \<times> uLong option \<times> 'l world" where
  "lz4_compress L dest destLen source sourceLen w =
     (case destLen of None \<Rightarrow> (UNIZIP_DATA_ERROR, destLen, w) | Some len \<Rightarrow>
      if dest = NULL_addr \<or> source = NULL_addr then (UNIZIP_DATA_ERROR, destLen, w)
      else
        let (result, m) = LZ4_compress_default L source dest (c_int sourceLen) (c_int len) (bytes w);
            w = w\<lparr>bytes := m\<rparr>
        in if result \<le> 0 then (UNIZIP_BUF_ERROR, destLen, w)
           else (UNIZIP_OK, Some (word_of_int result), w))"

definition lz4_decompress ::
  "lz4_lib \<Rightarrow> addr \<Rightarrow> uLong option \<Rightarrow> addr \<Rightarrow> uLong \<Rightarrow> 'l world \<Rightarrow> int \<times> uLong option \<times> 'l world" where
  "lz4_decompress L dest destLen source sourceLen w =
     (case destLen of None \<Rightarrow> (UNIZIP_DATA_ERROR, destLen, w) | Some len \<Rightarrow>
      if dest = NULL_addr \<or> source = NULL_addr then (UNIZIP_DATA_ERROR, destLen, w)
      else
        let (result, m) = LZ4_decompress_safe L source dest (c_int sourceLen) (c_int len) (bytes w);
            w = w\<lparr>bytes := m\<rparr>
        in if result \<le> 0 then (UNIZIP_BUF_ERROR, destLen, w)
           else (UNIZIP_OK, Some (word_of_int result), w))"

definition lz4_deflateInit :: "ptr \<Rightarrow> int \<Rightarrow> 'l world \<Rightarrow> (int \<times> 'l world) res" where
  "lz4_deflateInit p level w =
     (if p = NULL_ptr then Inr (UNIZIP_STREAM_ERROR, w) else
      andthen (load as_lz4 p w) (\<lambda>ctx.
      let ctx = (if levelMin_lz4 < level \<and> level \<le> levelMax_lz4
                 then ctx\<lparr>level_lz4 := level\<rparr> else ctx\<lparr>level_lz4 := 1\<rparr>);
          ctx = ctx\<lparr>avail_in_lz4 := 0, next_in_lz4 := NULL_addr, avail_out_lz4 := 0,
                    next_out_lz4 := NULL_addr, total_in_lz4 := 0, total_out_lz4 := 0,
                    src_lz4 := NULL_addr, dst_lz4 := NULL_addr, input_length_lz4 := 0\<rparr>
      in Inr (UNIZIP_OK, store p (Lz4_obj ctx) w)))"

definition lz4_deflateprocess :: "lz4_lib \<Rightarrow> ptr \<Rightarrow> 'l world \<Rightarrow> (int \<times> 'l world) res" where
  "lz4_deflateprocess L p w =
     andthen (load as_lz4 p w) (\<lambda>ctx.
     let ctx = ctx\<lparr>input_length_lz4 := c_int (total_in_lz4 ctx)\<rparr>;
         (ret, m) = LZ4_compress_fast L (src_lz4 ctx) (dst_lz4 ctx) (c_int (total_in_lz4 ctx))
                      (c_int (avail_out_lz4 ctx)) (level_lz4 ctx) (bytes w);
         w = w\<lparr>bytes := m\<rparr>
     in if ret \<le> 0 then Inr (UNIZIP_BUF_ERROR, store p (Lz4_obj ctx) w)
        else
          let ctx = ctx\<lparr>total_out_lz4 := word_of_int ret\<rparr>;
              ctx = ctx\<lparr>next_out_lz4 := dst_lz4 ctx + word_of_int ret\<rparr>;
              ctx = ctx\<lparr>next_in_lz4 := next_in_lz4 ctx + word_of_int (input_length_lz4 ctx)\<rparr>;
              ctx = ctx\<lparr>avail_out_lz4 := avail_out_lz4 ctx - word_of_int ret\<rparr>;
              ctx = ctx\<lparr>dst_lz4 := next_out_lz4 ctx, avail_in_lz4 := 0\<rparr>
          in Inr (UNIZIP_STREAM_END, store p (Lz4_obj ctx) w))"

definition lz4_deflate :: "lz4_lib \<Rightarrow> ptr \<Rightarrow> int \<Rightarrow> 'l world \<Rightarrow> (int \<times> 'l world) res" where
  "lz4_deflate L p flush w =
     (if flush = 0 then Inr (UNIZIP_OK, w)
      else if flush = zlibAction_end then
        andthen (load as_lz4 p w) (\<lambda>ctx.
        let ctx = ctx\<lparr>src_lz4 := next_in_lz4 ctx, dst_lz4 := next_out_lz4 ctx,
                      total_in_lz4 := ucast (avail_in_lz4 ctx), avail_in_lz4 := 0\<rparr>
        in lz4_deflateprocess L p (store p (Lz4_obj ctx) w))
      else Inr (UNIZIP_ERRNO, w))"

definition lz4_end :: "ptr \<Rightarrow> 'l world \<Rightarrow> (int \<times> 'l world) res" where
  "lz4_end p w =
     (if p \<noteq> NULL_ptr then andthen (free p w) (\<lambda>w. Inr (UNIZIP_OK, w))
      else Inr (UNIZIP_BUF_ERROR, w))"

definition lz4_deflateEnd :: "ptr \<Rightarrow> 'l world \<Rightarrow> (int \<times> 'l world) res" where
  "lz4_deflateEnd p w =
     (if p \<noteq> NULL_ptr then andthen (free p w) (\<lambda>w. Inr (UNIZIP_OK, w))
      else Inr (UNIZIP_BUF_ERROR, w))"

definition lz4_inflateInit :: "ptr \<Rightarrow> 'l world \<Rightarrow> (int \<times> 'l world) res" where
  "lz4_inflateInit p w =
     (if p = NULL_ptr then Inr (UNIZIP_STREAM_ERROR, w) else
      andthen (load as_lz4 p w) (\<lambda>ctx.
      let ctx = ctx\<lparr>avail_in_lz4 := 0, avail_out_lz4 := 0, next_in_lz4 := NULL_addr,
                    next_out_lz4 := NULL_addr, total_in_lz4 := 0, total_out_lz4 := 0,
                    src_lz4 := NULL_addr, dst_lz4 := NULL_addr, input_length_lz4 := 0\<rparr>
      in Inr (UNIZIP_OK, store p (Lz4_obj ctx) w)))"

definition lz4_inflateprocess :: "lz4_lib \<Rightarrow> ptr \<Rightarrow> 'l world \<Rightarrow> (int \<times> 'l world) res" where
  "lz4_inflateprocess L p w =
     andthen (load as_lz4 p w) (\<lambda>ctx.
     let ctx = ctx\<lparr>input_length_lz4 := c_int (total_in_lz4 ctx)\<rparr>;
         (ret, m) = LZ4_decompress_safe L (src_lz4 ctx) (dst_lz4 ctx) (c_int (total_in_lz4 ctx))
                      (c_int (avail_out_lz4 ctx)) (bytes w);
         w = w\<lparr>bytes := m\<rparr>
     in if ret \<le> 0 then Inr (UNIZIP_BUF_ERROR, store p (Lz4_obj ctx) w)
        else
          let ctx = ctx\<lparr>total_out_lz4 := word_of_int ret\<rparr>;
              ctx = ctx\<lparr>next_out_lz4 := dst_lz4 ctx + word_of_int ret\<rparr>;
              ctx = ctx\<lparr>next_in_lz4 := next_in_lz4 ctx + word_of_int (input_length_lz4 ctx)\<rparr>;
              ctx = ctx\<lparr>avail_out_lz4 := avail_out_lz4 ctx - word_of_int ret\<rparr>;
              ctx = ctx\<lparr>dst_lz4 := next_out_lz4 ctx, avail_in_lz4 := 0\<rparr>
          in Inr (UNIZIP_STREAM_END, store p (Lz4_obj ctx) w))"

definition lz4_inflate :: "lz4_lib \<Rightarrow> ptr \<Rightarrow> int \<Rightarrow> 'l world \<Rightarrow> (int \<times> 'l world) res" where
  "lz4_inflate L p flush w =
     andthen (load as_lz4 p w) (\<lambda>ctx.
     let ctx = ctx\<lparr>src_lz4 := next_in_lz4 ctx, dst_lz4 := next_out_lz4 ctx,
                   total_in_lz4 := ucast (avail_in_lz4 ctx), avail_in_lz4 := 0\<rparr>
     in lz4_inflateprocess L p (store p (Lz4_obj ctx) w))"

definition lz4_inflateEnd :: "ptr \<Rightarrow> 'l world \<Rightarrow> (int \<times> 'l world) res" where
  "lz4_inflateEnd p w = andthen (free p w) (\<lambda>w. Inr (UNIZIP_OK, w))"

section \<open>The callback layer\<close>

definition versionCB_lz4 :: "lz4_lib \<Rightarrow> string" where
  "versionCB_lz4 L = LZ4_versionString L"

definition deflateInitCB_lz4 :: "lz4_lib \<Rightarrow> int \<Rightarrow> 'l stream_op" where
  "deflateInitCB_lz4 L level strm w =
     (let (p, w) = lz4_allocate L w; strm = strm\<lparr>ud := p\<rparr>
      in if ud strm = NULL_ptr then Inr (UNIZIP_MEM_ERROR, strm, w)
         else
           let strm = strm\<lparr>compression_flag := level\<rparr>;
               strm = strm\<lparr>next_in := NULL_addr, next_out := NULL_addr, avail_in := 0,
                           avail_out := 0, total_in := 0, total_out := 0\<rparr>
           in andthen (lz4_deflateInit (ud strm) level w) (\<lambda>(ret, w). Inr (ret, strm, w)))"

definition deflateCB_lz4 :: "lz4_lib \<Rightarrow> int \<Rightarrow> 'l stream_op" where
  "deflateCB_lz4 L flush strm w =
     andthen (load as_lz4 (ud strm) w) (\<lambda>ctx.
     let ctx = ctx\<lparr>total_in_lz4 := total_in strm, next_in_lz4 := next_in strm,
                   total_out_lz4 := total_out strm, next_out_lz4 := next_out strm,
                   avail_in_lz4 := avail_in strm, avail_out_lz4 := avail_out strm\<rparr>
     in andthen (lz4_deflate L (ud strm) flush (store (ud strm) (Lz4_obj ctx) w)) (\<lambda>(status, w).
     andthen (load as_lz4 (ud strm) w) (\<lambda>ctx.
     let strm = strm\<lparr>next_in := next_in_lz4 ctx, total_in := total_in_lz4 ctx,
                     next_out := next_out_lz4 ctx, total_out := total_out_lz4 ctx,
                     avail_in := avail_in_lz4 ctx, avail_out := avail_out_lz4 ctx\<rparr>
     in Inr (status, strm, w))))"

definition deflateEndCB_lz4 :: "'l stream_op" where
  "deflateEndCB_lz4 strm w = andthen (lz4_deflateEnd (ud strm) w) (\<lambda>(ret, w). Inr (ret, strm, w))"

definition inflateInitCB_lz4 :: "lz4_lib \<Rightarrow> 'l stream_op" where
  "inflateInitCB_lz4 L strm w =
     (let (p, w) = lz4_allocate L w; strm = strm\<lparr>ud := p\<rparr>
      in if ud strm = NULL_ptr then Inr (UNIZIP_MEM_ERROR, strm, w)
         else
           let strm = strm\<lparr>next_in := NULL_addr, next_out := NULL_addr, avail_in := 0,
                           avail_out := 0, total_in := 0, total_out := 0\<rparr>
           in andthen (lz4_inflateInit (ud strm) w) (\<lambda>(ret, w). Inr (ret, strm, w)))"

definition inflateCB_lz4 :: "lz4_lib \<Rightarrow> int \<Rightarrow> 'l stream_op" where
  "inflateCB_lz4 L flush strm w =
     andthen (load as_lz4 (ud strm) w) (\<lambda>ctx.
     let ctx = ctx\<lparr>avail_in_lz4 := avail_in strm, avail_out_lz4 := avail_out strm,
                   next_in_lz4 := next_in strm, next_out_lz4 := next_out strm,
                   total_in_lz4 := total_in strm\<rparr>
     in andthen (lz4_inflate L (ud strm) flush (store (ud strm) (Lz4_obj ctx) w)) (\<lambda>(status, w).
     andthen (load as_lz4 (ud strm) w) (\<lambda>ctx.
     let strm = strm\<lparr>next_in := next_in_lz4 ctx, next_out := next_out_lz4 ctx,
                     avail_in := avail_in_lz4 ctx, avail_out := avail_out_lz4 ctx,
                     total_in := total_in_lz4 ctx, total_out := total_out_lz4 ctx\<rparr>
     in Inr (status, strm, w))))"

definition inflateEndCB_lz4 :: "'l stream_op" where
  "inflateEndCB_lz4 strm w = andthen (lz4_inflateEnd (ud strm) w) (\<lambda>(ret, w). Inr (ret, strm, w))"

definition deflateCopyCB_lz4 :: "unizip_stream \<Rightarrow> unizip_stream \<Rightarrow> 'l world \<Rightarrow> (int \<times> unizip_stream \<times> 'l world) res" where
  "deflateCopyCB_lz4 dest source w =
     andthen (lz4_copy (ud dest) (ud source) w) (\<lambda>(ret, w). Inr (ret, dest, w))"

definition inflateCopyCB_lz4 :: "unizip_stream \<Rightarrow> unizip_stream \<Rightarrow> 'l world \<Rightarrow> (int \<times> unizip_stream \<times> 'l world) res" where
  "inflateCopyCB_lz4 dest source w =
     andthen (lz4_copy (ud dest) (ud source) w) (\<lambda>(ret, w). Inr (ret, dest, w))"

definition deflateResetCB_lz4 :: "lz4_lib \<Rightarrow> 'l stream_op" where
  "deflateResetCB_lz4 L strm w =
     (let strm = strm\<lparr>next_in := NULL_addr, next_out := NULL_addr, avail_in := 0, total_in := 0,
                      total_out := 0, avail_out := 0\<rparr>
      in andthen (lz4_end (ud strm) w) (\<lambda>(_, w).
         let (p, w) = lz4_allocate L w; strm = strm\<lparr>ud := p\<rparr>
         in if ud strm = NULL_ptr then Inr (UNIZIP_MEM_ERROR, strm, w)
            else
              let strm = (if compression_flag strm > levelMax_lz4 \<or> compression_flag strm < levelMin_lz4
                          then strm\<lparr>compression_flag := 1\<rparr> else strm)
              in andthen (lz4_deflateInit (ud strm) (compression_flag strm) w)
                   (\<lambda>(ret, w). Inr (ret, strm, w))))"

definition inflateResetCB_lz4 :: "lz4_lib \<Rightarrow> 'l stream_op" where
  "inflateResetCB_lz4 L strm w =
     (let strm = strm\<lparr>next_in := NULL_addr, next_out := NULL_addr, avail_in := 0, total_in := 0,
                      total_out := 0, avail_out := 0\<rparr>
      in andthen (lz4_end (ud strm) w) (\<lambda>(_, w).
         let (p, w) = lz4_allocate L w; strm = strm\<lparr>ud := p\<rparr>
         in if ud strm = NULL_ptr then Inr (UNIZIP_MEM_ERROR, strm, w)
            else andthen (lz4_inflateInit (ud strm) w) (\<lambda>(ret, w). Inr (ret, strm, w))))"

definition compressCB_lz4 ::
  "lz4_lib \<Rightarrow> addr \<Rightarrow> uLong option \<Rightarrow> addr \<Rightarrow> uLong \<Rightarrow> 'l world \<Rightarrow> int \<times> uLong option \<times> 'l world" where
  "compressCB_lz4 L dest destLen source sourceLen w = lz4_compress L dest destLen source sourceLen w"

definition uncompressCB_lz4 ::
  "lz4_lib \<Rightarrow> addr \<Rightarrow> uLong option \<Rightarrow> addr \<Rightarrow> uLong \<Rightarrow> 'l world \<Rightarrow> int \<times> uLong option \<times> 'l world" where
  "uncompressCB_lz4 L dest destLen source sourceLen w = lz4_decompress L dest destLen source sourceLen w"

definition compressBoundCB_lz4 :: "lz4_lib \<Rightarrow> uLong \<Rightarrow> uLong" where
  "compressBoundCB_lz4 L sourceLen = lz4_compressBound L sourceLen"


section \<open>Sessions\<close>

lemma lz4_deflateprocess_keeps:
  "holds as_lz4 p w \<Longrightarrow>
   ensures (lz4_deflateprocess L p w) (\<lambda>(r, w'). keeps as_lz4 p w w' \<and> lib w' = lib w)"
  unfolding lz4_deflateprocess_def ensures_andthen
  by (erule ensures_load) (auto simp: Let_def load_eq_Inr split: prod.splits)

lemma lz4_inflateprocess_keeps:
  "holds as_lz4 p w \<Longrightarrow>
   ensures (lz4_inflateprocess L p w) (\<lambda>(r, w'). keeps as_lz4 p w w' \<and> lib w' = lib w)"
  unfolding lz4_inflateprocess_def ensures_andthen
  by (erule ensures_load) (auto simp: Let_def load_eq_Inr split: prod.splits)

lemma lz4_deflate_keeps:
  assumes "holds as_lz4 p w"
  shows "ensures (lz4_deflate L p f w) (\<lambda>(r, w'). keeps as_lz4 p w w' \<and> lib w' = lib w)"
proof -
  have p: "p \<noteq> 0" using assms by (auto simp: holds_iff)
  have "ensures (lz4_deflateprocess L p (store p (Lz4_obj c) w))
      (\<lambda>(r, w'). keeps as_lz4 p w w' \<and> lib w' = lib w)" for c
    using lz4_deflateprocess_keeps [of p "store p (Lz4_obj c) w" L] p by simp
  with assms show ?thesis
    by (auto simp: lz4_deflate_def Let_def intro: ensures_load)
qed

lemma lz4_inflate_keeps:
  assumes "holds as_lz4 p w"
  shows "ensures (lz4_inflate L p f w) (\<lambda>(r, w'). keeps as_lz4 p w w' \<and> lib w' = lib w)"
proof -
  have p: "p \<noteq> 0" using assms by (auto simp: holds_iff)
  have "ensures (lz4_inflateprocess L p (store p (Lz4_obj c) w))
      (\<lambda>(r, w'). keeps as_lz4 p w w' \<and> lib w' = lib w)" for c
    using lz4_inflateprocess_keeps [of p "store p (Lz4_obj c) w" L] p by simp
  with assms show ?thesis
    by (auto simp: lz4_inflate_def Let_def intro: ensures_load)
qed

lemma deflateCB_lz4_keeps:
  assumes "holds as_lz4 (ud s) w"
  shows "ensures (deflateCB_lz4 L f s w) (\<lambda>(r, s', w'). ud s' = ud s \<and> keeps as_lz4 (ud s) w w')"
proof -
  have p: "ud s \<noteq> 0" using assms by (auto simp: holds_iff)
  have "ensures (lz4_deflate L (ud s) f (store (ud s) (Lz4_obj c) w))
      (\<lambda>(r, w'). ensures (load as_lz4 (ud s) w') (\<lambda>c. keeps as_lz4 (ud s) w w'))" for c
    using lz4_deflate_keeps [of "ud s" "store (ud s) (Lz4_obj c) w" L f] p
    by (auto elim!: ensures_mono2 intro: ensures_load simp: keeps_def)
  with assms show ?thesis
    by (auto simp: deflateCB_lz4_def Let_def case_prod_unfold intro: ensures_load)
qed

lemma inflateCB_lz4_keeps:
  assumes "holds as_lz4 (ud s) w"
  shows "ensures (inflateCB_lz4 L f s w) (\<lambda>(r, s', w'). ud s' = ud s \<and> keeps as_lz4 (ud s) w w')"
proof -
  have p: "ud s \<noteq> 0" using assms by (auto simp: holds_iff)
  have "ensures (lz4_inflate L (ud s) f (store (ud s) (Lz4_obj c) w))
      (\<lambda>(r, w'). ensures (load as_lz4 (ud s) w') (\<lambda>c. keeps as_lz4 (ud s) w w'))" for c
    using lz4_inflate_keeps [of "ud s" "store (ud s) (Lz4_obj c) w" L f] p
    by (auto elim!: ensures_mono2 intro: ensures_load simp: keeps_def)
  with assms show ?thesis
    by (auto simp: inflateCB_lz4_def Let_def case_prod_unfold intro: ensures_load)
qed

lemma lz4_init_keeps:
  "holds as_lz4 p w \<Longrightarrow> ensures (lz4_deflateInit p level w) (\<lambda>(r, w'). keeps as_lz4 p w w')"
  "holds as_lz4 p w \<Longrightarrow> ensures (lz4_inflateInit p w) (\<lambda>(r, w'). keeps as_lz4 p w w')"
  by (auto simp: lz4_deflateInit_def lz4_inflateInit_def Let_def holds_iff load_eq_Inr
      intro!: ensures_load)

lemma deflateInitCB_lz4_acquires:
  assumes "wf_heap w" and "deflateInitCB_lz4 L level s w = Inr (UNIZIP_OK, s', w')"
  shows "acquires as_lz4 (ud s') w w' \<and> wf_heap w'"
proof -
  obtain p w1 where m: "malloc (Lz4_obj (lz4_indet L)) w = (p, w1)" by (cases "malloc (Lz4_obj (lz4_indet L)) w")
  from assms(2) m have p: "p \<noteq> 0"
    and i: "lz4_deflateInit p level w1 = Inr (UNIZIP_OK, w')" and "ud s' = p"
    by (auto simp: deflateInitCB_lz4_def lz4_allocate_def Let_def andthen_eq_Inr split: if_splits)
  with malloc_acquires [OF m p assms(1), of as_lz4] lz4_init_keeps(1) [of p w1 level]
  show ?thesis by (auto intro: acquires_keeps keeps_wf)
qed

lemma inflateInitCB_lz4_acquires:
  assumes "wf_heap w" and "inflateInitCB_lz4 L s w = Inr (UNIZIP_OK, s', w')"
  shows "acquires as_lz4 (ud s') w w' \<and> wf_heap w'"
proof -
  obtain p w1 where m: "malloc (Lz4_obj (lz4_indet L)) w = (p, w1)" by (cases "malloc (Lz4_obj (lz4_indet L)) w")
  from assms(2) m have p: "p \<noteq> 0"
    and i: "lz4_inflateInit p w1 = Inr (UNIZIP_OK, w')" and "ud s' = p"
    by (auto simp: inflateInitCB_lz4_def lz4_allocate_def Let_def andthen_eq_Inr split: if_splits)
  with malloc_acquires [OF m p assms(1), of as_lz4] lz4_init_keeps(2) [of p w1]
  show ?thesis by (auto intro: acquires_keeps keeps_wf)
qed

lemma lz4_end_releases:
  assumes "wf_heap w" and "holds as_lz4 (ud s) w"
  shows "ensures (deflateEndCB_lz4 s w) (\<lambda>(r, s', w'). wf_heap w' \<and> releases (ud s) w w')"
    and "ensures (inflateEndCB_lz4 s w) (\<lambda>(r, s', w'). wf_heap w' \<and> releases (ud s) w w')"
  using assms free_releases [OF assms(2)]
  by (auto simp: deflateEndCB_lz4_def inflateEndCB_lz4_def lz4_deflateEnd_def lz4_inflateEnd_def
      holds_iff elim!: ensures_mono intro: releases_wf)

text \<open>The stream before a reset ends it, and the level it initialises with.\<close>

definition lz4_reset_level :: "unizip_stream \<Rightarrow> int" where
  "lz4_reset_level s = (if compression_flag s > levelMax_lz4 \<or> compression_flag s < levelMin_lz4
     then 1 else compression_flag s)"

interpretation lz4_deflate: context_session as_lz4 "deflateInitCB_lz4 L" "deflateCB_lz4 L"
  deflateEndCB_lz4 for L
  by (rule context_session.intro)
    (simp_all add: deflateInitCB_lz4_acquires deflateCB_lz4_keeps lz4_end_releases)

interpretation lz4_deflate_session: resettable "deflateInitCB_lz4 L" "deflateCB_lz4 L"
  deflateEndCB_lz4 wf_heap "holds as_lz4" heap heap_but "deflateResetCB_lz4 L" reset_counters
  lz4_reset_level for L
proof unfold_locales
  fix s and w :: "'a world"
  show "deflateResetCB_lz4 L s w = andthen (deflateEndCB_lz4 (reset_counters s) w)
      (\<lambda>(r, s', w'). deflateInitCB_lz4 L (lz4_reset_level s) s' w')"
    by (auto simp: deflateResetCB_lz4_def deflateEndCB_lz4_def lz4_end_def lz4_deflateEnd_def
        deflateInitCB_lz4_def lz4_reset_level_def reset_counters_def Let_def andthen_def
        split: sum.splits prod.splits)
qed simp

lemma lz4_deflate_reset_end_init:
  "deflateResetCB_lz4 L s w = andthen (deflateEndCB_lz4 (reset_counters s) w)
     (\<lambda>(r, s', w'). deflateInitCB_lz4 L (lz4_reset_level s) s' w')"
  by (rule lz4_deflate_session.reset_end_init)

text \<open>
  \<open>inflateResetCB_lz4\<close> ends with \<open>lz4_end\<close>, which differs from \<open>inflateEndCB_lz4\<close> only in
  the code it returns for a \<open>NULL\<close> context.
\<close>

lemma lz4_inflate_reset_end_init:
  "inflateResetCB_lz4 L s w = andthen (inflateEndCB_lz4 (reset_counters s) w)
     (\<lambda>(r, s', w'). inflateInitCB_lz4 L s' w')"
  by (auto simp: inflateResetCB_lz4_def lz4_end_def inflateEndCB_lz4_def lz4_inflateEnd_def
      inflateInitCB_lz4_def reset_counters_def free_def Let_def andthen_def
      split: sum.splits prod.splits)

interpretation lz4_inflate: context_session as_lz4 "\<lambda>level. inflateInitCB_lz4 L" "inflateCB_lz4 L"
  inflateEndCB_lz4 for L
  by (rule context_session.intro)
    (simp_all add: inflateInitCB_lz4_acquires inflateCB_lz4_keeps lz4_end_releases)

interpretation lz4_inflate_session: resettable "\<lambda>level. inflateInitCB_lz4 L" "inflateCB_lz4 L"
  inflateEndCB_lz4 wf_heap "holds as_lz4" heap heap_but "inflateResetCB_lz4 L" reset_counters
  "\<lambda>s. 0" for L
  by unfold_locales (simp_all add: lz4_inflate_reset_end_init)

section \<open>Properties\<close>

definition demo_lz4 :: lz4_lib where
  "demo_lz4 = \<lparr>LZ4_versionString = ''1.9.4'', LZ4_MAX_INPUT_SIZE = 2113929216,
     LZ4_compress_default = store_compress,
     LZ4_compress_fast = (\<lambda>src dst n cap level. store_compress src dst n cap),
     LZ4_decompress_safe = store_decompress,
     lz4_indet = \<lparr>next_in_lz4 = 5, next_out_lz4 = 6, avail_in_lz4 = 7, avail_out_lz4 = 8,
       total_in_lz4 = 9, total_out_lz4 = 10, level_lz4 = 11, input_length_lz4 = 12, src_lz4 = 13,
       dst_lz4 = 14\<rparr>\<rparr>"

lemma demo_lz4_simps [simp]:
  "LZ4_MAX_INPUT_SIZE demo_lz4 = 2113929216" "LZ4_compress_default demo_lz4 = store_compress"
  "LZ4_compress_fast demo_lz4 = (\<lambda>src dst n cap level. store_compress src dst n cap)"
  "LZ4_decompress_safe demo_lz4 = store_decompress"
  by (simp_all add: demo_lz4_def)

text \<open>
  An LZ4 deflate session that initialises successfully, makes any calls with any flush
  values and any refills, and ends, never touches freed or foreign memory and leaves the
  heap exactly as it was before.
\<close>

theorem lz4_deflate_lifecycle:
  assumes "wf_heap w" and "deflateInitCB_lz4 L level s w = Inr (UNIZIP_OK, s1, w1)"
  shows "ensures (andthen (run_calls (deflateCB_lz4 L) cs s1 w1) (\<lambda>(rs, s, w). deflateEndCB_lz4 s w))
    (\<lambda>(r, s', w'). heap w' = heap w)"
  by (rule lz4_deflate.session_clean [OF assms])

theorem lz4_deflate_lifecycle_witness:
  "\<exists>s1 w1. deflateInitCB_lz4 demo_lz4 3 demo_stream demo_world = Inr (0, s1, w1) \<and>
     ensures (andthen (run_calls (deflateCB_lz4 demo_lz4) [(Buffers [1, 2] 10 2 100 9, 4)] s1 w1)
       (\<lambda>(rs, s, w). deflateEndCB_lz4 s w)) (\<lambda>(r, s', w'). heap w' = heap demo_world)"
proof -
  obtain s1 w1 where "deflateInitCB_lz4 demo_lz4 3 demo_stream demo_world = Inr (0, s1, w1)"
    by (simp add: deflateInitCB_lz4_def lz4_allocate_def malloc_ok lz4_deflateInit_def Let_def
        load_def deref_def)
  with lz4_deflate_lifecycle [OF wf_demo_world this] show ?thesis by blast
qed

text \<open>
  Compressing a buffer with \<open>compress\<close> and decompressing the result with
  \<open>uncompress\<close> returns success, the original length and the original bytes, for every input
  of less than 2 GiB, if LZ4 itself is lossless and the buffers do not overlap.
\<close>

theorem lz4_roundtrip:
  assumes lib: "lossless (LZ4_compress_default L) (LZ4_decompress_safe L)"
    and ptrs: "source \<noteq> 0" "dest \<noteq> 0" "dest' \<noteq> 0"
    and small: "uint n < 2 ^ 31" "0 < n" "uint cap < 2 ^ 31" "uint cap' < 2 ^ 31" "n \<le> cap'"
    and apart: "disjoint_ranges source (unat n) dest (unat cap)"
      "disjoint_ranges dest (unat cap) dest' (unat cap')"
    and comp: "compressCB_lz4 L dest (Some cap) source n w = (UNIZIP_OK, Some len, w')"
  shows "\<exists>w''. uncompressCB_lz4 L dest' (Some cap') dest len w' = (UNIZIP_OK, Some n, w'') \<and>
    read_mem (bytes w'') dest' (unat n) = read_mem (bytes w) source (unat n)"
proof -
  have ci: "c_int n = uint n" "c_int cap = uint cap" "c_int cap' = uint cap'"
    using small by (simp_all add: c_int_small)
  have n: "0 < uint n" "uint n \<le> uint cap'"
    using small(2,5) by (simp_all add: word_less_def word_le_def)
  obtain r m' where c: "LZ4_compress_default L source dest (uint n) (uint cap) (bytes w) = (r, m')"
    by fastforce
  with comp ptrs have r: "0 < r" "len = word_of_int r" "bytes w' = m'"
    by (auto simp: compressCB_lz4_def lz4_compress_def Let_def ci split: if_splits)
  have apart1: "disjoint_ranges source (nat (uint n)) dest (nat (uint cap))"
    using apart(1) by simp
  note lossy = losslessD [OF lib _ small(1,3) apart1 c r(1)]
  have rc: "r \<le> uint cap" by (rule lossy(1)) simp
  then have len: "c_int len = r" using r small(3) by (simp add: c_int_word_of_int)
  have "disjoint_ranges dest (nat r) dest' (nat (uint cap'))"
    using apart(2) by (rule disjoint_ranges_mono) (use nat_mono [OF rc] in simp_all)
  from lossy(2) [OF _ n(2) this refl] obtain m2 where
    d: "LZ4_decompress_safe L dest dest' r (uint cap') m' = (uint n, m2)"
      "read_mem m2 dest' (unat n) = read_mem (bytes w) source (unat n)"
    by auto
  show ?thesis
    using ptrs n(1) r(3) d by (simp add: uncompressCB_lz4_def lz4_decompress_def Let_def ci len)
qed

theorem lz4_roundtrip_witness:
  "\<exists>w' w''. compressCB_lz4 demo_lz4 2000 (Some 50) 1000 3 demo_world = (0, Some 4, w') \<and>
     uncompressCB_lz4 demo_lz4 3000 (Some 50) 2000 4 w' = (0, Some 3, w'') \<and>
     read_mem (bytes w'') 3000 3 = [7, 8, 9]"
proof -
  obtain w' where c: "compressCB_lz4 demo_lz4 2000 (Some 50) 1000 3 demo_world = (0, Some 4, w')"
    by (simp add: compressCB_lz4_def lz4_compress_def Let_def store_compress_def c_int_def)
  have apart: "disjoint_ranges 1000 (unat (3 :: uLong)) 2000 (unat (50 :: uLong))"
    "disjoint_ranges 2000 (unat (50 :: uLong)) 3000 (unat (50 :: uLong))"
    by (rule disjoint_ranges_far; simp)+
  have "\<exists>w''. uncompressCB_lz4 demo_lz4 3000 (Some 50) 2000 4 w' = (0, Some 3, w'') \<and>
      read_mem (bytes w'') 3000 (unat (3 :: uLong)) = read_mem (bytes demo_world) 1000 (unat (3 :: uLong))"
    by (rule lz4_roundtrip [OF _ _ _ _ _ _ _ _ _ apart c]) (simp_all add: store_lossless)
  with c show ?thesis using demo_bytes by auto
qed

lemma lz4_finish_eq:
  assumes "load as_lz4 (ud s) w = Inr c"
    and "LZ4_compress_fast L (next_in s) (next_out s) (c_int (avail_in s)) (c_int (avail_out s))
      (level_lz4 c) (bytes w) = (r, m)"
  shows "\<exists>c'. deflateCB_lz4 L 4 s w = Inr
    (if r \<le> 0
     then (UNIZIP_BUF_ERROR, s\<lparr>total_in := ucast (avail_in s), avail_in := 0\<rparr>,
           store (ud s) (Lz4_obj c') (w\<lparr>bytes := m\<rparr>))
     else (UNIZIP_STREAM_END, s\<lparr>next_in := next_in s + word_of_int (c_int (avail_in s)),
           total_in := ucast (avail_in s), next_out := next_out s + word_of_int r,
           total_out := word_of_int r, avail_in := 0, avail_out := avail_out s - word_of_int r\<rparr>,
           store (ud s) (Lz4_obj c') (w\<lparr>bytes := m\<rparr>)))"
  using assms load_nonnull [OF assms(1)]
  by (auto simp: deflateCB_lz4_def lz4_deflate_def lz4_deflateprocess_def Let_def)

lemma lz4_no_finish:
  assumes "holds as_lz4 (ud s) w" and "f \<noteq> 4"
  shows "ensures (deflateCB_lz4 L f s w) (\<lambda>(r, s', w').
    r = (if f = 0 then UNIZIP_OK else UNIZIP_ERRNO) \<and> s' = s)"
proof -
  from assms(1) obtain c where c: "load as_lz4 (ud s) w = Inr c" by (auto simp: holds_def)
  with load_nonnull [OF c] assms(2) show ?thesis
    by (simp add: deflateCB_lz4_def lz4_deflate_def Let_def)
qed

text \<open>
  The stream after an LZ4 \<open>deflate\<close> call.  Without \<open>Z_FINISH\<close> nothing changes (\<open>flush\<close> 0
  succeeds, any other value is refused).  With \<open>Z_FINISH\<close> a success consumes the whole
  input: the input pointer has moved by \<open>avail_in\<close>, and the output pointer, the output
  total and the room left agree with the bytes produced.  A failure reports
  \<open>UNIZIP_BUF_ERROR\<close>, keeps the pointers, and still sets \<open>avail_in\<close> to 0.
\<close>

theorem lz4_deflate_stream:
  assumes ctx: "load as_lz4 (ud s) w = Inr c"
    and small: "uint (avail_in s) < 2 ^ 31" "uint (avail_out s) < 2 ^ 31"
    and fits: "\<And>src dst n cap lv m. fst (LZ4_compress_fast L src dst n cap lv m) \<le> max 0 cap"
  shows "ensures (deflateCB_lz4 L f s w) (\<lambda>(r, s', w').
    if f = 4 then
      (r = UNIZIP_STREAM_END \<and> next_in s' = next_in s + ucast (avail_in s) \<and> avail_in s' = 0 \<and>
         total_in s' = ucast (avail_in s) \<and> next_out s' = next_out s + total_out s' \<and>
         uint (total_out s') + uint (avail_out s') = uint (avail_out s) \<and> 0 < total_out s') \<or>
      (r = UNIZIP_BUF_ERROR \<and> next_in s' = next_in s \<and> next_out s' = next_out s \<and>
         avail_out s' = avail_out s \<and> avail_in s' = 0)
    else r = (if f = 0 then UNIZIP_OK else UNIZIP_ERRNO) \<and> s' = s)"
proof -
  have p: "ud s \<noteq> 0" using ctx by (auto simp: load_eq_Inr)
  have ci: "c_int (ucast (avail_in s) :: uLong) = uint (avail_in s)" "c_int (avail_out s) = uint (avail_out s)"
    using small by (simp_all add: c_int_small)
  obtain r m where lib: "LZ4_compress_fast L (next_in s) (next_out s) (uint (avail_in s))
      (uint (avail_out s)) (level_lz4 c) (bytes w) = (r, m)" by fastforce
  then have le: "r \<le> uint (avail_out s)"
    using fits [of "next_in s" "next_out s" "uint (avail_in s)" "uint (avail_out s)" "level_lz4 c" "bytes w"]
    by simp
  have room: "uint (avail_out s - word_of_int r) = uint (avail_out s) - r"
    "uint (word_of_int r :: uLong) = r" "(word_of_int r :: uLong) \<noteq> 0" if "0 < r"
  proof -
    have "uint (word_of_int r :: uInt) = r"
      using le small that by (simp add: uint_word_of_int_eq take_bit_int_eq_self)
    then show "uint (avail_out s - word_of_int r) = uint (avail_out s) - r"
      using le by (simp add: uint_minus_no_borrow)
    show "uint (word_of_int r :: uLong) = r"
      using le small that by (simp add: uint_word_of_int_eq take_bit_int_eq_self)
    with that show "(word_of_int r :: uLong) \<noteq> 0" by auto
  qed
  show ?thesis
  proof (cases "f = 4")
    case True
    then show ?thesis
      using lz4_finish_eq [OF ctx, of L r m] lib ci room by (auto simp: word_gt_0 word_of_int_uint)
  next
    case False
    have "holds as_lz4 (ud s) w" using ctx by (simp add: holds_def)
    from lz4_no_finish [OF this False, of L] show ?thesis
      by (rule ensures_mono3) (use False in auto)
  qed
qed

theorem lz4_deflate_stream_witness:
  "ensures (deflateInitCB_lz4 demo_lz4 1 demo_stream demo_world) (\<lambda>(r, s, w).
   ensures (deflateCB_lz4 demo_lz4 4 (s\<lparr>next_in := 1000, avail_in := 3, next_out := 2000, avail_out := 9\<rparr>) w)
     (\<lambda>(r, s', w'). r = 1 \<and> next_in s' = 1003 \<and> avail_in s' = 0 \<or> r = - 5))"
proof -
  obtain s1 w1 c where i: "deflateInitCB_lz4 demo_lz4 1 demo_stream demo_world = Inr (0, s1, w1)"
    and c: "load as_lz4 (ud s1) w1 = Inr c"
    by (simp add: deflateInitCB_lz4_def lz4_allocate_def malloc_ok lz4_deflateInit_def Let_def
        load_def deref_def)
  let ?s = "s1\<lparr>next_in := 1000, avail_in := 3, next_out := 2000, avail_out := 9\<rparr>"
  have "load as_lz4 (ud ?s) w1 = Inr c" using c by simp
  then have "ensures (deflateCB_lz4 demo_lz4 4 ?s w1) (\<lambda>(r, s', w').
      r = 1 \<and> next_in s' = 1003 \<and> avail_in s' = 0 \<or> r = - 5)"
    by (rule ensures_mono3 [OF lz4_deflate_stream]) (auto simp: store_compress_def)
  with i show ?thesis by simp
qed

lemma lz4_inflate_eq:
  assumes "load as_lz4 (ud t) w = Inr c"
    and "LZ4_decompress_safe L (next_in t) (next_out t) (c_int (avail_in t)) (c_int (avail_out t)) (bytes w) = (r, m)" and "0 < r"
  shows "\<exists>c'. inflateCB_lz4 L f t w = Inr (UNIZIP_STREAM_END, t\<lparr>next_in := next_in t + word_of_int (c_int (avail_in t)),
      total_in := ucast (avail_in t), next_out := next_out t + word_of_int r, total_out := word_of_int r, avail_in := 0,
      avail_out := avail_out t - word_of_int r\<rparr>, store (ud t) (Lz4_obj c') (w\<lparr>bytes := m\<rparr>))"
  using assms load_nonnull [OF assms(1)]
  by (auto simp: inflateCB_lz4_def lz4_inflate_def lz4_inflateprocess_def Let_def)

text \<open>
  C14: one \<open>deflate\<close> call with \<open>Z_FINISH\<close> that reports the end of the stream, followed by one \<open>inflate\<close>
  call on the bytes \<open>total_out\<close> counts, in any world that holds them, is lossless for LZ4: the inflate
  call reports the end of the stream, the original length and the original bytes.
\<close>

theorem lz4_stream_roundtrip:
  assumes lib: "\<forall>lv. lossless (\<lambda>src dst n cap. LZ4_compress_fast L src dst n cap lv) (LZ4_decompress_safe L)"
    and s: "holds as_lz4 (ud s) w" and t: "holds as_lz4 (ud t) w2"
    and small: "0 < avail_in s" "uint (avail_in s) < 2 ^ 31" "uint (avail_out s) < 2 ^ 31" "uint (avail_out t) < 2 ^ 31" "avail_in s \<le> avail_out t"
    and apart: "disjoint_ranges (next_in s) (unat (avail_in s)) (next_out s) (unat (avail_out s))"
      "disjoint_ranges (next_in t) (unat (avail_in t)) (next_out t) (unat (avail_out t))"
    and defl: "deflateCB_lz4 L 4 s w = Inr (UNIZIP_STREAM_END, s1, w1)"
    and moved: "total_out s1 = ucast (avail_in t)"
      "read_mem (bytes w2) (next_in t) (unat (avail_in t)) = read_mem (bytes w1) (next_out s) (unat (avail_in t))"
  shows "ensures (inflateCB_lz4 L f t w2) (\<lambda>(r, t', w3). r = UNIZIP_STREAM_END \<and> total_out t' = ucast (avail_in s) \<and>
    read_mem (bytes w3) (next_out t) (unat (avail_in s)) = read_mem (bytes w) (next_in s) (unat (avail_in s)))"
proof -
  from s obtain c where c: "load as_lz4 (ud s) w = Inr c" by (auto simp: holds_def)
  from t obtain d where d: "load as_lz4 (ud t) w2 = Inr d" by (auto simp: holds_def)
  have ci: "c_int (avail_in s) = uint (avail_in s)" "c_int (avail_out s) = uint (avail_out s)" "c_int (avail_out t) = uint (avail_out t)"
    using small by (simp_all add: c_int_small)
  obtain r m where e: "LZ4_compress_fast L (next_in s) (next_out s) (uint (avail_in s)) (uint (avail_out s)) (level_lz4 c) (bytes w) = (r, m)"
    by fastforce
  from lz4_finish_eq [OF c, of L r m] e defl have r: "0 < r" "total_out s1 = word_of_int r" "bytes w1 = m"
    by (auto simp: ci split: if_splits)
  have apart1: "disjoint_ranges (next_in s) (nat (uint (avail_in s))) (next_out s) (nat (uint (avail_out s)))" using apart(1) by simp
  note con = losslessD [OF spec [OF lib] _ small(2,3) apart1 e r(1)]
  have rc: "r \<le> uint (avail_out s)" by (rule con(1)) simp
  have "uint (avail_in t) = uint (ucast (avail_in t) :: uLong)" by (simp add: unsigned_ucast_eq take_bit_int_eq_self)
  also have "\<dots> = r" using r(1,2) rc small(3) moved(1) by (simp add: uint_word_of_int_eq take_bit_int_eq_self)
  finally have len: "uint (avail_in t) = r" .
  then have k: "unat (avail_in t) = nat r" "c_int (avail_in t) = r"
    using rc small(3) by (auto simp: c_int_small simp flip: nat_uint_eq)
  have apart2: "disjoint_ranges (next_in t) (nat r) (next_out t) (nat (uint (avail_out t)))" using apart(2) k(1) by simp
  have rd: "read_mem (bytes w2) (next_in t) (nat r) = read_mem m (next_out s) (nat r)" using moved(2) by (simp add: k r(3))
  have "uint (avail_in s) \<le> uint (avail_out t)" using small(5) by (simp add: word_le_def)
  from con(2) [OF _ this apart2 rd] obtain m2 where
    "LZ4_decompress_safe L (next_in t) (next_out t) (c_int (avail_in t)) (c_int (avail_out t)) (bytes w2) = (uint (avail_in s), m2)"
    "read_mem m2 (next_out t) (unat (avail_in s)) = read_mem (bytes w) (next_in s) (unat (avail_in s))"
    by (auto simp: k ci)
  with lz4_inflate_eq [OF d this(1), of f] small(1) show ?thesis by (auto simp: word_less_def)
qed

theorem lz4_stream_roundtrip_witness:
  "\<exists>s t (w :: ptr list world). ensures (deflateCB_lz4 demo_lz4 4 s w) (\<lambda>(r, s1, w1). r = 1 \<and> total_out s1 = 4 \<and>
     ensures (inflateCB_lz4 demo_lz4 0 t w1) (\<lambda>(r', t', w3). r' = 1 \<and> total_out t' = 3 \<and> read_mem (bytes w3) 3000 3 = [7, 8, 9]))"
proof -
  obtain s w c where c: "deflateInitCB_lz4 demo_lz4 1 demo_stream demo_world = Inr (0, s, w)" "load as_lz4 (ud s) w = Inr c" "bytes w = bytes demo_world"
    by (simp add: deflateInitCB_lz4_def lz4_allocate_def malloc_ok lz4_deflateInit_def Let_def load_def deref_def)
  let ?s = "s\<lparr>next_in := 1000, avail_in := 3, next_out := 2000, avail_out := 50\<rparr>"
  let ?t = "s\<lparr>next_in := 2000, avail_in := 4, next_out := 3000, avail_out := 50\<rparr>"
  let ?m = "write_mem (bytes w) 2000 (0 # read_mem (bytes w) 1000 3)"
  have c1: "load as_lz4 (ud ?s) w = Inr c" using c by simp
  have "\<exists>c'. deflateCB_lz4 demo_lz4 4 ?s w = Inr (1, ?s\<lparr>next_in := 1003, total_in := 3, next_out := 2004, total_out := 4, avail_in := 0,
      avail_out := 46\<rparr>, store (ud s) (Lz4_obj c') (w\<lparr>bytes := ?m\<rparr>))"
    using lz4_finish_eq [OF c1, of demo_lz4 4 ?m] by (simp add: store_compress_def c_int_small del: write_mem.simps)
  then obtain c' where d: "deflateCB_lz4 demo_lz4 4 ?s w = Inr (1, ?s\<lparr>next_in := 1003, total_in := 3, next_out := 2004, total_out := 4, avail_in := 0,
      avail_out := 46\<rparr>, store (ud s) (Lz4_obj c') (w\<lparr>bytes := ?m\<rparr>))" by blast
  let ?w1 = "store (ud s) (Lz4_obj c') (w\<lparr>bytes := ?m\<rparr>)"
  have h: "holds as_lz4 (ud ?s) w" "holds as_lz4 (ud ?t) ?w1" using c load_nonnull [OF c(2)] by (simp_all add: holds_def)
  have apart: "disjoint_ranges (next_in ?s) (unat (avail_in ?s)) (next_out ?s) (unat (avail_out ?s))"
    "disjoint_ranges (next_in ?t) (unat (avail_in ?t)) (next_out ?t) (unat (avail_out ?t))"
    by (rule disjoint_ranges_far; simp)+
  have lib: "\<forall>lv. lossless (\<lambda>src dst n cap. LZ4_compress_fast demo_lz4 src dst n cap lv) (LZ4_decompress_safe demo_lz4)"
    by (simp add: store_lossless)
  have "ensures (inflateCB_lz4 demo_lz4 0 ?t ?w1) (\<lambda>(r, t', w3). r = UNIZIP_STREAM_END \<and> total_out t' = ucast (avail_in ?s) \<and>
      read_mem (bytes w3) (next_out ?t) (unat (avail_in ?s)) = read_mem (bytes w) (next_in ?s) (unat (avail_in ?s)))"
    by (rule lz4_stream_roundtrip [OF lib h _ _ _ _ _ apart d]) simp_all
  with d c(3) demo_bytes show ?thesis by - (rule exI [of _ ?s], rule exI [of _ ?t], rule exI [of _ w], simp)
qed

text \<open>
  C27: after an LZ4 \<open>deflate\<close> has failed for lack of output space, retrying with a larger
  output buffer, as zlib allows, compresses the empty input: a retry that reports
  \<open>UNIZIP_STREAM_END\<close> reports 0 bytes consumed, although the first call was given input.
\<close>

theorem lz4_retry_loses_input:
  assumes "holds as_lz4 (ud s) w"
    and "deflateCB_lz4 L 4 s w = Inr (UNIZIP_BUF_ERROR, s1, w1)"
    and "deflateCB_lz4 L 4 (s1\<lparr>next_out := out, avail_out := room\<rparr>) w1 = Inr (UNIZIP_STREAM_END, s2, w2)"
  shows "total_in s2 = 0 \<and> next_in s2 = next_in s"
proof -
  from assms(1) obtain c where "load as_lz4 (ud s) w = Inr c" by (auto simp: holds_def)
  from lz4_finish_eq [OF this, of L] assms(2)
  have s1: "s1 = s\<lparr>total_in := ucast (avail_in s), avail_in := 0\<rparr>"
    by (cases "LZ4_compress_fast L (next_in s) (next_out s) (c_int (avail_in s))
      (c_int (avail_out s)) (level_lz4 c) (bytes w)") (force split: if_splits)
  let ?s = "s1\<lparr>next_out := out, avail_out := room\<rparr>"
  from assms(3) obtain c1 where c1: "load as_lz4 (ud ?s) w1 = Inr c1"
    by (auto simp: deflateCB_lz4_def andthen_eq_Inr)
  from lz4_finish_eq [OF this, of L] assms(3)
  have "total_in s2 = ucast (avail_in ?s) \<and> next_in s2 = next_in ?s + word_of_int (c_int (avail_in ?s))"
    by (cases "LZ4_compress_fast L (next_in ?s) (next_out ?s) (c_int (avail_in ?s))
      (c_int (avail_out ?s)) (level_lz4 c1) (bytes w1)") (force split: if_splits)
  with s1 show ?thesis by simp
qed

theorem lz4_retry_loses_input_witness:
  "ensures (deflateInitCB_lz4 demo_lz4 1 demo_stream demo_world) (\<lambda>(r, s, w).
   ensures (deflateCB_lz4 demo_lz4 4 (s\<lparr>next_in := 1000, avail_in := 3, next_out := 2000, avail_out := 2\<rparr>) w)
     (\<lambda>(r, s1, w1). r = - 5 \<and>
   ensures (deflateCB_lz4 demo_lz4 4 (s1\<lparr>next_out := 2000, avail_out := 9\<rparr>) w1)
     (\<lambda>(r, s2, w2). r = 1 \<and> total_in s2 = 0)))"
proof -
  obtain s0 w0 c where i: "deflateInitCB_lz4 demo_lz4 1 demo_stream demo_world = Inr (0, s0, w0)"
    and c: "load as_lz4 (ud s0) w0 = Inr c" and p: "ud s0 \<noteq> 0"
    by (simp add: deflateInitCB_lz4_def lz4_allocate_def malloc_ok lz4_deflateInit_def Let_def
        load_def deref_def)
  let ?s = "s0\<lparr>next_in := 1000, avail_in := 3, next_out := 2000, avail_out := 2\<rparr>"
  have h: "holds as_lz4 (ud ?s) w0" using c by (simp add: holds_def)
  obtain s1 w1 c1 where 1: "deflateCB_lz4 demo_lz4 4 ?s w0 = Inr (- 5, s1, w1)"
    and s1: "load as_lz4 (ud s1) w1 = Inr c1" "ud s1 = ud s0" "avail_in s1 = 0"
    using lz4_finish_eq [of ?s w0 c demo_lz4 0 "bytes w0"] c p
    by (fastforce simp: store_compress_def c_int_def)
  obtain s2 w2 where 2: "deflateCB_lz4 demo_lz4 4 (s1\<lparr>next_out := 2000, avail_out := 9\<rparr>) w1 = Inr (1, s2, w2)"
    using lz4_finish_eq [of "s1\<lparr>next_out := 2000, avail_out := 9\<rparr>" w1 c1 demo_lz4] s1
    by (fastforce simp: store_compress_def c_int_def)
  from lz4_retry_loses_input [OF h 1 2] i 1 2 show ?thesis by simp
qed

text \<open>
  \<open>compressBound\<close> for LZ4 is the documented bound without overflow for every size LZ4
  accepts, is at least the size, fits the \<open>int\<close> that the compressor takes as its capacity,
  and is 0 for larger sizes.
\<close>

theorem lz4_compressBound_correct:
  assumes "LZ4_MAX_INPUT_SIZE L = 0x7E000000"
  shows "uint (compressBoundCB_lz4 L n) =
      (if uint n \<le> 0x7E000000 then uint n + uint n div 255 + 16 else 0) \<and>
    c_int (compressBoundCB_lz4 L n) = uint (compressBoundCB_lz4 L n)"
proof -
  have *: "uint (compressBoundCB_lz4 L n) =
      (if uint n \<le> 0x7E000000 then uint n + uint n div 255 + 16 else 0)"
  proof (cases "uint n \<le> 0x7E000000")
    case True
    have "uint (n div 255) = uint n div 255" by (simp add: uint_div_distrib)
    moreover have d: "0 \<le> uint n div 255" "uint n div 255 \<le> 8290310"
      using zdiv_mono1 [OF True, of 255] by (simp_all add: pos_imp_zdiv_nonneg_iff)
    ultimately have "uint (n + (n div 255 + 16)) = uint n + uint n div 255 + 16"
      using True d by (simp add: uint_word_ariths mod_add_right_eq)
    then show ?thesis using True assms
      by (simp add: compressBoundCB_lz4_def lz4_compressBound_def word_less_def)
  next
    case False
    then show ?thesis using assms
      by (simp add: compressBoundCB_lz4_def lz4_compressBound_def word_less_def)
  qed
  moreover have "c_int (compressBoundCB_lz4 L n) = uint (compressBoundCB_lz4 L n)"
  proof (rule c_int_small, cases "uint n \<le> 0x7E000000")
    case True
    then show "uint (compressBoundCB_lz4 L n) < 2 ^ 31"
      using zdiv_mono1 [OF True, of 255] by (simp add: *)
  qed (simp add: *)
  ultimately show ?thesis by blast
qed

theorem lz4_compressBound_correct_witness:
  "uint (compressBoundCB_lz4 demo_lz4 1000) = 1019"
  using lz4_compressBound_correct [of demo_lz4 1000] by simp

text \<open>
  Copying an LZ4 stream copies the whole context and shares nothing: the two contexts
  are equal afterwards, and both streams can be ended, in either order, without a fault.
\<close>

theorem lz4_copy_independent:
  assumes "load as_lz4 (ud src) w = Inr c" and "holds as_lz4 (ud dst) w" and "ud dst \<noteq> ud src"
  shows "ensures (deflateCopyCB_lz4 dst src w) (\<lambda>(r, dst', w').
    r = UNIZIP_OK \<and> load as_lz4 (ud dst') w' = Inr c \<and> load as_lz4 (ud src) w' = Inr c \<and>
    ensures (andthen (deflateEndCB_lz4 dst' w') (\<lambda>(_, _, w'). deflateEndCB_lz4 src w'))
      (\<lambda>(r, _, w''). heap w'' = (heap w)(ud dst := None, ud src := None)) \<and>
    ensures (andthen (deflateEndCB_lz4 src w') (\<lambda>(_, _, w'). deflateEndCB_lz4 dst' w'))
      (\<lambda>(r, _, w''). heap w'' = (heap w)(ud dst := None, ud src := None)))"
proof -
  obtain d where d: "load as_lz4 (ud dst) w = Inr d" using assms(2) by (auto simp: holds_def)
  have "heap w (ud src) \<noteq> None" "heap w (ud dst) \<noteq> None"
    using assms(1) d by (auto simp: load_eq_Inr)
  moreover have "load as_lz4 (ud src) (store (ud dst) (Lz4_obj c) w) = Inr c"
    using assms(1,3) by (auto simp: load_eq_Inr)
  ultimately show ?thesis
    using assms(1,3) d load_nonnull [OF assms(1)] load_nonnull [OF d]
    by (auto simp: deflateCopyCB_lz4_def lz4_copy_def deflateEndCB_lz4_def lz4_deflateEnd_def
        free_def fun_upd_twist)
qed

theorem lz4_copy_independent_witness:
  "ensures (deflateInitCB_lz4 demo_lz4 1 demo_stream demo_world) (\<lambda>(_, a, w).
   ensures (deflateInitCB_lz4 demo_lz4 9 demo_stream w) (\<lambda>(_, b, w).
   ensures (deflateCopyCB_lz4 b a w) (\<lambda>(r, b', w'). r = 0 \<and>
   ensures (andthen (deflateEndCB_lz4 b' w') (\<lambda>(_, _, w'). deflateEndCB_lz4 a w')) (\<lambda>_. True))))"
proof -
  note defs = deflateInitCB_lz4_def lz4_allocate_def malloc_ok lz4_deflateInit_def Let_def
    load_def deref_def
  obtain a w c where a: "deflateInitCB_lz4 demo_lz4 1 demo_stream demo_world = Inr (0, a, w)"
    and ca: "load as_lz4 (ud a) w = Inr c" "ud a = 1" "allocs w = 1" "\<not> oom w 1"
    by (simp add: defs)
  obtain b w2 where b: "deflateInitCB_lz4 demo_lz4 9 demo_stream w = Inr (0, b, w2)"
    and cb: "load as_lz4 (ud a) w2 = Inr c" "holds as_lz4 (ud b) w2" "ud b \<noteq> ud a"
    using ca by (simp add: defs holds_def split: option.splits)
  have "ensures (deflateCopyCB_lz4 b a w2) (\<lambda>(r, b', w'). r = 0 \<and>
   ensures (andthen (deflateEndCB_lz4 b' w') (\<lambda>(_, _, w'). deflateEndCB_lz4 a w')) (\<lambda>_. True))"
    by (rule ensures_mono3 [OF lz4_copy_independent [OF cb]]) (auto elim!: ensures_mono)
  with a b show ?thesis by simp
qed

section \<open>One-shot calls\<close>

definition lz4_enc :: "lz4_lib \<Rightarrow> codec" where
  "lz4_enc L dst cap src n m =
     (let (r, m) = LZ4_compress_default L src dst (uint n) (uint cap) m
      in if 0 < r then Some (word_of_int r, m) else None)"

definition lz4_dec :: "lz4_lib \<Rightarrow> codec" where
  "lz4_dec L dst cap src n m =
     (let (r, m) = LZ4_decompress_safe L src dst (uint n) (uint cap) m
      in if 0 < r then Some (word_of_int r, m) else None)"

text \<open>A lossless LZ4 is such a codec: its \<open>int\<close> lengths are those of the words.\<close>

lemma lz4_restoring:
  assumes "lossless (LZ4_compress_default L) (LZ4_decompress_safe L)"
  shows "restoring (lz4_enc L) (lz4_dec L)"
  unfolding restoring_def
proof (intro allI impI)
  fix dst cap src n dst' cap' src' :: uLong and m k m' m1
  assume n: "0 < n" "uint n < 2 ^ 31" "uint cap < 2 ^ 31" and apart: "disjoint_ranges src (unat n) dst (unat cap)"
    and out: "n \<le> cap'" "disjoint_ranges src' (unat k) dst' (unat cap')" "read_mem m1 src' (unat k) = read_mem m' dst (unat k)"
    and "lz4_enc L dst cap src n m = Some (k, m')"
  then obtain r where c: "LZ4_compress_default L src dst (uint n) (uint cap) m = (r, m')" "0 < r" "k = word_of_int r"
    by (auto simp: lz4_enc_def split: prod.splits if_splits)
  have pos: "0 < uint n" using n(1) by (simp add: word_less_def)
  note l = losslessD [OF assms _ n(2,3) apart [unfolded unat_eq_nat_uint] c(1,2)]
  have r: "r \<le> uint cap" by (rule l(1)) simp
  with c(2) n(3) have k: "uint k = r" by (simp add: c(3) uint_word_of_int_eq take_bit_int_eq_self)
  then have kn: "nat r = unat k" by (simp flip: k)
  have "\<exists>m2. LZ4_decompress_safe L src' dst' r (uint cap') m1 = (uint n, m2) \<and>
      read_mem m2 dst' (nat (uint n)) = read_mem m src (nat (uint n))"
    using out by (intro l(2)) (simp_all add: word_le_def kn)
  then show "\<exists>m2. lz4_dec L dst' cap' src' k m1 = Some (n, m2) \<and> read_mem m2 dst' (unat n) = read_mem m src (unat n)"
    using pos by (auto simp: lz4_dec_def k)
qed

interpretation lz4_shots: one_shot True 0 "\<lambda>_ _. True" "lz4_enc L" "lz4_dec L" "sure (compressCB_lz4 L)" "sure (uncompressCB_lz4 L)"
  for L
proof unfold_locales
  fix dest source n cap len :: uLong and w w' :: "'a world"
  assume "dest \<noteq> 0" "source \<noteq> 0" "uint n < 2 ^ 31" "uint cap < 2 ^ 31"
    "sure (compressCB_lz4 L) dest (Some cap) source n w = Inr (UNIZIP_OK, Some len, w')"
  then show "lz4_enc L dest (cap + 0) source n (bytes w) = Some (len + 0, bytes w')"
    by (cases "LZ4_compress_default L source dest (uint n) (uint cap) (bytes w)")
      (auto simp: sure_def compressCB_lz4_def lz4_compress_def lz4_enc_def Let_def c_int_small split: if_splits)
next
  fix dest source n cap len :: uLong and w :: "'a world" and m
  assume "dest \<noteq> 0" "source \<noteq> 0" "uint len < 2 ^ 31" "uint cap < 2 ^ 31"
    "lz4_dec L dest cap source (len + 0) (bytes w) = Some (n, m)"
  then show "\<exists>w'. sure (uncompressCB_lz4 L) dest (Some cap) source len w = Inr (UNIZIP_OK, Some n, w') \<and> bytes w' = m"
    by (cases "LZ4_decompress_safe L source dest (uint len) (uint cap) (bytes w)")
      (auto simp: sure_def uncompressCB_lz4_def lz4_decompress_def lz4_dec_def Let_def c_int_small split: if_splits)
qed


text \<open>
  The empty input does not survive LZ4: \<open>compress\<close> succeeds on it, and \<open>uncompress\<close> of
  what it wrote is refused with \<open>UNIZIP_BUF_ERROR\<close>, although the library restored all its
  zero bytes: the code takes a decompressed length of 0 for a failure.
\<close>

theorem lz4_empty_refused:
  assumes lib: "lossless (LZ4_compress_default L) (LZ4_decompress_safe L)"
    and ptrs: "source \<noteq> 0" "dest \<noteq> 0" "dest' \<noteq> 0"
    and small: "uint cap < 2 ^ 31" "uint cap' < 2 ^ 31"
    and apart: "disjoint_ranges dest (unat cap) dest' (unat cap')"
    and comp: "compressCB_lz4 L dest (Some cap) source 0 w = (UNIZIP_OK, Some len, w')"
  shows "fst (uncompressCB_lz4 L dest' (Some cap') dest len w') = UNIZIP_BUF_ERROR"
proof -
  obtain r m' where c: "LZ4_compress_default L source dest 0 (uint cap) (bytes w) = (r, m')" by fastforce
  with comp ptrs have r: "0 < r" "len = word_of_int r" "bytes w' = m'"
    by (auto simp: compressCB_lz4_def lz4_compress_def Let_def c_int_small [OF small(1)] c_int_small [of 0] split: if_splits)
  have none: "disjoint_ranges source (nat 0) dest (nat (uint cap))" by (simp add: disjoint_ranges_def)
  note l = losslessD [OF lib order_refl _ small(1) none c r(1)]
  have rc: "r \<le> uint cap" by (rule l(1)) simp
  then have len: "c_int len = r" using r small(1) by (simp add: c_int_word_of_int)
  have "disjoint_ranges dest (nat r) dest' (nat (uint cap'))"
    using apart by (rule disjoint_ranges_mono) (use nat_mono [OF rc] in simp_all)
  from l(2) [OF _ _ this refl] obtain m2 where "LZ4_decompress_safe L dest dest' r (uint cap') m' = (0, m2)" by auto
  then show ?thesis
    using ptrs r(3) by (simp add: uncompressCB_lz4_def lz4_decompress_def Let_def c_int_small [OF small(2)] len)
qed

theorem lz4_empty_refused_witness:
  "\<exists>w'. compressCB_lz4 demo_lz4 2000 (Some 50) 1000 0 demo_world = (0, Some 1, w') \<and>
     fst (uncompressCB_lz4 demo_lz4 3000 (Some 50) 2000 1 w') = UNIZIP_BUF_ERROR"
proof -
  obtain w' where c: "compressCB_lz4 demo_lz4 2000 (Some 50) 1000 0 demo_world = (0, Some 1, w')"
    by (simp add: compressCB_lz4_def lz4_compress_def Let_def store_compress_def c_int_def)
  have "disjoint_ranges 2000 (unat (50 :: uLong)) 3000 (unat (50 :: uLong))"
    by (rule disjoint_ranges_far; simp)
  from lz4_empty_refused [OF _ _ _ _ _ _ this c] c show ?thesis by (auto simp: store_lossless)
qed

end
