(* ===== verification/Snappy.thy ===== *)
theory Snappy
  imports Instances
begin

text \<open>
  The Snappy back end: \<open>snappy/unizip_algorithm_snappy.c\<close> and
  \<open>snappy/unizip_callback_snappy.c\<close>.  The Snappy C interface is the parameter
  \<open>snappy_lib\<close>: a function with an in-out length returns the new length beside its status.
\<close>

record snappy_lib =
  SNAPPY_OK :: int
  SNAPPY_INVALID_INPUT :: int
  SNAPPY_BUFFER_TOO_SMALL :: int
  snappy_compress :: "addr \<Rightarrow> uLong \<Rightarrow> addr \<Rightarrow> uLong \<Rightarrow> mem \<Rightarrow> int \<times> uLong \<times> mem"
  snappy_uncompress :: "addr \<Rightarrow> uLong \<Rightarrow> addr \<Rightarrow> uLong \<Rightarrow> mem \<Rightarrow> int \<times> uLong \<times> mem"
  snappy_max_compressed_length :: "uLong \<Rightarrow> uLong"
  snappy_uncompressed_length :: "addr \<Rightarrow> uLong \<Rightarrow> uLong \<Rightarrow> mem \<Rightarrow> int \<times> uLong"
  snappy_indet :: snappy_ctx

abbreviation SnappyAction_End :: int where "SnappyAction_End \<equiv> 4"

section \<open>The algorithm layer\<close>

definition snappy_error :: "snappy_lib \<Rightarrow> int \<Rightarrow> int" where
  "snappy_error L ret =
     (if ret = SNAPPY_OK L then UNIZIP_OK
      else if ret = SNAPPY_INVALID_INPUT L then UNIZIP_DATA_ERROR
      else if ret = SNAPPY_BUFFER_TOO_SMALL L then UNIZIP_BUF_ERROR
      else UNIZIP_ERRNO)"

definition snappy_allocate :: "snappy_lib \<Rightarrow> 'l world \<Rightarrow> ptr \<times> 'l world" where
  "snappy_allocate L w = malloc (Snappy_obj (snappy_indet L)) w"

definition snappy_Copy :: "ptr \<Rightarrow> ptr \<Rightarrow> 'l world \<Rightarrow> (int \<times> 'l world) res" where
  "snappy_Copy dest source w =
     (if dest \<noteq> NULL_ptr \<and> source \<noteq> NULL_ptr then
        andthen (load as_snappy source w) (\<lambda>c.
        andthen (load as_snappy dest w) (\<lambda>_.
        Inr (UNIZIP_OK, store dest (Snappy_obj c) w)))
      else Inr (UNIZIP_MEM_ERROR, w))"

definition snappy_deflateInit :: "ptr \<Rightarrow> int \<Rightarrow> 'l world \<Rightarrow> (int \<times> 'l world) res" where
  "snappy_deflateInit p level w =
     (if p = NULL_ptr then Inr (UNIZIP_MEM_ERROR, w) else
      andthen (load as_snappy p w) (\<lambda>ctx.
      let ctx = ctx\<lparr>input_snappy := NULL_addr, input_length_snappy := 0,
                    compressed_snappy := NULL_addr, compressed_length := 0,
                    uncompressed_snappy := NULL_addr, uncompressed_length := 0,
                    result_snappy := 0, next_in_snappy := NULL_addr, avail_in_snappy := 0,
                    total_in_snappy := 0, next_out_snappy := NULL_addr,
                    avail_out_snappy := 0, total_out_snappy := 0\<rparr>
      in Inr (UNIZIP_OK, store p (Snappy_obj ctx) w)))"

definition snappy_deflateprocess :: "snappy_lib \<Rightarrow> ptr \<Rightarrow> 'l world \<Rightarrow> (int \<times> 'l world) res" where
  "snappy_deflateprocess L p w =
     andthen (load as_snappy p w) (\<lambda>ctx.
     let ctx = ctx\<lparr>input_length_snappy := total_in_snappy ctx\<rparr>;
         ctx = ctx\<lparr>compressed_length := snappy_max_compressed_length L (input_length_snappy ctx)\<rparr>;
         (ret, len, m) = snappy_compress L (input_snappy ctx) (input_length_snappy ctx)
                           (compressed_snappy ctx) (compressed_length ctx) (bytes w);
         w = w\<lparr>bytes := m\<rparr>;
         ctx = ctx\<lparr>compressed_length := len\<rparr>;
         ctx = ctx\<lparr>total_out_snappy := compressed_length ctx\<rparr>
     in Inr (snappy_error L ret, store p (Snappy_obj ctx) w))"

definition snappy_deflate :: "snappy_lib \<Rightarrow> ptr \<Rightarrow> int \<Rightarrow> 'l world \<Rightarrow> (int \<times> 'l world) res" where
  "snappy_deflate L p flush w =
     (if flush = 0 then Inr (UNIZIP_OK, w)
      else if flush = SnappyAction_End then
        andthen (load as_snappy p w) (\<lambda>ctx.
        let ctx = ctx\<lparr>input_snappy := next_in_snappy ctx, compressed_snappy := next_out_snappy ctx,
                      total_in_snappy := ucast (avail_in_snappy ctx), avail_in_snappy := 0\<rparr>
        in snappy_deflateprocess L p (store p (Snappy_obj ctx) w))
      else Inr (UNIZIP_ERRNO, w))"

definition snappy_deflateEnd :: "ptr \<Rightarrow> 'l world \<Rightarrow> (int \<times> 'l world) res" where
  "snappy_deflateEnd p w =
     (if p \<noteq> NULL_ptr then
        andthen (load as_snappy p w) (\<lambda>ctx.
        let ctx = ctx\<lparr>input_snappy := NULL_addr, input_length_snappy := 0,
                      compressed_snappy := NULL_addr, uncompressed_snappy := NULL_addr,
                      uncompressed_length := 0, result_snappy := 0, next_in_snappy := NULL_addr,
                      avail_in_snappy := 0, total_in_snappy := 0, next_out_snappy := NULL_addr,
                      avail_out_snappy := 0, total_out_snappy := 0\<rparr>
        in andthen (free p (store p (Snappy_obj ctx) w)) (\<lambda>w. Inr (UNIZIP_OK, w)))
      else Inr (UNIZIP_OK, w))"

definition snappy_inflateInit :: "ptr \<Rightarrow> 'l world \<Rightarrow> (int \<times> 'l world) res" where
  "snappy_inflateInit p w =
     andthen (load as_snappy p w) (\<lambda>ctx.
     let ctx = ctx\<lparr>input_snappy := NULL_addr, input_length_snappy := 0,
                   compressed_snappy := NULL_addr, compressed_length := 0,
                   uncompressed_snappy := NULL_addr, uncompressed_length := 0,
                   result_snappy := 0, next_in_snappy := NULL_addr, avail_in_snappy := 0,
                   total_in_snappy := 0, next_out_snappy := NULL_addr,
                   avail_out_snappy := 0, total_out_snappy := 0\<rparr>
     in Inr (UNIZIP_OK, store p (Snappy_obj ctx) w))"

definition snappy_inflateprocess :: "snappy_lib \<Rightarrow> ptr \<Rightarrow> 'l world \<Rightarrow> (int \<times> 'l world) res" where
  "snappy_inflateprocess L p w =
     andthen (load as_snappy p w) (\<lambda>ctx.
     let ctx = ctx\<lparr>compressed_length := total_in_snappy ctx\<rparr>;
         (_, res) = snappy_uncompressed_length L (compressed_snappy ctx) (compressed_length ctx)
                      (result_snappy ctx) (bytes w);
         ctx = ctx\<lparr>result_snappy := res\<rparr>;
         ctx = ctx\<lparr>uncompressed_length := result_snappy ctx\<rparr>;
         (ret, len, m) = snappy_uncompress L (compressed_snappy ctx) (compressed_length ctx)
                           (uncompressed_snappy ctx) (uncompressed_length ctx) (bytes w);
         w = w\<lparr>bytes := m\<rparr>;
         ctx = ctx\<lparr>uncompressed_length := len\<rparr>;
         ctx = ctx\<lparr>total_out_snappy := uncompressed_length ctx\<rparr>
     in Inr (snappy_error L ret, store p (Snappy_obj ctx) w))"

definition snappy_inflate :: "snappy_lib \<Rightarrow> ptr \<Rightarrow> 'l world \<Rightarrow> (int \<times> 'l world) res" where
  "snappy_inflate L p w =
     andthen (load as_snappy p w) (\<lambda>ctx.
     let ctx = ctx\<lparr>compressed_snappy := next_in_snappy ctx, uncompressed_snappy := next_out_snappy ctx,
                   total_in_snappy := ucast (avail_in_snappy ctx), avail_in_snappy := 0\<rparr>
     in snappy_inflateprocess L p (store p (Snappy_obj ctx) w))"

definition snappy_inflateEnd :: "ptr \<Rightarrow> 'l world \<Rightarrow> (int \<times> 'l world) res" where
  "snappy_inflateEnd p w =
     (if p \<noteq> NULL_ptr then
        andthen (load as_snappy p w) (\<lambda>ctx.
        let ctx = ctx\<lparr>input_snappy := NULL_addr, input_length_snappy := 0,
                      compressed_snappy := NULL_addr, compressed_length := 0,
                      uncompressed_snappy := NULL_addr, uncompressed_length := 0,
                      result_snappy := 0, next_in_snappy := NULL_addr, avail_in_snappy := 0,
                      total_in_snappy := 0, next_out_snappy := NULL_addr,
                      avail_out_snappy := 0, total_out_snappy := 0\<rparr>
        in andthen (free p (store p (Snappy_obj ctx) w)) (\<lambda>w. Inr (UNIZIP_OK, w)))
      else Inr (UNIZIP_OK, w))"

text \<open>The one-shot functions; a \<open>NULL\<close> length pointer is \<open>None\<close>.\<close>

definition snappy_compress_new ::
  "snappy_lib \<Rightarrow> addr \<Rightarrow> uLong \<Rightarrow> addr \<Rightarrow> uLong option \<Rightarrow> 'l world \<Rightarrow> int \<times> uLong option \<times> 'l world" where
  "snappy_compress_new L source sourceLen dest destLen w =
     (case destLen of None \<Rightarrow> (UNIZIP_DATA_ERROR, destLen, w) | Some cap \<Rightarrow>
      if dest = NULL_addr \<or> source = NULL_addr then (UNIZIP_DATA_ERROR, destLen, w)
      else let (ret, len, m) = snappy_compress L source sourceLen dest cap (bytes w)
           in (snappy_error L ret, Some len, w\<lparr>bytes := m\<rparr>))"

definition snappy_decompress_new ::
  "snappy_lib \<Rightarrow> addr \<Rightarrow> uLong \<Rightarrow> addr \<Rightarrow> uLong option \<Rightarrow> 'l world \<Rightarrow> int \<times> uLong option \<times> 'l world" where
  "snappy_decompress_new L source sourceLen dest destLen w =
     (case destLen of None \<Rightarrow> (UNIZIP_DATA_ERROR, destLen, w) | Some cap \<Rightarrow>
      if dest = NULL_addr \<or> source = NULL_addr then (UNIZIP_DATA_ERROR, destLen, w)
      else let (ret, len, m) = snappy_uncompress L source sourceLen dest cap (bytes w)
           in (snappy_error L ret, Some len, w\<lparr>bytes := m\<rparr>))"

definition snappy_compressBound :: "snappy_lib \<Rightarrow> uLong \<Rightarrow> uLong" where
  "snappy_compressBound L uncompressed_size =
     (let compressed_size = snappy_max_compressed_length L uncompressed_size
      in if compressed_size < uncompressed_size then ULONG_MAX else compressed_size)"

section \<open>The callback layer\<close>

definition versionCB_snappy :: string where
  "versionCB_snappy = '' 1.1.10 ''"

definition resetSnappy :: "unizip_stream \<Rightarrow> unizip_stream" where
  "resetSnappy strm = strm\<lparr>next_in := NULL_addr, next_out := NULL_addr, avail_in := 0,
     avail_out := 0, total_in := 0, total_out := 0\<rparr>"

definition deflateInitCB_snappy :: "snappy_lib \<Rightarrow> int \<Rightarrow> 'l stream_op" where
  "deflateInitCB_snappy L level strm w =
     (let (p, w) = snappy_allocate L w; strm = strm\<lparr>ud := p\<rparr>
      in if ud strm = NULL_ptr then Inr (UNIZIP_MEM_ERROR, strm, w)
         else
           let strm = strm\<lparr>compression_flag := level\<rparr>
           in andthen (snappy_deflateInit (ud strm) level w) (\<lambda>(ret, w).
              Inr (ret, resetSnappy strm, w)))"

definition deflateCB_snappy :: "snappy_lib \<Rightarrow> int \<Rightarrow> 'l stream_op" where
  "deflateCB_snappy L flush strm w =
     andthen (load as_snappy (ud strm) w) (\<lambda>ctx.
     let ctx = ctx\<lparr>next_in_snappy := next_in strm, avail_in_snappy := avail_in strm,
                   total_in_snappy := total_in strm, next_out_snappy := next_out strm,
                   avail_out_snappy := avail_out strm, total_out_snappy := total_out strm\<rparr>
     in andthen (snappy_deflate L (ud strm) flush (store (ud strm) (Snappy_obj ctx) w)) (\<lambda>(status, w).
     andthen (load as_snappy (ud strm) w) (\<lambda>ctx.
     let strm = strm\<lparr>next_in := next_in_snappy ctx, avail_in := avail_in_snappy ctx,
                     total_in := total_in_snappy ctx, next_out := next_out_snappy ctx,
                     avail_out := avail_out_snappy ctx, total_out := total_out_snappy ctx\<rparr>
     in Inr (status, strm, w))))"

definition deflateEndCB_snappy :: "'l stream_op" where
  "deflateEndCB_snappy strm w =
     (let ctx = ud strm; strm = resetSnappy strm
      in andthen (snappy_deflateEnd ctx w) (\<lambda>(ret, w). Inr (ret, strm, w)))"

definition inflateInitCB_snappy :: "snappy_lib \<Rightarrow> 'l stream_op" where
  "inflateInitCB_snappy L strm w =
     (let (p, w) = snappy_allocate L w; strm = strm\<lparr>ud := p\<rparr>
      in if ud strm = NULL_ptr then Inr (UNIZIP_MEM_ERROR, strm, w)
         else
           let strm = resetSnappy strm
           in andthen (snappy_inflateInit (ud strm) w) (\<lambda>(ret, w). Inr (ret, strm, w)))"

definition inflateCB_snappy :: "snappy_lib \<Rightarrow> int \<Rightarrow> 'l stream_op" where
  "inflateCB_snappy L flush strm w =
     andthen (load as_snappy (ud strm) w) (\<lambda>ctx.
     let ctx = ctx\<lparr>next_in_snappy := next_in strm, avail_in_snappy := avail_in strm,
                   total_in_snappy := total_in strm, next_out_snappy := next_out strm,
                   avail_out_snappy := avail_out strm, total_out_snappy := total_out strm\<rparr>
     in andthen (snappy_inflate L (ud strm) (store (ud strm) (Snappy_obj ctx) w)) (\<lambda>(status, w).
     andthen (load as_snappy (ud strm) w) (\<lambda>ctx.
     let strm = strm\<lparr>next_in := next_in_snappy ctx, avail_in := avail_in_snappy ctx,
                     total_in := total_in_snappy ctx, next_out := next_out_snappy ctx,
                     avail_out := avail_out_snappy ctx, total_out := total_out_snappy ctx\<rparr>
     in Inr (status, strm, w))))"

definition inflateEndCB_snappy :: "'l stream_op" where
  "inflateEndCB_snappy strm w =
     (let ctx = ud strm; strm = resetSnappy strm
      in andthen (snappy_inflateEnd ctx w) (\<lambda>(ret, w). Inr (ret, strm, w)))"

definition deflateCopyCB_snappy :: "unizip_stream \<Rightarrow> unizip_stream \<Rightarrow> 'l world \<Rightarrow> (int \<times> unizip_stream \<times> 'l world) res" where
  "deflateCopyCB_snappy dest source w =
     andthen (snappy_Copy (ud dest) (ud source) w) (\<lambda>(ret, w). Inr (ret, dest, w))"

definition inflateCopyCB_snappy :: "unizip_stream \<Rightarrow> unizip_stream \<Rightarrow> 'l world \<Rightarrow> (int \<times> unizip_stream \<times> 'l world) res" where
  "inflateCopyCB_snappy dest source w =
     andthen (snappy_Copy (ud dest) (ud source) w) (\<lambda>(ret, w). Inr (ret, dest, w))"

definition deflateResetCB_snappy :: "snappy_lib \<Rightarrow> 'l stream_op" where
  "deflateResetCB_snappy L strm w =
     andthen (snappy_deflateEnd (ud strm) w) (\<lambda>(_, w).
     let (p, w) = snappy_allocate L w; strm = strm\<lparr>ud := p\<rparr>
     in if ud strm = NULL_ptr then Inr (UNIZIP_MEM_ERROR, strm, w)
        else andthen (snappy_deflateInit (ud strm) (compression_flag strm) w)
               (\<lambda>(ret, w). Inr (ret, strm, w)))"

definition inflateResetCB_snappy :: "snappy_lib \<Rightarrow> 'l stream_op" where
  "inflateResetCB_snappy L strm w =
     andthen (snappy_inflateEnd (ud strm) w) (\<lambda>(_, w).
     let (p, w) = snappy_allocate L w; strm = strm\<lparr>ud := p\<rparr>
     in if ud strm = NULL_ptr then Inr (UNIZIP_MEM_ERROR, strm, w)
        else andthen (snappy_inflateInit (ud strm) w) (\<lambda>(ret, w). Inr (ret, strm, w)))"

definition compressCB_snappy ::
  "snappy_lib \<Rightarrow> addr \<Rightarrow> uLong option \<Rightarrow> addr \<Rightarrow> uLong \<Rightarrow> 'l world \<Rightarrow> int \<times> uLong option \<times> 'l world" where
  "compressCB_snappy L dest destLen source sourceLen w =
     snappy_compress_new L source sourceLen dest destLen w"

definition uncompressCB_snappy ::
  "snappy_lib \<Rightarrow> addr \<Rightarrow> uLong option \<Rightarrow> addr \<Rightarrow> uLong \<Rightarrow> 'l world \<Rightarrow> int \<times> uLong option \<times> 'l world" where
  "uncompressCB_snappy L dest destLen source sourceLen w =
     snappy_decompress_new L source sourceLen dest destLen w"

definition compressBoundCB_snappy :: "snappy_lib \<Rightarrow> uLong \<Rightarrow> uLong" where
  "compressBoundCB_snappy L sourceLen = snappy_compressBound L sourceLen"

section \<open>Sessions\<close>

lemma snappy_finish_eq:
  assumes "load as_snappy (ud s) w = Inr c"
    and "snappy_compress L (next_in s) (ucast (avail_in s)) (next_out s)
      (snappy_max_compressed_length L (ucast (avail_in s))) (bytes w) = (r, len, m)"
  shows "\<exists>c'. deflateCB_snappy L 4 s w = Inr (snappy_error L r,
      s\<lparr>avail_in := 0, total_in := ucast (avail_in s), total_out := len\<rparr>,
      store (ud s) (Snappy_obj c') (w\<lparr>bytes := m\<rparr>))"
  using assms load_nonnull [OF assms(1)]
  by (auto simp: deflateCB_snappy_def snappy_deflate_def snappy_deflateprocess_def Let_def)

lemma snappy_no_finish_eq:
  assumes "load as_snappy (ud s) w = Inr c" and "f \<noteq> 4"
  shows "\<exists>c'. deflateCB_snappy L f s w =
    Inr (if f = 0 then UNIZIP_OK else UNIZIP_ERRNO, s, store (ud s) (Snappy_obj c') w)"
  using assms load_nonnull [OF assms(1)]
  by (auto simp: deflateCB_snappy_def snappy_deflate_def Let_def)

lemma snappy_inflate_eq:
  assumes "load as_snappy (ud s) w = Inr c"
    and "snappy_uncompressed_length L (next_in s) (ucast (avail_in s)) (result_snappy c) (bytes w) = (x, res)"
    and "snappy_uncompress L (next_in s) (ucast (avail_in s)) (next_out s) res (bytes w) = (r, len, m)"
  shows "\<exists>c'. inflateCB_snappy L f s w = Inr (snappy_error L r,
      s\<lparr>avail_in := 0, total_in := ucast (avail_in s), total_out := len\<rparr>,
      store (ud s) (Snappy_obj c') (w\<lparr>bytes := m\<rparr>))"
  using assms load_nonnull [OF assms(1)]
  by (auto simp: inflateCB_snappy_def snappy_inflate_def snappy_inflateprocess_def Let_def)

lemma deflateCB_snappy_keeps:
  assumes "holds as_snappy (ud s) w"
  shows "ensures (deflateCB_snappy L f s w) (\<lambda>(r, s', w'). ud s' = ud s \<and> keeps as_snappy (ud s) w w' \<and>
    r \<noteq> UNIZIP_STREAM_END)"
proof -
  from assms obtain c where c: "load as_snappy (ud s) w = Inr c" by (auto simp: holds_def)
  obtain r len m where l: "snappy_compress L (next_in s) (ucast (avail_in s)) (next_out s)
      (snappy_max_compressed_length L (ucast (avail_in s))) (bytes w) = (r, len, m)"
    by (metis prod_cases3)
  show ?thesis
    using snappy_finish_eq [OF c l] snappy_no_finish_eq [OF c, of f L] load_nonnull [OF c]
    by (cases "f = 4") (auto simp: snappy_error_def)
qed

lemma inflateCB_snappy_keeps:
  assumes "holds as_snappy (ud s) w"
  shows "ensures (inflateCB_snappy L f s w) (\<lambda>(r, s', w'). ud s' = ud s \<and> keeps as_snappy (ud s) w w' \<and>
    r \<noteq> UNIZIP_STREAM_END)"
proof -
  from assms obtain c where c: "load as_snappy (ud s) w = Inr c" by (auto simp: holds_def)
  obtain x y where u: "snappy_uncompressed_length L (next_in s) (ucast (avail_in s))
      (result_snappy c) (bytes w) = (x, y)" by fastforce
  obtain r len m where l: "snappy_uncompress L (next_in s) (ucast (avail_in s)) (next_out s) y
      (bytes w) = (r, len, m)" by (metis prod_cases3)
  show ?thesis
    using snappy_inflate_eq [OF c u l, of f] load_nonnull [OF c] by (auto simp: snappy_error_def)
qed

lemma snappy_init_keeps:
  "holds as_snappy p w \<Longrightarrow> ensures (snappy_deflateInit p level w) (\<lambda>(r, w'). keeps as_snappy p w w')"
  "holds as_snappy p w \<Longrightarrow> ensures (snappy_inflateInit p w) (\<lambda>(r, w'). keeps as_snappy p w w')"
  by (auto simp: snappy_deflateInit_def snappy_inflateInit_def Let_def holds_iff load_eq_Inr
      intro!: ensures_load)

lemma deflateInitCB_snappy_acquires:
  assumes "wf_heap w" and "deflateInitCB_snappy L level s w = Inr (UNIZIP_OK, s', w')"
  shows "acquires as_snappy (ud s') w w' \<and> wf_heap w'"
proof -
  obtain p w1 where m: "malloc (Snappy_obj (snappy_indet L)) w = (p, w1)"
    by (cases "malloc (Snappy_obj (snappy_indet L)) w")
  from assms(2) m have p: "p \<noteq> 0"
    and i: "snappy_deflateInit p level w1 = Inr (UNIZIP_OK, w')" and "ud s' = p"
    by (auto simp: deflateInitCB_snappy_def snappy_allocate_def resetSnappy_def Let_def
        andthen_eq_Inr split: if_splits)
  with malloc_acquires [OF m p assms(1), of as_snappy] snappy_init_keeps(1) [of p w1 level]
  show ?thesis by (auto intro: acquires_keeps keeps_wf)
qed

lemma inflateInitCB_snappy_acquires:
  assumes "wf_heap w" and "inflateInitCB_snappy L s w = Inr (UNIZIP_OK, s', w')"
  shows "acquires as_snappy (ud s') w w' \<and> wf_heap w'"
proof -
  obtain p w1 where m: "malloc (Snappy_obj (snappy_indet L)) w = (p, w1)"
    by (cases "malloc (Snappy_obj (snappy_indet L)) w")
  from assms(2) m have p: "p \<noteq> 0"
    and i: "snappy_inflateInit p w1 = Inr (UNIZIP_OK, w')" and "ud s' = p"
    by (auto simp: inflateInitCB_snappy_def snappy_allocate_def resetSnappy_def Let_def
        andthen_eq_Inr split: if_splits)
  with malloc_acquires [OF m p assms(1), of as_snappy] snappy_init_keeps(2) [of p w1]
  show ?thesis by (auto intro: acquires_keeps keeps_wf)
qed

lemma snappy_end_releases:
  assumes "wf_heap w" and "holds as_snappy (ud s) w"
  shows "ensures (deflateEndCB_snappy s w) (\<lambda>(r, s', w'). r = UNIZIP_OK \<and> wf_heap w' \<and> releases (ud s) w w')"
    and "ensures (inflateEndCB_snappy s w) (\<lambda>(r, s', w'). r = UNIZIP_OK \<and> wf_heap w' \<and> releases (ud s) w w')"
proof -
  have p: "ud s \<noteq> 0" using assms(2) by (auto simp: holds_iff)
  have "ensures (free (ud s) (store (ud s) (Snappy_obj c) w))
      (\<lambda>w'. wf_heap w' \<and> releases (ud s) w w')" for c
    using assms p free_releases [of as_snappy "ud s" "store (ud s) (Snappy_obj c) w"]
    by (auto elim!: ensures_mono intro: releases_wf simp: releases_def)
  with assms(2) p show
    "ensures (deflateEndCB_snappy s w) (\<lambda>(r, s', w'). r = UNIZIP_OK \<and> wf_heap w' \<and> releases (ud s) w w')"
    "ensures (inflateEndCB_snappy s w) (\<lambda>(r, s', w'). r = UNIZIP_OK \<and> wf_heap w' \<and> releases (ud s) w w')"
    by (auto simp: deflateEndCB_snappy_def inflateEndCB_snappy_def snappy_deflateEnd_def
        snappy_inflateEnd_def Let_def intro: ensures_load)
qed

lemma snappy_end_frees:
  assumes "wf_heap w" and "holds as_snappy (ud s) w"
  shows "ensures (deflateEndCB_snappy s w) (\<lambda>(r, s', w'). wf_heap w' \<and> releases (ud s) w w')"
    and "ensures (inflateEndCB_snappy s w) (\<lambda>(r, s', w'). wf_heap w' \<and> releases (ud s) w w')"
  by (rule ensures_mono3 [OF snappy_end_releases(1) [OF assms]], simp,
      rule ensures_mono3 [OF snappy_end_releases(2) [OF assms]], simp)

interpretation snappy_deflate: context_session as_snappy "deflateInitCB_snappy L"
  "deflateCB_snappy L" deflateEndCB_snappy for L
  by (rule context_session.intro) (simp_all add: deflateInitCB_snappy_acquires
      snappy_end_frees ensures_mono3 [OF deflateCB_snappy_keeps])

interpretation snappy_inflate: context_session as_snappy "\<lambda>level. inflateInitCB_snappy L"
  "inflateCB_snappy L" inflateEndCB_snappy for L
  by (rule context_session.intro) (simp_all add: inflateInitCB_snappy_acquires
      snappy_end_frees ensures_mono3 [OF inflateCB_snappy_keeps])

section \<open>Properties\<close>

definition demo_snappy :: snappy_lib where
  "demo_snappy = \<lparr>SNAPPY_OK = 0, SNAPPY_INVALID_INPUT = 1, SNAPPY_BUFFER_TOO_SMALL = 2,
     snappy_compress = (\<lambda>src n dst cap m.
       if uint n + 1 \<le> uint cap then (0, n + 1, write_mem m dst (0 # read_mem m src (unat n)))
       else (2, cap, m)),
     snappy_uncompress = (\<lambda>src n dst cap m.
       if 0 < n \<and> n - 1 \<le> cap then (0, n - 1, write_mem m dst (read_mem m (src + 1) (unat (n - 1))))
       else (1, cap, m)),
     snappy_max_compressed_length = (\<lambda>n. 32 + n + n div 6),
     snappy_uncompressed_length = (\<lambda>src n res m. if 0 < n then (0, n - 1) else (1, res)),
     snappy_indet = \<lparr>compression_flags_snappy = 1, input_snappy = 2, input_length_snappy = 3,
       compressed_snappy = 4, compressed_length = 5, uncompressed_snappy = 6,
       uncompressed_length = 7, result_snappy = 8, next_in_snappy = 9, avail_in_snappy = 10,
       total_in_snappy = 11, next_out_snappy = 12, avail_out_snappy = 13, total_out_snappy = 14\<rparr>\<rparr>"

lemma demo_snappy_init:
  obtains s w c where "deflateInitCB_snappy demo_snappy 1 demo_stream demo_world = Inr (0, s, w)"
    and "load as_snappy (ud s) w = Inr c" and "bytes w = bytes demo_world"
  by (simp add: deflateInitCB_snappy_def snappy_allocate_def malloc_ok snappy_deflateInit_def
      Let_def load_def deref_def resetSnappy_def)

text \<open>
  A Snappy deflate session that initialises successfully, makes any calls and ends,
  never faults and leaves the heap exactly as it was before.
\<close>

theorem snappy_deflate_lifecycle:
  assumes "wf_heap w" and "deflateInitCB_snappy L level s w = Inr (UNIZIP_OK, s1, w1)"
  shows "ensures (andthen (run_calls (deflateCB_snappy L) cs s1 w1) (\<lambda>(rs, s, w). deflateEndCB_snappy s w))
    (\<lambda>(r, s', w'). heap w' = heap w)"
  by (rule snappy_deflate.session_clean [OF assms])

theorem snappy_deflate_lifecycle_witness:
  "\<exists>s1 w1. deflateInitCB_snappy demo_snappy 1 demo_stream demo_world = Inr (0, s1, w1) \<and>
     ensures (andthen (run_calls (deflateCB_snappy demo_snappy) [(Buffers [1, 2] 10 2 100 9, 4)] s1 w1)
       (\<lambda>(rs, s, w). deflateEndCB_snappy s w)) (\<lambda>(r, s', w'). heap w' = heap demo_world)"
proof -
  obtain s1 w1 c where "deflateInitCB_snappy demo_snappy 1 demo_stream demo_world = Inr (0, s1, w1)"
    by (rule demo_snappy_init)
  with snappy_deflate_lifecycle [OF wf_demo_world this] show ?thesis by blast
qed

text \<open>
  C28: no Snappy \<open>deflate\<close> call ever returns \<open>UNIZIP_STREAM_END\<close>, however many calls are
  made and whatever the flush values and the buffers are: a client that calls
  \<open>deflate\<close> with \<open>Z_FINISH\<close> until it sees the end of the stream, as zlib asks it to,
  never stops.
\<close>

theorem snappy_never_stream_end:
  assumes "run_calls (deflateCB_snappy L) cs s w = Inr (rs, s', w')"
  shows "UNIZIP_STREAM_END \<notin> set rs"
  using assms
proof (induction cs arbitrary: s w rs)
  case Nil
  then show ?case by simp
next
  case (Cons c cs)
  obtain rf f where c: "c = (rf, f)" by (cases c)
  let ?s = "apply_refill rf s" and ?w = "refill_world rf w"
  from Cons.prems c obtain r s1 w1 rs1 where
    one: "deflateCB_snappy L f ?s ?w = Inr (r, s1, w1)"
    and rest: "run_calls (deflateCB_snappy L) cs s1 w1 = Inr (rs1, s', w')" "rs = r # rs1"
    by (auto simp: andthen_eq_Inr)
  from one have "holds as_snappy (ud ?s) ?w"
    by (auto simp: deflateCB_snappy_def andthen_eq_Inr holds_def)
  from deflateCB_snappy_keeps [OF this, of L f] one have "r \<noteq> UNIZIP_STREAM_END" by simp
  with Cons.IH [OF rest(1)] rest(2) show ?case by simp
qed

theorem snappy_never_stream_end_witness:
  "\<exists>s w rs s' w'. deflateInitCB_snappy demo_snappy 1 demo_stream demo_world = Inr (0, s, w) \<and>
    run_calls (deflateCB_snappy demo_snappy) [(Buffers [1, 2] 10 2 100 9, 4), (Keep, 4)] s w = Inr (rs, s', w') \<and>
    1 \<notin> set rs"
proof -
  obtain s w c where i: "deflateInitCB_snappy demo_snappy 1 demo_stream demo_world = Inr (0, s, w)"
    and c: "load as_snappy (ud s) w = Inr c"
    by (rule demo_snappy_init)
  from snappy_deflate.run_owns [of w s demo_snappy "[(Buffers [1, 2] 10 2 100 9, 4), (Keep, 4)]"]
    deflateInitCB_snappy_acquires [OF wf_demo_world i] c
  obtain rs s' w' where
    "run_calls (deflateCB_snappy demo_snappy) [(Buffers [1, 2] 10 2 100 9, 4), (Keep, 4)] s w = Inr (rs, s', w')"
    by (auto simp: ensures_def holds_def)
  with snappy_never_stream_end [OF this] i show ?thesis by blast
qed

text \<open>
  C29: the Snappy back end ignores how much output room the caller offers: with any other
  \<open>avail_out\<close>, even 0, a \<open>deflate\<close> call has the same result, the same total and writes
  exactly the same bytes (so it writes past the end of a buffer that is too small).
\<close>

theorem snappy_ignores_avail_out:
  assumes "holds as_snappy (ud s) w"
  shows "ensures (deflateCB_snappy L f s w) (\<lambda>(r, s1, w1).
    ensures (deflateCB_snappy L f (s\<lparr>avail_out := room\<rparr>) w) (\<lambda>(r', s1', w1').
      r' = r \<and> total_out s1' = total_out s1 \<and> bytes w1' = bytes w1))"
proof -
  from assms obtain c where c: "load as_snappy (ud s) w = Inr c" by (auto simp: holds_def)
  then have c': "load as_snappy (ud (s\<lparr>avail_out := room\<rparr>)) w = Inr c" by simp
  obtain r len m where l: "snappy_compress L (next_in s) (ucast (avail_in s)) (next_out s)
      (snappy_max_compressed_length L (ucast (avail_in s))) (bytes w) = (r, len, m)"
    by (metis prod_cases3)
  show ?thesis
    using snappy_finish_eq [OF c l] snappy_finish_eq [OF c', of L r len m] l
      snappy_no_finish_eq [OF c, of f L] snappy_no_finish_eq [OF c', of f L]
    by (cases "f = 4") auto
qed

theorem snappy_ignores_avail_out_witness:
  "\<exists>s w. deflateInitCB_snappy demo_snappy 1 demo_stream demo_world = Inr (0, s, w) \<and>
    (let s = s\<lparr>next_in := 1000, avail_in := 3, next_out := 2000, avail_out := 50\<rparr> in
     ensures (deflateCB_snappy demo_snappy 4 s w) (\<lambda>(r, s1, w1). bytes w1 2003 = 9 \<and>
     ensures (deflateCB_snappy demo_snappy 4 (s\<lparr>avail_out := 1\<rparr>) w) (\<lambda>(r', s1', w1').
       r' = 0 \<and> bytes w1' 2003 = 9)))"
proof -
  obtain s w c where i: "deflateInitCB_snappy demo_snappy 1 demo_stream demo_world = Inr (0, s, w)"
    and c: "load as_snappy (ud s) w = Inr c" and b: "bytes w = bytes demo_world"
    by (rule demo_snappy_init)
  let ?s = "s\<lparr>next_in := 1000, avail_in := 3, next_out := 2000, avail_out := 50\<rparr>"
  have c1: "load as_snappy (ud ?s) w = Inr c" using c by simp
  have mem: "write_mem (bytes w) 2000 (0 # read_mem (bytes w) 1000 3) 2003 = 9"
    by (simp add: b read_mem_Suc numeral_3_eq_3)
  have 1: "ensures (deflateCB_snappy demo_snappy 4 ?s w) (\<lambda>(r, s1, w1). r = 0 \<and> bytes w1 2003 = 9)"
    using snappy_finish_eq [OF c1, of demo_snappy 0 4] mem by (auto simp: demo_snappy_def snappy_error_def)
  have "holds as_snappy (ud ?s) w" using c1 by (simp add: holds_def)
  from snappy_ignores_avail_out [OF this, of demo_snappy 4 1] 1 i show ?thesis
    by (auto simp: Let_def ensures_def)
qed

text \<open>
  What \<open>snappy-c.h\<close> documents: compression succeeds if the output buffer has the maximal
  compressed length, and the compressed bytes, wherever they are moved, tell the length of
  the input and uncompress to it.  It is asked for inputs of less than 4 GiB, which is all
  that \<open>avail_in\<close> can describe.
\<close>

definition snappy_contract :: "snappy_lib \<Rightarrow> bool" where
  "snappy_contract L \<longleftrightarrow>
     (\<forall>src n dst cap m r len m'. uint n < 2 ^ 32 \<longrightarrow> snappy_max_compressed_length L n \<le> cap \<longrightarrow>
        disjoint_ranges src (unat n) dst (unat cap) \<longrightarrow> snappy_compress L src n dst cap m = (r, len, m') \<longrightarrow>
        r = SNAPPY_OK L \<and>
        (\<forall>src' dst' res m1. read_mem m1 src' (unat len) = read_mem m' dst (unat len) \<longrightarrow>
           disjoint_ranges src' (unat len) dst' (unat n) \<longrightarrow>
           snappy_uncompressed_length L src' len res m1 = (SNAPPY_OK L, n) \<and>
           (\<exists>m2. snappy_uncompress L src' len dst' n m1 = (SNAPPY_OK L, n, m2) \<and>
              read_mem m2 dst' (unat n) = read_mem m src (unat n))))"

lemma snappy_contractD:
  assumes "snappy_contract L" and "uint n < 2 ^ 32"
    and "disjoint_ranges src (unat n) dst (unat (snappy_max_compressed_length L n))"
    and "snappy_compress L src n dst (snappy_max_compressed_length L n) m = (r, len, m')"
  shows "r = SNAPPY_OK L"
    and "read_mem m1 src' (unat len) = read_mem m' dst (unat len) \<Longrightarrow>
      disjoint_ranges src' (unat len) dst' (unat n) \<Longrightarrow>
      snappy_uncompressed_length L src' len res m1 = (SNAPPY_OK L, n) \<and>
      (\<exists>m2. snappy_uncompress L src' len dst' n m1 = (SNAPPY_OK L, n, m2) \<and>
         read_mem m2 dst' (unat n) = read_mem m src (unat n))"
  using assms order_refl [of "snappy_max_compressed_length L n"]
  unfolding snappy_contract_def by blast+

lemma demo_snappy_contract: "snappy_contract demo_snappy"
  unfolding snappy_contract_def
proof (intro allI impI)
  fix src n dst cap :: uLong and r :: int and len and m m' :: mem
  assume n: "uint n < 2 ^ 32" and cap: "snappy_max_compressed_length demo_snappy n \<le> cap"
    and c: "snappy_compress demo_snappy src n dst cap m = (r, len, m')"
  have n0: "0 \<le> uint n" by simp
  have "uint (n div 6) = uint n div 6" by (simp add: uint_div_distrib)
  moreover have "0 \<le> uint n div 6" "uint n div 6 \<le> uint n"
    using n0 by presburger+
  ultimately have "uint (32 + n + n div 6) = 32 + uint n + uint n div 6"
    using n n0 by (simp add: uint_word_ariths)
  then have room: "uint n + 1 \<le> uint cap"
    using cap \<open>0 \<le> uint n div 6\<close> by (simp add: demo_snappy_def word_le_def)
  with c have c': "r = 0" "len = n + 1" "m' = write_mem m dst (0 # read_mem m src (unat n))"
    by (auto simp: demo_snappy_def)
  note rt = store_word_roundtrip [OF n, of _ _ m dst src]
  show "r = SNAPPY_OK demo_snappy \<and>
      (\<forall>src' dst' res m1. read_mem m1 src' (unat len) = read_mem m' dst (unat len) \<longrightarrow>
         disjoint_ranges src' (unat len) dst' (unat n) \<longrightarrow>
         snappy_uncompressed_length demo_snappy src' len res m1 = (SNAPPY_OK demo_snappy, n) \<and>
         (\<exists>m2. snappy_uncompress demo_snappy src' len dst' n m1 = (SNAPPY_OK demo_snappy, n, m2) \<and>
            read_mem m2 dst' (unat n) = read_mem m src (unat n)))"
    using rt by (simp add: demo_snappy_def c' del: write_mem.simps)
qed

text \<open>
  C13: one \<open>deflate\<close> call with \<open>Z_FINISH\<close> followed by one \<open>inflate\<close> call is lossless for
  Snappy: if the output buffer has the room Snappy asks for, \<open>deflate\<close> succeeds, and
  \<open>inflate\<close> of exactly the bytes \<open>total_out\<close> counts, in any world that holds them, succeeds,
  reports the original length and restores the original bytes.
\<close>

theorem snappy_stream_roundtrip:
  assumes lib: "snappy_contract L"
    and s: "holds as_snappy (ud s) w"
    and apart: "disjoint_ranges (next_in s) (unat (avail_in s)) (next_out s)
        (unat (snappy_max_compressed_length L (ucast (avail_in s))))"
    and t: "holds as_snappy (ud t) w2"
    and defl: "deflateCB_snappy L 4 s w = Inr (r, s1, w1)"
    and moved: "read_mem (bytes w2) (next_in t) (unat (avail_in t)) =
        read_mem (bytes w1) (next_out s) (unat (avail_in t))"
      "total_out s1 = ucast (avail_in t)"
      "disjoint_ranges (next_in t) (unat (avail_in t)) (next_out t) (unat (avail_in s))"
  shows "r = UNIZIP_OK \<and> ensures (inflateCB_snappy L f t w2) (\<lambda>(r', t', w3). r' = UNIZIP_OK \<and>
    total_out t' = ucast (avail_in s) \<and>
    read_mem (bytes w3) (next_out t) (unat (avail_in s)) = read_mem (bytes w) (next_in s) (unat (avail_in s)))"
proof -
  let ?n = "ucast (avail_in s) :: uLong" and ?k = "ucast (avail_in t) :: uLong"
  from s obtain c where c: "load as_snappy (ud s) w = Inr c" by (auto simp: holds_def)
  from t obtain d where d: "load as_snappy (ud t) w2 = Inr d" by (auto simp: holds_def)
  obtain r0 len m where l: "snappy_compress L (next_in s) ?n (next_out s)
      (snappy_max_compressed_length L ?n) (bytes w) = (r0, len, m)" by (metis prod_cases3)
  from snappy_finish_eq [OF c l] defl have r: "r = snappy_error L r0" "total_out s1 = len" "bytes w1 = m"
    by auto
  have n: "uint ?n < 2 ^ 32" using uint_lt2p [of "avail_in s"] by simp
  have len: "len = ?k" using moved(2) unfolding r(2) .
  have "disjoint_ranges (next_in s) (unat ?n) (next_out s)
      (unat (snappy_max_compressed_length L ?n))"
    using apart by (simp only: unat_ucast_up)
  note con = snappy_contractD [OF lib n this l]
  have k: "unat len = unat (avail_in t)" by (simp only: len unat_ucast_up)
  have rd: "read_mem (bytes w2) (next_in t) (unat len) = read_mem m (next_out s) (unat len)"
    using moved(1) unfolding k r(3) .
  have ap: "disjoint_ranges (next_in t) (unat len) (next_out t) (unat ?n)"
    using moved(3) by (simp only: k unat_ucast_up)
  from con(2) [OF rd ap, of "result_snappy d"] obtain m2 where
    3: "snappy_uncompressed_length L (next_in t) ?k (result_snappy d) (bytes w2) = (SNAPPY_OK L, ?n)"
      "snappy_uncompress L (next_in t) ?k (next_out t) ?n (bytes w2) = (SNAPPY_OK L, ?n, m2)"
      "read_mem m2 (next_out t) (unat ?n) = read_mem (bytes w) (next_in s) (unat ?n)"
    unfolding len by blast
  show ?thesis
    using snappy_inflate_eq [OF d 3(1,2), of f] 3(3) r(1) con(1) by (auto simp: snappy_error_def unat_ucast_up)
qed

theorem snappy_stream_roundtrip_witness:
  "\<exists>s t (w :: ptr list world). ensures (deflateCB_snappy demo_snappy 4 s w) (\<lambda>(r, s1, w2). r = 0 \<and>
     total_out s1 = 4 \<and>
     ensures (inflateCB_snappy demo_snappy 0 t w2) (\<lambda>(r', t', w3). r' = 0 \<and> total_out t' = 3 \<and>
       read_mem (bytes w3) 3000 3 = [7, 8, 9]))"
proof -
  obtain s w c where "deflateInitCB_snappy demo_snappy 1 demo_stream demo_world = Inr (0, s, w)"
    and c: "load as_snappy (ud s) w = Inr c" and b: "bytes w = bytes demo_world"
    by (rule demo_snappy_init)
  let ?s = "s\<lparr>next_in := 1000, avail_in := 3, next_out := 2000, avail_out := 50\<rparr>"
  let ?t = "s\<lparr>next_in := 2000, avail_in := 4, next_out := 3000, avail_out := 50\<rparr>"
  have c1: "load as_snappy (ud ?s) w = Inr c" using c by simp
  from snappy_finish_eq [OF c1, of demo_snappy 0 4 "write_mem (bytes w) 2000 (0 # read_mem (bytes w) 1000 3)"]
  obtain c2 where 1: "deflateCB_snappy demo_snappy 4 ?s w = Inr (0, ?s\<lparr>avail_in := 0, total_in := 3,
      total_out := 4\<rparr>, store (ud s) (Snappy_obj c2)
        (w\<lparr>bytes := write_mem (bytes w) 2000 (0 # read_mem (bytes w) 1000 3)\<rparr>))"
    by (auto simp: demo_snappy_def snappy_error_def)
  let ?w1 = "store (ud s) (Snappy_obj c2)
      (w\<lparr>bytes := write_mem (bytes w) 2000 (0 # read_mem (bytes w) 1000 3)\<rparr>)"
  have "holds as_snappy (ud ?s) w" "holds as_snappy (ud ?t) ?w1"
    using c load_nonnull [OF c] by (simp_all add: holds_def)
  moreover have "disjoint_ranges (next_in ?s) (unat (avail_in ?s)) (next_out ?s)
      (unat (snappy_max_compressed_length demo_snappy (ucast (avail_in ?s))))"
    "disjoint_ranges (next_in ?t) (unat (avail_in ?t)) (next_out ?t) (unat (avail_in ?s))"
    by (rule disjoint_ranges_far; simp add: demo_snappy_def)+
  ultimately have "ensures (inflateCB_snappy demo_snappy 0 ?t ?w1) (\<lambda>(r', t', w3). r' = 0 \<and>
      total_out t' = 3 \<and> read_mem (bytes w3) 3000 3 = [7, 8, 9])"
    using snappy_stream_roundtrip [OF demo_snappy_contract, of ?s w ?t ?w1 0 _ _ 0] 1 demo_bytes b
    by simp
  with 1 show ?thesis by - (rule exI [of _ ?s], rule exI [of _ ?t], rule exI [of _ w], simp)
qed


section \<open>One-shot calls\<close>

definition snappy_enc :: "snappy_lib \<Rightarrow> codec" where
  "snappy_enc L dst cap src n m =
     (let (r, len, m) = snappy_compress L src n dst cap m in if r = SNAPPY_OK L then Some (len, m) else None)"

definition snappy_dec :: "snappy_lib \<Rightarrow> codec" where
  "snappy_dec L dst cap src n m =
     (let (r, len, m) = snappy_uncompress L src n dst cap m in if r = SNAPPY_OK L then Some (len, m) else None)"

lemma snappy_error_ok: "snappy_error L r = UNIZIP_OK \<longleftrightarrow> r = SNAPPY_OK L"
  by (simp add: snappy_error_def)

interpretation snappy_shots: one_shot True 0 "\<lambda>_ _. True" "snappy_enc L" "snappy_dec L"
  "sure (compressCB_snappy L)" "sure (uncompressCB_snappy L)" for L
proof unfold_locales
  fix dest source n cap len :: uLong and w w' :: "'a world"
  assume "dest \<noteq> 0" "source \<noteq> 0" "sure (compressCB_snappy L) dest (Some cap) source n w = Inr (UNIZIP_OK, Some len, w')"
  then show "snappy_enc L dest (cap + 0) source n (bytes w) = Some (len + 0, bytes w')"
    by (cases "snappy_compress L source n dest cap (bytes w)")
      (auto simp: sure_def compressCB_snappy_def snappy_compress_new_def snappy_enc_def snappy_error_ok)
next
  fix dest source n cap len :: uLong and w :: "'a world" and m
  assume "dest \<noteq> 0" "source \<noteq> 0" "snappy_dec L dest cap source (len + 0) (bytes w) = Some (n, m)"
  then show "\<exists>w'. sure (uncompressCB_snappy L) dest (Some cap) source len w = Inr (UNIZIP_OK, Some n, w') \<and> bytes w' = m"
    by (cases "snappy_uncompress L source len dest cap (bytes w)")
      (auto simp: sure_def uncompressCB_snappy_def snappy_decompress_new_def snappy_dec_def snappy_error_ok split: if_splits)
qed

end
