(* ===== verification/Zstd.thy ===== *)
theory Zstd
  imports Instances
begin

text \<open>
  The Zstandard back end: \<open>zstd/unizip_algorithm_zstd.c\<close> and
  \<open>zstd/unizip_callback_zstd.c\<close>.  The library is the parameter \<open>zstd_lib\<close>.  Its streaming
  state is of the type \<open>'l\<close>, streams are handles into it, and a call with a handle the
  library does not accept is a fault.  The error numbers of \<open>zstd_errors.h\<close> are fields.
\<close>

record 'l zstd_lib =
  ZSTD_versionString :: string
  ZSTD_minCLevel :: int
  ZSTD_maxCLevel :: int
  ZSTD_error_no_error :: int
  ZSTD_error_dictionary_corrupted :: int
  ZSTD_error_dictionary_wrong :: int
  ZSTD_error_memory_allocation :: int
  ZSTD_isError :: "uLong \<Rightarrow> bool"
  ZSTD_createCStream :: "'l \<Rightarrow> ptr \<times> 'l"
  ZSTD_initCStream :: "ptr \<Rightarrow> int \<Rightarrow> 'l \<Rightarrow> (uLong \<times> 'l) res"
  ZSTD_compressStream :: "ptr \<Rightarrow> ZSTD_outBuffer \<Rightarrow> ZSTD_inBuffer \<Rightarrow> mem \<Rightarrow> 'l \<Rightarrow>
    (uLong \<times> ZSTD_outBuffer \<times> ZSTD_inBuffer \<times> mem \<times> 'l) res"
  ZSTD_endStream :: "ptr \<Rightarrow> ZSTD_outBuffer \<Rightarrow> mem \<Rightarrow> 'l \<Rightarrow>
    (uLong \<times> ZSTD_outBuffer \<times> mem \<times> 'l) res"
  ZSTD_freeCStream :: "ptr \<Rightarrow> 'l \<Rightarrow> (uLong \<times> 'l) res"
  ZSTD_createDStream :: "'l \<Rightarrow> ptr \<times> 'l"
  ZSTD_decompressStream :: "ptr \<Rightarrow> ZSTD_outBuffer \<Rightarrow> ZSTD_inBuffer \<Rightarrow> mem \<Rightarrow> 'l \<Rightarrow>
    (uLong \<times> ZSTD_outBuffer \<times> ZSTD_inBuffer \<times> mem \<times> 'l) res"
  ZSTD_freeDStream :: "ptr \<Rightarrow> 'l \<Rightarrow> (uLong \<times> 'l) res"
  ZSTD_compress :: "addr \<Rightarrow> uLong \<Rightarrow> addr \<Rightarrow> uLong \<Rightarrow> int \<Rightarrow> mem \<Rightarrow> uLong \<times> mem"
  ZSTD_decompress :: "addr \<Rightarrow> uLong \<Rightarrow> addr \<Rightarrow> uLong \<Rightarrow> mem \<Rightarrow> uLong \<times> mem"
  ZSTD_compressBound :: "uLong \<Rightarrow> uLong"
  zstd_indet :: zstd_ctx

abbreviation zlibAction_end_zstd :: int where "zlibAction_end_zstd \<equiv> 4"
abbreviation zstdAction_end :: int where "zstdAction_end \<equiv> 1"
abbreviation zstdAction_process :: int where "zstdAction_process \<equiv> 0"

section \<open>The algorithm layer\<close>

text \<open>
  \<open>map_error_zstd\<close> takes an \<open>int\<close>; its callers pass the \<open>size_t\<close> of the library, which C
  converts (\<open>c_int\<close>).  The four cases that name a data error are the default case too.
\<close>

definition map_error_zstd :: "'l zstd_lib \<Rightarrow> int \<Rightarrow> int" where
  "map_error_zstd L ret =
     (if - ret = ZSTD_error_no_error L then UNIZIP_OK
      else if - ret = ZSTD_error_dictionary_corrupted L \<or> - ret = ZSTD_error_dictionary_wrong L
      then UNIZIP_NEED_DICT
      else if - ret = ZSTD_error_memory_allocation L then UNIZIP_MEM_ERROR
      else UNIZIP_DATA_ERROR)"

text \<open>\<open>ZSTD_outBuffer\<close> and \<open>ZSTD_inBuffer\<close> with every field zero.\<close>

definition zstd_no_out :: ZSTD_outBuffer where
  "zstd_no_out = \<lparr>dst_out = NULL_addr, size_out = 0, pos_out = 0\<rparr>"

definition zstd_no_in :: ZSTD_inBuffer where
  "zstd_no_in = \<lparr>src_in = NULL_addr, size_in = 0, pos_in = 0\<rparr>"

definition zstd_allocate :: "'l zstd_lib \<Rightarrow> 'l world \<Rightarrow> ptr \<times> 'l world" where
  "zstd_allocate L w =
     (let (p, w) = malloc (Zstd_obj (zstd_indet L)) w
      in if p = NULL_ptr then (NULL_ptr, w)
         else (p, store p (Zstd_obj ((zstd_indet L)\<lparr>zdstream := NULL_ptr, zcstream := NULL_ptr,
                in_zstd := zstd_no_in, out_zstd := zstd_no_out\<rparr>)) w))"

definition zstd_deflatecopy :: "ptr \<Rightarrow> ptr \<Rightarrow> 'l world \<Rightarrow> (int \<times> 'l world) res" where
  "zstd_deflatecopy dest source w =
     (if dest \<noteq> NULL_ptr \<and> source \<noteq> NULL_ptr then
        andthen (load as_zstd source w) (\<lambda>c.
        andthen (load as_zstd dest w) (\<lambda>_.
        Inr (UNIZIP_OK, store dest (Zstd_obj c) w)))
      else Inr (UNIZIP_DATA_ERROR, w))"

definition zstd_inflatecopy :: "ptr \<Rightarrow> ptr \<Rightarrow> 'l world \<Rightarrow> (int \<times> 'l world) res" where
  "zstd_inflatecopy dest source w =
     (if dest \<noteq> NULL_ptr \<and> source \<noteq> NULL_ptr then
        andthen (load as_zstd source w) (\<lambda>c.
        andthen (load as_zstd dest w) (\<lambda>_.
        Inr (UNIZIP_OK, store dest (Zstd_obj c) w)))
      else Inr (UNIZIP_DATA_ERROR, w))"

definition zstd_deflateInit :: "'l zstd_lib \<Rightarrow> ptr \<Rightarrow> int \<Rightarrow> 'l world \<Rightarrow> (int \<times> 'l world) res" where
  "zstd_deflateInit L p level w =
     andthen (load as_zstd p w) (\<lambda>ctx.
     let ctx = ctx\<lparr>in_zstd := zstd_no_in, out_zstd := zstd_no_out\<rparr>;
         tmpLevel = (if level < ZSTD_minCLevel L \<or> level > ZSTD_maxCLevel L then 0 else level);
         (h, l) = ZSTD_createCStream L (lib w);
         w = w\<lparr>lib := l\<rparr>;
         ctx = ctx\<lparr>zcstream := h\<rparr>;
         w = store p (Zstd_obj ctx) w
     in if zcstream ctx = NULL_ptr then Inr (UNIZIP_MEM_ERROR, w)
        else andthen (ZSTD_initCStream L (zcstream ctx) tmpLevel (lib w)) (\<lambda>(ret, l).
          let w = w\<lparr>lib := l\<rparr>
          in if ZSTD_isError L ret then Inr (UNIZIP_MEM_ERROR, w) else Inr (UNIZIP_OK, w)))"

definition zstd_inflateInit :: "'l zstd_lib \<Rightarrow> ptr \<Rightarrow> 'l world \<Rightarrow> (int \<times> 'l world) res" where
  "zstd_inflateInit L p w =
     andthen (load as_zstd p w) (\<lambda>ctx.
     let ctx = ctx\<lparr>in_zstd := zstd_no_in, out_zstd := zstd_no_out\<rparr>;
         (h, l) = ZSTD_createDStream L (lib w);
         w = w\<lparr>lib := l\<rparr>;
         ctx = ctx\<lparr>zdstream := h\<rparr>;
         w = store p (Zstd_obj ctx) w
     in if zdstream ctx = NULL_ptr then Inr (UNIZIP_MEM_ERROR, w) else Inr (UNIZIP_OK, w))"

definition zstd_deflateEnd :: "'l zstd_lib \<Rightarrow> ptr \<Rightarrow> 'l world \<Rightarrow> (int \<times> 'l world) res" where
  "zstd_deflateEnd L p w =
     andthen (load as_zstd p w) (\<lambda>ctx.
     andthen (ZSTD_freeCStream L (zcstream ctx) (lib w)) (\<lambda>(err, l).
     let w = w\<lparr>lib := l\<rparr>;
         ctx = ctx\<lparr>zcstream := NULL_ptr, out_zstd := zstd_no_out, in_zstd := zstd_no_in\<rparr>
     in andthen (free p (store p (Zstd_obj ctx) w)) (\<lambda>w.
        Inr (map_error_zstd L (c_int err), w))))"

definition zstd_inflateEnd :: "'l zstd_lib \<Rightarrow> ptr \<Rightarrow> 'l world \<Rightarrow> (int \<times> 'l world) res" where
  "zstd_inflateEnd L p w =
     andthen (load as_zstd p w) (\<lambda>ctx.
     andthen (ZSTD_freeDStream L (zdstream ctx) (lib w)) (\<lambda>(err, l).
     let w = w\<lparr>lib := l\<rparr>;
         ctx = ctx\<lparr>zdstream := NULL_ptr, out_zstd := zstd_no_out, in_zstd := zstd_no_in\<rparr>
     in andthen (free p (store p (Zstd_obj ctx) w)) (\<lambda>w.
        Inr (map_error_zstd L (c_int err), w))))"

text \<open>
  The buffers \<open>zstd_deflate\<close> and \<open>zstd_inflate\<close> hand to the library: the caller's pointers,
  and the caller's amounts added to the sizes once the old amounts are used up.
\<close>

definition zstd_set_pointers :: "zstd_ctx \<Rightarrow> zstd_ctx" where
  "zstd_set_pointers ctx = ctx\<lparr>in_zstd := (in_zstd ctx)\<lparr>src_in := next_in_zstd ctx\<rparr>,
     out_zstd := (out_zstd ctx)\<lparr>dst_out := next_out_zstd ctx\<rparr>\<rparr>"

definition zstd_more_in :: "zstd_ctx \<Rightarrow> zstd_ctx" where
  "zstd_more_in ctx = ctx\<lparr>in_zstd := (in_zstd ctx)
     \<lparr>size_in := size_in (in_zstd ctx) + ucast (avail_in_zstd ctx)\<rparr>\<rparr>"

definition zstd_more_out :: "zstd_ctx \<Rightarrow> zstd_ctx" where
  "zstd_more_out ctx = ctx\<lparr>out_zstd := (out_zstd ctx)
     \<lparr>size_out := size_out (out_zstd ctx) + ucast (avail_out_zstd ctx)\<rparr>\<rparr>"

definition zstd_deflate_buffers :: "int \<Rightarrow> zstd_ctx \<Rightarrow> zstd_ctx" where
  "zstd_deflate_buffers action ctx =
     (let ctx = zstd_set_pointers ctx;
          ctx = (if size_in (in_zstd ctx) \<le> pos_in (in_zstd ctx) \<and>
                   (action \<noteq> 1 \<or> (action = 1 \<and> size_out (out_zstd ctx) = 0 \<and>
                      size_in (in_zstd ctx) = 0 \<and> pos_out (out_zstd ctx) = 0 \<and>
                      pos_in (in_zstd ctx) = 0))
                 then zstd_more_in ctx else ctx)
      in if size_out (out_zstd ctx) \<le> pos_out (out_zstd ctx) then zstd_more_out ctx else ctx)"

definition zstd_inflate_buffers :: "zstd_ctx \<Rightarrow> zstd_ctx" where
  "zstd_inflate_buffers ctx =
     (let ctx = zstd_set_pointers ctx;
          ctx = (if size_in (in_zstd ctx) \<le> pos_in (in_zstd ctx) then zstd_more_in ctx else ctx)
      in if size_out (out_zstd ctx) \<le> pos_out (out_zstd ctx) then zstd_more_out ctx else ctx)"

definition zstd_count :: "uLong \<Rightarrow> uLong \<Rightarrow> zstd_ctx \<Rightarrow> zstd_ctx" where
  "zstd_count preIn preOut ctx = ctx
     \<lparr>total_in_zstd := total_in_zstd ctx + (pos_in (in_zstd ctx) - preIn),
      total_out_zstd := total_out_zstd ctx + (pos_out (out_zstd ctx) - preOut)\<rparr>"

definition zstd_advance :: "zstd_ctx \<Rightarrow> zstd_ctx" where
  "zstd_advance ctx = ctx\<lparr>next_in_zstd := next_in_zstd ctx + pos_in (in_zstd ctx),
     next_out_zstd := next_out_zstd ctx + pos_out (out_zstd ctx)\<rparr>"

definition zstd_deflate :: "'l zstd_lib \<Rightarrow> ptr \<Rightarrow> int \<Rightarrow> 'l world \<Rightarrow> (int \<times> 'l world) res" where
  "zstd_deflate L p flush w =
     andthen (load as_zstd p w) (\<lambda>ctx.
     let action = (if flush = zlibAction_end_zstd then zstdAction_end else zstdAction_process);
         ctx = zstd_deflate_buffers action ctx;
         preIn = pos_in (in_zstd ctx);
         preOut = pos_out (out_zstd ctx)
     in andthen
          (if action \<noteq> 0 then
             andthen (ZSTD_endStream L (zcstream ctx) (out_zstd ctx) (bytes w) (lib w))
               (\<lambda>(ret, ob, m, l). Inr (ret, ctx\<lparr>out_zstd := ob\<rparr>, m, l))
           else
             andthen (ZSTD_compressStream L (zcstream ctx) (out_zstd ctx) (in_zstd ctx) (bytes w) (lib w))
               (\<lambda>(ret, ob, ib, m, l). Inr (ret, ctx\<lparr>out_zstd := ob, in_zstd := ib\<rparr>, m, l)))
          (\<lambda>(ret, ctx, m, l).
          let w = w\<lparr>bytes := m, lib := l\<rparr>
          in if ZSTD_isError L ret then Inr (map_error_zstd L (c_int ret), store p (Zstd_obj ctx) w)
             else
               let ctx = zstd_count preIn preOut ctx
               in if ret = word_of_int (ZSTD_error_no_error L) \<and> action \<noteq> 0
                  then Inr (UNIZIP_STREAM_END, store p (Zstd_obj (zstd_advance ctx)) w)
                  else Inr (UNIZIP_OK, store p (Zstd_obj ctx) w)))"

definition zstd_inflate :: "'l zstd_lib \<Rightarrow> ptr \<Rightarrow> 'l world \<Rightarrow> (int \<times> 'l world) res" where
  "zstd_inflate L p w =
     andthen (load as_zstd p w) (\<lambda>ctx.
     let ctx = zstd_inflate_buffers ctx;
         preIn = pos_in (in_zstd ctx);
         preOut = pos_out (out_zstd ctx)
     in andthen (ZSTD_decompressStream L (zdstream ctx) (out_zstd ctx) (in_zstd ctx) (bytes w) (lib w))
          (\<lambda>(ret, ob, ib, m, l).
          let ctx = ctx\<lparr>out_zstd := ob, in_zstd := ib\<rparr>;
              w = w\<lparr>bytes := m, lib := l\<rparr>
          in if ZSTD_isError L ret then Inr (map_error_zstd L (c_int ret), store p (Zstd_obj ctx) w)
             else
               let ctx = zstd_count preIn preOut ctx
               in if ret = 0
                  then Inr (UNIZIP_STREAM_END, store p (Zstd_obj (zstd_advance ctx)) w)
                  else Inr (UNIZIP_OK, store p (Zstd_obj ctx) w)))"

text \<open>The one-shot functions dereference \<open>destLen\<close> unchecked: \<open>None\<close> faults.\<close>

definition zstd_compress ::
  "'l zstd_lib \<Rightarrow> addr \<Rightarrow> uLong option \<Rightarrow> addr \<Rightarrow> uLong \<Rightarrow> 'l world \<Rightarrow> (int \<times> uLong option \<times> 'l world) res" where
  "zstd_compress L dest destLen source sourceLen w =
     (case destLen of None \<Rightarrow> Inl NullDeref | Some len \<Rightarrow>
        let (ret, m) = ZSTD_compress L dest len source sourceLen 0 (bytes w);
            w = w\<lparr>bytes := m\<rparr>
        in if ZSTD_isError L ret then Inr (map_error_zstd L (c_int ret), destLen, w)
           else Inr (UNIZIP_OK, Some ret, w))"

definition zstd_decompress ::
  "'l zstd_lib \<Rightarrow> addr \<Rightarrow> uLong option \<Rightarrow> addr \<Rightarrow> uLong \<Rightarrow> 'l world \<Rightarrow> (int \<times> uLong option \<times> 'l world) res" where
  "zstd_decompress L dest destLen source sourceLen w =
     (case destLen of None \<Rightarrow> Inl NullDeref | Some len \<Rightarrow>
        let (ret, m) = ZSTD_decompress L dest len source sourceLen (bytes w);
            w = w\<lparr>bytes := m\<rparr>
        in if ZSTD_isError L ret then Inr (map_error_zstd L (c_int ret), destLen, w)
           else Inr (UNIZIP_OK, Some ret, w))"

definition zstd_compressBound :: "'l zstd_lib \<Rightarrow> uLong \<Rightarrow> uLong" where
  "zstd_compressBound L uncompressed_size =
     (let compressed_size = ZSTD_compressBound L uncompressed_size
      in if compressed_size < uncompressed_size then ULONG_MAX else compressed_size)"

section \<open>The callback layer\<close>

definition versionCB_zstd :: "'l zstd_lib \<Rightarrow> string" where
  "versionCB_zstd L = ZSTD_versionString L"

definition resetZstd :: "unizip_stream \<Rightarrow> unizip_stream" where
  "resetZstd strm = strm\<lparr>next_in := NULL_addr, next_out := NULL_addr, avail_in := 0,
     avail_out := 0, total_in := 0, total_out := 0\<rparr>"

definition deflateInitCB_zstd :: "'l zstd_lib \<Rightarrow> int \<Rightarrow> 'l stream_op" where
  "deflateInitCB_zstd L level strm w =
     (let (p, w) = zstd_allocate L w; strm = strm\<lparr>ud := p\<rparr>
      in if ud strm = NULL_ptr then Inr (UNIZIP_MEM_ERROR, strm, w)
         else
           let strm = strm\<lparr>compression_flag := level\<rparr>
           in andthen (zstd_deflateInit L (ud strm) level w) (\<lambda>(ret, w).
              Inr (ret, resetZstd strm, w)))"

text \<open>Both stream callbacks copy the stream's six fields into the context and back.\<close>

definition zstd_pull :: "unizip_stream \<Rightarrow> zstd_ctx \<Rightarrow> zstd_ctx" where
  "zstd_pull strm ctx = ctx\<lparr>next_in_zstd := next_in strm, next_out_zstd := next_out strm,
     avail_in_zstd := avail_in strm, avail_out_zstd := avail_out strm,
     total_in_zstd := total_in strm, total_out_zstd := total_out strm\<rparr>"

definition zstd_push :: "zstd_ctx \<Rightarrow> unizip_stream \<Rightarrow> unizip_stream" where
  "zstd_push ctx strm = strm\<lparr>next_in := next_in_zstd ctx, next_out := next_out_zstd ctx,
     avail_in := avail_in_zstd ctx, avail_out := avail_out_zstd ctx,
     total_in := total_in_zstd ctx, total_out := total_out_zstd ctx\<rparr>"

definition deflateCB_zstd :: "'l zstd_lib \<Rightarrow> int \<Rightarrow> 'l stream_op" where
  "deflateCB_zstd L flush strm w =
     andthen (load as_zstd (ud strm) w) (\<lambda>ctx.
     andthen (zstd_deflate L (ud strm) flush (store (ud strm) (Zstd_obj (zstd_pull strm ctx)) w))
       (\<lambda>(ret, w).
     andthen (load as_zstd (ud strm) w) (\<lambda>ctx.
     Inr (ret, zstd_push ctx strm, w))))"

definition deflateEndCB_zstd :: "'l zstd_lib \<Rightarrow> 'l stream_op" where
  "deflateEndCB_zstd L strm w =
     (let strm = resetZstd strm
      in andthen (zstd_deflateEnd L (ud strm) w) (\<lambda>(ret, w). Inr (ret, strm, w)))"

definition inflateInitCB_zstd :: "'l zstd_lib \<Rightarrow> 'l stream_op" where
  "inflateInitCB_zstd L strm w =
     (let (p, w) = zstd_allocate L w; strm = strm\<lparr>ud := p\<rparr>
      in if ud strm = NULL_ptr then Inr (UNIZIP_MEM_ERROR, strm, w)
         else
           let strm = resetZstd strm
           in andthen (zstd_inflateInit L (ud strm) w) (\<lambda>(ret, w). Inr (ret, strm, w)))"

definition inflateCB_zstd :: "'l zstd_lib \<Rightarrow> int \<Rightarrow> 'l stream_op" where
  "inflateCB_zstd L flush strm w =
     andthen (load as_zstd (ud strm) w) (\<lambda>ctx.
     andthen (zstd_inflate L (ud strm) (store (ud strm) (Zstd_obj (zstd_pull strm ctx)) w))
       (\<lambda>(ret, w).
     andthen (load as_zstd (ud strm) w) (\<lambda>ctx.
     Inr (ret, zstd_push ctx strm, w))))"

definition inflateEndCB_zstd :: "'l zstd_lib \<Rightarrow> 'l stream_op" where
  "inflateEndCB_zstd L strm w =
     (let strm = resetZstd strm
      in andthen (zstd_inflateEnd L (ud strm) w) (\<lambda>(ret, w). Inr (ret, strm, w)))"

definition deflateCopyCB_zstd :: "unizip_stream \<Rightarrow> unizip_stream \<Rightarrow> 'l world \<Rightarrow> (int \<times> unizip_stream \<times> 'l world) res" where
  "deflateCopyCB_zstd dest source w =
     andthen (zstd_deflatecopy (ud dest) (ud source) w) (\<lambda>(ret, w). Inr (ret, dest, w))"

definition inflateCopyCB_zstd :: "unizip_stream \<Rightarrow> unizip_stream \<Rightarrow> 'l world \<Rightarrow> (int \<times> unizip_stream \<times> 'l world) res" where
  "inflateCopyCB_zstd dest source w =
     andthen (zstd_inflatecopy (ud dest) (ud source) w) (\<lambda>(ret, w). Inr (ret, dest, w))"

definition deflateResetCB_zstd :: "'l zstd_lib \<Rightarrow> 'l stream_op" where
  "deflateResetCB_zstd L strm w =
     (let strm = resetZstd strm
      in andthen (zstd_deflateEnd L (ud strm) w) (\<lambda>(_, w).
         let (p, w) = zstd_allocate L w; strm = strm\<lparr>ud := p\<rparr>
         in if ud strm = NULL_ptr then Inr (UNIZIP_MEM_ERROR, strm, w)
            else andthen (zstd_deflateInit L (ud strm) (compression_flag strm) w)
                   (\<lambda>(ret, w). Inr (ret, strm, w))))"

definition inflateResetCB_zstd :: "'l zstd_lib \<Rightarrow> 'l stream_op" where
  "inflateResetCB_zstd L strm w =
     (let strm = resetZstd strm
      in andthen (zstd_inflateEnd L (ud strm) w) (\<lambda>(_, w).
         let (p, w) = zstd_allocate L w; strm = strm\<lparr>ud := p\<rparr>
         in if ud strm = NULL_ptr then Inr (UNIZIP_MEM_ERROR, strm, w)
            else andthen (zstd_inflateInit L (ud strm) w) (\<lambda>(ret, w). Inr (ret, strm, w))))"

definition compressCB_zstd ::
  "'l zstd_lib \<Rightarrow> addr \<Rightarrow> uLong option \<Rightarrow> addr \<Rightarrow> uLong \<Rightarrow> 'l world \<Rightarrow> (int \<times> uLong option \<times> 'l world) res" where
  "compressCB_zstd L dest destLen source sourceLen w = zstd_compress L dest destLen source sourceLen w"

definition uncompressCB_zstd ::
  "'l zstd_lib \<Rightarrow> addr \<Rightarrow> uLong option \<Rightarrow> addr \<Rightarrow> uLong \<Rightarrow> 'l world \<Rightarrow> (int \<times> uLong option \<times> 'l world) res" where
  "uncompressCB_zstd L dest destLen source sourceLen w = zstd_decompress L dest destLen source sourceLen w"

definition compressBoundCB_zstd :: "'l zstd_lib \<Rightarrow> uLong \<Rightarrow> uLong" where
  "compressBoundCB_zstd L sourceLen = zstd_compressBound L sourceLen"

section \<open>Sessions\<close>

text \<open>
  What \<open>zstd.h\<close> documents about the two kinds of streams: creating one gives a fresh handle
  or \<open>NULL\<close>, using a live handle keeps all handles, freeing removes it; freeing \<open>NULL\<close> has
  no effect.  Freeing a handle twice is undefined behaviour.
\<close>

definition cstreams :: "'l zstd_lib \<Rightarrow> ('l \<Rightarrow> ptr set) \<Rightarrow> bool" where
  "cstreams L live \<longleftrightarrow>
     (\<forall>l h l'. ZSTD_createCStream L l = (h, l') \<longrightarrow>
        (if h = 0 then live l' = live l else h \<notin> live l \<and> live l' = insert h (live l))) \<and>
     (\<forall>l h lv. h \<in> live l \<longrightarrow> ensures (ZSTD_initCStream L h lv l) (\<lambda>(r, l'). live l' = live l)) \<and>
     (\<forall>l h ob ib m. h \<in> live l \<longrightarrow> ensures (ZSTD_compressStream L h ob ib m l)
        (\<lambda>(r, ob', ib', m', l'). live l' = live l)) \<and>
     (\<forall>l h ob m. h \<in> live l \<longrightarrow> ensures (ZSTD_endStream L h ob m l)
        (\<lambda>(r, ob', m', l'). live l' = live l)) \<and>
     (\<forall>l h. h \<in> live l \<longrightarrow> ensures (ZSTD_freeCStream L h l) (\<lambda>(r, l'). live l' = live l - {h})) \<and>
     (\<forall>l h. h \<noteq> 0 \<longrightarrow> h \<notin> live l \<longrightarrow> ZSTD_freeCStream L h l = Inl DoubleFree) \<and>
     (\<forall>l. ensures (ZSTD_freeCStream L 0 l) (\<lambda>(r, l'). live l' = live l))"

definition dstreams :: "'l zstd_lib \<Rightarrow> ('l \<Rightarrow> ptr set) \<Rightarrow> bool" where
  "dstreams L live \<longleftrightarrow>
     (\<forall>l h l'. ZSTD_createDStream L l = (h, l') \<longrightarrow>
        (if h = 0 then live l' = live l else h \<notin> live l \<and> live l' = insert h (live l))) \<and>
     (\<forall>l h ob ib m. h \<in> live l \<longrightarrow> ensures (ZSTD_decompressStream L h ob ib m l)
        (\<lambda>(r, ob', ib', m', l'). live l' = live l)) \<and>
     (\<forall>l h. h \<in> live l \<longrightarrow> ensures (ZSTD_freeDStream L h l) (\<lambda>(r, l'). live l' = live l - {h}))"

lemma cstreamsD:
  assumes "cstreams L live"
  shows "ZSTD_createCStream L l = (h, l') \<Longrightarrow> h \<noteq> 0 \<Longrightarrow> h \<notin> live l \<and> live l' = insert h (live l)"
    and "h \<in> live l \<Longrightarrow> ensures (ZSTD_initCStream L h lv l) (\<lambda>(r, l'). live l' = live l)"
    and "h \<in> live l \<Longrightarrow> ensures (ZSTD_compressStream L h ob ib m l) (\<lambda>(r, ob', ib', m', l'). live l' = live l)"
    and "h \<in> live l \<Longrightarrow> ensures (ZSTD_endStream L h ob m l) (\<lambda>(r, ob', m', l'). live l' = live l)"
    and "h \<in> live l \<Longrightarrow> ensures (ZSTD_freeCStream L h l) (\<lambda>(r, l'). live l' = live l - {h})"
    and "h \<noteq> 0 \<Longrightarrow> h \<notin> live l \<Longrightarrow> ZSTD_freeCStream L h l = Inl DoubleFree"
  using assms unfolding cstreams_def by (metis (no_types))+

lemma dstreamsD:
  assumes "dstreams L live"
  shows "ZSTD_createDStream L l = (h, l') \<Longrightarrow> h \<noteq> 0 \<Longrightarrow> h \<notin> live l \<and> live l' = insert h (live l)"
    and "h \<in> live l \<Longrightarrow> ensures (ZSTD_decompressStream L h ob ib m l) (\<lambda>(r, ob', ib', m', l'). live l' = live l)"
    and "h \<in> live l \<Longrightarrow> ensures (ZSTD_freeDStream L h l) (\<lambda>(r, l'). live l' = live l - {h})"
  using assms unfolding dstreams_def by (metis (no_types))+

lemma zstd_ctx_helpers [simp]:
  "zcstream (zstd_set_pointers c) = zcstream c" "zdstream (zstd_set_pointers c) = zdstream c"
  "zcstream (zstd_more_in c) = zcstream c" "zdstream (zstd_more_in c) = zdstream c"
  "zcstream (zstd_more_out c) = zcstream c" "zdstream (zstd_more_out c) = zdstream c"
  "zcstream (zstd_count a b c) = zcstream c" "zdstream (zstd_count a b c) = zdstream c"
  "zcstream (zstd_advance c) = zcstream c" "zdstream (zstd_advance c) = zdstream c"
  "zcstream (zstd_pull s c) = zcstream c" "zdstream (zstd_pull s c) = zdstream c"
  "ud (zstd_push c s) = ud s"
  by (simp_all add: zstd_set_pointers_def zstd_more_in_def zstd_more_out_def zstd_count_def
      zstd_advance_def zstd_pull_def zstd_push_def)

lemma zstd_buffers_handles [simp]:
  "zcstream (zstd_deflate_buffers a c) = zcstream c" "zdstream (zstd_inflate_buffers c) = zdstream c"
  by (simp_all add: zstd_deflate_buffers_def zstd_inflate_buffers_def Let_def)

lemma zstd_deflate_keeps:
  assumes ok: "cstreams L live" and c: "load as_zstd p w = Inr c" and h: "zcstream c \<in> live (lib w)"
  shows "ensures (zstd_deflate L p f w) (\<lambda>(r, w'). keeps as_zstd p w w' \<and> live (lib w') = live (lib w) \<and>
    (\<exists>c'. load as_zstd p w' = Inr c' \<and> zcstream c' = zcstream c))"
proof (cases "f = 4")
  case True
  with c load_nonnull [OF c] show ?thesis
    by (auto simp: zstd_deflate_def Let_def intro!: ensures_mono [OF cstreamsD(4) [OF ok]] h)
next
  case False
  with c load_nonnull [OF c] show ?thesis
    by (auto simp: zstd_deflate_def Let_def intro!: ensures_mono [OF cstreamsD(3) [OF ok]] h)
qed

lemma zstd_inflate_keeps:
  assumes ok: "dstreams L live" and c: "load as_zstd p w = Inr c" and h: "zdstream c \<in> live (lib w)"
  shows "ensures (zstd_inflate L p w) (\<lambda>(r, w'). keeps as_zstd p w w' \<and> live (lib w') = live (lib w) \<and>
    (\<exists>c'. load as_zstd p w' = Inr c' \<and> zdstream c' = zdstream c))"
  using c load_nonnull [OF c]
  by (auto simp: zstd_inflate_def Let_def intro!: ensures_mono [OF dstreamsD(2) [OF ok]] h)

lemma deflateCB_zstd_keeps:
  assumes ok: "cstreams L live" and c: "load as_zstd (ud s) w = Inr c" and h: "zcstream c \<in> live (lib w)"
  shows "ensures (deflateCB_zstd L f s w) (\<lambda>(r, s', w'). ud s' = ud s \<and> keeps as_zstd (ud s) w w' \<and>
    live (lib w') = live (lib w) \<and> (\<exists>c'. load as_zstd (ud s) w' = Inr c' \<and> zcstream c' = zcstream c))"
  using c load_nonnull [OF c]
    zstd_deflate_keeps [OF ok, of "ud s" "store (ud s) (Zstd_obj (zstd_pull s c)) w" "zstd_pull s c" f] h
  by (auto simp: deflateCB_zstd_def elim!: ensures_mono)

lemma inflateCB_zstd_keeps:
  assumes ok: "dstreams L live" and c: "load as_zstd (ud s) w = Inr c" and h: "zdstream c \<in> live (lib w)"
  shows "ensures (inflateCB_zstd L f s w) (\<lambda>(r, s', w'). ud s' = ud s \<and> keeps as_zstd (ud s) w w' \<and>
    live (lib w') = live (lib w) \<and> (\<exists>c'. load as_zstd (ud s) w' = Inr c' \<and> zdstream c' = zdstream c))"
  using c load_nonnull [OF c]
    zstd_inflate_keeps [OF ok, of "ud s" "store (ud s) (Zstd_obj (zstd_pull s c)) w" "zstd_pull s c"] h
  by (auto simp: inflateCB_zstd_def elim!: ensures_mono)

lemma zstd_allocate_acquires:
  assumes "zstd_allocate L w = (p, w1)" and "p \<noteq> 0" and "wf_heap w"
  shows "acquires as_zstd p w w1 \<and> wf_heap w1 \<and> lib w1 = lib w \<and> holds as_zstd p w1"
proof -
  obtain w0 where m: "malloc (Zstd_obj (zstd_indet L)) w = (p, w0)"
    and w1: "w1 = store p (Zstd_obj ((zstd_indet L)\<lparr>zdstream := 0, zcstream := 0,
      in_zstd := zstd_no_in, out_zstd := zstd_no_out\<rparr>)) w0"
    using assms(1,2) by (auto simp: zstd_allocate_def Let_def split: prod.splits if_splits)
  note a = malloc_acquires [OF m assms(2,3), of as_zstd]
  show ?thesis
    using a assms(2) by (auto simp: w1 intro: acquires_keeps wf_heap_store_holds)
qed

lemma deflateInitCB_zstd_acquires:
  assumes ok: "cstreams L live" and "wf_heap w"
    and i: "deflateInitCB_zstd L level s w = Inr (UNIZIP_OK, s', w')"
  shows "acquires as_zstd (ud s') w w' \<and> wf_heap w' \<and>
    (\<exists>c. load as_zstd (ud s') w' = Inr c \<and> zcstream c \<notin> live (lib w) \<and>
       live (lib w') = insert (zcstream c) (live (lib w)))"
proof -
  obtain p w1 where m: "zstd_allocate L w = (p, w1)" by fastforce
  from i m have p: "p \<noteq> 0" "ud s' = p" and
    d: "zstd_deflateInit L p level w1 = Inr (UNIZIP_OK, w')"
    by (auto simp: deflateInitCB_zstd_def resetZstd_def Let_def andthen_eq_Inr split: if_splits)
  note a = zstd_allocate_acquires [OF m p(1) \<open>wf_heap w\<close>]
  obtain h l where h: "ZSTD_createCStream L (lib w1) = (h, l)" by fastforce
  from a obtain c0 where c0: "load as_zstd p w1 = Inr c0" by (auto simp: holds_def)
  let ?c = "c0\<lparr>in_zstd := zstd_no_in, out_zstd := zstd_no_out, zcstream := h\<rparr>"
  from d h c0 obtain lv ret l' where "h \<noteq> 0"
    and n: "ZSTD_initCStream L h lv l = Inr (ret, l')" and w': "w' = (store p (Zstd_obj ?c) w1)\<lparr>lib := l'\<rparr>"
    by (auto simp: zstd_deflateInit_def Let_def andthen_eq_Inr split: if_splits)
  then have l: "h \<notin> live (lib w)" "live l = insert h (live (lib w))"
    using a cstreamsD(1) [OF ok h] by auto
  then have "live l' = live l"
    using cstreamsD(2) [OF ok, of h l lv] n by auto
  with l show ?thesis
    using a p by (auto simp: w' intro: acquires_keeps wf_heap_store_holds)
qed

lemma inflateInitCB_zstd_acquires:
  assumes ok: "dstreams L live" and "wf_heap w"
    and i: "inflateInitCB_zstd L s w = Inr (UNIZIP_OK, s', w')"
  shows "acquires as_zstd (ud s') w w' \<and> wf_heap w' \<and>
    (\<exists>c. load as_zstd (ud s') w' = Inr c \<and> zdstream c \<notin> live (lib w) \<and>
       live (lib w') = insert (zdstream c) (live (lib w)))"
proof -
  obtain p w1 where m: "zstd_allocate L w = (p, w1)" by fastforce
  from i m have p: "p \<noteq> 0" "ud s' = p" and
    d: "zstd_inflateInit L p w1 = Inr (UNIZIP_OK, w')"
    by (auto simp: inflateInitCB_zstd_def resetZstd_def Let_def andthen_eq_Inr split: if_splits)
  note a = zstd_allocate_acquires [OF m p(1) \<open>wf_heap w\<close>]
  obtain h l where h: "ZSTD_createDStream L (lib w1) = (h, l)" by fastforce
  from a obtain c0 where c0: "load as_zstd p w1 = Inr c0" by (auto simp: holds_def)
  let ?c = "c0\<lparr>in_zstd := zstd_no_in, out_zstd := zstd_no_out, zdstream := h\<rparr>"
  from d h c0 have "h \<noteq> 0" and w': "w' = (store p (Zstd_obj ?c) w1)\<lparr>lib := l\<rparr>"
    by (auto simp: zstd_inflateInit_def Let_def split: if_splits)
  then have "h \<notin> live (lib w)" "live l = insert h (live (lib w))"
    using a dstreamsD(1) [OF ok h] by auto
  then show ?thesis
    using a p by (auto simp: w' intro: acquires_keeps wf_heap_store_holds)
qed

lemma zstd_end_frees:
  shows "cstreams L live \<Longrightarrow> wf_heap w \<Longrightarrow> load as_zstd (ud s) w = Inr c \<Longrightarrow> zcstream c \<in> live (lib w) \<Longrightarrow>
      ensures (deflateEndCB_zstd L s w) (\<lambda>(r, s', w'). wf_heap w' \<and> releases (ud s) w w' \<and>
        live (lib w') = live (lib w) - {zcstream c})"
    and "dstreams L live \<Longrightarrow> wf_heap w \<Longrightarrow> load as_zstd (ud s) w = Inr c \<Longrightarrow> zdstream c \<in> live (lib w) \<Longrightarrow>
      ensures (inflateEndCB_zstd L s w) (\<lambda>(r, s', w'). wf_heap w' \<and> releases (ud s) w w' \<and>
        live (lib w') = live (lib w) - {zdstream c})"
proof -
  assume ok: "cstreams L live" and c: "wf_heap w" "load as_zstd (ud s) w = Inr c" "zcstream c \<in> live (lib w)"
  from cstreamsD(5) [OF ok c(3)] obtain r l' where
    "ZSTD_freeCStream L (zcstream c) (lib w) = Inr (r, l')" "live l' = live (lib w) - {zcstream c}"
    by (auto simp: ensures_def)
  then show "ensures (deflateEndCB_zstd L s w) (\<lambda>(r, s', w').
      wf_heap w' \<and> releases (ud s) w w' \<and> live (lib w') = live (lib w) - {zcstream c})"
    using c(1,2) load_nonnull [OF c(2)]
    by (simp add: deflateEndCB_zstd_def zstd_deflateEnd_def resetZstd_def Let_def)
next
  assume ok: "dstreams L live" and c: "wf_heap w" "load as_zstd (ud s) w = Inr c" "zdstream c \<in> live (lib w)"
  from dstreamsD(3) [OF ok c(3)] obtain r l' where
    "ZSTD_freeDStream L (zdstream c) (lib w) = Inr (r, l')" "live l' = live (lib w) - {zdstream c}"
    by (auto simp: ensures_def)
  then show "ensures (inflateEndCB_zstd L s w) (\<lambda>(r, s', w').
      wf_heap w' \<and> releases (ud s) w w' \<and> live (lib w') = live (lib w) - {zdstream c})"
    using c(1,2) load_nonnull [OF c(2)]
    by (simp add: inflateEndCB_zstd_def zstd_inflateEnd_def resetZstd_def Let_def)
qed

interpretation zstd_deflate: handle_session as_zstd "\<lambda>p. zcstream" live "cstreams L live"
  "deflateInitCB_zstd L" "deflateCB_zstd L" "deflateEndCB_zstd L" for L live
  by (rule handle_session.intro)
    (simp_all add: deflateInitCB_zstd_acquires deflateCB_zstd_keeps zstd_end_frees)

interpretation zstd_inflate: handle_session as_zstd "\<lambda>p. zdstream" live "dstreams L live"
  "\<lambda>level. inflateInitCB_zstd L" "inflateCB_zstd L" "inflateEndCB_zstd L" for L live
  by (rule handle_session.intro)
    (simp_all add: inflateInitCB_zstd_acquires inflateCB_zstd_keeps zstd_end_frees)

text \<open>A reset ends the stream and initialises it again with the remembered level.\<close>

lemma zstd_deflate_reset_end_init:
  "deflateResetCB_zstd L s w = andthen (deflateEndCB_zstd L s w)
     (\<lambda>(r, s', w'). deflateInitCB_zstd L (compression_flag s) s' w')"
  by (auto simp: deflateResetCB_zstd_def deflateEndCB_zstd_def deflateInitCB_zstd_def resetZstd_def
      Let_def andthen_def split: sum.splits prod.splits)

lemma zstd_inflate_reset_end_init:
  "inflateResetCB_zstd L s w = andthen (inflateEndCB_zstd L s w)
     (\<lambda>(r, s', w'). inflateInitCB_zstd L s' w')"
  by (auto simp: inflateResetCB_zstd_def inflateEndCB_zstd_def inflateInitCB_zstd_def resetZstd_def
      Let_def andthen_def split: sum.splits prod.splits)

interpretation zstd_deflate_session: resettable "deflateInitCB_zstd L" "deflateCB_zstd L"
  "deflateEndCB_zstd L" "\<lambda>w. cstreams L live \<and> wf_heap w" "owns_handle as_zstd (\<lambda>p. zcstream) live"
  "\<lambda>w. (heap w, live (lib w))" "without_handle as_zstd (\<lambda>p. zcstream) live"
  "deflateResetCB_zstd L" "\<lambda>s. s" compression_flag for L live
  by unfold_locales (simp_all add: zstd_deflate_reset_end_init)

interpretation zstd_inflate_session: resettable "\<lambda>level. inflateInitCB_zstd L" "inflateCB_zstd L"
  "inflateEndCB_zstd L" "\<lambda>w. dstreams L live \<and> wf_heap w" "owns_handle as_zstd (\<lambda>p. zdstream) live"
  "\<lambda>w. (heap w, live (lib w))" "without_handle as_zstd (\<lambda>p. zdstream) live"
  "inflateResetCB_zstd L" "\<lambda>s. s" "\<lambda>s. 0" for L live
  by unfold_locales (simp_all add: zstd_inflate_reset_end_init)

section \<open>Positions\<close>

text \<open>
  No error of the library is read as success by \<open>map_error_zstd\<close>, which compares the negated
  low 32 bits of the code with the number of \<open>ZSTD_error_no_error\<close>.
\<close>

definition zstd_errors :: "'l zstd_lib \<Rightarrow> bool" where
  "zstd_errors L \<longleftrightarrow> (\<forall>r. ZSTD_isError L r \<longrightarrow> - c_int r \<noteq> ZSTD_error_no_error L)"

lemma map_error_zstd_not_ok:
  "zstd_errors L \<Longrightarrow> ZSTD_isError L r \<Longrightarrow> map_error_zstd L (c_int r) \<noteq> 0 \<and> map_error_zstd L (c_int r) \<noteq> 1"
  by (auto simp: zstd_errors_def map_error_zstd_def)

definition zstd_pos :: "ptr \<Rightarrow> 'l world \<Rightarrow> (uLong \<times> uLong) option" where
  "zstd_pos p w = (case load as_zstd p w of Inr c \<Rightarrow> Some (pos_in (in_zstd c), pos_out (out_zstd c))
     | Inl _ \<Rightarrow> None)"

lemma zstd_pos_eq_Some:
  "zstd_pos p w = Some (i, j) \<longleftrightarrow>
   (\<exists>c. load as_zstd p w = Inr c \<and> pos_in (in_zstd c) = i \<and> pos_out (out_zstd c) = j)"
  by (auto simp: zstd_pos_def split: sum.splits)

lemma zstd_buffers_fields [simp]:
  "pos_in (in_zstd (zstd_deflate_buffers a c)) = pos_in (in_zstd c)"
  "pos_out (out_zstd (zstd_deflate_buffers a c)) = pos_out (out_zstd c)"
  "pos_in (in_zstd (zstd_inflate_buffers c)) = pos_in (in_zstd c)"
  "pos_out (out_zstd (zstd_inflate_buffers c)) = pos_out (out_zstd c)"
  "next_in_zstd (zstd_deflate_buffers a c) = next_in_zstd c"
  "next_out_zstd (zstd_deflate_buffers a c) = next_out_zstd c"
  "total_in_zstd (zstd_deflate_buffers a c) = total_in_zstd c"
  "total_out_zstd (zstd_deflate_buffers a c) = total_out_zstd c"
  "next_in_zstd (zstd_inflate_buffers c) = next_in_zstd c"
  "next_out_zstd (zstd_inflate_buffers c) = next_out_zstd c"
  "total_in_zstd (zstd_inflate_buffers c) = total_in_zstd c"
  "total_out_zstd (zstd_inflate_buffers c) = total_out_zstd c"
  by (simp_all add: zstd_deflate_buffers_def zstd_inflate_buffers_def zstd_set_pointers_def
      zstd_more_in_def zstd_more_out_def Let_def)

lemma zstd_deflate_buffers_avail [simp]: "avail_in_zstd (zstd_deflate_buffers a c) = avail_in_zstd c"
  by (simp add: zstd_deflate_buffers_def zstd_set_pointers_def zstd_more_in_def zstd_more_out_def Let_def)

lemma zstd_process_eq:
  assumes "load as_zstd (ud s) w = Inr c" and "f \<noteq> 4" and "zstd_deflate_buffers 0 (zstd_pull s c) = d"
    and "ZSTD_compressStream L (zcstream c) (out_zstd d) (in_zstd d) (bytes w) (lib w) = Inr (ret, ob, ib, m, l)"
    and "\<not> ZSTD_isError L ret"
    and "d' = zstd_count (pos_in (in_zstd d)) (pos_out (out_zstd d)) (d\<lparr>out_zstd := ob, in_zstd := ib\<rparr>)"
  shows "deflateCB_zstd L f s w =
    Inr (0, zstd_push d' s, store (ud s) (Zstd_obj d') (w\<lparr>bytes := m, lib := l\<rparr>))"
proof -
  have "zcstream d = zcstream c" using assms(3) by auto
  with assms load_nonnull [OF assms(1)] show ?thesis
    by (simp add: deflateCB_zstd_def zstd_deflate_def)
qed

text \<open>What a call of the library does to the context, seen from the stream.\<close>

lemma zstd_deflate_call:
  assumes c: "load as_zstd (ud s) w = Inr c" and d: "deflateCB_zstd L f s w = Inr (r, s', w')"
  obtains (err) ret c' where "ZSTD_isError L ret" "r = map_error_zstd L (c_int ret)"
      "load as_zstd (ud s) w' = Inr c'"
  | (ok) c' where "r = 0 \<or> r = 1" "ud s' = ud s" "load as_zstd (ud s) w' = Inr c'"
      "total_in s' = total_in s + (pos_in (in_zstd c') - pos_in (in_zstd c))"
      "total_out s' = total_out s + (pos_out (out_zstd c') - pos_out (out_zstd c))"
      "next_in s' = (if r = 1 then next_in s + pos_in (in_zstd c') else next_in s)"
      "next_out s' = (if r = 1 then next_out s + pos_out (out_zstd c') else next_out s)"
      "f = 4 \<Longrightarrow> pos_in (in_zstd c') = pos_in (in_zstd c)" "avail_in s' = avail_in s"
  using d c load_nonnull [OF c]
  by (auto simp: deflateCB_zstd_def zstd_deflate_def Let_def zstd_pull_def zstd_push_def
      andthen_eq_Inr zstd_count_def zstd_advance_def split: if_splits prod.splits)

lemma zstd_inflate_call:
  assumes c: "load as_zstd (ud s) w = Inr c" and d: "inflateCB_zstd L f s w = Inr (r, s', w')"
  obtains (err) ret c' where "ZSTD_isError L ret" "r = map_error_zstd L (c_int ret)"
      "load as_zstd (ud s) w' = Inr c'"
  | (ok) c' where "r = 0 \<or> r = 1" "ud s' = ud s" "load as_zstd (ud s) w' = Inr c'"
      "total_in s' = total_in s + (pos_in (in_zstd c') - pos_in (in_zstd c))"
      "total_out s' = total_out s + (pos_out (out_zstd c') - pos_out (out_zstd c))"
      "next_in s' = (if r = 1 then next_in s + pos_in (in_zstd c') else next_in s)"
      "next_out s' = (if r = 1 then next_out s + pos_out (out_zstd c') else next_out s)"
  using d c load_nonnull [OF c]
  by (auto simp: inflateCB_zstd_def zstd_inflate_def Let_def zstd_pull_def zstd_push_def
      andthen_eq_Inr zstd_count_def zstd_advance_def split: if_splits prod.splits)

lemma zstd_deflate_positions:
  assumes "zstd_errors L" and "zstd_pos (ud s) w = Some (i, j)" and "r = 0 \<or> r = 1"
    and "deflateCB_zstd L f s w = Inr (r, s', w')"
  shows "\<exists>i' j'. zstd_pos (ud s') w' = Some (i', j') \<and> total_in s' = total_in s + (i' - i) \<and>
    total_out s' = total_out s + (j' - j) \<and>
    next_in s' = (if r = 1 then next_in s + i' else next_in s) \<and>
    next_out s' = (if r = 1 then next_out s + j' else next_out s)"
proof -
  from assms(2) obtain c where c: "load as_zstd (ud s) w = Inr c" "pos_in (in_zstd c) = i"
    "pos_out (out_zstd c) = j" by (auto simp: zstd_pos_eq_Some)
  from c(1) assms(4) show ?thesis
    using map_error_zstd_not_ok [OF assms(1)] assms(3) c(2,3)
    by (cases rule: zstd_deflate_call) (auto simp: zstd_pos_eq_Some)
qed

lemma zstd_inflate_positions:
  assumes "zstd_errors L" and "zstd_pos (ud s) w = Some (i, j)" and "r = 0 \<or> r = 1"
    and "inflateCB_zstd L f s w = Inr (r, s', w')"
  shows "\<exists>i' j'. zstd_pos (ud s') w' = Some (i', j') \<and> total_in s' = total_in s + (i' - i) \<and>
    total_out s' = total_out s + (j' - j) \<and>
    next_in s' = (if r = 1 then next_in s + i' else next_in s) \<and>
    next_out s' = (if r = 1 then next_out s + j' else next_out s)"
proof -
  from assms(2) obtain c where c: "load as_zstd (ud s) w = Inr c" "pos_in (in_zstd c) = i"
    "pos_out (out_zstd c) = j" by (auto simp: zstd_pos_eq_Some)
  from c(1) assms(4) show ?thesis
    using map_error_zstd_not_ok [OF assms(1)] assms(3) c(2,3)
    by (cases rule: zstd_inflate_call) (auto simp: zstd_pos_eq_Some)
qed

interpretation zstd_deflate: deferred "zstd_errors L" zstd_pos "deflateCB_zstd L" for L
proof unfold_locales
  fix s i j f s' w w' p rf and w0 :: "'a world"
  show "zstd_errors L \<Longrightarrow> zstd_pos (ud s) w = Some (i, j) \<Longrightarrow> deflateCB_zstd L f s w = Inr (0, s', w') \<Longrightarrow>
      \<exists>i' j'. zstd_pos (ud s') w' = Some (i', j') \<and> total_in s' = total_in s + (i' - i) \<and>
        total_out s' = total_out s + (j' - j) \<and> next_in s' = next_in s \<and> next_out s' = next_out s"
    using zstd_deflate_positions [of L s w i j 0 f s' w'] by simp
  show "zstd_errors L \<Longrightarrow> zstd_pos (ud s) w = Some (i, j) \<Longrightarrow> deflateCB_zstd L f s w = Inr (1, s', w') \<Longrightarrow>
      \<exists>i' j'. total_in s' = total_in s + (i' - i) \<and> total_out s' = total_out s + (j' - j) \<and>
        next_in s' = next_in s + i' \<and> next_out s' = next_out s + j'"
    using zstd_deflate_positions [of L s w i j 1 f s' w'] by auto
  show "zstd_pos p (refill_world rf w0) = zstd_pos p w0" by (simp add: zstd_pos_def)
qed

interpretation zstd_inflate: deferred "zstd_errors L" zstd_pos "inflateCB_zstd L" for L
proof unfold_locales
  fix s i j f s' w w' p rf and w0 :: "'a world"
  show "zstd_errors L \<Longrightarrow> zstd_pos (ud s) w = Some (i, j) \<Longrightarrow> inflateCB_zstd L f s w = Inr (0, s', w') \<Longrightarrow>
      \<exists>i' j'. zstd_pos (ud s') w' = Some (i', j') \<and> total_in s' = total_in s + (i' - i) \<and>
        total_out s' = total_out s + (j' - j) \<and> next_in s' = next_in s \<and> next_out s' = next_out s"
    using zstd_inflate_positions [of L s w i j 0 f s' w'] by simp
  show "zstd_errors L \<Longrightarrow> zstd_pos (ud s) w = Some (i, j) \<Longrightarrow> inflateCB_zstd L f s w = Inr (1, s', w') \<Longrightarrow>
      \<exists>i' j'. total_in s' = total_in s + (i' - i) \<and> total_out s' = total_out s + (j' - j) \<and>
        next_in s' = next_in s + i' \<and> next_out s' = next_out s + j'"
    using zstd_inflate_positions [of L s w i j 1 f s' w'] by auto
  show "zstd_pos p (refill_world rf w0) = zstd_pos p w0" by (simp add: zstd_pos_def)
qed

section \<open>Properties\<close>

text \<open>
  A library for the witnesses: streams copy their input, \<open>ZSTD_compress\<close> stores it behind a
  zero byte.  Errors are the negated numbers, as size_t.
\<close>

definition demo_zstd_copy :: "ZSTD_outBuffer \<Rightarrow> ZSTD_inBuffer \<Rightarrow> mem \<Rightarrow> ZSTD_outBuffer \<times> ZSTD_inBuffer \<times> mem" where
  "demo_zstd_copy ob ib m =
     (let k = min (size_in ib - pos_in ib) (size_out ob - pos_out ob)
      in (ob\<lparr>pos_out := pos_out ob + k\<rparr>, ib\<lparr>pos_in := pos_in ib + k\<rparr>,
          write_mem m (dst_out ob + pos_out ob) (read_mem m (src_in ib + pos_in ib) (unat k))))"

definition demo_zstd :: "ptr list zstd_lib" where
  "demo_zstd = \<lparr>ZSTD_versionString = ''1.5.5'', ZSTD_minCLevel = - 7, ZSTD_maxCLevel = 22,
     ZSTD_error_no_error = 0, ZSTD_error_dictionary_corrupted = 30,
     ZSTD_error_dictionary_wrong = 32, ZSTD_error_memory_allocation = 64,
     ZSTD_isError = (\<lambda>r. - 120 < r),
     ZSTD_createCStream = demo_create,
     ZSTD_initCStream = (\<lambda>h lv. demo_use h 0),
     ZSTD_compressStream = (\<lambda>h ob ib m l. andthen (demo_use h () l) (\<lambda>_.
       let (ob, ib, m) = demo_zstd_copy ob ib m in Inr (0, ob, ib, m, l))),
     ZSTD_endStream = (\<lambda>h ob m l. andthen (demo_use h () l) (\<lambda>_. Inr (0, ob, m, l))),
     ZSTD_freeCStream = (\<lambda>h. demo_free h 0),
     ZSTD_createDStream = demo_create,
     ZSTD_decompressStream = (\<lambda>h ob ib m l. andthen (demo_use h () l) (\<lambda>_.
       let (ob, ib, m) = demo_zstd_copy ob ib m
       in Inr (if pos_in ib = size_in ib then 0 else 1, ob, ib, m, l))),
     ZSTD_freeDStream = (\<lambda>h. demo_free h 0),
     ZSTD_compress = (\<lambda>dst cap src n lv m. if uint n < 2 ^ 32 \<and> uint n + 1 \<le> uint cap
       then (n + 1, write_mem m dst (0 # read_mem m src (unat n))) else (- 70, m)),
     ZSTD_decompress = (\<lambda>dst cap src n m. if 0 < n \<and> n - 1 \<le> cap
       then (n - 1, write_mem m dst (read_mem m (src + 1) (unat (n - 1)))) else (- 70, m)),
     ZSTD_compressBound = (\<lambda>n. n + n div 256 + 64),
     zstd_indet = \<lparr>zdstream = 77, zcstream = 78,
       out_zstd = \<lparr>dst_out = 1, size_out = 2, pos_out = 3\<rparr>,
       in_zstd = \<lparr>src_in = 4, size_in = 5, pos_in = 6\<rparr>, next_in_zstd = 7, next_out_zstd = 8,
       avail_in_zstd = 9, avail_out_zstd = 10, total_in_zstd = 11, total_out_zstd = 12\<rparr>\<rparr>"

lemma demo_zstd_streams: "cstreams demo_zstd demo_live" "dstreams demo_zstd demo_live"
  by (auto simp: cstreams_def dstreams_def demo_zstd_def demo_live_def demo_use_def demo_free_def
      split_def Let_def dest: demo_create_fresh)

lemma demo_zstd_errors: "zstd_errors demo_zstd"
  unfolding zstd_errors_def
proof (intro allI impI)
  fix r assume "ZSTD_isError demo_zstd r"
  then have big: "2 ^ 64 - 120 < uint r"
    by (simp add: demo_zstd_def word_less_def)
  show "- c_int r \<noteq> ZSTD_error_no_error demo_zstd"
  proof
    assume "- c_int r = ZSTD_error_no_error demo_zstd"
    then have "sint (ucast r :: 32 word) = 0" by (simp add: demo_zstd_def c_int_def)
    then have "(ucast r :: 32 word) = 0" by (simp only: signed_eq_0_iff)
    then have "uint (ucast r :: 32 word) = 0" by simp
    then have "uint r mod 2 ^ 32 = 0" by (simp add: unsigned_ucast_eq take_bit_eq_mod)
    then obtain k where k: "uint r = 2 ^ 32 * k" by (auto simp: mod_eq_0_iff_dvd)
    have "uint r < 2 ^ 64" using uint_lt2p [of r] by simp
    then have "k < 2 ^ 32" unfolding k by simp
    with big show False unfolding k by simp
  qed
qed

lemma zstd_deflateInit_fresh:
  assumes "deflateInitCB_zstd L level s0 w0 = Inr (0, s, w)"
  shows "zstd_pos (ud s) w = Some (0, 0) \<and> total_in s = 0 \<and> total_out s = 0"
proof -
  obtain p w1 where m: "zstd_allocate L w0 = (p, w1)" by fastforce
  from assms m have p: "p \<noteq> 0" "ud s = p" "total_in s = 0" "total_out s = 0" and
    d: "zstd_deflateInit L p level w1 = Inr (0, w)"
    by (auto simp: deflateInitCB_zstd_def resetZstd_def Let_def andthen_eq_Inr split: if_splits)
  obtain h l where h: "ZSTD_createCStream L (lib w1) = (h, l)" by fastforce
  from d h p show ?thesis
    by (auto simp: zstd_deflateInit_def Let_def zstd_pos_eq_Some zstd_no_in_def zstd_no_out_def
        andthen_eq_Inr split: if_splits)
qed

lemma demo_zstd_init:
  obtains s w c where "deflateInitCB_zstd demo_zstd 3 demo_stream demo_world = Inr (0, s, w)"
    and "load as_zstd (ud s) w = Inr c" and "zcstream c = 1" and "lib w = [1]" and "ud s = 1"
    and "bytes w = bytes demo_world" and "in_zstd c = zstd_no_in" and "out_zstd c = zstd_no_out"
    and "allocs w = 1" and "\<forall>k. \<not> oom w k"
  by (simp add: deflateInitCB_zstd_def zstd_allocate_def malloc_ok zstd_deflateInit_def
      Let_def load_def deref_def resetZstd_def demo_zstd_def demo_create_def demo_use_def)



text \<open>
  A Zstandard deflate session with a reset in it is as clean as one without: whatever is
  done before and after a successful \<open>deflateReset\<close>, ending the stream releases the new
  context and stream, the reset having released the old ones.
\<close>

theorem zstd_deflate_reset_lifecycle:
  assumes "cstreams L live" and "wf_heap w" and "deflateInitCB_zstd L level s w = Inr (UNIZIP_OK, s1, w1)"
    and "run_calls (deflateCB_zstd L) cs s1 w1 = Inr (rs, s2, w2)"
    and "deflateResetCB_zstd L s2 w2 = Inr (UNIZIP_OK, s3, w3)"
  shows "ensures (andthen (run_calls (deflateCB_zstd L) cs' s3 w3) (\<lambda>(rs, s, w). deflateEndCB_zstd L s w))
    (\<lambda>(r, s', w'). heap w' = heap w \<and> live (lib w') = live (lib w))"
  using zstd_deflate_session.reset_session_clean [OF conjI [OF assms(1,2)] assms(3-5), of cs'] by simp

theorem zstd_deflate_reset_lifecycle_witness:
  "\<exists>s1 w1 s3 w3. deflateInitCB_zstd demo_zstd 3 demo_stream demo_world = Inr (0, s1, w1) \<and>
     deflateResetCB_zstd demo_zstd s1 w1 = Inr (0, s3, w3) \<and> lib w3 \<noteq> [] \<and>
     ensures (andthen (run_calls (deflateCB_zstd demo_zstd) [(Buffers [1, 2] 10 2 100 9, 0)] s3 w3)
       (\<lambda>(rs, s, w). deflateEndCB_zstd demo_zstd s w))
       (\<lambda>(r, s', w'). heap w' = heap demo_world \<and> demo_live (lib w') = {})"
proof -
  obtain s1 w1 c where i: "deflateInitCB_zstd demo_zstd 3 demo_stream demo_world = Inr (0, s1, w1)"
    and c: "load as_zstd (ud s1) w1 = Inr c" "zcstream c = 1" "lib w1 = [1]" "ud s1 = 1"
      "allocs w1 = 1" "\<forall>k. \<not> oom w1 k"
    by (rule demo_zstd_init)
  obtain s3 w3 where r: "deflateResetCB_zstd demo_zstd s1 w1 = Inr (0, s3, w3)" "lib w3 \<noteq> []"
    using c by (simp add: deflateResetCB_zstd_def zstd_deflateEnd_def zstd_allocate_def malloc_ok
        zstd_deflateInit_def Let_def load_def deref_def resetZstd_def demo_zstd_def demo_create_def
        demo_use_def demo_free_def map_error_zstd_def)
  have "run_calls (deflateCB_zstd demo_zstd) [] s1 w1 = Inr ([], s1, w1)" by simp
  from zstd_deflate_reset_lifecycle [OF demo_zstd_streams(1) wf_demo_world i this r(1),
      of "[(Buffers [1, 2] 10 2 100 9, 0)]"] i r
  show ?thesis by (simp add: demo_live_def)
qed

text \<open>
  The totals and the pointers of a Zstandard deflate stream agree when it ends.  After
  initialisation, with buffers that are kept, if every call succeeds and the last one
  reports \<open>UNIZIP_STREAM_END\<close>, then the input pointer has moved by \<open>total_in\<close> and the output
  pointer by \<open>total_out\<close>; no earlier call moved them.
\<close>

theorem zstd_end_pointers:
  assumes "zstd_errors L" and "deflateInitCB_zstd L level s0 w0 = Inr (UNIZIP_OK, s, w)"
    and "run_calls (deflateCB_zstd L) cs
      (s\<lparr>next_in := a, avail_in := n, next_out := b, avail_out := k\<rparr>) w =
      Inr (rs @ [UNIZIP_STREAM_END], s', w')"
    and "\<forall>(rf, f) \<in> set cs. keeps_buffers rf" and "set rs \<subseteq> {UNIZIP_OK}"
  shows "next_in s' = a + total_in s' \<and> next_out s' = b + total_out s'"
  using zstd_deflate.run_until_end [OF assms(1) _ assms(4,5,3)] zstd_deflateInit_fresh [OF assms(2)]
  by simp

theorem zstd_end_pointers_witness:
  "\<exists>s w s' w'. deflateInitCB_zstd demo_zstd 3 demo_stream demo_world = Inr (0, s, w) \<and>
     run_calls (deflateCB_zstd demo_zstd) [(Keep, 0), (Keep, 4)]
       (s\<lparr>next_in := 1000, avail_in := 3, next_out := 2000, avail_out := 50\<rparr>) w = Inr ([0, 1], s', w') \<and>
     total_in s' = 3 \<and> next_in s' = 1003 \<and> next_out s' = 2000 + total_out s'"
proof -
  obtain s w c where i: "deflateInitCB_zstd demo_zstd 3 demo_stream demo_world = Inr (0, s, w)"
    and c: "load as_zstd (ud s) w = Inr c" "zcstream c = 1" "lib w = [1]" "ud s = 1"
      "in_zstd c = zstd_no_in" "out_zstd c = zstd_no_out"
    by (rule demo_zstd_init)
  have t: "total_in s = 0" using zstd_deflateInit_fresh [OF i] by simp
  let ?s = "s\<lparr>next_in := 1000, avail_in := 3, next_out := 2000, avail_out := 50\<rparr>"
  let ?d = "(zstd_pull ?s c)\<lparr>in_zstd := \<lparr>src_in = 1000, size_in = 3, pos_in = 0\<rparr>,
      out_zstd := \<lparr>dst_out = 2000, size_out = 50, pos_out = 0\<rparr>\<rparr>"
  have d: "zstd_deflate_buffers 0 (zstd_pull ?s c) = ?d"
    using c by (simp add: zstd_deflate_buffers_def zstd_set_pointers_def zstd_more_in_def
        zstd_more_out_def zstd_pull_def zstd_no_in_def zstd_no_out_def Let_def)
  obtain m where "ZSTD_compressStream demo_zstd (zcstream c) (out_zstd ?d) (in_zstd ?d) (bytes w) (lib w) =
      Inr (0, \<lparr>dst_out = 2000, size_out = 50, pos_out = 3\<rparr>,
        \<lparr>src_in = 1000, size_in = 3, pos_in = 3\<rparr>, m, [1])"
    using c by (simp add: demo_zstd_def demo_use_def demo_zstd_copy_def)
  note 1 = zstd_process_eq [OF _ _ d this _ refl, of 0]
  have e: "\<not> ZSTD_isError demo_zstd 0" by (simp add: demo_zstd_def)
  obtain s1 w1 c1 where 1: "deflateCB_zstd demo_zstd 0 ?s w = Inr (0, s1, w1)"
    and c1: "load as_zstd (ud s1) w1 = Inr c1" "zcstream c1 = 1" "lib w1 = [1]"
      "in_zstd c1 = \<lparr>src_in = 1000, size_in = 3, pos_in = 3\<rparr>"
      "out_zstd c1 = \<lparr>dst_out = 2000, size_out = 50, pos_out = 3\<rparr>" "total_in s1 = 3"
    using 1 c t e by (auto simp: zstd_count_def zstd_pull_def zstd_push_def)
  obtain s' w' where 2: "deflateCB_zstd demo_zstd 4 s1 w1 = Inr (1, s', w')" "total_in s' = 3"
    using c1 load_nonnull [OF c1(1)] by (simp add: deflateCB_zstd_def zstd_deflate_def Let_def zstd_deflate_buffers_def
        zstd_set_pointers_def zstd_pull_def zstd_push_def zstd_count_def zstd_advance_def
        demo_zstd_def demo_use_def)
  have r: "run_calls (deflateCB_zstd demo_zstd) [(Keep, 0), (Keep, 4)] ?s w =
      Inr ([0] @ [1], s', w')" using 1 2 by simp
  from zstd_end_pointers [OF demo_zstd_errors i r(1)] i r 2 show ?thesis by auto
qed

text \<open>
  C30: a Zstandard \<open>deflate\<close> call with \<open>Z_FINISH\<close> never compresses the input it is offered:
  whether or not it reports the end of the stream, \<open>total_in\<close> and \<open>avail_in\<close> stay as they
  were.  A client that hands the whole input to one \<open>Z_FINISH\<close> call, the usual way to use
  zlib, gets \<open>UNIZIP_STREAM_END\<close> for a stream without its data.
\<close>

theorem zstd_finish_ignores_input:
  assumes "zstd_errors L" and "deflateCB_zstd L 4 s w = Inr (r, s', w')" and "0 \<le> r" and "r \<le> 1"
  shows "total_in s' = total_in s \<and> avail_in s' = avail_in s"
proof -
  from assms(2) obtain c where "load as_zstd (ud s) w = Inr c"
    by (auto simp: deflateCB_zstd_def andthen_eq_Inr)
  from this assms(2) show ?thesis
    using map_error_zstd_not_ok [OF assms(1)] assms(3,4)
    by (cases rule: zstd_deflate_call) fastforce+
qed

theorem zstd_finish_ignores_input_witness:
  "\<exists>s w s' w'. deflateInitCB_zstd demo_zstd 3 demo_stream demo_world = Inr (0, s, w) \<and>
     deflateCB_zstd demo_zstd 4 (s\<lparr>next_in := 1000, avail_in := 3, next_out := 2000, avail_out := 50\<rparr>) w =
       Inr (1, s', w') \<and> total_in s' = 0 \<and> avail_in s' = 3"
proof -
  obtain s w c where i: "deflateInitCB_zstd demo_zstd 3 demo_stream demo_world = Inr (0, s, w)"
    and c: "load as_zstd (ud s) w = Inr c" "zcstream c = 1" "lib w = [1]" "ud s = 1"
    by (rule demo_zstd_init)
  have t: "total_in s = 0" using zstd_deflateInit_fresh [OF i] by simp
  let ?s = "s\<lparr>next_in := 1000, avail_in := 3, next_out := 2000, avail_out := 50\<rparr>"
  obtain s' w' where d: "deflateCB_zstd demo_zstd 4 ?s w = Inr (1, s', w')"
    using c by (simp add: deflateCB_zstd_def zstd_deflate_def demo_zstd_def demo_use_def Let_def)
  from zstd_finish_ignores_input [OF demo_zstd_errors d] i d t show ?thesis by auto
qed

text \<open>
  C31: copying a Zstandard stream shares the library's stream between the two contexts:
  after the copy, ending both streams frees the library stream twice.
\<close>

theorem zstd_copy_double_free:
  assumes "cstreams L live" and "load as_zstd (ud src) w = Inr c" and "holds as_zstd (ud dst) w"
    and "ud dst \<noteq> ud src" and "zcstream c \<in> live (lib w)" and "zcstream c \<noteq> 0"
  shows "ensures (deflateCopyCB_zstd dst src w) (\<lambda>(r, dst', w'). r = UNIZIP_OK \<and>
    andthen (deflateEndCB_zstd L dst' w') (\<lambda>(_, _, w'). deflateEndCB_zstd L src w') = Inl DoubleFree \<and>
    andthen (deflateEndCB_zstd L src w') (\<lambda>(_, _, w'). deflateEndCB_zstd L dst' w') = Inl DoubleFree)"
proof -
  note p = load_nonnull [OF assms(2)]
  obtain d where d: "load as_zstd (ud dst) w = Inr d" using assms(3) by (auto simp: holds_def)
  note q = load_nonnull [OF this]
  let ?h = "zcstream c"
  from cstreamsD(5) [OF assms(1,5)] obtain r l where
    f: "ZSTD_freeCStream L ?h (lib w) = Inr (r, l)" "live l = live (lib w) - {?h}"
    by (auto simp: ensures_def)
  then have again: "ZSTD_freeCStream L ?h l = Inl DoubleFree"
    by (intro cstreamsD(6) [OF assms(1,6)]) simp
  let ?w = "store (ud dst) (Zstd_obj c) w"
  have src: "load as_zstd (ud src) ?w = Inr c"
    using assms(2,4) by (auto simp: load_eq_Inr)
  have dead: "load as_zstd a (dealloc b ?w) = load as_zstd a ?w" if "a \<noteq> b" for a b
    using that by (simp add: load_def deref_def)
  show ?thesis
    using p q d src assms(2,4) f again dead
    by (simp add: deflateCopyCB_zstd_def zstd_deflatecopy_def deflateEndCB_zstd_def
        zstd_deflateEnd_def resetZstd_def Let_def)
qed

theorem zstd_copy_double_free_witness:
  "\<exists>a b w. deflateInitCB_zstd demo_zstd 3 demo_stream demo_world = Inr (0, a, w) \<and>
    (\<exists>w2. deflateInitCB_zstd demo_zstd 9 demo_stream w = Inr (0, b, w2) \<and>
     ensures (deflateCopyCB_zstd b a w2) (\<lambda>(r, b', w'). r = 0 \<and>
       andthen (deflateEndCB_zstd demo_zstd b' w') (\<lambda>(_, _, w'). deflateEndCB_zstd demo_zstd a w') = Inl DoubleFree))"
proof -
  obtain a w c where i: "deflateInitCB_zstd demo_zstd 3 demo_stream demo_world = Inr (0, a, w)"
    and c: "load as_zstd (ud a) w = Inr c" "zcstream c = 1" "lib w = [1]" "ud a = 1"
      "allocs w = 1" "\<forall>k. \<not> oom w k"
    by (rule demo_zstd_init)
  obtain b w2 where b: "deflateInitCB_zstd demo_zstd 9 demo_stream w = Inr (0, b, w2)"
    and cb: "load as_zstd (ud a) w2 = Inr c" "holds as_zstd (ud b) w2" "ud b \<noteq> ud a"
      "zcstream c \<in> demo_live (lib w2)" "zcstream c \<noteq> 0"
    using c by (simp add: deflateInitCB_zstd_def zstd_allocate_def malloc_ok zstd_deflateInit_def
        Let_def load_def deref_def resetZstd_def demo_zstd_def demo_create_def demo_use_def holds_def
        demo_live_def split: option.splits)
  from zstd_copy_double_free [OF demo_zstd_streams(1) cb] have
    "ensures (deflateCopyCB_zstd b a w2) (\<lambda>(r, b', w'). r = 0 \<and>
       andthen (deflateEndCB_zstd demo_zstd b' w') (\<lambda>(_, _, w'). deflateEndCB_zstd demo_zstd a w') = Inl DoubleFree)"
    by (auto elim!: ensures_mono)
  with i b show ?thesis by blast
qed

text \<open>
  What \<open>zstd.h\<close> documents of the one-shot functions: what was compressed without an error,
  wherever it is moved, decompresses to the input into any buffer that can hold it.
\<close>

definition zstd_lossless :: "'l zstd_lib \<Rightarrow> bool" where
  "zstd_lossless L \<longleftrightarrow>
     (\<forall>src n dst cap m r m'. disjoint_ranges src (unat n) dst (unat cap) \<longrightarrow>
        ZSTD_compress L dst cap src n 0 m = (r, m') \<longrightarrow> \<not> ZSTD_isError L r \<longrightarrow>
        \<not> ZSTD_isError L n \<and>
        (\<forall>src' dst' cap' m1. n \<le> cap' \<longrightarrow> disjoint_ranges src' (unat r) dst' (unat cap') \<longrightarrow>
           read_mem m1 src' (unat r) = read_mem m' dst (unat r) \<longrightarrow>
           (\<exists>m2. ZSTD_decompress L dst' cap' src' r m1 = (n, m2) \<and>
              read_mem m2 dst' (unat n) = read_mem m src (unat n))))"

lemma demo_zstd_lossless: "zstd_lossless demo_zstd"
  unfolding zstd_lossless_def
proof (intro allI impI)
  fix src n dst cap :: uLong and r and m m' :: mem
  assume c: "ZSTD_compress demo_zstd dst cap src n 0 m = (r, m')" and e: "\<not> ZSTD_isError demo_zstd r"
  from c e have n: "uint n < 2 ^ 32" and c': "r = n + 1" "m' = write_mem m dst (0 # read_mem m src (unat n))"
    by (auto simp: demo_zstd_def split: if_splits)
  note rt = store_word_roundtrip [OF n, of _ _ m dst src]
  have "n \<le> - 120" using n by (simp add: word_le_def)
  then show "\<not> ZSTD_isError demo_zstd n \<and> (\<forall>src' dst' cap' m1. n \<le> cap' \<longrightarrow>
      disjoint_ranges src' (unat r) dst' (unat cap') \<longrightarrow>
      read_mem m1 src' (unat r) = read_mem m' dst (unat r) \<longrightarrow>
      (\<exists>m2. ZSTD_decompress demo_zstd dst' cap' src' r m1 = (n, m2) \<and>
         read_mem m2 dst' (unat n) = read_mem m src (unat n)))"
    using rt by (simp add: demo_zstd_def c' not_less del: write_mem.simps)
qed

text \<open>
  For Zstandard, \<open>uncompress\<close> of what \<open>compress\<close> produced succeeds, reports the original
  length and restores the original bytes, for every input that \<open>compress\<close> accepted; both
  write the length they report through \<open>destLen\<close>.
\<close>

theorem zstd_roundtrip:
  assumes lib: "zstd_lossless L"
    and apart: "disjoint_ranges source (unat n) dest (unat cap)"
      "disjoint_ranges dest (unat len) dest' (unat cap')"
    and room: "n \<le> cap'"
    and comp: "compressCB_zstd L dest (Some cap) source n w = Inr (UNIZIP_OK, Some len, w1)"
    and err: "zstd_errors L"
  shows "\<exists>w2. uncompressCB_zstd L dest' (Some cap') dest len w1 = Inr (UNIZIP_OK, Some n, w2) \<and>
    read_mem (bytes w2) dest' (unat n) = read_mem (bytes w) source (unat n)"
proof -
  obtain r m where c: "ZSTD_compress L dest cap source n 0 (bytes w) = (r, m)" by fastforce
  with comp map_error_zstd_not_ok [OF err] have r: "\<not> ZSTD_isError L r" "len = r" "bytes w1 = m"
    by (auto simp: compressCB_zstd_def zstd_compress_def Let_def split: if_splits)
  from lib c r(1) apart(1) have e: "\<not> ZSTD_isError L n"
    unfolding zstd_lossless_def by blast
  from lib c r(1) apart room obtain m2 where
    "ZSTD_decompress L dest' cap' dest r m = (n, m2)" "read_mem m2 dest' (unat n) = read_mem (bytes w) source (unat n)"
    unfolding zstd_lossless_def r(2) by blast
  with e r show ?thesis by (simp add: uncompressCB_zstd_def zstd_decompress_def)
qed

theorem zstd_roundtrip_witness:
  "\<exists>w1 w2. compressCB_zstd demo_zstd 2000 (Some 50) 1000 3 demo_world = Inr (0, Some 4, w1) \<and>
     uncompressCB_zstd demo_zstd 3000 (Some 50) 2000 4 w1 = Inr (0, Some 3, w2) \<and>
     read_mem (bytes w2) 3000 3 = [7, 8, 9]"
proof -
  obtain w1 where c: "compressCB_zstd demo_zstd 2000 (Some 50) 1000 3 demo_world = Inr (0, Some 4, w1)"
    by (simp add: compressCB_zstd_def zstd_compress_def Let_def demo_zstd_def)
  have apart: "disjoint_ranges 1000 (unat (3 :: uLong)) 2000 (unat (50 :: uLong))"
    "disjoint_ranges 2000 (unat (4 :: uLong)) 3000 (unat (50 :: uLong))"
    by (rule disjoint_ranges_far; simp)+
  have "\<exists>w2. uncompressCB_zstd demo_zstd 3000 (Some 50) 2000 4 w1 = Inr (0, Some 3, w2) \<and>
      read_mem (bytes w2) 3000 (unat (3 :: uLong)) = read_mem (bytes demo_world) 1000 (unat (3 :: uLong))"
    by (rule zstd_roundtrip [OF demo_zstd_lossless apart _ c demo_zstd_errors]) simp
  with c show ?thesis using demo_bytes by auto
qed


section \<open>One-shot calls\<close>

definition zstd_enc :: "'l zstd_lib \<Rightarrow> codec" where
  "zstd_enc L dst cap src n m =
     (let (r, m) = ZSTD_compress L dst cap src n 0 m in if ZSTD_isError L r then None else Some (r, m))"

definition zstd_dec :: "'l zstd_lib \<Rightarrow> codec" where
  "zstd_dec L dst cap src n m =
     (let (r, m) = ZSTD_decompress L dst cap src n m in if ZSTD_isError L r then None else Some (r, m))"

lemma zstd_restoring: "zstd_lossless L \<Longrightarrow> restoring (zstd_enc L) (zstd_dec L)"
  unfolding zstd_lossless_def restoring_def
proof (intro allI impI)
  fix dst cap src n m k m' dst' cap' src' m1
  assume l: "\<forall>src n dst cap m r m'. disjoint_ranges src (unat n) dst (unat cap) \<longrightarrow>
      ZSTD_compress L dst cap src n 0 m = (r, m') \<longrightarrow> \<not> ZSTD_isError L r \<longrightarrow> \<not> ZSTD_isError L n \<and>
      (\<forall>src' dst' cap' m1. n \<le> cap' \<longrightarrow> disjoint_ranges src' (unat r) dst' (unat cap') \<longrightarrow>
         read_mem m1 src' (unat r) = read_mem m' dst (unat r) \<longrightarrow>
         (\<exists>m2. ZSTD_decompress L dst' cap' src' r m1 = (n, m2) \<and> read_mem m2 dst' (unat n) = read_mem m src (unat n)))"
    and "zstd_enc L dst cap src n m = Some (k, m')" and apart: "disjoint_ranges src (unat n) dst (unat cap)"
    and out: "n \<le> cap'" "disjoint_ranges src' (unat k) dst' (unat cap')" "read_mem m1 src' (unat k) = read_mem m' dst (unat k)"
  then have e: "ZSTD_compress L dst cap src n 0 m = (k, m')" "\<not> ZSTD_isError L k"
    by (auto simp: zstd_enc_def split: prod.splits if_splits)
  from l apart e out obtain m2 where "ZSTD_decompress L dst' cap' src' k m1 = (n, m2)" "\<not> ZSTD_isError L n"
    "read_mem m2 dst' (unat n) = read_mem m src (unat n)" by blast
  then show "\<exists>m2. zstd_dec L dst' cap' src' k m1 = Some (n, m2) \<and> read_mem m2 dst' (unat n) = read_mem m src (unat n)"
    by (simp add: zstd_dec_def)
qed

interpretation zstd_shots: one_shot "zstd_errors L" 0 "\<lambda>_ _. True" "zstd_enc L" "zstd_dec L"
  "compressCB_zstd L" "uncompressCB_zstd L" for L
proof unfold_locales
  fix dest source n cap len :: uLong and w w' :: "'a world"
  assume "zstd_errors L" "compressCB_zstd L dest (Some cap) source n w = Inr (UNIZIP_OK, Some len, w')"
  then show "zstd_enc L dest (cap + 0) source n (bytes w) = Some (len + 0, bytes w')"
    by (cases "ZSTD_compress L dest cap source n 0 (bytes w)")
      (auto simp: compressCB_zstd_def zstd_compress_def zstd_enc_def dest: map_error_zstd_not_ok split: if_splits)
next
  fix dest source n cap len :: uLong and w :: "'a world" and m
  assume "zstd_dec L dest cap source (len + 0) (bytes w) = Some (n, m)"
  then show "\<exists>w'. uncompressCB_zstd L dest (Some cap) source len w = Inr (UNIZIP_OK, Some n, w') \<and> bytes w' = m"
    by (cases "ZSTD_decompress L dest cap source len (bytes w)")
      (auto simp: uncompressCB_zstd_def zstd_decompress_def zstd_dec_def split: if_splits)
qed

end
