(* ===== verification/Doubles.thy ===== *)
theory Doubles
  imports Prelude
begin

text \<open>
  The C expressions with \<open>double\<close> in the \<open>compressBound\<close> functions.  A non-negative IEEE
  double is modelled by the number of its units of \<open>2 ^ - 200\<close>, which represents every
  double of at least \<open>2 ^ - 147\<close> exactly; each operation computes the exact quotient and
  rounds it once to 53 significant bits, to nearest, ties to even.  The conversion to
  \<open>unsigned long\<close> truncates, and is undefined behaviour from \<open>2 ^ 64\<close> on.
\<close>

type_synonym double = nat

fun bit_length :: "nat \<Rightarrow> nat" where
  "bit_length n = (if n = 0 then 0 else Suc (bit_length (n div 2)))"

declare bit_length.simps [simp del]

definition round_even :: "nat \<Rightarrow> nat \<Rightarrow> nat" where
  "round_even m d = (let q = m div d; r = m mod d
     in if d < 2 * r \<or> (2 * r = d \<and> odd q) then q + 1 else q)"

text \<open>The double nearest to the quotient of two numbers.\<close>

definition nearest :: "nat \<Rightarrow> nat \<Rightarrow> double" where
  "nearest a b = (let a = a * 2 ^ 200; e = bit_length (a div b) - 53
     in round_even a (b * 2 ^ e) * 2 ^ e)"

definition d_of_ulong :: "uLong \<Rightarrow> double" where
  "d_of_ulong n = nearest (unat n) 1"

definition d_add :: "double \<Rightarrow> double \<Rightarrow> double" where
  "d_add x y = nearest (x + y) (2 ^ 200)"

definition d_mult :: "double \<Rightarrow> double \<Rightarrow> double" where
  "d_mult x y = nearest (x * y) (2 ^ 400)"

definition d_divide :: "double \<Rightarrow> double \<Rightarrow> double" where
  "d_divide x y = nearest x y"

definition ulong_of_d :: "double \<Rightarrow> uLong res" where
  "ulong_of_d x = (let v = x div 2 ^ 200
     in if v < 2 ^ 64 then Inr (of_nat v) else Inl Indeterminate)"

section \<open>Rounding\<close>

lemma bit_length_upper: "n < 2 ^ bit_length n"
proof (induction n rule: bit_length.induct)
  case (1 n)
  show ?case
  proof (cases "n = 0")
    case False
    with 1 have "n div 2 < 2 ^ bit_length (n div 2)" by blast
    then have "n < 2 * 2 ^ bit_length (n div 2)" by linarith
    with False show ?thesis by (simp add: bit_length.simps [of n])
  qed (simp add: bit_length.simps)
qed

lemma bit_length_lower: "0 < n \<Longrightarrow> 2 ^ (bit_length n - 1) \<le> n"
proof (induction n rule: bit_length.induct)
  case (1 n)
  show ?case
  proof (cases "n div 2 = 0")
    case True
    with 1(2) have "n = 1" by linarith
    then show ?thesis by (simp add: bit_length.simps)
  next
    case False
    with 1 have ih: "2 ^ (bit_length (n div 2) - 1) \<le> n div 2" by auto
    from False have "0 < bit_length (n div 2)" by (simp add: bit_length.simps [of "n div 2"])
    then obtain k where k: "bit_length (n div 2) = Suc k" by (cases "bit_length (n div 2)") auto
    from 1(2) have "bit_length n = Suc (Suc k)" by (simp add: bit_length.simps [of n] k)
    moreover from ih k have "2 * 2 ^ k \<le> n" by simp
    ultimately show ?thesis by simp
  qed
qed

lemma bit_length_le: "n < 2 ^ k \<Longrightarrow> bit_length n \<le> k"
proof (rule ccontr)
  assume n: "n < 2 ^ k" and "\<not> bit_length n \<le> k"
  then have k: "k \<le> bit_length n - 1" and "0 < n"
    by (auto simp: bit_length.simps [of n] split: if_splits)
  from power_increasing [OF k, of "2 :: nat"] bit_length_lower [OF \<open>0 < n\<close>] n show False by linarith
qed

lemma round_even_near:
  assumes "0 < d"
  shows "2 * (round_even m d * d) \<le> 2 * m + d" and "2 * m \<le> 2 * (round_even m d * d) + d"
proof -
  define q r where qr: "q = m div d" "r = m mod d"
  have m: "m = q * d + r" and r: "r < d" using assms by (simp_all add: qr)
  have e: "round_even m d = (if d < 2 * r \<or> (2 * r = d \<and> odd q) then q + 1 else q)"
    by (simp add: round_even_def Let_def qr)
  show "2 * (round_even m d * d) \<le> 2 * m + d"
    unfolding e using m r by (cases "d < 2 * r \<or> (2 * r = d \<and> odd q)") (auto simp: add_mult_distrib)
  show "2 * m \<le> 2 * (round_even m d * d) + d"
    unfolding e using m r by (cases "d < 2 * r \<or> (2 * r = d \<and> odd q)") (auto simp: add_mult_distrib)
qed

lemma round_even_exact: "0 < d \<Longrightarrow> round_even (q * d) d = q"
  by (simp add: round_even_def)

text \<open>The rounding error is at most one part in \<open>2 ^ 53\<close>.\<close>

lemma nearest_near:
  assumes "0 < b" and "b * 2 ^ 52 \<le> a * 2 ^ 200"
  shows "2 ^ 53 * (nearest a b * b) \<le> (2 ^ 53 + 1) * (a * 2 ^ 200)"
    and "(2 ^ 53 - 1) * (a * 2 ^ 200) \<le> 2 ^ 53 * (nearest a b * b)"
proof -
  define A e where "A = a * 2 ^ 200" and "e = bit_length (A div b) - 53"
  have n: "nearest a b = round_even A (b * 2 ^ e) * 2 ^ e"
    by (simp add: nearest_def Let_def A_def e_def)
  have "b * 2 ^ 52 \<le> A" using assms(2) by (simp add: A_def)
  then have q: "2 ^ 52 \<le> A div b" using assms(1) by (simp add: less_eq_div_iff_mult_less_eq mult.commute)
  have "2 ^ (52 + e) \<le> A div b"
  proof (cases "e = 0")
    case False
    then have "52 + e = bit_length (A div b) - 1" by (simp add: e_def)
    with bit_length_lower [of "A div b"] q show ?thesis by simp
  qed (use q in simp)
  then have "b * 2 ^ e * 2 ^ 52 \<le> A"
    using assms(1) by (simp add: less_eq_div_iff_mult_less_eq power_add ac_simps)
  moreover define R where "R = round_even A (b * 2 ^ e) * (b * 2 ^ e)"
  moreover have "2 * R \<le> 2 * A + b * 2 ^ e" "2 * A \<le> 2 * R + b * 2 ^ e"
    unfolding R_def using assms(1) by (intro round_even_near; simp)+
  ultimately have "2 ^ 53 * R \<le> (2 ^ 53 + 1) * A" "(2 ^ 53 - 1) * A \<le> 2 ^ 53 * R" by simp_all
  moreover have "nearest a b * b = R" by (simp add: n R_def)
  ultimately show "2 ^ 53 * (nearest a b * b) \<le> (2 ^ 53 + 1) * (a * 2 ^ 200)"
    "(2 ^ 53 - 1) * (a * 2 ^ 200) \<le> 2 ^ 53 * (nearest a b * b)"
    by (simp_all only: A_def)
qed

text \<open>A quotient with at most 53 significant bits is not rounded.\<close>

lemma nearest_exact:
  assumes "0 < b" and "a * 2 ^ 200 = m * 2 ^ j * b" and "m < 2 ^ 53"
  shows "nearest a b = m * 2 ^ j"
proof -
  let ?e = "bit_length (m * 2 ^ j) - 53"
  have "m * 2 ^ j < 2 ^ (53 + j)" using assms(3) by (simp add: power_add)
  then have "?e \<le> j" using bit_length_le by fastforce
  then have j: "2 ^ j = 2 ^ (j - ?e) * (2 :: nat) ^ ?e" by (simp flip: power_add)
  have "a * 2 ^ 200 div b = m * 2 ^ j" using assms(1,2) by simp
  then have n: "nearest a b = round_even (m * 2 ^ j * b) (b * 2 ^ ?e) * 2 ^ ?e"
    unfolding nearest_def Let_def by (simp only: assms(2) simp_thms)
  have "m * 2 ^ j * b = m * 2 ^ (j - ?e) * (b * 2 ^ ?e)"
    by (subst j) (simp only: ac_simps)
  then have "round_even (m * 2 ^ j * b) (b * 2 ^ ?e) = m * 2 ^ (j - ?e)"
    by (rule ssubst) (rule round_even_exact, use assms(1) in simp)
  then show ?thesis unfolding n by (subst (2) j) (simp only: ac_simps)
qed

lemma d_of_ulong_exact: "unat n < 2 ^ 53 \<Longrightarrow> d_of_ulong n = unat n * 2 ^ 200"
  unfolding d_of_ulong_def by (rule nearest_exact) simp_all

end
