(* ===== verification/Xz.thy ===== *)
theory Xz
  imports Instances Doubles
begin

text \<open>
  The XZ back end: \<open>xz/unizip_algorithm_xz.c\<close> and \<open>xz/unizip_callback_xz.c\<close>.  liblzma is
  the parameter \<open>lzma_lib\<close>.  A \<open>lzma_stream\<close> is a struct the code fills in; the coder
  behind it is the handle \<open>internal_lzma\<close> into the library state.  The options that
  \<open>lzma_lzma_preset\<close> fills in are opaque bytes to the code.
\<close>

record 'l lzma_lib =
  lzma_version_string :: string
  LZMA_OK :: int
  LZMA_STREAM_END :: int
  LZMA_UNSUPPORTED_CHECK :: int
  LZMA_MEM_ERROR :: int
  LZMA_OPTIONS_ERROR :: int
  LZMA_DATA_ERROR :: int
  LZMA_RUN :: int
  LZMA_FINISH :: int
  LZMA_PRESET_DEFAULT :: int
  LZMA_FILTER_X86 :: uLong
  LZMA_FILTER_LZMA2 :: uLong
  LZMA_VLI_UNKNOWN :: uLong
  LZMA_CHECK_CRC64 :: int
  LZMA_CONCATENATED :: uInt
  lzma_lzma_preset :: "int \<Rightarrow> bool \<times> byte list"
  lzma_stream_encoder :: "lzma_stream \<Rightarrow> (uLong \<times> byte list option) list \<Rightarrow> int \<Rightarrow> 'l \<Rightarrow>
    int \<times> lzma_stream \<times> 'l"
  lzma_stream_decoder :: "lzma_stream \<Rightarrow> uLong \<Rightarrow> uInt \<Rightarrow> 'l \<Rightarrow> int \<times> lzma_stream \<times> 'l"
  lzma_code :: "lzma_stream \<Rightarrow> int \<Rightarrow> mem \<Rightarrow> 'l \<Rightarrow> (int \<times> lzma_stream \<times> mem \<times> 'l) res"
  lzma_end :: "lzma_stream \<Rightarrow> 'l \<Rightarrow> (lzma_stream \<times> 'l) res"
  xz_indet :: xz_ctx

abbreviation levelMin_xz :: int where "levelMin_xz \<equiv> 0"
abbreviation levelMax_xz :: int where "levelMax_xz \<equiv> 9"
abbreviation zlibAction_end_xz :: int where "zlibAction_end_xz \<equiv> 4"

section \<open>The algorithm layer\<close>

definition map_error_xz :: "'l lzma_lib \<Rightarrow> int \<Rightarrow> int" where
  "map_error_xz L ret =
     (if ret = LZMA_OK L then UNIZIP_OK
      else if ret = LZMA_STREAM_END L then UNIZIP_STREAM_END
      else if ret = LZMA_DATA_ERROR L \<or> ret = LZMA_UNSUPPORTED_CHECK L then UNIZIP_DATA_ERROR
      else if ret = LZMA_MEM_ERROR L then UNIZIP_MEM_ERROR
      else if ret = LZMA_OPTIONS_ERROR L then UNIZIP_STREAM_ERROR
      else UNIZIP_DATA_ERROR)"

definition xz_allocate :: "'l lzma_lib \<Rightarrow> 'l world \<Rightarrow> ptr \<times> 'l world" where
  "xz_allocate L w =
     (let (p, w) = malloc (Xz_obj (xz_indet L)) w
      in if p = NULL_ptr then (NULL_ptr, w)
         else (p, store p (Xz_obj ((xz_indet L)\<lparr>xzstr := LZMA_STREAM_INIT\<rparr>)) w))"

definition xz_copy :: "ptr \<Rightarrow> ptr \<Rightarrow> 'l world \<Rightarrow> (int \<times> 'l world) res" where
  "xz_copy dest source w =
     (if dest \<noteq> NULL_ptr \<and> source \<noteq> NULL_ptr then
        andthen (load as_xz source w) (\<lambda>c.
        andthen (load as_xz dest w) (\<lambda>_.
        Inr (UNIZIP_OK, store dest (Xz_obj c) w)))
      else Inr (UNIZIP_MEM_ERROR, w))"

text \<open>The filter chain that \<open>xz_deflateInit\<close> and \<open>xz_compress\<close> both build.\<close>

definition xz_filters :: "'l lzma_lib \<Rightarrow> byte list \<Rightarrow> (uLong \<times> byte list option) list" where
  "xz_filters L opt_lzma2 =
     [(LZMA_FILTER_X86 L, None), (LZMA_FILTER_LZMA2 L, Some opt_lzma2), (LZMA_VLI_UNKNOWN L, None)]"

definition xz_deflateInit :: "'l lzma_lib \<Rightarrow> ptr \<Rightarrow> int \<Rightarrow> 'l world \<Rightarrow> (int \<times> 'l world) res" where
  "xz_deflateInit L p level w =
     (let tmpLevel = (if level < levelMin_xz \<or> level > levelMax_xz then LZMA_PRESET_DEFAULT L else level);
          (bad, opt_lzma2) = lzma_lzma_preset L tmpLevel
      in if bad then Inr (UNIZIP_DATA_ERROR, w)
         else
           andthen (load as_xz p w) (\<lambda>ctx.
           let st = (xzstr ctx)\<lparr>avail_in_lzma := 0, next_in_lzma := NULL_addr,
                                avail_out_lzma := 0, next_out_lzma := NULL_addr\<rparr>;
               (ret, st, l) = lzma_stream_encoder L st (xz_filters L opt_lzma2) (LZMA_CHECK_CRC64 L) (lib w);
               w = w\<lparr>lib := l\<rparr>
           in Inr (map_error_xz L ret, store p (Xz_obj (ctx\<lparr>xzstr := st\<rparr>)) w)))"

definition xz_inflateInit :: "'l lzma_lib \<Rightarrow> ptr \<Rightarrow> 'l world \<Rightarrow> (int \<times> 'l world) res" where
  "xz_inflateInit L p w =
     andthen (load as_xz p w) (\<lambda>ctx.
     let st = LZMA_STREAM_INIT\<lparr>next_in_lzma := NULL_addr, avail_out_lzma := 0,
                               next_out_lzma := NULL_addr\<rparr>;
         (ret, st, l) = lzma_stream_decoder L st ULONG_MAX (LZMA_CONCATENATED L) (lib w);
         w = w\<lparr>lib := l\<rparr>
     in Inr (map_error_xz L ret, store p (Xz_obj (ctx\<lparr>xzstr := st\<rparr>)) w))"

definition xz_End :: "'l lzma_lib \<Rightarrow> ptr \<Rightarrow> 'l world \<Rightarrow> (int \<times> 'l world) res" where
  "xz_End L p w =
     (if p \<noteq> NULL_ptr then
        andthen (load as_xz p w) (\<lambda>ctx.
        andthen (lzma_end L (xzstr ctx) (lib w)) (\<lambda>(st, l).
        let w = w\<lparr>lib := l\<rparr>
        in andthen (free p (store p (Xz_obj (ctx\<lparr>xzstr := st\<rparr>)) w)) (\<lambda>w. Inr (UNIZIP_OK, w))))
      else Inr (UNIZIP_OK, w))"

definition xz_compress ::
  "'l lzma_lib \<Rightarrow> addr \<Rightarrow> uLong \<Rightarrow> addr \<Rightarrow> uLong option \<Rightarrow> 'l world \<Rightarrow> (int \<times> uLong option \<times> 'l world) res" where
  "xz_compress L source sourceLen dest destLen w =
     (let (bad, opt_lzma2) = lzma_lzma_preset L (LZMA_PRESET_DEFAULT L)
      in if bad then Inr (UNIZIP_DATA_ERROR, destLen, w)
         else
           let (_, st, l) = lzma_stream_encoder L LZMA_STREAM_INIT (xz_filters L opt_lzma2)
                              (LZMA_CHECK_CRC64 L) (lib w);
               w = w\<lparr>lib := l\<rparr>
           in case destLen of None \<Rightarrow> Inr (UNIZIP_DATA_ERROR, destLen, w) | Some len \<Rightarrow>
              if dest = NULL_addr \<or> source = NULL_addr then Inr (UNIZIP_DATA_ERROR, destLen, w)
              else
                let st = st\<lparr>next_in_lzma := source, next_out_lzma := dest,
                            avail_in_lzma := sourceLen, avail_out_lzma := len\<rparr>
                in andthen (lzma_code L st (LZMA_FINISH L) (bytes w) (lib w)) (\<lambda>(ret, st, m, l).
                   let w = w\<lparr>bytes := m, lib := l\<rparr>
                   in if ret = LZMA_STREAM_END L
                      then Inr (UNIZIP_OK, Some (len - avail_out_lzma st), w)
                      else Inr (map_error_xz L ret, destLen, w)))"

definition xz_decompress ::
  "'l lzma_lib \<Rightarrow> addr \<Rightarrow> uLong \<Rightarrow> addr \<Rightarrow> uLong option \<Rightarrow> 'l world \<Rightarrow> (int \<times> uLong option \<times> 'l world) res" where
  "xz_decompress L source sourceLen dest destLen w =
     (case destLen of None \<Rightarrow> Inr (UNIZIP_DATA_ERROR, destLen, w) | Some len \<Rightarrow>
      if dest = NULL_addr \<or> source = NULL_addr then Inr (UNIZIP_DATA_ERROR, destLen, w)
      else
        let (_, st, l) = lzma_stream_decoder L LZMA_STREAM_INIT ULONG_MAX (LZMA_CONCATENATED L) (lib w);
            w = w\<lparr>lib := l\<rparr>;
            st = st\<lparr>next_in_lzma := source, next_out_lzma := dest,
                    avail_in_lzma := sourceLen, avail_out_lzma := len\<rparr>
        in andthen (lzma_code L st (LZMA_FINISH L) (bytes w) (lib w)) (\<lambda>(ret, st, m, l).
           let w = w\<lparr>bytes := m, lib := l\<rparr>
           in if ret = LZMA_STREAM_END L
              then Inr (UNIZIP_OK, Some (len - avail_out_lzma st), w)
              else Inr (map_error_xz L ret, destLen, w)))"

text \<open>
  The common end of \<open>xz_deflate\<close> and \<open>xz_inflate\<close>: the pointers move by what the library's
  totals are ahead of the stream's, and the totals become the library's.
\<close>

definition xz_account :: "xz_ctx \<Rightarrow> xz_ctx" where
  "xz_account ctx =
     (let ctx = ctx\<lparr>next_in_xz := next_in_xz ctx + (total_in_lzma (xzstr ctx) - total_in_xz ctx)\<rparr>;
          ctx = ctx\<lparr>next_out_xz := next_out_xz ctx + (total_out_lzma (xzstr ctx) - total_out_xz ctx)\<rparr>;
          ctx = ctx\<lparr>total_in_xz := total_in_lzma (xzstr ctx)\<rparr>
      in ctx\<lparr>total_out_xz := total_out_lzma (xzstr ctx)\<rparr>)"

text \<open>The stream as it is handed to \<open>lzma_code\<close>.\<close>

definition xz_deflate_offer :: "'l lzma_lib \<Rightarrow> int \<Rightarrow> xz_ctx \<Rightarrow> lzma_stream" where
  "xz_deflate_offer L action ctx =
     (let st = (xzstr ctx)\<lparr>next_in_lzma := next_in_xz ctx, next_out_lzma := next_out_xz ctx\<rparr>;
          st = (if avail_in_lzma st = 0 \<and>
                   (action \<noteq> LZMA_FINISH L \<or> (action = LZMA_FINISH L \<and> total_in_xz ctx = 0))
                then st\<lparr>avail_in_lzma := ucast (avail_in_xz ctx)\<rparr> else st)
      in if avail_out_lzma st = 0 then st\<lparr>avail_out_lzma := ucast (avail_out_xz ctx)\<rparr> else st)"

definition xz_inflate_offer :: "xz_ctx \<Rightarrow> lzma_stream" where
  "xz_inflate_offer ctx =
     (let st = (xzstr ctx)\<lparr>next_in_lzma := next_in_xz ctx, next_out_lzma := next_out_xz ctx\<rparr>;
          st = (if avail_in_lzma st = 0 then st\<lparr>avail_in_lzma := ucast (avail_in_xz ctx)\<rparr> else st)
      in if avail_out_lzma st = 0 then st\<lparr>avail_out_lzma := ucast (avail_out_xz ctx)\<rparr> else st)"

definition xz_deflate :: "'l lzma_lib \<Rightarrow> ptr \<Rightarrow> int \<Rightarrow> 'l world \<Rightarrow> (int \<times> 'l world) res" where
  "xz_deflate L p flush w =
     andthen (load as_xz p w) (\<lambda>ctx.
     let action = (if flush = zlibAction_end_xz then LZMA_FINISH L else LZMA_RUN L)
     in andthen (lzma_code L (xz_deflate_offer L action ctx) action (bytes w) (lib w))
          (\<lambda>(ret, st, m, l).
        let w = w\<lparr>bytes := m, lib := l\<rparr>;
            ctx = xz_account (ctx\<lparr>xzstr := st\<rparr>)
        in Inr (map_error_xz L ret, store p (Xz_obj ctx) w)))"

definition xz_inflate :: "'l lzma_lib \<Rightarrow> ptr \<Rightarrow> int \<Rightarrow> 'l world \<Rightarrow> (int \<times> 'l world) res" where
  "xz_inflate L p flush w =
     andthen (load as_xz p w) (\<lambda>ctx.
     let action = (if flush = zlibAction_end_xz then LZMA_FINISH L else LZMA_RUN L)
     in andthen (lzma_code L (xz_inflate_offer ctx) action (bytes w) (lib w))
          (\<lambda>(ret, st, m, l).
        let w = w\<lparr>bytes := m, lib := l\<rparr>;
            ctx = xz_account (ctx\<lparr>xzstr := st\<rparr>)
        in Inr (map_error_xz L ret, store p (Xz_obj ctx) w)))"

definition xz_compressBound :: "uLong \<Rightarrow> uLong res" where
  "xz_compressBound uncompressed_size =
     andthen (ulong_of_d (d_mult (d_of_ulong uncompressed_size) (nearest 1001 1000))) (\<lambda>v.
     let compressed_size = v + 1024 + 13
     in Inr (if compressed_size < uncompressed_size then ULONG_MAX else compressed_size))"

section \<open>The callback layer\<close>

definition versionCB_xz :: "'l lzma_lib \<Rightarrow> string" where
  "versionCB_xz L = lzma_version_string L"

definition resetXz :: "unizip_stream \<Rightarrow> unizip_stream" where
  "resetXz strm = strm\<lparr>next_in := NULL_addr, next_out := NULL_addr, avail_in := 0,
     avail_out := 0, total_in := 0, total_out := 0\<rparr>"

definition deflateInitCB_xz :: "'l lzma_lib \<Rightarrow> int \<Rightarrow> 'l stream_op" where
  "deflateInitCB_xz L level strm w =
     (let (p, w) = xz_allocate L w; strm = strm\<lparr>ud := p\<rparr>
      in if ud strm = NULL_ptr then Inr (UNIZIP_MEM_ERROR, strm, w)
         else
           let strm = strm\<lparr>compression_flag := level\<rparr>
           in andthen (xz_deflateInit L (ud strm) level w) (\<lambda>(ret, w).
              Inr (ret, resetXz strm, w)))"

text \<open>Both stream callbacks copy the stream's six fields into the context and back.\<close>

definition xz_pull :: "unizip_stream \<Rightarrow> xz_ctx \<Rightarrow> xz_ctx" where
  "xz_pull strm ctx = ctx\<lparr>next_in_xz := next_in strm, next_out_xz := next_out strm,
     avail_in_xz := avail_in strm, avail_out_xz := avail_out strm,
     total_in_xz := total_in strm, total_out_xz := total_out strm\<rparr>"

definition xz_push :: "xz_ctx \<Rightarrow> unizip_stream \<Rightarrow> unizip_stream" where
  "xz_push ctx strm = strm\<lparr>next_in := next_in_xz ctx, next_out := next_out_xz ctx,
     avail_in := avail_in_xz ctx, avail_out := avail_out_xz ctx,
     total_in := total_in_xz ctx, total_out := total_out_xz ctx\<rparr>"

definition deflateCB_xz :: "'l lzma_lib \<Rightarrow> int \<Rightarrow> 'l stream_op" where
  "deflateCB_xz L flush strm w =
     andthen (load as_xz (ud strm) w) (\<lambda>ctx.
     andthen (xz_deflate L (ud strm) flush (store (ud strm) (Xz_obj (xz_pull strm ctx)) w))
       (\<lambda>(ret, w).
     andthen (load as_xz (ud strm) w) (\<lambda>ctx.
     Inr (ret, xz_push ctx strm, w))))"

definition deflateEndCB_xz :: "'l lzma_lib \<Rightarrow> 'l stream_op" where
  "deflateEndCB_xz L strm w =
     (let strm = resetXz strm
      in andthen (xz_End L (ud strm) w) (\<lambda>(ret, w). Inr (ret, strm, w)))"

definition inflateInitCB_xz :: "'l lzma_lib \<Rightarrow> 'l stream_op" where
  "inflateInitCB_xz L strm w =
     (let (p, w) = xz_allocate L w; strm = strm\<lparr>ud := p\<rparr>
      in if ud strm = NULL_ptr then Inr (UNIZIP_MEM_ERROR, strm, w)
         else
           let strm = resetXz strm
           in andthen (xz_inflateInit L (ud strm) w) (\<lambda>(ret, w). Inr (ret, strm, w)))"

definition inflateCB_xz :: "'l lzma_lib \<Rightarrow> int \<Rightarrow> 'l stream_op" where
  "inflateCB_xz L flush strm w =
     andthen (load as_xz (ud strm) w) (\<lambda>ctx.
     andthen (xz_inflate L (ud strm) flush (store (ud strm) (Xz_obj (xz_pull strm ctx)) w))
       (\<lambda>(ret, w).
     andthen (load as_xz (ud strm) w) (\<lambda>ctx.
     Inr (ret, xz_push ctx strm, w))))"

definition inflateEndCB_xz :: "'l lzma_lib \<Rightarrow> 'l stream_op" where
  "inflateEndCB_xz L strm w =
     (let strm = resetXz strm
      in andthen (xz_End L (ud strm) w) (\<lambda>(ret, w). Inr (ret, strm, w)))"

definition deflateCopyCB_xz :: "unizip_stream \<Rightarrow> unizip_stream \<Rightarrow> 'l world \<Rightarrow> (int \<times> unizip_stream \<times> 'l world) res" where
  "deflateCopyCB_xz dest source w =
     (let dest = dest\<lparr>compression_flag := compression_flag source\<rparr>
      in andthen (xz_copy (ud dest) (ud source) w) (\<lambda>(ret, w). Inr (ret, dest, w)))"

definition inflateCopyCB_xz :: "unizip_stream \<Rightarrow> unizip_stream \<Rightarrow> 'l world \<Rightarrow> (int \<times> unizip_stream \<times> 'l world) res" where
  "inflateCopyCB_xz dest source w =
     andthen (xz_copy (ud dest) (ud source) w) (\<lambda>(ret, w). Inr (ret, dest, w))"

definition deflateResetCB_xz :: "'l lzma_lib \<Rightarrow> 'l stream_op" where
  "deflateResetCB_xz L strm w =
     (let strm = resetXz strm
      in andthen (xz_End L (ud strm) w) (\<lambda>(_, w).
         let (p, w) = xz_allocate L w; strm = strm\<lparr>ud := p\<rparr>
         in if ud strm = NULL_ptr then Inr (UNIZIP_MEM_ERROR, strm, w)
            else andthen (xz_deflateInit L (ud strm) (compression_flag strm) w)
                   (\<lambda>(ret, w). Inr (ret, strm, w))))"

definition inflateResetCB_xz :: "'l lzma_lib \<Rightarrow> 'l stream_op" where
  "inflateResetCB_xz L strm w =
     (let strm = resetXz strm
      in andthen (xz_End L (ud strm) w) (\<lambda>(_, w).
         let (p, w) = xz_allocate L w; strm = strm\<lparr>ud := p\<rparr>
         in if ud strm = NULL_ptr then Inr (UNIZIP_MEM_ERROR, strm, w)
            else andthen (xz_inflateInit L (ud strm) w) (\<lambda>(ret, w). Inr (ret, strm, w))))"

definition compressCB_xz ::
  "'l lzma_lib \<Rightarrow> addr \<Rightarrow> uLong option \<Rightarrow> addr \<Rightarrow> uLong \<Rightarrow> 'l world \<Rightarrow> (int \<times> uLong option \<times> 'l world) res" where
  "compressCB_xz L dest destLen source sourceLen w = xz_compress L source sourceLen dest destLen w"

definition uncompressCB_xz ::
  "'l lzma_lib \<Rightarrow> addr \<Rightarrow> uLong option \<Rightarrow> addr \<Rightarrow> uLong \<Rightarrow> 'l world \<Rightarrow> (int \<times> uLong option \<times> 'l world) res" where
  "uncompressCB_xz L dest destLen source sourceLen w = xz_decompress L source sourceLen dest destLen w"

definition compressBoundCB_xz :: "uLong \<Rightarrow> uLong res" where
  "compressBoundCB_xz sourceLen = xz_compressBound sourceLen"

section \<open>Sessions\<close>

text \<open>
  What \<open>lzma/base.h\<close> documents about the coder behind a stream: initialising a stream
  without one allocates a coder exactly if it succeeds, \<open>lzma_code\<close> keeps it, \<open>lzma_end\<close>
  frees it.
\<close>

definition lzma_coders :: "'l lzma_lib \<Rightarrow> ('l \<Rightarrow> ptr set) \<Rightarrow> bool" where
  "lzma_coders L live \<longleftrightarrow>
     (\<forall>st fs chk l r st' l'. internal_lzma st = 0 \<longrightarrow> lzma_stream_encoder L st fs chk l = (r, st', l') \<longrightarrow>
        (if r = LZMA_OK L then internal_lzma st' \<notin> live l \<and> live l' = insert (internal_lzma st') (live l)
         else internal_lzma st' = 0 \<and> live l' = live l)) \<and>
     (\<forall>st lim fl l r st' l'. internal_lzma st = 0 \<longrightarrow> lzma_stream_decoder L st lim fl l = (r, st', l') \<longrightarrow>
        (if r = LZMA_OK L then internal_lzma st' \<notin> live l \<and> live l' = insert (internal_lzma st') (live l)
         else internal_lzma st' = 0 \<and> live l' = live l)) \<and>
     (\<forall>st a m l. internal_lzma st \<in> live l \<longrightarrow> ensures (lzma_code L st a m l)
        (\<lambda>(r, st', m', l'). internal_lzma st' = internal_lzma st \<and> live l' = live l)) \<and>
     (\<forall>st l. internal_lzma st \<in> live l \<longrightarrow> ensures (lzma_end L st l)
        (\<lambda>(st', l'). live l' = live l - {internal_lzma st}))"

lemma lzma_codersD:
  assumes "lzma_coders L live"
  shows "internal_lzma st = 0 \<Longrightarrow> lzma_stream_encoder L st fs chk l = (LZMA_OK L, st', l') \<Longrightarrow>
      internal_lzma st' \<notin> live l \<and> live l' = insert (internal_lzma st') (live l)"
    and "internal_lzma st = 0 \<Longrightarrow> lzma_stream_decoder L st lim fl l = (LZMA_OK L, st', l') \<Longrightarrow>
      internal_lzma st' \<notin> live l \<and> live l' = insert (internal_lzma st') (live l)"
    and "internal_lzma st \<in> live l \<Longrightarrow> ensures (lzma_code L st a m l)
      (\<lambda>(r, st', m', l'). internal_lzma st' = internal_lzma st \<and> live l' = live l)"
    and "internal_lzma st \<in> live l \<Longrightarrow> ensures (lzma_end L st l)
      (\<lambda>(st', l'). live l' = live l - {internal_lzma st})"
proof -
  note ok = assms [unfolded lzma_coders_def]
  show "internal_lzma st = 0 \<Longrightarrow> lzma_stream_encoder L st fs chk l = (LZMA_OK L, st', l') \<Longrightarrow>
      internal_lzma st' \<notin> live l \<and> live l' = insert (internal_lzma st') (live l)"
    using ok [THEN conjunct1] by fastforce
  show "internal_lzma st = 0 \<Longrightarrow> lzma_stream_decoder L st lim fl l = (LZMA_OK L, st', l') \<Longrightarrow>
      internal_lzma st' \<notin> live l \<and> live l' = insert (internal_lzma st') (live l)"
    using ok [THEN conjunct2, THEN conjunct1] by fastforce
  show "internal_lzma st \<in> live l \<Longrightarrow> ensures (lzma_code L st a m l)
      (\<lambda>(r, st', m', l'). internal_lzma st' = internal_lzma st \<and> live l' = live l)"
    using ok by blast
  show "internal_lzma st \<in> live l \<Longrightarrow> ensures (lzma_end L st l)
      (\<lambda>(st', l'). live l' = live l - {internal_lzma st})"
    using ok by blast
qed

abbreviation coder :: "xz_ctx \<Rightarrow> ptr" where "coder c \<equiv> internal_lzma (xzstr c)"

lemma xz_account_simps [simp]:
  "xzstr (xz_account c) = xzstr c" "avail_in_xz (xz_account c) = avail_in_xz c"
  "avail_out_xz (xz_account c) = avail_out_xz c"
  "total_in_xz (xz_account c) = total_in_lzma (xzstr c)"
  "total_out_xz (xz_account c) = total_out_lzma (xzstr c)"
  "next_in_xz (xz_account c) = next_in_xz c + (total_in_lzma (xzstr c) - total_in_xz c)"
  "next_out_xz (xz_account c) = next_out_xz c + (total_out_lzma (xzstr c) - total_out_xz c)"
  by (simp_all add: xz_account_def Let_def)

lemma xz_offer_coder [simp]:
  "internal_lzma (xz_deflate_offer L a c) = coder c" "internal_lzma (xz_inflate_offer c) = coder c"
  by (simp_all add: xz_deflate_offer_def xz_inflate_offer_def Let_def)

lemma xz_pull_coder [simp]: "xzstr (xz_pull s c) = xzstr c"
  by (simp add: xz_pull_def)

lemma ud_xz_push [simp]: "ud (xz_push c s) = ud s"
  by (simp add: xz_push_def)

text \<open>The two callbacks, given what \<open>lzma_code\<close> returns.\<close>

lemma xz_deflate_eq:
  assumes c: "load as_xz (ud s) w = Inr c" and a: "a = (if f = 4 then LZMA_FINISH L else LZMA_RUN L)"
  shows "deflateCB_xz L f s w =
    andthen (lzma_code L (xz_deflate_offer L a (xz_pull s c)) a (bytes w) (lib w)) (\<lambda>(r, st, m, l).
      let c' = xz_account ((xz_pull s c)\<lparr>xzstr := st\<rparr>)
      in Inr (map_error_xz L r, xz_push c' s, store (ud s) (Xz_obj c') (w\<lparr>bytes := m, lib := l\<rparr>)))"
  using load_nonnull [OF c]
  by (simp add: deflateCB_xz_def xz_deflate_def a c Let_def andthen_def split: sum.split prod.split)

lemma xz_inflate_eq:
  assumes c: "load as_xz (ud s) w = Inr c" and a: "a = (if f = 4 then LZMA_FINISH L else LZMA_RUN L)"
  shows "inflateCB_xz L f s w =
    andthen (lzma_code L (xz_inflate_offer (xz_pull s c)) a (bytes w) (lib w)) (\<lambda>(r, st, m, l).
      let c' = xz_account ((xz_pull s c)\<lparr>xzstr := st\<rparr>)
      in Inr (map_error_xz L r, xz_push c' s, store (ud s) (Xz_obj c') (w\<lparr>bytes := m, lib := l\<rparr>)))"
  using load_nonnull [OF c]
  by (simp add: inflateCB_xz_def xz_inflate_def a c Let_def andthen_def split: sum.split prod.split)

lemma xz_callback_keeps:
  assumes ok: "lzma_coders L live" and c: "load as_xz (ud s) w = Inr c" and h: "coder c \<in> live (lib w)"
  shows "ensures (deflateCB_xz L f s w) (\<lambda>(r, s', w'). ud s' = ud s \<and> keeps as_xz (ud s) w w' \<and>
      live (lib w') = live (lib w) \<and> (\<exists>c'. load as_xz (ud s) w' = Inr c' \<and> coder c' = coder c))"
    and "ensures (inflateCB_xz L f s w) (\<lambda>(r, s', w'). ud s' = ud s \<and> keeps as_xz (ud s) w w' \<and>
      live (lib w') = live (lib w) \<and> (\<exists>c'. load as_xz (ud s) w' = Inr c' \<and> coder c' = coder c))"
proof -
  note p = load_nonnull [OF c]
  have *: "ensures (lzma_code L st a (bytes w) (lib w))
      (\<lambda>(r, st', m', l'). internal_lzma st' = internal_lzma st \<and> live l' = live (lib w))"
    if "internal_lzma st = coder c" for st a
    using lzma_codersD(3) [OF ok, of st] that h by simp
  show "ensures (deflateCB_xz L f s w) (\<lambda>(r, s', w'). ud s' = ud s \<and> keeps as_xz (ud s) w w' \<and>
      live (lib w') = live (lib w) \<and> (\<exists>c'. load as_xz (ud s) w' = Inr c' \<and> coder c' = coder c))"
    unfolding xz_deflate_eq [OF c refl] ensures_andthen
    by (rule ensures_mono [OF *]) (use p in \<open>auto simp: Let_def\<close>)
  show "ensures (inflateCB_xz L f s w) (\<lambda>(r, s', w'). ud s' = ud s \<and> keeps as_xz (ud s) w w' \<and>
      live (lib w') = live (lib w) \<and> (\<exists>c'. load as_xz (ud s) w' = Inr c' \<and> coder c' = coder c))"
    unfolding xz_inflate_eq [OF c refl] ensures_andthen
    by (rule ensures_mono [OF *]) (use p in \<open>auto simp: Let_def\<close>)
qed

lemma xz_in_step:
  "deflateCB_xz L f s w = Inr (r, s', w') \<Longrightarrow> in_step s s'"
  "inflateCB_xz L f s w = Inr (r, s', w') \<Longrightarrow> in_step s s'"
proof -
  assume d: "deflateCB_xz L f s w = Inr (r, s', w')"
  then obtain c where c: "load as_xz (ud s) w = Inr c" by (auto simp: deflateCB_xz_def andthen_eq_Inr)
  from d show "in_step s s'"
    unfolding xz_deflate_eq [OF c refl]
    by (auto simp: andthen_eq_Inr Let_def in_step_def xz_push_def xz_pull_def)
next
  assume d: "inflateCB_xz L f s w = Inr (r, s', w')"
  then obtain c where c: "load as_xz (ud s) w = Inr c" by (auto simp: inflateCB_xz_def andthen_eq_Inr)
  from d show "in_step s s'"
    unfolding xz_inflate_eq [OF c refl]
    by (auto simp: andthen_eq_Inr Let_def in_step_def xz_push_def xz_pull_def)
qed

lemma xz_allocate_acquires:
  assumes "xz_allocate L w = (p, w1)" and "p \<noteq> 0" and "wf_heap w"
  shows "acquires as_xz p w w1 \<and> wf_heap w1 \<and> lib w1 = lib w \<and>
    load as_xz p w1 = Inr ((xz_indet L)\<lparr>xzstr := LZMA_STREAM_INIT\<rparr>)"
proof -
  obtain w0 where m: "malloc (Xz_obj (xz_indet L)) w = (p, w0)"
    and w1: "w1 = store p (Xz_obj ((xz_indet L)\<lparr>xzstr := LZMA_STREAM_INIT\<rparr>)) w0"
    using assms(1,2) by (auto simp: xz_allocate_def Let_def split: prod.splits if_splits)
  note a = malloc_acquires [OF m assms(2,3), of as_xz]
  show ?thesis
    using a assms(2) by (auto simp: w1 intro: acquires_keeps wf_heap_store_holds)
qed

lemma map_error_xz_ok: "map_error_xz L r = 0 \<longleftrightarrow> r = LZMA_OK L"
  by (simp add: map_error_xz_def)

lemma internal_LZMA_STREAM_INIT [simp]: "internal_lzma LZMA_STREAM_INIT = 0"
  by (simp add: LZMA_STREAM_INIT_def)

lemma deflateInitCB_xz_acquires:
  assumes ok: "lzma_coders L live" and "wf_heap w"
    and i: "deflateInitCB_xz L level s w = Inr (UNIZIP_OK, s', w')"
  shows "acquires as_xz (ud s') w w' \<and> wf_heap w' \<and>
    (\<exists>c. load as_xz (ud s') w' = Inr c \<and> coder c \<notin> live (lib w) \<and>
       live (lib w') = insert (coder c) (live (lib w)))"
proof -
  obtain p w1 where m: "xz_allocate L w = (p, w1)" by fastforce
  from i m have p: "p \<noteq> 0" "ud s' = p" and
    d: "xz_deflateInit L p level w1 = Inr (0, w')"
    by (auto simp: deflateInitCB_xz_def resetXz_def Let_def andthen_eq_Inr split: if_splits)
  note a = xz_allocate_acquires [OF m p(1) \<open>wf_heap w\<close>]
  let ?c = "(xz_indet L)\<lparr>xzstr := LZMA_STREAM_INIT\<rparr>"
  let ?st = "LZMA_STREAM_INIT\<lparr>avail_in_lzma := 0, next_in_lzma := 0, avail_out_lzma := 0, next_out_lzma := 0\<rparr>"
  from d a obtain lv fs st l where
    e: "lzma_stream_encoder L ?st fs (LZMA_CHECK_CRC64 L) (lib w) = (LZMA_OK L, st, l)"
    and w': "w' = (store p (Xz_obj (?c\<lparr>xzstr := st\<rparr>)) w1)\<lparr>lib := l\<rparr>"
    by (auto simp: xz_deflateInit_def Let_def map_error_xz_ok split: prod.splits if_splits)
  from lzma_codersD(1) [OF ok _ e] have
    "internal_lzma st \<notin> live (lib w)" "live l = insert (internal_lzma st) (live (lib w))" by simp_all
  then show ?thesis
    using a p by (auto simp: w' holds_def intro: acquires_keeps wf_heap_store_load)
qed

lemma inflateInitCB_xz_acquires:
  assumes ok: "lzma_coders L live" and "wf_heap w"
    and i: "inflateInitCB_xz L s w = Inr (UNIZIP_OK, s', w')"
  shows "acquires as_xz (ud s') w w' \<and> wf_heap w' \<and>
    (\<exists>c. load as_xz (ud s') w' = Inr c \<and> coder c \<notin> live (lib w) \<and>
       live (lib w') = insert (coder c) (live (lib w)))"
proof -
  obtain p w1 where m: "xz_allocate L w = (p, w1)" by fastforce
  from i m have p: "p \<noteq> 0" "ud s' = p" and
    d: "xz_inflateInit L p w1 = Inr (0, w')"
    by (auto simp: inflateInitCB_xz_def resetXz_def Let_def andthen_eq_Inr split: if_splits)
  note a = xz_allocate_acquires [OF m p(1) \<open>wf_heap w\<close>]
  let ?c = "(xz_indet L)\<lparr>xzstr := LZMA_STREAM_INIT\<rparr>"
  let ?st = "LZMA_STREAM_INIT\<lparr>next_in_lzma := 0, avail_out_lzma := 0, next_out_lzma := 0\<rparr>"
  from d a obtain st l where
    e: "lzma_stream_decoder L ?st (- 1) (LZMA_CONCATENATED L) (lib w) = (LZMA_OK L, st, l)"
    and w': "w' = (store p (Xz_obj (?c\<lparr>xzstr := st\<rparr>)) w1)\<lparr>lib := l\<rparr>"
    by (auto simp: xz_inflateInit_def Let_def map_error_xz_ok split: prod.splits)
  from lzma_codersD(2) [OF ok _ e] have
    "internal_lzma st \<notin> live (lib w)" "live l = insert (internal_lzma st) (live (lib w))" by simp_all
  then show ?thesis
    using a p by (auto simp: w' holds_def intro: acquires_keeps wf_heap_store_load)
qed

lemma xz_end_frees:
  assumes ok: "lzma_coders L live" and c: "wf_heap w" "load as_xz (ud s) w = Inr c" "coder c \<in> live (lib w)"
  shows "ensures (deflateEndCB_xz L s w) (\<lambda>(r, s', w'). wf_heap w' \<and> releases (ud s) w w' \<and>
      live (lib w') = live (lib w) - {coder c})"
    and "ensures (inflateEndCB_xz L s w) (\<lambda>(r, s', w'). wf_heap w' \<and> releases (ud s) w w' \<and>
      live (lib w') = live (lib w) - {coder c})"
proof -
  from lzma_codersD(4) [OF ok c(3)] obtain st l where
    e: "lzma_end L (xzstr c) (lib w) = Inr (st, l)" "live l = live (lib w) - {coder c}"
    by (auto simp: ensures_def)
  show "ensures (deflateEndCB_xz L s w) (\<lambda>(r, s', w'). wf_heap w' \<and> releases (ud s) w w' \<and>
      live (lib w') = live (lib w) - {coder c})"
    using c(1,2) load_nonnull [OF c(2)] e
    by (simp add: deflateEndCB_xz_def xz_End_def resetXz_def Let_def)
  show "ensures (inflateEndCB_xz L s w) (\<lambda>(r, s', w'). wf_heap w' \<and> releases (ud s) w w' \<and>
      live (lib w') = live (lib w) - {coder c})"
    using c(1,2) load_nonnull [OF c(2)] e
    by (simp add: inflateEndCB_xz_def xz_End_def resetXz_def Let_def)
qed

interpretation xz_deflate: handle_session as_xz "\<lambda>p. coder" live "lzma_coders L live"
  "deflateInitCB_xz L" "deflateCB_xz L" "deflateEndCB_xz L" for L live
  by (rule handle_session.intro)
    (simp_all add: deflateInitCB_xz_acquires xz_callback_keeps xz_end_frees)

interpretation xz_inflate: handle_session as_xz "\<lambda>p. coder" live "lzma_coders L live"
  "\<lambda>level. inflateInitCB_xz L" "inflateCB_xz L" "inflateEndCB_xz L" for L live
  by (rule handle_session.intro)
    (simp_all add: inflateInitCB_xz_acquires xz_callback_keeps xz_end_frees)

interpretation xz_deflate: accounting True "deflateCB_xz L" for L
  by unfold_locales (rule xz_in_step(1))

interpretation xz_inflate: accounting True "inflateCB_xz L" for L
  by unfold_locales (rule xz_in_step(2))

lemma xz_reset_end_init:
  "deflateResetCB_xz L s w = andthen (deflateEndCB_xz L s w)
     (\<lambda>(r, s', w'). deflateInitCB_xz L (compression_flag s) s' w')"
  "inflateResetCB_xz L s w = andthen (inflateEndCB_xz L s w)
     (\<lambda>(r, s', w'). inflateInitCB_xz L s' w')"
  by (auto simp: deflateResetCB_xz_def deflateEndCB_xz_def deflateInitCB_xz_def inflateResetCB_xz_def
      inflateEndCB_xz_def inflateInitCB_xz_def resetXz_def Let_def andthen_def
      split: sum.splits prod.splits)

interpretation xz_deflate_session: resettable "deflateInitCB_xz L" "deflateCB_xz L"
  "deflateEndCB_xz L" "\<lambda>w. lzma_coders L live \<and> wf_heap w" "owns_handle as_xz (\<lambda>p. coder) live"
  "\<lambda>w. (heap w, live (lib w))" "without_handle as_xz (\<lambda>p. coder) live"
  "deflateResetCB_xz L" "\<lambda>s. s" compression_flag for L live
  by unfold_locales (simp_all add: xz_reset_end_init)

interpretation xz_inflate_session: resettable "\<lambda>level. inflateInitCB_xz L" "inflateCB_xz L"
  "inflateEndCB_xz L" "\<lambda>w. lzma_coders L live \<and> wf_heap w" "owns_handle as_xz (\<lambda>p. coder) live"
  "\<lambda>w. (heap w, live (lib w))" "without_handle as_xz (\<lambda>p. coder) live"
  "inflateResetCB_xz L" "\<lambda>s. s" "\<lambda>s. 0" for L live
  by unfold_locales (simp_all add: xz_reset_end_init)

section \<open>Properties\<close>

text \<open>
  A library for the witnesses: coders copy as much input as there is room for; \<open>LZMA_FINISH\<close>
  ends the stream when no input is left.
\<close>

definition demo_lzma :: "ptr list lzma_lib" where
  "demo_lzma = \<lparr>lzma_version_string = ''5.4.1'', LZMA_OK = 0, LZMA_STREAM_END = 1,
     LZMA_UNSUPPORTED_CHECK = 3, LZMA_MEM_ERROR = 5, LZMA_OPTIONS_ERROR = 8, LZMA_DATA_ERROR = 9,
     LZMA_RUN = 0, LZMA_FINISH = 3, LZMA_PRESET_DEFAULT = 6, LZMA_FILTER_X86 = 4,
     LZMA_FILTER_LZMA2 = 33, LZMA_VLI_UNKNOWN = - 1, LZMA_CHECK_CRC64 = 4, LZMA_CONCATENATED = 8,
     lzma_lzma_preset = (\<lambda>lv. (False, [])),
     lzma_stream_encoder = (\<lambda>st fs chk l. let (h, l) = demo_create l in (0, st\<lparr>internal_lzma := h\<rparr>, l)),
     lzma_stream_decoder = (\<lambda>st lim fl l. let (h, l) = demo_create l in (0, st\<lparr>internal_lzma := h\<rparr>, l)),
     lzma_code = (\<lambda>st a m l. andthen (demo_use (internal_lzma st) () l) (\<lambda>_.
       let k = min (avail_in_lzma st) (avail_out_lzma st)
       in Inr (if a = 3 \<and> k = avail_in_lzma st then 1 else 0,
            st\<lparr>next_in_lzma := next_in_lzma st + k, avail_in_lzma := avail_in_lzma st - k,
               total_in_lzma := total_in_lzma st + k, next_out_lzma := next_out_lzma st + k,
               avail_out_lzma := avail_out_lzma st - k, total_out_lzma := total_out_lzma st + k\<rparr>,
            write_mem m (next_out_lzma st) (read_mem m (next_in_lzma st) (unat k)), l))),
     lzma_end = (\<lambda>st l. andthen (demo_free (internal_lzma st) () l) (\<lambda>(_, l).
       Inr (st\<lparr>internal_lzma := 0\<rparr>, l))),
     xz_indet = \<lparr>xzstr = LZMA_STREAM_INIT\<lparr>internal_lzma := 99\<rparr>, next_in_xz = 1, next_out_xz = 2,
       avail_in_xz = 3, avail_out_xz = 4, total_in_xz = 5, total_out_xz = 6\<rparr>\<rparr>"

lemma demo_lzma_coders: "lzma_coders demo_lzma demo_live"
  by (auto simp: lzma_coders_def demo_lzma_def demo_live_def demo_use_def demo_free_def split_def
      Let_def dest: demo_create_fresh split: if_splits)

lemma demo_lzma_init:
  obtains s w c where "deflateInitCB_xz demo_lzma 6 demo_stream demo_world = Inr (0, s, w)"
    and "load as_xz (ud s) w = Inr c" and "xzstr c = LZMA_STREAM_INIT\<lparr>internal_lzma := 1\<rparr>"
    and "lib w = [1]" and "ud s = 1" and "total_in s = 0" and "total_out s = 0"
  by (simp add: deflateInitCB_xz_def xz_allocate_def malloc_ok xz_deflateInit_def map_error_xz_def
      Let_def load_def deref_def resetXz_def demo_lzma_def demo_create_def LZMA_STREAM_INIT_def)



text \<open>
  C22: whatever XZ \<open>deflate\<close> calls are made with buffers that are kept, whatever they return,
  the input pointer has moved by exactly what \<open>total_in\<close> has grown by and the output pointer
  by what \<open>total_out\<close> has grown by.
\<close>

theorem xz_deflate_accounts:
  assumes "\<forall>(rf, f) \<in> set cs. keeps_buffers rf" and "run_calls (deflateCB_xz L) cs s w = Inr (rs, s', w')"
  shows "next_in s' - next_in s = total_in s' - total_in s \<and>
    next_out s' - next_out s = total_out s' - total_out s"
  using xz_deflate.run_accounts [OF TrueI assms] by (simp add: in_step_def)

theorem xz_deflate_accounts_witness:
  "\<exists>s w rs s' w'. deflateInitCB_xz demo_lzma 6 demo_stream demo_world = Inr (0, s, w) \<and>
     run_calls (deflateCB_xz demo_lzma) [(Amounts 3 50, 0), (Amounts 0 50, 4)] s w = Inr (rs, s', w') \<and>
     next_in s' - next_in s = total_in s' - total_in s"
proof -
  let ?cs = "[(Amounts 3 50, 0), (Amounts 0 50, 4)]"
  obtain s w c where i: "deflateInitCB_xz demo_lzma 6 demo_stream demo_world = Inr (0, s, w)"
    and c: "load as_xz (ud s) w = Inr c" "xzstr c = LZMA_STREAM_INIT\<lparr>internal_lzma := 1\<rparr>" "lib w = [1]"
    by (rule demo_lzma_init)
  have "lzma_coders demo_lzma demo_live \<and> wf_heap w" "owns_handle as_xz (\<lambda>p. coder) demo_live (ud s) w"
    using xz_deflate.init_owns [OF conjI [OF demo_lzma_coders wf_demo_world] i] by auto
  from xz_deflate.run_owns [OF this, of ?cs] obtain rs s' w' where
    r: "run_calls (deflateCB_xz demo_lzma) ?cs s w = Inr (rs, s', w')"
    by (auto simp: ensures_def)
  from xz_deflate_accounts [OF _ this] i r show ?thesis by auto
qed

text \<open>
  XZ \<open>deflate\<close> never changes \<open>avail_in\<close> or \<open>avail_out\<close>, however much it consumes and
  produces: it reports progress through the totals and the pointers only, where zlib counts
  the two fields down.
\<close>

theorem xz_avail_unchanged:
  assumes "deflateCB_xz L f s w = Inr (r, s', w')"
  shows "avail_in s' = avail_in s \<and> avail_out s' = avail_out s"
proof -
  from assms obtain c where c: "load as_xz (ud s) w = Inr c" by (auto simp: deflateCB_xz_def andthen_eq_Inr)
  from assms show ?thesis
    unfolding xz_deflate_eq [OF c refl] by (auto simp: andthen_eq_Inr Let_def xz_push_def xz_pull_def)
qed

lemma demo_lzma_first_call:
  obtains s w s1 w1 c1 where "deflateInitCB_xz demo_lzma 6 demo_stream demo_world = Inr (0, s, w)"
    and "deflateCB_xz demo_lzma 0 (s\<lparr>next_in := 1000, avail_in := 3, next_out := 2000, avail_out := 50\<rparr>) w =
      Inr (0, s1, w1)"
    and "load as_xz (ud s1) w1 = Inr c1" and "avail_in_lzma (xzstr c1) = 0" and "total_in s1 = 3"
    and "total_in s = 0"
proof -
  obtain s w c where i: "deflateInitCB_xz demo_lzma 6 demo_stream demo_world = Inr (0, s, w)"
    and c: "load as_xz (ud s) w = Inr c" "xzstr c = LZMA_STREAM_INIT\<lparr>internal_lzma := 1\<rparr>" "lib w = [1]"
      "ud s = 1" "total_in s = 0" "total_out s = 0"
    by (rule demo_lzma_init)
  let ?s = "s\<lparr>next_in := 1000, avail_in := 3, next_out := 2000, avail_out := 50\<rparr>"
  have c0: "load as_xz (ud ?s) w = Inr c" using c by simp
  have o: "xz_deflate_offer demo_lzma 0 (xz_pull ?s c) = LZMA_STREAM_INIT\<lparr>internal_lzma := 1,
      next_in_lzma := 1000, next_out_lzma := 2000, avail_in_lzma := 3, avail_out_lzma := 50\<rparr>"
    using c by (simp add: xz_deflate_offer_def Let_def demo_lzma_def LZMA_STREAM_INIT_def xz_pull_def)
  have f: "(0 :: int) = (if (0 :: int) = 4 then LZMA_FINISH demo_lzma else LZMA_RUN demo_lzma)"
    by (simp add: demo_lzma_def)
  have k: "\<exists>st m. lzma_code demo_lzma (xz_deflate_offer demo_lzma 0 (xz_pull ?s c)) 0 (bytes w) (lib w) =
      Inr (0, st, m, [1]) \<and> avail_in_lzma st = 0 \<and> total_in_lzma st = 3"
    unfolding o c(3) by (simp add: demo_lzma_def demo_use_def LZMA_STREAM_INIT_def)
  then obtain st m where st: "lzma_code demo_lzma (xz_deflate_offer demo_lzma 0 (xz_pull ?s c)) 0
      (bytes w) (lib w) = Inr (0, st, m, [1])" "avail_in_lzma st = 0" "total_in_lzma st = 3" by blast
  let ?c = "xz_account ((xz_pull ?s c)\<lparr>xzstr := st\<rparr>)"
  have "deflateCB_xz demo_lzma 0 ?s w =
      Inr (0, xz_push ?c ?s, store (ud s) (Xz_obj ?c) (w\<lparr>bytes := m, lib := [1]\<rparr>))"
    unfolding xz_deflate_eq [OF c0 f] st(1) by (simp add: Let_def map_error_xz_def demo_lzma_def)
  then obtain s1 w1 c1 where "deflateCB_xz demo_lzma 0 ?s w = Inr (0, s1, w1)"
    "load as_xz (ud s1) w1 = Inr c1" "avail_in_lzma (xzstr c1) = 0" "total_in s1 = 3"
    using c(4) st(2,3) by (simp add: xz_push_def)
  with i c(5) that show ?thesis by blast
qed

theorem xz_avail_unchanged_witness:
  "\<exists>s w s1 w1. deflateCB_xz demo_lzma 0 (s\<lparr>next_in := 1000, avail_in := 3, next_out := 2000, avail_out := 50\<rparr>)
     (w :: ptr list world) = Inr (0, s1, w1) \<and> total_in s1 = 3 \<and> avail_in s1 = 3 \<and> avail_out s1 = 50"
proof -
  obtain s w s1 w1 c1 where "deflateInitCB_xz demo_lzma 6 demo_stream demo_world = Inr (0, s, w)"
    and d: "deflateCB_xz demo_lzma 0 (s\<lparr>next_in := 1000, avail_in := 3, next_out := 2000, avail_out := 50\<rparr>) w =
      Inr (0, s1, w1)" and t: "total_in s1 = 3"
    by (rule demo_lzma_first_call)
  with xz_avail_unchanged [OF d] show ?thesis by auto
qed

text \<open>
  Once XZ has consumed all the input a call offered, the next \<open>deflate\<close> call hands the
  library as many bytes again, from behind the input: the pointer has moved by \<open>avail_in\<close>
  and \<open>avail_in\<close> is still the old amount, so a client that calls again without setting
  \<open>avail_in\<close> to 0 has bytes compressed that lie behind its buffer.
\<close>

theorem xz_offers_past_input:
  assumes "deflateCB_xz L f s w = Inr (r, s1, w1)" and "load as_xz (ud s1) w1 = Inr c1"
    and "avail_in_lzma (xzstr c1) = 0" and "total_in s1 = total_in s + ucast (avail_in s)"
    and "LZMA_RUN L \<noteq> LZMA_FINISH L"
  shows "let offer = xz_deflate_offer L (LZMA_RUN L) (xz_pull s1 c1)
    in next_in_lzma offer = next_in s + ucast (avail_in s) \<and> avail_in_lzma offer = ucast (avail_in s)"
proof -
  from assms(1) obtain c where c: "load as_xz (ud s) w = Inr c" by (auto simp: deflateCB_xz_def andthen_eq_Inr)
  from assms(1) have "next_in s1 = next_in s + (total_in s1 - total_in s)" "avail_in s1 = avail_in s"
    unfolding xz_deflate_eq [OF c refl] by (auto simp: andthen_eq_Inr Let_def xz_push_def xz_pull_def)
  with assms(3-5) show ?thesis by (simp add: xz_deflate_offer_def xz_pull_def Let_def)
qed

theorem xz_offers_past_input_witness:
  "\<exists>s1 w1 c1. load as_xz (ud s1) (w1 :: ptr list world) = Inr c1 \<and> total_in s1 = 3 \<and>
     (let offer = xz_deflate_offer demo_lzma (LZMA_RUN demo_lzma) (xz_pull s1 c1)
      in next_in_lzma offer = 1003 \<and> avail_in_lzma offer = 3)"
proof -
  obtain s w s1 w1 c1 where
    d: "deflateCB_xz demo_lzma 0 (s\<lparr>next_in := 1000, avail_in := 3, next_out := 2000, avail_out := 50\<rparr>) w =
      Inr (0, s1, w1)" "load as_xz (ud s1) w1 = Inr c1" "avail_in_lzma (xzstr c1) = 0"
      and t: "total_in s1 = 3" "total_in s = 0"
    by (rule demo_lzma_first_call)
  have "let offer = xz_deflate_offer demo_lzma (LZMA_RUN demo_lzma) (xz_pull s1 c1)
      in next_in_lzma offer = 1003 \<and> avail_in_lzma offer = 3"
    using xz_offers_past_input [OF d] t by (simp add: demo_lzma_def)
  with d t show ?thesis by blast
qed

text \<open>
  C32: every call of the one-shot \<open>compress\<close> that gets its encoder leaks it: whatever the
  outcome, also for the \<open>NULL\<close> arguments it rejects, one more coder is live afterwards,
  because \<open>xz_compress\<close> never calls \<open>lzma_end\<close>.
\<close>

theorem xz_compress_leaks:
  assumes "lzma_coders L live" and "lzma_lzma_preset L (LZMA_PRESET_DEFAULT L) = (False, opts)"
    and "lzma_stream_encoder L LZMA_STREAM_INIT (xz_filters L opts) (LZMA_CHECK_CRC64 L) (lib w) = (LZMA_OK L, st, l)"
    and "compressCB_xz L dest destLen source n w = Inr (r, len, w')"
  shows "\<exists>h. h \<notin> live (lib w) \<and> live (lib w') = insert h (live (lib w))"
proof -
  from lzma_codersD(1) [OF assms(1) _ assms(3)] have
    h: "internal_lzma st \<notin> live (lib w)" "live l = insert (internal_lzma st) (live (lib w))" by simp_all
  then have "internal_lzma st \<in> live l" by simp
  from this have code: "live l2 = live l"
    if "lzma_code L (st\<lparr>next_in_lzma := ni, next_out_lzma := no, avail_in_lzma := ai, avail_out_lzma := ao\<rparr>)
      a m l = Inr (r2, st2, m2, l2)" for ni no ai ao a m r2 st2 m2 l2
    using that lzma_codersD(3) [OF assms(1), of "st\<lparr>next_in_lzma := ni, next_out_lzma := no,
      avail_in_lzma := ai, avail_out_lzma := ao\<rparr>" l a m] by simp
  have "live (lib w') = live l"
    using assms(4) unfolding compressCB_xz_def xz_compress_def assms(2,3) Let_def prod.case
    by (auto simp: andthen_eq_Inr dest: code split: option.splits if_splits)
  with h show ?thesis by auto
qed

theorem xz_compress_leaks_witness:
  "\<exists>w' h. compressCB_xz demo_lzma 0 None 0 0 demo_world = Inr (- 3, None, w') \<and>
     h \<notin> demo_live (lib demo_world) \<and> demo_live (lib w') = insert h (demo_live (lib demo_world))"
proof -
  obtain st l where e: "lzma_stream_encoder demo_lzma LZMA_STREAM_INIT (xz_filters demo_lzma [])
      (LZMA_CHECK_CRC64 demo_lzma) (lib demo_world) = (LZMA_OK demo_lzma, st, l)"
    by (simp add: demo_lzma_def demo_create_def)
  have p: "lzma_lzma_preset demo_lzma (LZMA_PRESET_DEFAULT demo_lzma) = (False, [])"
    by (simp add: demo_lzma_def)
  obtain w' where c: "compressCB_xz demo_lzma 0 None 0 0 demo_world = Inr (- 3, None, w')"
    using e p by (simp add: compressCB_xz_def xz_compress_def Let_def)
  from xz_compress_leaks [OF demo_lzma_coders p e c] c show ?thesis by blast
qed

text \<open>
  The factor 1.001 and the product with it, up to the rounding errors: the units of the
  factor are within one part in \<open>2 ^ 53\<close> of \<open>1001 / 1000\<close>, and those of the product within
  another part of the factor's multiple.
\<close>

definition xz_factor :: double where
  "xz_factor = nearest 1001 1000"

lemma xz_factor_near:
  "2 ^ 53 * (xz_factor * 1000) \<le> (2 ^ 53 + 1) * (1001 * 2 ^ 200)"
  "(2 ^ 53 - 1) * (1001 * 2 ^ 200) \<le> 2 ^ 53 * (xz_factor * 1000)"
  unfolding xz_factor_def by (rule nearest_near; simp)+

lemma xz_product_near:
  fixes n :: nat
  assumes "1 \<le> n"
  defines "P \<equiv> d_mult (n * 2 ^ 200) xz_factor"
  shows "2 ^ 53 * P \<le> (2 ^ 53 + 1) * (n * xz_factor)"
    and "(2 ^ 53 - 1) * (n * xz_factor) \<le> 2 ^ 53 * P"
proof -
  have f: "2 ^ 199 \<le> xz_factor" using xz_factor_near(2) by simp
  then have "1 * 2 ^ 199 \<le> n * xz_factor" using assms(1) by (intro mult_le_mono)
  then have "2 ^ 52 \<le> n * xz_factor" by (rule order_trans [rotated]) simp
  then have "2 ^ 400 * 2 ^ 52 \<le> n * 2 ^ 200 * xz_factor * 2 ^ 200" by (simp add: mult.commute)
  from nearest_near [OF _ this] show "2 ^ 53 * P \<le> (2 ^ 53 + 1) * (n * xz_factor)"
    "(2 ^ 53 - 1) * (n * xz_factor) \<le> 2 ^ 53 * P"
    by (simp_all add: P_def d_mult_def mult.commute [of _ xz_factor])
qed

lemma xz_scaled_bounds:
  fixes n :: nat
  assumes "1 \<le> n" and "n < 2 ^ 50"
  defines "v \<equiv> d_mult (n * 2 ^ 200) xz_factor div 2 ^ 200"
  shows "n + n div 1000 \<le> v + 1" and "v \<le> n + n div 1000 + 1"
proof -
  define P where "P = d_mult (n * 2 ^ 200) xz_factor"
  note pr = xz_product_near [OF assms(1), folded P_def]
  have up: "2 ^ 53 * (n * xz_factor * 1000) \<le> (2 ^ 53 + 1) * (n * 1001 * 2 ^ 200)"
    using mult_le_mono2 [OF xz_factor_near(1), of n] by (simp add: algebra_simps)
  have lo: "(2 ^ 53 - 1) * (n * 1001 * 2 ^ 200) \<le> 2 ^ 53 * (n * xz_factor * 1000)"
    using mult_le_mono2 [OF xz_factor_near(2), of n] by (simp add: algebra_simps)
  define F where "F = n * xz_factor"
  define k where "k = n div 1000"
  have k: "n \<le> 1000 * k + 999" "1000 * k \<le> n" unfolding k_def by linarith+
  have "P < (n + k + 2) * 2 ^ 200"
    using pr(1) up assms(2) k unfolding F_def [symmetric] by simp
  then have "v < n + k + 2" unfolding v_def P_def [symmetric] by (simp add: div_less_iff_less_mult)
  then show "v \<le> n + n div 1000 + 1" by (simp add: k_def)
  have "(n + k - 1) * 2 ^ 200 \<le> P"
    using pr(2) lo assms(2) k unfolding F_def [symmetric] by simp
  then have "n + k - 1 \<le> v" unfolding v_def P_def [symmetric] by (simp add: less_eq_div_iff_mult_less_eq)
  then show "n + n div 1000 \<le> v + 1" by (simp add: k_def)
qed

text \<open>
  C33: \<open>compressBound\<close> for XZ, computed in floating point, is within one byte of the integer
  formula \<open>n + n / 1000 + 1037\<close> for every size below \<open>2 ^ 50\<close>, with no undefined conversion.
\<close>

theorem xz_compressBound_close:
  assumes "uint n < 2 ^ 50"
  shows "\<exists>r. compressBoundCB_xz n = Inr r \<and>
    uint n + uint n div 1000 + 1036 \<le> uint r \<and> uint r \<le> uint n + uint n div 1000 + 1038"
proof -
  define k where "k = unat n"
  have "nat (uint n) < nat (2 ^ 50)" unfolding zless_nat_conj using assms by simp
  then have k: "k < 2 ^ 50" unfolding k_def unat_eq_nat_uint by simp
  define v where "v = d_mult (k * 2 ^ 200) xz_factor div 2 ^ 200"
  have v: "k + k div 1000 \<le> v + 1 \<and> v \<le> k + k div 1000 + 1"
  proof (cases "k = 0")
    case True
    then show ?thesis by (simp add: v_def d_mult_def nearest_def round_even_def Let_def)
  next
    case False
    with xz_scaled_bounds [of k] k show ?thesis by (simp add: v_def)
  qed
  have "k div 1000 \<le> k" by simp
  then have "v \<le> 2 * k + 1" using v by linarith
  then have small: "v < 2 ^ 51" using k by simp
  have un: "uint n = int k" by (simp add: k_def)
  have "uint (of_nat v + 1024 + 13 :: uLong) = int v + 1037"
  proof -
    have "uint (of_nat v :: uLong) = int v"
      using small by (simp add: unsigned_of_nat take_bit_nat_eq_self)
    then show ?thesis using small by (simp add: uint_word_ariths)
  qed
  moreover have "ulong_of_d (d_mult (d_of_ulong n) (nearest 1001 1000)) = Inr (of_nat v)"
    using k small by (simp add: d_of_ulong_exact ulong_of_d_def v_def k_def xz_factor_def)
  moreover have "int k + int k div 1000 \<le> int v + 1 \<and> int v \<le> int k + int k div 1000 + 1"
    using v by linarith
  moreover have "\<not> int v + 1037 < int k" using v by linarith
  ultimately show ?thesis
    using un by (simp add: compressBoundCB_xz_def xz_compressBound_def Let_def word_less_def zdiv_int)
qed

theorem xz_compressBound_close_witness:
  "\<exists>r. compressBoundCB_xz 5000 = Inr r \<and> 6041 \<le> uint r \<and> uint r \<le> 6043"
  using xz_compressBound_close [of 5000] by simp


section \<open>One-shot calls\<close>

text \<open>
  What \<open>lzma_code\<close> with \<open>LZMA_FINISH\<close> does on a stream just initialised, as a codec: \<open>LZMA_STREAM_END\<close>
  means that all the input was encoded.  For the decoder the contract supposes that memory
  suffices.
\<close>

definition lzma_one_shot :: "'l lzma_lib \<Rightarrow> codec \<Rightarrow> codec \<Rightarrow> bool" where
  "lzma_one_shot L enc dec \<longleftrightarrow> LZMA_OK L \<noteq> LZMA_STREAM_END L \<and>
     (\<forall>l r st l1 dst cap src n m st' m' l2.
        lzma_stream_encoder L LZMA_STREAM_INIT (xz_filters L (snd (lzma_lzma_preset L (LZMA_PRESET_DEFAULT L))))
          (LZMA_CHECK_CRC64 L) l = (r, st, l1) \<longrightarrow>
        lzma_code L (st\<lparr>next_in_lzma := src, next_out_lzma := dst, avail_in_lzma := n, avail_out_lzma := cap\<rparr>)
          (LZMA_FINISH L) m l1 = Inr (LZMA_STREAM_END L, st', m', l2) \<longrightarrow>
        enc dst cap src n m = Some (cap - avail_out_lzma st', m')) \<and>
     (\<forall>l r st l1 dst cap src k m n m'.
        lzma_stream_decoder L LZMA_STREAM_INIT ULONG_MAX (LZMA_CONCATENATED L) l = (r, st, l1) \<longrightarrow>
        dec dst cap src k m = Some (n, m') \<longrightarrow>
        ensures (lzma_code L (st\<lparr>next_in_lzma := src, next_out_lzma := dst, avail_in_lzma := k, avail_out_lzma := cap\<rparr>)
          (LZMA_FINISH L) m l1) (\<lambda>(r', st', m1, l2). r' = LZMA_STREAM_END L \<and> cap - avail_out_lzma st' = n \<and> m1 = m'))"

lemma lzma_encodes:
  assumes "lzma_one_shot L enc dec"
    and "lzma_lzma_preset L (LZMA_PRESET_DEFAULT L) = (b, opt)"
    and "lzma_stream_encoder L LZMA_STREAM_INIT (xz_filters L opt) (LZMA_CHECK_CRC64 L) l = (r, st, l1)"
    and "lzma_code L (st\<lparr>next_in_lzma := src, next_out_lzma := dst, avail_in_lzma := n, avail_out_lzma := cap\<rparr>)
          (LZMA_FINISH L) m l1 = Inr (LZMA_STREAM_END L, st', m', l2)"
  shows "enc dst cap src n m = Some (cap - avail_out_lzma st', m')"
proof -
  have "opt = snd (lzma_lzma_preset L (LZMA_PRESET_DEFAULT L))" using assms(2) by simp
  with assms(1,3,4) show ?thesis unfolding lzma_one_shot_def by blast
qed

text \<open>
  A success of \<open>compress\<close> is one only if the reported length is not the capacity: see
  \<open>xz_compress_truncates\<close>.
\<close>

interpretation xz_shots: one_shot "lzma_one_shot L enc dec" 0 "\<lambda>cap len. len \<noteq> cap" enc dec
  "compressCB_xz L" "uncompressCB_xz L" for L enc dec
proof unfold_locales
  fix dest source n cap len :: uLong and w w' :: "'a world"
  assume ok: "lzma_one_shot L enc dec" and p: "dest \<noteq> 0" "source \<noteq> 0"
    and c: "compressCB_xz L dest (Some cap) source n w = Inr (UNIZIP_OK, Some len, w')" and "len \<noteq> cap"
  obtain b opt where pre: "lzma_lzma_preset L (LZMA_PRESET_DEFAULT L) = (b, opt)" by fastforce
  obtain r st l1 where ini: "lzma_stream_encoder L LZMA_STREAM_INIT (xz_filters L opt) (LZMA_CHECK_CRC64 L) (lib w) = (r, st, l1)"
    by (metis prod_cases3)
  from c p pre ini \<open>len \<noteq> cap\<close> obtain st' l2 where
    "lzma_code L (st\<lparr>next_in_lzma := source, next_out_lzma := dest, avail_in_lzma := n, avail_out_lzma := cap\<rparr>)
       (LZMA_FINISH L) (bytes w) l1 = Inr (LZMA_STREAM_END L, st', bytes w', l2)" "len = cap - avail_out_lzma st'"
    by (auto simp: compressCB_xz_def xz_compress_def andthen_eq_Inr map_error_xz_ok Let_def split: if_splits)
  with lzma_encodes [OF ok pre ini] show "enc dest (cap + 0) source n (bytes w) = Some (len + 0, bytes w')" by simp
next
  fix dest source n cap len :: uLong and w :: "'a world" and m
  assume ok: "lzma_one_shot L enc dec" and p: "dest \<noteq> 0" "source \<noteq> 0" and d: "dec dest cap source (len + 0) (bytes w) = Some (n, m)"
  obtain r st l1 where ini: "lzma_stream_decoder L LZMA_STREAM_INIT ULONG_MAX (LZMA_CONCATENATED L) (lib w) = (r, st, l1)"
    by (metis prod_cases3)
  with ok d have "ensures (lzma_code L (st\<lparr>next_in_lzma := source, next_out_lzma := dest, avail_in_lzma := len, avail_out_lzma := cap\<rparr>)
      (LZMA_FINISH L) (bytes w) l1) (\<lambda>(r', st', m1, l2). r' = LZMA_STREAM_END L \<and> cap - avail_out_lzma st' = n \<and> m1 = m)"
    unfolding lzma_one_shot_def by simp
  with p ini show "\<exists>w'. uncompressCB_xz L dest (Some cap) source len w = Inr (UNIZIP_OK, Some n, w') \<and> bytes w' = m"
    by (auto simp: uncompressCB_xz_def xz_decompress_def Let_def ensures_def)
qed

text \<open>
  C40: XZ's \<open>compress\<close> takes a full output buffer for a success.  When the encoder fills the
  buffer before it is done, \<open>lzma_code\<close> returns \<open>LZMA_OK\<close>, and the call reports \<open>UNIZIP_OK\<close>
  with the capacity as length: the caller is left with a prefix of the compressed data.
\<close>

theorem xz_compress_truncates:
  assumes "lzma_lzma_preset L (LZMA_PRESET_DEFAULT L) = (False, opt)" and "LZMA_OK L \<noteq> LZMA_STREAM_END L"
    and "lzma_stream_encoder L LZMA_STREAM_INIT (xz_filters L opt) (LZMA_CHECK_CRC64 L) (lib w) = (LZMA_OK L, st, l1)"
    and "dest \<noteq> 0" and "source \<noteq> 0"
    and "lzma_code L (st\<lparr>next_in_lzma := source, next_out_lzma := dest, avail_in_lzma := n, avail_out_lzma := cap\<rparr>)
      (LZMA_FINISH L) (bytes w) l1 = Inr (LZMA_OK L, st', m, l2)"
  shows "compressCB_xz L dest (Some cap) source n w = Inr (UNIZIP_OK, Some cap, w\<lparr>bytes := m, lib := l2\<rparr>)"
  using assms by (simp add: compressCB_xz_def xz_compress_def Let_def map_error_xz_ok)

theorem xz_compress_truncates_witness:
  "\<exists>w1 w2. compressCB_xz demo_lzma 2000 (Some 2) 1000 3 demo_world = Inr (0, Some 2, w1) \<and>
     uncompressCB_xz demo_lzma 3000 (Some 50) 2000 2 w1 = Inr (0, Some 2, w2)"
proof -
  let ?st = "LZMA_STREAM_INIT\<lparr>internal_lzma := 1\<rparr>"
  let ?w = "demo_world\<lparr>bytes := write_mem (bytes demo_world) 2000 (read_mem (bytes demo_world) 1000 2), lib := [1]\<rparr>"
  have "compressCB_xz demo_lzma 2000 (Some 2) 1000 3 demo_world = Inr (0, Some 2, ?w)"
    by (rule xz_compress_truncates [where opt = "[]" and st = ?st and ?l1.0 = "[1]"])
      (simp_all add: demo_lzma_def demo_create_def demo_use_def LZMA_STREAM_INIT_def min_def del: write_mem.simps)
  moreover have "\<exists>w2. uncompressCB_xz demo_lzma 3000 (Some 50) 2000 2 ?w = Inr (0, Some 2, w2)"
    by (simp add: uncompressCB_xz_def xz_decompress_def demo_lzma_def demo_create_def demo_use_def LZMA_STREAM_INIT_def
        min_def Let_def del: write_mem.simps)
  ultimately show ?thesis by blast
qed


section \<open>Streams\<close>

text \<open>
  What \<open>lzma/base.h\<close> documents of the data.  \<open>codes h l xs ys\<close>: the coder \<open>h\<close> has consumed \<open>xs\<close> and
  produced \<open>ys\<close>.  A call consumes bytes from \<open>next_in\<close> on and writes bytes from \<open>next_out\<close> on,
  no more than offered, and counts both; a new coder has done nothing; the end of the stream
  means that the two are an input and its \<open>.xz\<close> file, \<open>unxz\<close> being the decoding of the format.
\<close>

definition lzma_streams ::
  "'l lzma_lib \<Rightarrow> (byte list \<Rightarrow> byte list \<Rightarrow> bool) \<Rightarrow> (ptr \<Rightarrow> 'l \<Rightarrow> byte list \<Rightarrow> byte list \<Rightarrow> bool) \<Rightarrow> bool" where
  "lzma_streams L complete codes \<longleftrightarrow> (\<forall>st a m l r st' m' l' xs ys. codes (internal_lzma st) l xs ys \<longrightarrow>
     lzma_code L st a m l = Inr (r, st', m', l') \<longrightarrow>
     (\<exists>k vs. k \<le> unat (avail_in_lzma st) \<and> length vs \<le> unat (avail_out_lzma st) \<and>
        internal_lzma st' = internal_lzma st \<and> total_in_lzma st' = total_in_lzma st + of_nat k \<and>
        total_out_lzma st' = total_out_lzma st + of_nat (length vs) \<and> m' = write_mem m (next_out_lzma st) vs \<and>
        codes (internal_lzma st) l' (xs @ read_mem m (next_in_lzma st) k) (ys @ vs) \<and>
        (r = LZMA_STREAM_END L \<longrightarrow> complete (xs @ read_mem m (next_in_lzma st) k) (ys @ vs))))"

definition lzma_starts ::
  "'l lzma_lib \<Rightarrow> (ptr \<Rightarrow> 'l \<Rightarrow> byte list \<Rightarrow> byte list \<Rightarrow> bool) \<Rightarrow> lzma_stream \<Rightarrow> int \<times> lzma_stream \<times> 'l \<Rightarrow> bool" where
  "lzma_starts L codes st = (\<lambda>(r, st', l'). internal_lzma st = 0 \<longrightarrow> r = LZMA_OK L \<longrightarrow>
     codes (internal_lzma st') l' [] [] \<and> total_in_lzma st' = 0 \<and> total_out_lzma st' = 0)"

definition lzma_encodes ::
  "'l lzma_lib \<Rightarrow> (byte list \<Rightarrow> byte list option) \<Rightarrow> (ptr \<Rightarrow> 'l \<Rightarrow> byte list \<Rightarrow> byte list \<Rightarrow> bool) \<Rightarrow> bool" where
  "lzma_encodes L unxz codes \<longleftrightarrow> lzma_streams L (\<lambda>xs ys. unxz ys = Some xs) codes \<and>
     (\<forall>st fs chk l. lzma_starts L codes st (lzma_stream_encoder L st fs chk l))"

definition lzma_decodes ::
  "'l lzma_lib \<Rightarrow> (byte list \<Rightarrow> byte list option) \<Rightarrow> (ptr \<Rightarrow> 'l \<Rightarrow> byte list \<Rightarrow> byte list \<Rightarrow> bool) \<Rightarrow> bool" where
  "lzma_decodes L unxz codes \<longleftrightarrow> lzma_streams L (\<lambda>xs ys. unxz xs = Some ys) codes \<and>
     (\<forall>st lim fl l. lzma_starts L codes st (lzma_stream_decoder L st lim fl l))"

definition xz_coding :: "(ptr \<Rightarrow> 'l \<Rightarrow> byte list \<Rightarrow> byte list \<Rightarrow> bool) \<Rightarrow> unizip_stream \<Rightarrow> 'l world \<Rightarrow> byte list \<Rightarrow> byte list \<Rightarrow> bool" where
  "xz_coding codes s w xs ys \<longleftrightarrow> (\<exists>c. load as_xz (ud s) w = Inr c \<and> codes (coder c) (lib w) xs ys \<and>
     total_in_lzma (xzstr c) = total_in s \<and> total_out_lzma (xzstr c) = total_out s)"

lemma xz_coding_refill: "xz_coding codes s w xs ys \<Longrightarrow> xz_coding codes (apply_refill rf s) (refill_world rf w) xs ys"
  by (cases rf) (simp_all add: xz_coding_def)

lemma map_error_xz_end: "map_error_xz L r = UNIZIP_STREAM_END \<Longrightarrow> r = LZMA_STREAM_END L"
  by (auto simp: map_error_xz_def split: if_splits)

lemma xz_offer_fields [simp]:
  "next_in_lzma (xz_deflate_offer L a c) = next_in_xz c" "next_out_lzma (xz_deflate_offer L a c) = next_out_xz c"
  "total_in_lzma (xz_deflate_offer L a c) = total_in_lzma (xzstr c)"
  "total_out_lzma (xz_deflate_offer L a c) = total_out_lzma (xzstr c)"
  "next_in_lzma (xz_inflate_offer c) = next_in_xz c" "next_out_lzma (xz_inflate_offer c) = next_out_xz c"
  "total_in_lzma (xz_inflate_offer c) = total_in_lzma (xzstr c)"
  "total_out_lzma (xz_inflate_offer c) = total_out_lzma (xzstr c)"
  by (simp_all add: xz_deflate_offer_def xz_inflate_offer_def Let_def)

text \<open>The common part of \<open>xz_deflate_eq\<close> and \<open>xz_inflate_eq\<close>: a call of \<open>lzma_code\<close> and its accounting.\<close>

definition xz_use :: "'l lzma_lib \<Rightarrow> lzma_stream \<Rightarrow> int \<Rightarrow> xz_ctx \<Rightarrow> 'l stream_op" where
  "xz_use L st a c s w = andthen (lzma_code L st a (bytes w) (lib w)) (\<lambda>(r, st, m, l).
     let c' = xz_account ((xz_pull s c)\<lparr>xzstr := st\<rparr>)
     in Inr (map_error_xz L r, xz_push c' s, store (ud s) (Xz_obj c') (w\<lparr>bytes := m, lib := l\<rparr>)))"

lemma xz_use_streams:
  assumes lib: "lzma_streams L complete codes" and c: "load as_xz (ud s) w = Inr c"
    and inv: "codes (coder c) (lib w) xs ys" "total_in_lzma (xzstr c) = total_in s" "total_out_lzma (xzstr c) = total_out s"
    and st: "internal_lzma st = coder c" "next_in_lzma st = next_in s" "next_out_lzma st = next_out s"
      "total_in_lzma st = total_in s" "total_out_lzma st = total_out s"
    and use: "xz_use L st a c s w = Inr (r, s', w')"
  shows "xz_coding codes s' w' (xs @ consumed s w s') (ys @ produced s s' w') \<and>
    (r = UNIZIP_STREAM_END \<longrightarrow> complete (xs @ consumed s w s') (ys @ produced s s' w'))"
proof -
  from use obtain r0 st' m l where code: "lzma_code L st a (bytes w) (lib w) = Inr (r0, st', m, l)"
    and r: "r = map_error_xz L r0"
    and s': "s' = xz_push (xz_account ((xz_pull s c)\<lparr>xzstr := st'\<rparr>)) s"
    and w': "w' = store (ud s) (Xz_obj (xz_account ((xz_pull s c)\<lparr>xzstr := st'\<rparr>))) (w\<lparr>bytes := m, lib := l\<rparr>)"
    by (auto simp: xz_use_def andthen_eq_Inr Let_def)
  from lib code inv(1) obtain k vs where k: "k \<le> unat (avail_in_lzma st)" "length vs \<le> unat (avail_out_lzma st)"
    and st': "internal_lzma st' = coder c" "total_in_lzma st' = total_in s + of_nat k"
      "total_out_lzma st' = total_out s + of_nat (length vs)"
    and m: "m = write_mem (bytes w) (next_out s) vs"
    and new: "codes (coder c) l (xs @ read_mem (bytes w) (next_in s) k) (ys @ vs)"
      "r0 = LZMA_STREAM_END L \<longrightarrow> complete (xs @ read_mem (bytes w) (next_in s) k) (ys @ vs)"
    unfolding lzma_streams_def st [symmetric] by (metis (no_types, lifting) st(1))
  have small: "k < 2 ^ 64" "length vs < 2 ^ 64"
    using k unat_uLong [of "avail_in_lzma st"] unat_uLong [of "avail_out_lzma st"] by linarith+
  have "next_in s' = next_in s + of_nat k" "next_out s' = next_out s + of_nat (length vs)" "bytes w' = write_mem (bytes w) (next_out s) vs"
    by (simp_all add: s' w' xz_push_def xz_pull_def st' m)
  with small have io: "consumed s w s' = read_mem (bytes w) (next_in s) k" "produced s s' w' = vs"
    by (simp_all add: consumed_moved produced_moved)
  have "xz_coding codes s' w' (xs @ read_mem (bytes w) (next_in s) k) (ys @ vs)"
    using new(1) load_nonnull [OF c] by (simp add: xz_coding_def s' w' st' xz_push_def)
  with new(2) map_error_xz_end [of L r0] show ?thesis by (simp add: io r)
qed

lemma xz_deflate_streams:
  assumes "lzma_streams L complete codes" and inv: "xz_coding codes s w xs ys" and "deflateCB_xz L f s w = Inr (r, s', w')"
  shows "xz_coding codes s' w' (xs @ consumed s w s') (ys @ produced s s' w') \<and>
    (r = UNIZIP_STREAM_END \<longrightarrow> complete (xs @ consumed s w s') (ys @ produced s s' w'))"
proof -
  from inv obtain c where c: "load as_xz (ud s) w = Inr c" "codes (coder c) (lib w) xs ys"
    "total_in_lzma (xzstr c) = total_in s" "total_out_lzma (xzstr c) = total_out s" by (auto simp: xz_coding_def)
  let ?a = "if f = 4 then LZMA_FINISH L else LZMA_RUN L"
  show ?thesis
    by (rule xz_use_streams [OF assms(1) c, where st = "xz_deflate_offer L ?a (xz_pull s c)"])
      (use assms(3) in \<open>simp_all add: xz_deflate_eq [OF c(1) refl] xz_use_def c xz_pull_def\<close>)
qed

lemma xz_inflate_streams:
  assumes "lzma_streams L complete codes" and inv: "xz_coding codes s w xs ys" and "inflateCB_xz L f s w = Inr (r, s', w')"
  shows "xz_coding codes s' w' (xs @ consumed s w s') (ys @ produced s s' w') \<and>
    (r = UNIZIP_STREAM_END \<longrightarrow> complete (xs @ consumed s w s') (ys @ produced s s' w'))"
proof -
  from inv obtain c where c: "load as_xz (ud s) w = Inr c" "codes (coder c) (lib w) xs ys"
    "total_in_lzma (xzstr c) = total_in s" "total_out_lzma (xzstr c) = total_out s" by (auto simp: xz_coding_def)
  let ?a = "if f = 4 then LZMA_FINISH L else LZMA_RUN L"
  show ?thesis
    by (rule xz_use_streams [OF assms(1) c, where st = "xz_inflate_offer (xz_pull s c)"])
      (use assms(3) in \<open>simp_all add: xz_inflate_eq [OF c(1) refl] xz_use_def c xz_pull_def\<close>)
qed

lemma xz_allocate_load:
  assumes "xz_allocate L w = (p, w1)" and "p \<noteq> 0"
  shows "load as_xz p w1 = Inr ((xz_indet L)\<lparr>xzstr := LZMA_STREAM_INIT\<rparr>)"
  using assms by (auto simp: xz_allocate_def Let_def split: prod.splits if_splits)

lemma xz_init_streams:
  shows "\<forall>st fs chk l. lzma_starts L codes st (lzma_stream_encoder L st fs chk l) \<Longrightarrow>
      deflateInitCB_xz L level s w = Inr (UNIZIP_OK, s', w') \<Longrightarrow> xz_coding codes s' w' [] []"
    and "\<forall>st lim fl l. lzma_starts L codes st (lzma_stream_decoder L st lim fl l) \<Longrightarrow>
      inflateInitCB_xz L s w = Inr (UNIZIP_OK, s', w') \<Longrightarrow> xz_coding codes s' w' [] []"
proof -
  obtain p w1 where m: "xz_allocate L w = (p, w1)" by fastforce
  { assume st: "\<forall>st fs chk l. lzma_starts L codes st (lzma_stream_encoder L st fs chk l)"
      and i: "deflateInitCB_xz L level s w = Inr (UNIZIP_OK, s', w')"
    from i m have p: "p \<noteq> 0" "ud s' = p" "total_in s' = 0" "total_out s' = 0" and d: "xz_deflateInit L p level w1 = Inr (0, w')"
      by (auto simp: deflateInitCB_xz_def resetXz_def Let_def andthen_eq_Inr split: if_splits)
    let ?st = "LZMA_STREAM_INIT\<lparr>avail_in_lzma := 0, next_in_lzma := 0, avail_out_lzma := 0, next_out_lzma := 0\<rparr>"
    from d xz_allocate_load [OF m p(1)] obtain fs st l where
      e: "lzma_stream_encoder L ?st fs (LZMA_CHECK_CRC64 L) (lib w1) = (LZMA_OK L, st, l)"
      and w': "w' = (store p (Xz_obj ((xz_indet L)\<lparr>xzstr := st\<rparr>)) w1)\<lparr>lib := l\<rparr>"
      by (auto simp: xz_deflateInit_def Let_def map_error_xz_ok split: prod.splits if_splits)
    with st [rule_format, of ?st fs "LZMA_CHECK_CRC64 L" "lib w1"] p show "xz_coding codes s' w' [] []"
      by (simp add: xz_coding_def lzma_starts_def w') }
  assume st: "\<forall>st lim fl l. lzma_starts L codes st (lzma_stream_decoder L st lim fl l)"
    and i: "inflateInitCB_xz L s w = Inr (UNIZIP_OK, s', w')"
  from i m have p: "p \<noteq> 0" "ud s' = p" "total_in s' = 0" "total_out s' = 0" and d: "xz_inflateInit L p w1 = Inr (0, w')"
    by (auto simp: inflateInitCB_xz_def resetXz_def Let_def andthen_eq_Inr split: if_splits)
  let ?st = "LZMA_STREAM_INIT\<lparr>next_in_lzma := 0, avail_out_lzma := 0, next_out_lzma := 0\<rparr>"
  from d xz_allocate_load [OF m p(1)] obtain st l where
    e: "lzma_stream_decoder L ?st ULONG_MAX (LZMA_CONCATENATED L) (lib w1) = (LZMA_OK L, st, l)"
    and w': "w' = (store p (Xz_obj ((xz_indet L)\<lparr>xzstr := st\<rparr>)) w1)\<lparr>lib := l\<rparr>"
    by (auto simp: xz_inflateInit_def Let_def map_error_xz_ok split: prod.splits)
  with st [rule_format, of ?st ULONG_MAX "LZMA_CONCATENATED L" "lib w1"] p show "xz_coding codes s' w' [] []"
    by (simp add: xz_coding_def lzma_starts_def w')
qed

interpretation xz_encoding: streaming "lzma_encodes L unxz codes" "\<lambda>xs ys. unxz ys = Some xs"
  "deflateInitCB_xz L" "deflateCB_xz L" "xz_coding codes" for L unxz codes
  by unfold_locales (auto simp: lzma_encodes_def intro: xz_init_streams xz_coding_refill dest: xz_deflate_streams)

interpretation xz_decoding: streaming "lzma_decodes L unxz codes" "\<lambda>xs ys. unxz xs = Some ys"
  "\<lambda>level. inflateInitCB_xz L" "inflateCB_xz L" "xz_coding codes" for L unxz codes
  by unfold_locales (auto simp: lzma_decodes_def intro: xz_init_streams xz_coding_refill dest: xz_inflate_streams)

end
