(* ===== verification/Bzip2.thy ===== *)
theory Bzip2
  imports Instances Doubles
begin

text \<open>
  The bzip2 back end: \<open>bzip2/unizip_algorithm_bzip2.c\<close> and
  \<open>bzip2/unizip_callback_bzip2.c\<close>.  libbz2 is the parameter \<open>bz_lib\<close>.  Its stream functions
  get the address of the \<open>bz_stream\<close> (which is the address of the context, whose first member
  it is) beside its contents, because libbz2 remembers that address and rejects a stream at
  another one.
\<close>

record 'l bz_lib =
  BZ2_bzlibVersion :: string
  BZ_RUN :: int
  BZ_FINISH :: int
  BZ_OK :: int
  BZ_RUN_OK :: int
  BZ_FLUSH_OK :: int
  BZ_FINISH_OK :: int
  BZ_STREAM_END :: int
  BZ_SEQUENCE_ERROR :: int
  BZ_PARAM_ERROR :: int
  BZ_MEM_ERROR :: int
  BZ_DATA_ERROR :: int
  BZ_DATA_ERROR_MAGIC :: int
  BZ_IO_ERROR :: int
  BZ_UNEXPECTED_EOF :: int
  BZ_OUTBUFF_FULL :: int
  BZ_CONFIG_ERROR :: int
  BZ2_bzCompressInit :: "ptr \<Rightarrow> bz_stream \<Rightarrow> int \<Rightarrow> int \<Rightarrow> int \<Rightarrow> 'l \<Rightarrow> int \<times> bz_stream \<times> 'l"
  BZ2_bzCompress :: "ptr \<Rightarrow> bz_stream \<Rightarrow> int \<Rightarrow> mem \<Rightarrow> 'l \<Rightarrow> (int \<times> bz_stream \<times> mem \<times> 'l) res"
  BZ2_bzCompressEnd :: "ptr \<Rightarrow> bz_stream \<Rightarrow> 'l \<Rightarrow> (int \<times> bz_stream \<times> 'l) res"
  BZ2_bzDecompressInit :: "ptr \<Rightarrow> bz_stream \<Rightarrow> int \<Rightarrow> int \<Rightarrow> 'l \<Rightarrow> int \<times> bz_stream \<times> 'l"
  BZ2_bzDecompress :: "ptr \<Rightarrow> bz_stream \<Rightarrow> mem \<Rightarrow> 'l \<Rightarrow> (int \<times> bz_stream \<times> mem \<times> 'l) res"
  BZ2_bzDecompressEnd :: "ptr \<Rightarrow> bz_stream \<Rightarrow> 'l \<Rightarrow> (int \<times> bz_stream \<times> 'l) res"
  BZ2_bzBuffToBuffCompress :: "addr \<Rightarrow> uInt option \<Rightarrow> addr \<Rightarrow> uInt \<Rightarrow> int \<Rightarrow> int \<Rightarrow> int \<Rightarrow> mem \<Rightarrow>
    int \<times> uInt option \<times> mem"
  BZ2_bzBuffToBuffDecompress :: "addr \<Rightarrow> uInt option \<Rightarrow> addr \<Rightarrow> uInt \<Rightarrow> int \<Rightarrow> int \<Rightarrow> mem \<Rightarrow>
    int \<times> uInt option \<times> mem"
  bzip2_indet :: bzip2_ctx

abbreviation levelMin_bzip2 :: int where "levelMin_bzip2 \<equiv> 1"
abbreviation levelMax_bzip2 :: int where "levelMax_bzip2 \<equiv> 9"
abbreviation zlibAction_end_bzip2 :: int where "zlibAction_end_bzip2 \<equiv> 4"

section \<open>The algorithm layer\<close>

definition map_error_bzip2 :: "'l bz_lib \<Rightarrow> int \<Rightarrow> int" where
  "map_error_bzip2 L ret =
     (if ret = BZ_FINISH_OK L \<or> ret = BZ_FLUSH_OK L \<or> ret = BZ_OK L \<or> ret = BZ_RUN_OK L then UNIZIP_OK
      else if ret = BZ_STREAM_END L then UNIZIP_STREAM_END
      else if ret = BZ_PARAM_ERROR L \<or> ret = BZ_DATA_ERROR L \<or> ret = BZ_DATA_ERROR_MAGIC L \<or>
        ret = BZ_UNEXPECTED_EOF L then UNIZIP_DATA_ERROR
      else if ret = BZ_MEM_ERROR L then UNIZIP_MEM_ERROR
      else if ret = BZ_CONFIG_ERROR L \<or> ret = BZ_IO_ERROR L \<or> ret = BZ_OUTBUFF_FULL L \<or>
        ret = BZ_SEQUENCE_ERROR L then UNIZIP_STREAM_ERROR
      else UNIZIP_DATA_ERROR)"

definition bzip2_totalsize :: "uInt \<Rightarrow> uInt \<Rightarrow> uLong" where
  "bzip2_totalsize size_hi size_lo = push_bit 32 (ucast size_hi) + ucast size_lo"

definition bzip2_allocate :: "'l bz_lib \<Rightarrow> 'l world \<Rightarrow> ptr \<times> 'l world" where
  "bzip2_allocate L w =
     (let (p, w) = malloc (Bzip2_obj (bzip2_indet L)) w
      in if p = NULL_ptr then (NULL_ptr, w)
         else (p, store p (Bzip2_obj ((bzip2_indet L)\<lparr>bzstr := (bzstr (bzip2_indet L))
                \<lparr>bzalloc := NULL_ptr, bzfree := NULL_ptr, opaque_bz := NULL_ptr\<rparr>\<rparr>)) w))"

definition bzip2_copy :: "ptr \<Rightarrow> ptr \<Rightarrow> 'l world \<Rightarrow> (int \<times> 'l world) res" where
  "bzip2_copy dest source w =
     (if dest \<noteq> NULL_ptr \<and> source \<noteq> NULL_ptr then
        andthen (load as_bzip2 source w) (\<lambda>c.
        andthen (load as_bzip2 dest w) (\<lambda>_.
        Inr (UNIZIP_OK, store dest (Bzip2_obj c) w)))
      else Inr (UNIZIP_DATA_ERROR, w))"

definition bzip2_deflateInit :: "'l bz_lib \<Rightarrow> ptr \<Rightarrow> int \<Rightarrow> 'l world \<Rightarrow> (int \<times> 'l world) res" where
  "bzip2_deflateInit L p level w =
     andthen (load as_bzip2 p w) (\<lambda>ctx.
     let st = (bzstr ctx)\<lparr>avail_in_bz := 0, next_in_bz := NULL_addr, avail_out_bz := 0,
                          next_out_bz := NULL_addr\<rparr>;
         tempLevel = (if level < levelMin_bzip2 \<or> level > levelMax_bzip2 then levelMax_bzip2 else level);
         (ret, st, l) = BZ2_bzCompressInit L p st tempLevel 0 0 (lib w);
         w = w\<lparr>lib := l\<rparr>
     in Inr (map_error_bzip2 L ret, store p (Bzip2_obj (ctx\<lparr>bzstr := st\<rparr>)) w))"

definition bzip2_inflateInit :: "'l bz_lib \<Rightarrow> ptr \<Rightarrow> 'l world \<Rightarrow> (int \<times> 'l world) res" where
  "bzip2_inflateInit L p w =
     andthen (load as_bzip2 p w) (\<lambda>ctx.
     let st = (bzstr ctx)\<lparr>avail_in_bz := 0, next_in_bz := NULL_addr, avail_out_bz := 0,
                          next_out_bz := NULL_addr\<rparr>;
         (ret, st, l) = BZ2_bzDecompressInit L p st 0 0 (lib w);
         w = w\<lparr>lib := l\<rparr>
     in Inr (map_error_bzip2 L ret, store p (Bzip2_obj (ctx\<lparr>bzstr := st\<rparr>)) w))"

definition bzip2_deflateEnd :: "'l bz_lib \<Rightarrow> ptr \<Rightarrow> 'l world \<Rightarrow> (int \<times> 'l world) res" where
  "bzip2_deflateEnd L p w =
     (if p \<noteq> NULL_ptr then
        andthen (load as_bzip2 p w) (\<lambda>ctx.
        andthen (BZ2_bzCompressEnd L p (bzstr ctx) (lib w)) (\<lambda>(err, st, l).
        let w = w\<lparr>lib := l\<rparr>
        in andthen (free p (store p (Bzip2_obj (ctx\<lparr>bzstr := st\<rparr>)) w)) (\<lambda>w.
           Inr (map_error_bzip2 L err, w))))
      else Inr (map_error_bzip2 L 0, w))"

definition bzip2_inflateEnd :: "'l bz_lib \<Rightarrow> ptr \<Rightarrow> 'l world \<Rightarrow> (int \<times> 'l world) res" where
  "bzip2_inflateEnd L p w =
     (if p \<noteq> NULL_ptr then
        andthen (load as_bzip2 p w) (\<lambda>ctx.
        andthen (BZ2_bzDecompressEnd L p (bzstr ctx) (lib w)) (\<lambda>(err, st, l).
        let w = w\<lparr>lib := l\<rparr>
        in andthen (free p (store p (Bzip2_obj (ctx\<lparr>bzstr := st\<rparr>)) w)) (\<lambda>w.
           Inr (map_error_bzip2 L err, w))))
      else Inr (map_error_bzip2 L 0, w))"

text \<open>
  The common end of \<open>bzip2_deflate\<close> and \<open>bzip2_inflate\<close>: the pointers move by what the
  library's totals are ahead of the stream's, and the totals become the library's.
\<close>

definition bzip2_account :: "bzip2_ctx \<Rightarrow> bzip2_ctx" where
  "bzip2_account ctx =
     (let tin = bzip2_totalsize (total_in_hi32 (bzstr ctx)) (total_in_lo32 (bzstr ctx));
          tout = bzip2_totalsize (total_out_hi32 (bzstr ctx)) (total_out_lo32 (bzstr ctx));
          ctx = ctx\<lparr>next_in_bzip2 := next_in_bzip2 ctx + (tin - total_in_bzip2 ctx)\<rparr>;
          ctx = ctx\<lparr>next_out_bzip2 := next_out_bzip2 ctx + (tout - total_out_bzip2 ctx)\<rparr>
      in ctx\<lparr>total_in_bzip2 := tin, total_out_bzip2 := tout\<rparr>)"

text \<open>The stream as it is handed to the library.\<close>

definition bzip2_deflate_offer :: "'l bz_lib \<Rightarrow> int \<Rightarrow> bzip2_ctx \<Rightarrow> bz_stream" where
  "bzip2_deflate_offer L action ctx =
     (let st = (bzstr ctx)\<lparr>next_in_bz := next_in_bzip2 ctx, next_out_bz := next_out_bzip2 ctx\<rparr>;
          st = (if avail_in_bz st = 0 \<and>
                   (action \<noteq> BZ_FINISH L \<or>
                    (action = BZ_FINISH L \<and> total_in_hi32 st = 0 \<and> total_in_lo32 st = 0))
                then st\<lparr>avail_in_bz := avail_in_bzip2 ctx\<rparr> else st)
      in if avail_out_bz st = 0 then st\<lparr>avail_out_bz := avail_out_bzip2 ctx\<rparr> else st)"

definition bzip2_inflate_offer :: "bzip2_ctx \<Rightarrow> bz_stream" where
  "bzip2_inflate_offer ctx =
     (let st = (bzstr ctx)\<lparr>next_in_bz := next_in_bzip2 ctx, next_out_bz := next_out_bzip2 ctx\<rparr>;
          st = (if avail_in_bz st = 0 then st\<lparr>avail_in_bz := avail_in_bzip2 ctx\<rparr> else st)
      in if avail_out_bz st = 0 then st\<lparr>avail_out_bz := avail_out_bzip2 ctx\<rparr> else st)"

definition bzip2_deflate :: "'l bz_lib \<Rightarrow> ptr \<Rightarrow> int \<Rightarrow> 'l world \<Rightarrow> (int \<times> 'l world) res" where
  "bzip2_deflate L p flush w =
     andthen (load as_bzip2 p w) (\<lambda>ctx.
     let action = (if flush = zlibAction_end_bzip2 then BZ_FINISH L else BZ_RUN L)
     in andthen (BZ2_bzCompress L p (bzip2_deflate_offer L action ctx) action (bytes w) (lib w))
          (\<lambda>(ret, st, m, l).
        let w = w\<lparr>bytes := m, lib := l\<rparr>;
            ctx = ctx\<lparr>bzstr := st\<rparr>
        in if ret \<noteq> BZ_RUN_OK L \<and> ret \<noteq> BZ_FINISH_OK L \<and> ret \<noteq> BZ_STREAM_END L
           then Inr (map_error_bzip2 L ret, store p (Bzip2_obj ctx) w)
           else Inr (map_error_bzip2 L ret, store p (Bzip2_obj (bzip2_account ctx)) w)))"

definition bzip2_inflate :: "'l bz_lib \<Rightarrow> ptr \<Rightarrow> 'l world \<Rightarrow> (int \<times> 'l world) res" where
  "bzip2_inflate L p w =
     andthen (load as_bzip2 p w) (\<lambda>ctx.
     andthen (BZ2_bzDecompress L p (bzip2_inflate_offer ctx) (bytes w) (lib w)) (\<lambda>(ret, st, m, l).
       let w = w\<lparr>bytes := m, lib := l\<rparr>;
           ctx = ctx\<lparr>bzstr := st\<rparr>
       in if ret \<noteq> BZ_OK L \<and> ret \<noteq> BZ_STREAM_END L
          then Inr (map_error_bzip2 L ret, store p (Bzip2_obj ctx) w)
          else Inr (map_error_bzip2 L ret, store p (Bzip2_obj (bzip2_account ctx)) w)))"

text \<open>
  The one-shot functions pass \<open>destLen\<close>, a pointer to 64 bits, as a pointer to 32 bits:
  on the little-endian targets of the build the library reads and writes the low half.
\<close>

definition low32 :: "uLong \<Rightarrow> uInt" where
  "low32 x = ucast x"

definition set_low32 :: "uLong \<Rightarrow> uInt \<Rightarrow> uLong" where
  "set_low32 x y = push_bit 32 (drop_bit 32 x) + ucast y"

definition through_low32 :: "uLong option \<Rightarrow> uInt option \<Rightarrow> uLong option" where
  "through_low32 destLen len = (case (destLen, len) of
     (Some x, Some y) \<Rightarrow> Some (set_low32 x y) | _ \<Rightarrow> destLen)"

definition bzip2_compress ::
  "'l bz_lib \<Rightarrow> addr \<Rightarrow> uLong option \<Rightarrow> addr \<Rightarrow> uLong \<Rightarrow> 'l world \<Rightarrow> int \<times> uLong option \<times> 'l world" where
  "bzip2_compress L dest destLen source sourceLen w =
     (let (ret, len, m) = BZ2_bzBuffToBuffCompress L dest (map_option low32 destLen) source
                            (ucast sourceLen) levelMax_bzip2 0 0 (bytes w)
      in (map_error_bzip2 L ret, through_low32 destLen len, w\<lparr>bytes := m\<rparr>))"

definition bzip2_decompress ::
  "'l bz_lib \<Rightarrow> addr \<Rightarrow> uLong option \<Rightarrow> addr \<Rightarrow> uLong \<Rightarrow> 'l world \<Rightarrow> int \<times> uLong option \<times> 'l world" where
  "bzip2_decompress L dest destLen source sourceLen w =
     (let (ret, len, m) = BZ2_bzBuffToBuffDecompress L dest (map_option low32 destLen) source
                            (ucast sourceLen) 0 0 (bytes w)
      in (map_error_bzip2 L ret, through_low32 destLen len, w\<lparr>bytes := m\<rparr>))"

definition bzip2_compressBound :: "uLong \<Rightarrow> uLong res" where
  "bzip2_compressBound uncompressed_size =
     andthen (ulong_of_d (d_mult (d_of_ulong uncompressed_size) (nearest 125 100))) (\<lambda>compressed_size.
     Inr (if compressed_size < uncompressed_size then ULONG_MAX else compressed_size))"

section \<open>The callback layer\<close>

definition versionCB_bzip2 :: "'l bz_lib \<Rightarrow> string" where
  "versionCB_bzip2 L = BZ2_bzlibVersion L"

definition resetBzip2 :: "unizip_stream \<Rightarrow> unizip_stream" where
  "resetBzip2 strm = strm\<lparr>next_in := NULL_addr, next_out := NULL_addr, avail_in := 0,
     avail_out := 0, total_in := 0, total_out := 0\<rparr>"

definition deflateInitCB_bzip2 :: "'l bz_lib \<Rightarrow> int \<Rightarrow> 'l stream_op" where
  "deflateInitCB_bzip2 L level strm w =
     (let (p, w) = bzip2_allocate L w; strm = strm\<lparr>ud := p\<rparr>
      in if ud strm = NULL_ptr then Inr (UNIZIP_MEM_ERROR, strm, w)
         else
           let strm = strm\<lparr>compression_flag := level\<rparr>
           in andthen (bzip2_deflateInit L (ud strm) level w) (\<lambda>(ret, w).
              Inr (ret, resetBzip2 strm, w)))"

text \<open>Both stream callbacks copy the stream's six fields into the context and back.\<close>

definition bzip2_pull :: "unizip_stream \<Rightarrow> bzip2_ctx \<Rightarrow> bzip2_ctx" where
  "bzip2_pull strm ctx = ctx\<lparr>next_in_bzip2 := next_in strm, next_out_bzip2 := next_out strm,
     avail_in_bzip2 := avail_in strm, avail_out_bzip2 := avail_out strm,
     total_in_bzip2 := total_in strm, total_out_bzip2 := total_out strm\<rparr>"

definition bzip2_push :: "bzip2_ctx \<Rightarrow> unizip_stream \<Rightarrow> unizip_stream" where
  "bzip2_push ctx strm = strm\<lparr>next_in := next_in_bzip2 ctx, next_out := next_out_bzip2 ctx,
     avail_in := avail_in_bzip2 ctx, avail_out := avail_out_bzip2 ctx,
     total_in := total_in_bzip2 ctx, total_out := total_out_bzip2 ctx\<rparr>"

definition deflateCB_bzip2 :: "'l bz_lib \<Rightarrow> int \<Rightarrow> 'l stream_op" where
  "deflateCB_bzip2 L flush strm w =
     andthen (load as_bzip2 (ud strm) w) (\<lambda>ctx.
     andthen (bzip2_deflate L (ud strm) flush (store (ud strm) (Bzip2_obj (bzip2_pull strm ctx)) w))
       (\<lambda>(ret, w).
     andthen (load as_bzip2 (ud strm) w) (\<lambda>ctx.
     Inr (ret, bzip2_push ctx strm, w))))"

definition deflateEndCB_bzip2 :: "'l bz_lib \<Rightarrow> 'l stream_op" where
  "deflateEndCB_bzip2 L strm w =
     (let strm = resetBzip2 strm
      in andthen (bzip2_deflateEnd L (ud strm) w) (\<lambda>(ret, w). Inr (ret, strm, w)))"

definition inflateInitCB_bzip2 :: "'l bz_lib \<Rightarrow> 'l stream_op" where
  "inflateInitCB_bzip2 L strm w =
     (let (p, w) = bzip2_allocate L w; strm = strm\<lparr>ud := p\<rparr>
      in if ud strm = NULL_ptr then Inr (UNIZIP_MEM_ERROR, strm, w)
         else
           let strm = resetBzip2 strm
           in andthen (bzip2_inflateInit L (ud strm) w) (\<lambda>(ret, w). Inr (ret, strm, w)))"

definition inflateCB_bzip2 :: "'l bz_lib \<Rightarrow> int \<Rightarrow> 'l stream_op" where
  "inflateCB_bzip2 L flush strm w =
     andthen (load as_bzip2 (ud strm) w) (\<lambda>ctx.
     andthen (bzip2_inflate L (ud strm) (store (ud strm) (Bzip2_obj (bzip2_pull strm ctx)) w))
       (\<lambda>(ret, w).
     andthen (load as_bzip2 (ud strm) w) (\<lambda>ctx.
     Inr (ret, bzip2_push ctx strm, w))))"

definition inflateEndCB_bzip2 :: "'l bz_lib \<Rightarrow> 'l stream_op" where
  "inflateEndCB_bzip2 L strm w =
     (let strm = resetBzip2 strm
      in andthen (bzip2_inflateEnd L (ud strm) w) (\<lambda>(ret, w). Inr (ret, strm, w)))"

definition deflateCopyCB_bzip2 :: "unizip_stream \<Rightarrow> unizip_stream \<Rightarrow> 'l world \<Rightarrow> (int \<times> unizip_stream \<times> 'l world) res" where
  "deflateCopyCB_bzip2 dest source w =
     (let dest = dest\<lparr>compression_flag := compression_flag source\<rparr>
      in andthen (bzip2_copy (ud dest) (ud source) w) (\<lambda>(ret, w). Inr (ret, dest, w)))"

definition inflateCopyCB_bzip2 :: "unizip_stream \<Rightarrow> unizip_stream \<Rightarrow> 'l world \<Rightarrow> (int \<times> unizip_stream \<times> 'l world) res" where
  "inflateCopyCB_bzip2 dest source w =
     andthen (bzip2_copy (ud dest) (ud source) w) (\<lambda>(ret, w). Inr (ret, dest, w))"

definition deflateResetCB_bzip2 :: "'l bz_lib \<Rightarrow> 'l stream_op" where
  "deflateResetCB_bzip2 L strm w =
     (let strm = resetBzip2 strm
      in andthen (bzip2_deflateEnd L (ud strm) w) (\<lambda>(_, w).
         let (p, w) = bzip2_allocate L w; strm = strm\<lparr>ud := p\<rparr>
         in if ud strm = NULL_ptr then Inr (UNIZIP_MEM_ERROR, strm, w)
            else andthen (bzip2_deflateInit L (ud strm) (compression_flag strm) w)
                   (\<lambda>(ret, w). Inr (ret, strm, w))))"

definition inflateResetCB_bzip2 :: "'l bz_lib \<Rightarrow> 'l stream_op" where
  "inflateResetCB_bzip2 L strm w =
     (let strm = resetBzip2 strm
      in andthen (bzip2_inflateEnd L (ud strm) w) (\<lambda>(_, w).
         let (p, w) = bzip2_allocate L w; strm = strm\<lparr>ud := p\<rparr>
         in if ud strm = NULL_ptr then Inr (UNIZIP_MEM_ERROR, strm, w)
            else andthen (bzip2_inflateInit L (ud strm) w) (\<lambda>(ret, w). Inr (ret, strm, w))))"

definition compressCB_bzip2 ::
  "'l bz_lib \<Rightarrow> addr \<Rightarrow> uLong option \<Rightarrow> addr \<Rightarrow> uLong \<Rightarrow> 'l world \<Rightarrow> int \<times> uLong option \<times> 'l world" where
  "compressCB_bzip2 L dest destLen source sourceLen w = bzip2_compress L dest destLen source sourceLen w"

definition uncompressCB_bzip2 ::
  "'l bz_lib \<Rightarrow> addr \<Rightarrow> uLong option \<Rightarrow> addr \<Rightarrow> uLong \<Rightarrow> 'l world \<Rightarrow> int \<times> uLong option \<times> 'l world" where
  "uncompressCB_bzip2 L dest destLen source sourceLen w = bzip2_decompress L dest destLen source sourceLen w"

definition compressBoundCB_bzip2 :: "uLong \<Rightarrow> uLong res" where
  "compressBoundCB_bzip2 sourceLen = bzip2_compressBound sourceLen"

section \<open>Sessions\<close>

text \<open>
  What libbz2 does with its coders.  \<open>live l\<close> are the pairs of the address a stream was
  initialised at and of its state.  A successful initialisation makes a fresh state for its
  address; processing keeps it and ending it at its own address frees it.  At any other
  address a live state is refused with \<open>BZ_PARAM_ERROR\<close> and nothing changes.
\<close>

definition bz_init_ok :: "'l bz_lib \<Rightarrow> ('l \<Rightarrow> (ptr \<times> ptr) set) \<Rightarrow> ptr \<Rightarrow> 'l \<Rightarrow> int \<times> bz_stream \<times> 'l \<Rightarrow> bool" where
  "bz_init_ok L live p l = (\<lambda>(r, st', l').
     if r = BZ_OK L then (\<forall>q. (q, state_bz st') \<notin> live l) \<and> live l' = insert (p, state_bz st') (live l)
     else live l' = live l \<and> r \<notin> {BZ_RUN_OK L, BZ_FLUSH_OK L, BZ_FINISH_OK L})"

definition bz_use_ok :: "'l bz_lib \<Rightarrow> ('l \<Rightarrow> (ptr \<times> ptr) set) \<Rightarrow>
  (ptr \<Rightarrow> bz_stream \<Rightarrow> mem \<Rightarrow> 'l \<Rightarrow> (int \<times> bz_stream \<times> mem \<times> 'l) res) \<Rightarrow> bool" where
  "bz_use_ok L live f \<longleftrightarrow> (\<forall>p q st m l.
     ((p, state_bz st) \<in> live l \<longrightarrow> ensures (f p st m l)
        (\<lambda>(r, st', m', l'). state_bz st' = state_bz st \<and> live l' = live l)) \<and>
     ((q, state_bz st) \<in> live l \<longrightarrow> (p, state_bz st) \<notin> live l \<longrightarrow>
        f p st m l = Inr (BZ_PARAM_ERROR L, st, m, l)))"

definition bz_end_ok :: "'l bz_lib \<Rightarrow> ('l \<Rightarrow> (ptr \<times> ptr) set) \<Rightarrow>
  (ptr \<Rightarrow> bz_stream \<Rightarrow> 'l \<Rightarrow> (int \<times> bz_stream \<times> 'l) res) \<Rightarrow> bool" where
  "bz_end_ok L live f \<longleftrightarrow> (\<forall>p q st l.
     ((p, state_bz st) \<in> live l \<longrightarrow> ensures (f p st l)
        (\<lambda>(r, st', l'). live l' = live l - {(p, state_bz st)})) \<and>
     ((q, state_bz st) \<in> live l \<longrightarrow> (p, state_bz st) \<notin> live l \<longrightarrow>
        f p st l = Inr (BZ_PARAM_ERROR L, st, l)))"

definition bz_coders :: "'l bz_lib \<Rightarrow> ('l \<Rightarrow> (ptr \<times> ptr) set) \<Rightarrow> bool" where
  "bz_coders L live \<longleftrightarrow>
     (\<forall>p st lv vb wk l. bz_init_ok L live p l (BZ2_bzCompressInit L p st lv vb wk l)) \<and>
     (\<forall>p st vb sm l. bz_init_ok L live p l (BZ2_bzDecompressInit L p st vb sm l)) \<and>
     (\<forall>a. bz_use_ok L live (\<lambda>p st. BZ2_bzCompress L p st a)) \<and>
     bz_use_ok L live (BZ2_bzDecompress L) \<and>
     bz_end_ok L live (BZ2_bzCompressEnd L) \<and> bz_end_ok L live (BZ2_bzDecompressEnd L)"

lemma bz_use_okD:
  assumes "bz_use_ok L live f"
  shows "(p, state_bz st) \<in> live l \<Longrightarrow> ensures (f p st m l)
      (\<lambda>(r, st', m', l'). state_bz st' = state_bz st \<and> live l' = live l)"
    and "(q, state_bz st) \<in> live l \<Longrightarrow> (p, state_bz st) \<notin> live l \<Longrightarrow>
      f p st m l = Inr (BZ_PARAM_ERROR L, st, m, l)"
  using assms unfolding bz_use_ok_def by blast+

lemma bz_end_okD:
  assumes "bz_end_ok L live f"
  shows "(p, state_bz st) \<in> live l \<Longrightarrow>
      ensures (f p st l) (\<lambda>(r, st', l'). live l' = live l - {(p, state_bz st)})"
    and "(q, state_bz st) \<in> live l \<Longrightarrow> (p, state_bz st) \<notin> live l \<Longrightarrow>
      f p st l = Inr (BZ_PARAM_ERROR L, st, l)"
  using assms unfolding bz_end_ok_def by blast+

lemma bz_codersD:
  assumes "bz_coders L live"
  shows "bz_init_ok L live p l (BZ2_bzCompressInit L p st lv vb wk l)"
    and "bz_init_ok L live p l (BZ2_bzDecompressInit L p st vb sm l)"
    and "bz_use_ok L live (\<lambda>p st. BZ2_bzCompress L p st a)"
    and "bz_use_ok L live (BZ2_bzDecompress L)"
    and "bz_end_ok L live (BZ2_bzCompressEnd L)" and "bz_end_ok L live (BZ2_bzDecompressEnd L)"
  using assms unfolding bz_coders_def by blast+

lemma bz_init_started:
  assumes "bz_init_ok L live p l (r, st, l')" and "map_error_bzip2 L r = 0"
  shows "(\<forall>q. (q, state_bz st) \<notin> live l) \<and> live l' = insert (p, state_bz st) (live l)"
  using assms by (auto simp: bz_init_ok_def map_error_bzip2_def split: if_splits)

text \<open>What a context at \<open>p\<close> owns in the library.\<close>

definition bz_handle :: "ptr \<Rightarrow> bzip2_ctx \<Rightarrow> ptr \<times> ptr" where
  "bz_handle p c = (p, state_bz (bzstr c))"

lemma bzip2_account_simps [simp]:
  "bzstr (bzip2_account c) = bzstr c" "avail_in_bzip2 (bzip2_account c) = avail_in_bzip2 c"
  "avail_out_bzip2 (bzip2_account c) = avail_out_bzip2 c"
  "next_in_bzip2 (bzip2_account c) = next_in_bzip2 c + (total_in_bzip2 (bzip2_account c) - total_in_bzip2 c)"
  "next_out_bzip2 (bzip2_account c) = next_out_bzip2 c + (total_out_bzip2 (bzip2_account c) - total_out_bzip2 c)"
  by (simp_all add: bzip2_account_def Let_def)

lemma bzip2_offer_state [simp]:
  "state_bz (bzip2_deflate_offer L a c) = state_bz (bzstr c)"
  "state_bz (bzip2_inflate_offer c) = state_bz (bzstr c)"
  by (simp_all add: bzip2_deflate_offer_def bzip2_inflate_offer_def Let_def)

lemma bzstr_bzip2_pull [simp]: "bzstr (bzip2_pull s c) = bzstr c"
  by (simp add: bzip2_pull_def)

lemma ud_bzip2_push [simp]: "ud (bzip2_push c s) = ud s"
  by (simp add: bzip2_push_def)

text \<open>The two callbacks, given what the library returns.\<close>

definition bzip2_progress :: "'l bz_lib \<Rightarrow> int \<Rightarrow> bool" where
  "bzip2_progress L r \<longleftrightarrow> r = BZ_RUN_OK L \<or> r = BZ_FINISH_OK L \<or> r = BZ_STREAM_END L"

lemma bzip2_deflate_eq:
  assumes c: "load as_bzip2 (ud s) w = Inr c"
    and a: "a = (if f = 4 then BZ_FINISH L else BZ_RUN L)"
  shows "deflateCB_bzip2 L f s w =
    andthen (BZ2_bzCompress L (ud s) (bzip2_deflate_offer L a (bzip2_pull s c)) a (bytes w) (lib w))
      (\<lambda>(r, st, m, l).
      let c' = (bzip2_pull s c)\<lparr>bzstr := st\<rparr>;
          c' = (if bzip2_progress L r then bzip2_account c' else c')
      in Inr (map_error_bzip2 L r, bzip2_push c' s,
           store (ud s) (Bzip2_obj c') (w\<lparr>bytes := m, lib := l\<rparr>)))"
  using load_nonnull [OF c]
  by (auto simp: deflateCB_bzip2_def bzip2_deflate_def a c Let_def andthen_def bzip2_progress_def
      split: sum.split)

lemma bzip2_inflate_eq:
  assumes c: "load as_bzip2 (ud s) w = Inr c"
  shows "inflateCB_bzip2 L f s w =
    andthen (BZ2_bzDecompress L (ud s) (bzip2_inflate_offer (bzip2_pull s c)) (bytes w) (lib w))
      (\<lambda>(r, st, m, l).
      let c' = (bzip2_pull s c)\<lparr>bzstr := st\<rparr>;
          c' = (if r = BZ_OK L \<or> r = BZ_STREAM_END L then bzip2_account c' else c')
      in Inr (map_error_bzip2 L r, bzip2_push c' s,
           store (ud s) (Bzip2_obj c') (w\<lparr>bytes := m, lib := l\<rparr>)))"
  using load_nonnull [OF c]
  by (auto simp: inflateCB_bzip2_def bzip2_inflate_def c Let_def andthen_def split: sum.split)

lemma bzip2_callback_keeps:
  assumes ok: "bz_coders L live" and c: "load as_bzip2 (ud s) w = Inr c"
    and h: "bz_handle (ud s) c \<in> live (lib w)"
  shows "ensures (deflateCB_bzip2 L f s w) (\<lambda>(r, s', w'). ud s' = ud s \<and> keeps as_bzip2 (ud s) w w' \<and>
      live (lib w') = live (lib w) \<and>
      (\<exists>c'. load as_bzip2 (ud s) w' = Inr c' \<and> bz_handle (ud s) c' = bz_handle (ud s) c))"
    and "ensures (inflateCB_bzip2 L f s w) (\<lambda>(r, s', w'). ud s' = ud s \<and> keeps as_bzip2 (ud s) w w' \<and>
      live (lib w') = live (lib w) \<and>
      (\<exists>c'. load as_bzip2 (ud s) w' = Inr c' \<and> bz_handle (ud s) c' = bz_handle (ud s) c))"
proof -
  note p = load_nonnull [OF c]
  have h': "(ud s, state_bz (bzip2_deflate_offer L a (bzip2_pull s c))) \<in> live (lib w)"
    "(ud s, state_bz (bzip2_inflate_offer (bzip2_pull s c))) \<in> live (lib w)" for a
    using h by (simp_all add: bz_handle_def)
  show "ensures (deflateCB_bzip2 L f s w) (\<lambda>(r, s', w'). ud s' = ud s \<and> keeps as_bzip2 (ud s) w w' \<and>
      live (lib w') = live (lib w) \<and>
      (\<exists>c'. load as_bzip2 (ud s) w' = Inr c' \<and> bz_handle (ud s) c' = bz_handle (ud s) c))"
    unfolding bzip2_deflate_eq [OF c refl] ensures_andthen
    by (rule ensures_mono [OF bz_use_okD(1) [OF bz_codersD(3) [OF ok] h'(1)]])
      (use p in \<open>auto simp: Let_def bz_handle_def\<close>)
  show "ensures (inflateCB_bzip2 L f s w) (\<lambda>(r, s', w'). ud s' = ud s \<and> keeps as_bzip2 (ud s) w w' \<and>
      live (lib w') = live (lib w) \<and>
      (\<exists>c'. load as_bzip2 (ud s) w' = Inr c' \<and> bz_handle (ud s) c' = bz_handle (ud s) c))"
    unfolding bzip2_inflate_eq [OF c] ensures_andthen
    by (rule ensures_mono [OF bz_use_okD(1) [OF bz_codersD(4) [OF ok] h'(2)]])
      (use p in \<open>auto simp: Let_def bz_handle_def\<close>)
qed

lemma bzip2_in_step:
  "deflateCB_bzip2 L f s w = Inr (r, s', w') \<Longrightarrow> in_step s s'"
  "inflateCB_bzip2 L f s w = Inr (r, s', w') \<Longrightarrow> in_step s s'"
proof -
  assume d: "deflateCB_bzip2 L f s w = Inr (r, s', w')"
  then obtain c where c: "load as_bzip2 (ud s) w = Inr c" by (auto simp: deflateCB_bzip2_def andthen_eq_Inr)
  from d show "in_step s s'"
    unfolding bzip2_deflate_eq [OF c refl]
    by (auto simp: andthen_eq_Inr Let_def in_step_def bzip2_push_def bzip2_pull_def)
next
  assume d: "inflateCB_bzip2 L f s w = Inr (r, s', w')"
  then obtain c where c: "load as_bzip2 (ud s) w = Inr c" by (auto simp: inflateCB_bzip2_def andthen_eq_Inr)
  from d show "in_step s s'"
    unfolding bzip2_inflate_eq [OF c]
    by (auto simp: andthen_eq_Inr Let_def in_step_def bzip2_push_def bzip2_pull_def)
qed

lemma bzip2_allocate_acquires:
  assumes "bzip2_allocate L w = (p, w1)" and "p \<noteq> 0" and "wf_heap w"
  shows "acquires as_bzip2 p w w1 \<and> wf_heap w1 \<and> lib w1 = lib w \<and> holds as_bzip2 p w1"
proof -
  obtain w0 c where m: "malloc (Bzip2_obj (bzip2_indet L)) w = (p, w0)"
    and w1: "w1 = store p (Bzip2_obj c) w0"
    using assms(1,2) by (auto simp: bzip2_allocate_def Let_def split: prod.splits if_splits)
  note a = malloc_acquires [OF m assms(2,3), of as_bzip2]
  show ?thesis
    using a assms(2) by (auto simp: w1 intro: acquires_keeps wf_heap_store_holds)
qed

lemma deflateInitCB_bzip2_acquires:
  assumes ok: "bz_coders L live" and "wf_heap w"
    and i: "deflateInitCB_bzip2 L level s w = Inr (UNIZIP_OK, s', w')"
  shows "acquires as_bzip2 (ud s') w w' \<and> wf_heap w' \<and>
    (\<exists>c. load as_bzip2 (ud s') w' = Inr c \<and> bz_handle (ud s') c \<notin> live (lib w) \<and>
       live (lib w') = insert (bz_handle (ud s') c) (live (lib w)))"
proof -
  obtain p w1 where m: "bzip2_allocate L w = (p, w1)" by fastforce
  from i m have p: "p \<noteq> 0" "ud s' = p" and
    d: "bzip2_deflateInit L p level w1 = Inr (0, w')"
    by (auto simp: deflateInitCB_bzip2_def resetBzip2_def Let_def andthen_eq_Inr split: if_splits)
  note a = bzip2_allocate_acquires [OF m p(1) \<open>wf_heap w\<close>]
  from a obtain c0 where c0: "load as_bzip2 p w1 = Inr c0" by (auto simp: holds_def)
  let ?st = "(bzstr c0)\<lparr>avail_in_bz := 0, next_in_bz := 0, avail_out_bz := 0, next_out_bz := 0\<rparr>"
  from d a c0 obtain lv r st l where
    e: "BZ2_bzCompressInit L p ?st lv 0 0 (lib w) = (r, st, l)" "map_error_bzip2 L r = 0"
    and w': "w' = (store p (Bzip2_obj (c0\<lparr>bzstr := st\<rparr>)) w1)\<lparr>lib := l\<rparr>"
    by (auto simp: bzip2_deflateInit_def Let_def split: prod.splits)
  from bz_codersD(1) [OF ok, of p "lib w" ?st lv 0 0] e
  have "\<forall>q. (q, state_bz st) \<notin> live (lib w)" "live l = insert (p, state_bz st) (live (lib w))"
    using bz_init_started [of L live p "lib w" r st l] by simp_all
  then show ?thesis
    using a p by (auto simp: w' bz_handle_def intro: acquires_keeps wf_heap_store_holds)
qed

lemma inflateInitCB_bzip2_acquires:
  assumes ok: "bz_coders L live" and "wf_heap w"
    and i: "inflateInitCB_bzip2 L s w = Inr (UNIZIP_OK, s', w')"
  shows "acquires as_bzip2 (ud s') w w' \<and> wf_heap w' \<and>
    (\<exists>c. load as_bzip2 (ud s') w' = Inr c \<and> bz_handle (ud s') c \<notin> live (lib w) \<and>
       live (lib w') = insert (bz_handle (ud s') c) (live (lib w)))"
proof -
  obtain p w1 where m: "bzip2_allocate L w = (p, w1)" by fastforce
  from i m have p: "p \<noteq> 0" "ud s' = p" and
    d: "bzip2_inflateInit L p w1 = Inr (0, w')"
    by (auto simp: inflateInitCB_bzip2_def resetBzip2_def Let_def andthen_eq_Inr split: if_splits)
  note a = bzip2_allocate_acquires [OF m p(1) \<open>wf_heap w\<close>]
  from a obtain c0 where c0: "load as_bzip2 p w1 = Inr c0" by (auto simp: holds_def)
  let ?st = "(bzstr c0)\<lparr>avail_in_bz := 0, next_in_bz := 0, avail_out_bz := 0, next_out_bz := 0\<rparr>"
  from d a c0 obtain r st l where
    e: "BZ2_bzDecompressInit L p ?st 0 0 (lib w) = (r, st, l)" "map_error_bzip2 L r = 0"
    and w': "w' = (store p (Bzip2_obj (c0\<lparr>bzstr := st\<rparr>)) w1)\<lparr>lib := l\<rparr>"
    by (auto simp: bzip2_inflateInit_def Let_def split: prod.splits)
  from bz_codersD(2) [OF ok, of p "lib w" ?st 0 0] e
  have "\<forall>q. (q, state_bz st) \<notin> live (lib w)" "live l = insert (p, state_bz st) (live (lib w))"
    using bz_init_started [of L live p "lib w" r st l] by simp_all
  then show ?thesis
    using a p by (auto simp: w' bz_handle_def intro: acquires_keeps wf_heap_store_holds)
qed

lemma bzip2_end_frees:
  assumes ok: "bz_coders L live" and c: "wf_heap w" "load as_bzip2 (ud s) w = Inr c"
    "bz_handle (ud s) c \<in> live (lib w)"
  shows "ensures (deflateEndCB_bzip2 L s w) (\<lambda>(r, s', w'). wf_heap w' \<and> releases (ud s) w w' \<and>
      live (lib w') = live (lib w) - {bz_handle (ud s) c})"
    and "ensures (inflateEndCB_bzip2 L s w) (\<lambda>(r, s', w'). wf_heap w' \<and> releases (ud s) w w' \<and>
      live (lib w') = live (lib w) - {bz_handle (ud s) c})"
proof -
  note h = c(3) [unfolded bz_handle_def]
  from bz_end_okD(1) [OF bz_codersD(5) [OF ok] h] obtain r st l where
    e: "BZ2_bzCompressEnd L (ud s) (bzstr c) (lib w) = Inr (r, st, l)" "live l = live (lib w) - {bz_handle (ud s) c}"
    by (auto simp: ensures_def bz_handle_def)
  show "ensures (deflateEndCB_bzip2 L s w) (\<lambda>(r, s', w'). wf_heap w' \<and> releases (ud s) w w' \<and>
      live (lib w') = live (lib w) - {bz_handle (ud s) c})"
    using c(1,2) load_nonnull [OF c(2)] e
    by (simp add: deflateEndCB_bzip2_def bzip2_deflateEnd_def resetBzip2_def Let_def)
  from bz_end_okD(1) [OF bz_codersD(6) [OF ok] h] obtain r st l where
    e: "BZ2_bzDecompressEnd L (ud s) (bzstr c) (lib w) = Inr (r, st, l)" "live l = live (lib w) - {bz_handle (ud s) c}"
    by (auto simp: ensures_def bz_handle_def)
  show "ensures (inflateEndCB_bzip2 L s w) (\<lambda>(r, s', w'). wf_heap w' \<and> releases (ud s) w w' \<and>
      live (lib w') = live (lib w) - {bz_handle (ud s) c})"
    using c(1,2) load_nonnull [OF c(2)] e
    by (simp add: inflateEndCB_bzip2_def bzip2_inflateEnd_def resetBzip2_def Let_def)
qed

interpretation bzip2_deflate: handle_session as_bzip2 bz_handle live "bz_coders L live"
  "deflateInitCB_bzip2 L" "deflateCB_bzip2 L" "deflateEndCB_bzip2 L" for L live
  by (rule handle_session.intro)
    (simp_all add: deflateInitCB_bzip2_acquires bzip2_callback_keeps bzip2_end_frees)

interpretation bzip2_inflate: handle_session as_bzip2 bz_handle live "bz_coders L live"
  "\<lambda>level. inflateInitCB_bzip2 L" "inflateCB_bzip2 L" "inflateEndCB_bzip2 L" for L live
  by (rule handle_session.intro)
    (simp_all add: inflateInitCB_bzip2_acquires bzip2_callback_keeps bzip2_end_frees)

interpretation bzip2_deflate: accounting True "deflateCB_bzip2 L" for L
  by unfold_locales (rule bzip2_in_step(1))

interpretation bzip2_inflate: accounting True "inflateCB_bzip2 L" for L
  by unfold_locales (rule bzip2_in_step(2))

lemma bzip2_reset_end_init:
  "deflateResetCB_bzip2 L s w = andthen (deflateEndCB_bzip2 L s w)
     (\<lambda>(r, s', w'). deflateInitCB_bzip2 L (compression_flag s) s' w')"
  "inflateResetCB_bzip2 L s w = andthen (inflateEndCB_bzip2 L s w)
     (\<lambda>(r, s', w'). inflateInitCB_bzip2 L s' w')"
  by (auto simp: deflateResetCB_bzip2_def deflateEndCB_bzip2_def deflateInitCB_bzip2_def
      inflateResetCB_bzip2_def inflateEndCB_bzip2_def inflateInitCB_bzip2_def resetBzip2_def Let_def
      andthen_def split: sum.splits prod.splits)

interpretation bzip2_deflate_session: resettable "deflateInitCB_bzip2 L" "deflateCB_bzip2 L"
  "deflateEndCB_bzip2 L" "\<lambda>w. bz_coders L live \<and> wf_heap w" "owns_handle as_bzip2 bz_handle live"
  "\<lambda>w. (heap w, live (lib w))" "without_handle as_bzip2 bz_handle live"
  "deflateResetCB_bzip2 L" "\<lambda>s. s" compression_flag for L live
  by unfold_locales (simp_all add: bzip2_reset_end_init)

interpretation bzip2_inflate_session: resettable "\<lambda>level. inflateInitCB_bzip2 L" "inflateCB_bzip2 L"
  "inflateEndCB_bzip2 L" "\<lambda>w. bz_coders L live \<and> wf_heap w" "owns_handle as_bzip2 bz_handle live"
  "\<lambda>w. (heap w, live (lib w))" "without_handle as_bzip2 bz_handle live"
  "inflateResetCB_bzip2 L" "\<lambda>s. s" "\<lambda>s. 0" for L live
  by unfold_locales (simp_all add: bzip2_reset_end_init)

section \<open>Properties\<close>

text \<open>
  A library for the witnesses.  Its state lists the live pairs; coders copy their input.
\<close>

definition demo_bz_init :: "ptr \<Rightarrow> bz_stream \<Rightarrow> (ptr \<times> ptr) list \<Rightarrow> int \<times> bz_stream \<times> (ptr \<times> ptr) list" where
  "demo_bz_init p st l = (let h = Suc (sum_list (map snd l))
     in (0, st\<lparr>state_bz := h, total_in_lo32 := 0, total_in_hi32 := 0, total_out_lo32 := 0,
            total_out_hi32 := 0\<rparr>, (p, h) # l))"

definition demo_bz_use :: "int \<Rightarrow> int \<Rightarrow> ptr \<Rightarrow> bz_stream \<Rightarrow> mem \<Rightarrow> (ptr \<times> ptr) list \<Rightarrow>
    (int \<times> bz_stream \<times> mem \<times> (ptr \<times> ptr) list) res" where
  "demo_bz_use run done p st m l =
     (if (p, state_bz st) \<in> set l then
        let k = min (avail_in_bz st) (avail_out_bz st)
        in Inr (if k = avail_in_bz st then done else run,
             st\<lparr>next_in_bz := next_in_bz st + ucast k, avail_in_bz := avail_in_bz st - k,
                total_in_lo32 := total_in_lo32 st + k, next_out_bz := next_out_bz st + ucast k,
                avail_out_bz := avail_out_bz st - k, total_out_lo32 := total_out_lo32 st + k\<rparr>,
             write_mem m (next_out_bz st) (read_mem m (next_in_bz st) (unat k)), l)
      else Inr (- 2, st, m, l))"

definition demo_bz_end :: "ptr \<Rightarrow> bz_stream \<Rightarrow> (ptr \<times> ptr) list \<Rightarrow> (int \<times> bz_stream \<times> (ptr \<times> ptr) list) res" where
  "demo_bz_end p st l =
     (if (p, state_bz st) \<in> set l then Inr (0, st\<lparr>state_bz := 0\<rparr>, removeAll (p, state_bz st) l)
      else Inr (- 2, st, l))"

definition demo_bz :: "(ptr \<times> ptr) list bz_lib" where
  "demo_bz = \<lparr>BZ2_bzlibVersion = ''1.0.8'', BZ_RUN = 0, BZ_FINISH = 2, BZ_OK = 0, BZ_RUN_OK = 1,
     BZ_FLUSH_OK = 2, BZ_FINISH_OK = 3, BZ_STREAM_END = 4, BZ_SEQUENCE_ERROR = - 1,
     BZ_PARAM_ERROR = - 2, BZ_MEM_ERROR = - 3, BZ_DATA_ERROR = - 4, BZ_DATA_ERROR_MAGIC = - 5,
     BZ_IO_ERROR = - 6, BZ_UNEXPECTED_EOF = - 7, BZ_OUTBUFF_FULL = - 8, BZ_CONFIG_ERROR = - 9,
     BZ2_bzCompressInit = (\<lambda>p st lv vb wk. demo_bz_init p st),
     BZ2_bzCompress = (\<lambda>p st a. if a = 2 then demo_bz_use 3 4 p st else demo_bz_use 1 1 p st),
     BZ2_bzCompressEnd = demo_bz_end,
     BZ2_bzDecompressInit = (\<lambda>p st vb sm. demo_bz_init p st),
     BZ2_bzDecompress = demo_bz_use 0 4,
     BZ2_bzDecompressEnd = demo_bz_end,
     BZ2_bzBuffToBuffCompress = (\<lambda>dest cap src n lv vb wk m. case cap of None \<Rightarrow> (- 2, cap, m)
       | Some c \<Rightarrow> if n < c then (0, Some (n + 1), write_mem m dest (0 # read_mem m src (unat n)))
                   else (- 8, cap, m)),
     BZ2_bzBuffToBuffDecompress = (\<lambda>dest cap src n vb sm m. case cap of None \<Rightarrow> (- 2, cap, m)
       | Some c \<Rightarrow> if 0 < n \<and> n - 1 \<le> c
                   then (0, Some (n - 1), write_mem m dest (read_mem m (src + 1) (unat (n - 1))))
                   else (- 8, cap, m)),
     bzip2_indet = \<lparr>bzstr = \<lparr>next_in_bz = 1, avail_in_bz = 2, total_in_lo32 = 3, total_in_hi32 = 4,
       next_out_bz = 5, avail_out_bz = 6, total_out_lo32 = 7, total_out_hi32 = 8, state_bz = 9,
       bzalloc = 10, bzfree = 11, opaque_bz = 12\<rparr>, next_in_bzip2 = 13, next_out_bzip2 = 14,
       avail_in_bzip2 = 15, avail_out_bzip2 = 16, total_in_bzip2 = 17, total_out_bzip2 = 18\<rparr>\<rparr>"

definition bz_world :: "(ptr \<times> ptr) list world" where
  "bz_world = \<lparr>heap = Map.empty, allocs = 0, oom = (\<lambda>_. False), bytes = bytes demo_world, lib = []\<rparr>"

lemma bz_world_simps [simp]:
  "heap bz_world = Map.empty" "allocs bz_world = 0" "\<not> oom bz_world k" "lib bz_world = []"
  "wf_heap bz_world"
  by (simp_all add: bz_world_def wf_heap_def)

lemma demo_bz_fresh: "(q, Suc (sum_list (map snd l))) \<notin> set l"
proof
  assume "(q, Suc (sum_list (map snd l))) \<in> set l"
  then have "Suc (sum_list (map snd l)) \<in> set (map snd l)" by force
  then show False using member_le_sum_list by fastforce
qed

lemma demo_bz_coders: "bz_coders demo_bz set"
  unfolding bz_coders_def
  by (auto simp: demo_bz_def bz_init_ok_def bz_use_ok_def bz_end_ok_def demo_bz_init_def demo_bz_use_def
      demo_bz_end_def demo_bz_fresh Let_def)

text \<open>Arithmetic of the two halves of a 64-bit number.\<close>

lemma uint_halves:
  fixes hi :: uLong and lo :: uInt
  assumes "uint hi < 2 ^ 32"
  shows "uint (push_bit 32 hi + ucast lo) = uint hi * 2 ^ 32 + uint lo"
proof -
  have hi: "0 \<le> uint hi" and lo: "0 \<le> uint lo" "uint lo < 2 ^ 32"
    using uint_lt2p [of lo] by simp_all
  have "uint (push_bit 32 hi) = take_bit 64 (push_bit 32 (uint hi))"
    by (simp add: unsigned_push_bit_eq)
  also have "\<dots> = uint hi * 2 ^ 32"
    using hi assms by (simp add: push_bit_eq_mult take_bit_int_eq_self)
  finally have "uint (push_bit 32 hi) = uint hi * 2 ^ 32" .
  then show ?thesis
    using hi lo assms by (simp add: uint_word_ariths)
qed

lemma bzip2_totalsize_exact: "uint (bzip2_totalsize hi lo) = uint hi * 2 ^ 32 + uint lo"
  unfolding bzip2_totalsize_def using uint_lt2p [of hi] by (subst uint_halves) simp_all

lemma set_low32_exact: "uint (set_low32 x y) = uint x div 2 ^ 32 * 2 ^ 32 + uint y"
proof -
  have d: "uint (drop_bit 32 x) = uint x div 2 ^ 32"
    by (simp add: drop_bit_eq_div uint_div_distrib)
  have "uint x < 2 ^ 32 * 2 ^ 32" using uint_lt2p [of x] by simp
  moreover have "uint x div 2 ^ 32 * 2 ^ 32 + uint x mod 2 ^ 32 = uint x" by (rule div_mult_mod_eq)
  moreover have "0 \<le> uint x mod 2 ^ 32" by simp
  ultimately have "uint x div 2 ^ 32 * 2 ^ 32 < 2 ^ 32 * 2 ^ 32" by linarith
  then have "uint (drop_bit 32 x) < 2 ^ 32"
    unfolding d by (simp only: mult_less_cancel_right_pos zero_less_power zero_less_numeral)
  then show ?thesis unfolding set_low32_def by (simp only: uint_halves d)
qed


lemma demo_bz_started:
  obtains s w c where "deflateInitCB_bzip2 demo_bz 9 demo_stream bz_world = Inr (0, s, w)"
    and "load as_bzip2 (ud s) w = Inr c" and "ud s = 1" and "lib w = [(1, 1)]" and "allocs w = 1"
    and "\<forall>k. \<not> oom w k" and "state_bz (bzstr c) = 1" and "avail_in_bz (bzstr c) = 0"
    and "avail_out_bz (bzstr c) = 0"
  by (simp add: deflateInitCB_bzip2_def bzip2_allocate_def malloc_ok bzip2_deflateInit_def
      map_error_bzip2_def Let_def load_def deref_def resetBzip2_def demo_bz_def demo_bz_init_def)




text \<open>
  C35: \<open>compress\<close> passes the 64-bit \<open>*destLen\<close> to libbz2 as 32 bits, and the length of the input
  is cut to 32 bits too.  When libbz2 writes \<open>k\<close> bytes, the reported length is \<open>k\<close> if and only if the
  given capacity was below 4 GiB; otherwise it is larger by the whole multiple of 4 GiB in
  the capacity.
\<close>

theorem bzip2_compress_destLen:
  assumes "BZ2_bzBuffToBuffCompress L dest (Some (low32 cap)) src (ucast n) levelMax_bzip2 0 0 (bytes w)
      = (BZ_OK L, Some k, m)"
  shows "\<exists>len. compressCB_bzip2 L dest (Some cap) src n w = (UNIZIP_OK, Some len, w\<lparr>bytes := m\<rparr>) \<and>
    uint len = uint cap div 2 ^ 32 * 2 ^ 32 + uint k \<and> (uint len = uint k \<longleftrightarrow> uint cap < 2 ^ 32)"
proof -
  have "compressCB_bzip2 L dest (Some cap) src n w = (0, Some (set_low32 cap k), w\<lparr>bytes := m\<rparr>)"
    using assms by (simp add: compressCB_bzip2_def bzip2_compress_def through_low32_def map_error_bzip2_def)
  moreover have "uint cap div 2 ^ 32 = 0 \<longleftrightarrow> uint cap < 2 ^ 32"
    using zdiv_eq_0_iff [of "uint cap" "2 ^ 32"] by (auto simp: not_le dest: order_trans [of _ 0])
  ultimately show ?thesis by (simp add: set_low32_exact)
qed

theorem bzip2_compress_destLen_witness:
  "\<exists>len w'. compressCB_bzip2 demo_bz 2000 (Some 4294967396) 1000 3 bz_world = (0, Some len, w') \<and>
     uint len = 4294967300"
proof -
  have "BZ2_bzBuffToBuffCompress demo_bz 2000 (Some (low32 4294967396)) 1000 (ucast (3 :: uLong)) 9 0 0 (bytes bz_world)
      = (BZ_OK demo_bz, Some 4, write_mem (bytes bz_world) 2000 (0 # read_mem (bytes bz_world) 1000 3))"
    by (simp add: demo_bz_def low32_def unsigned_numeral)
  from bzip2_compress_destLen [OF this] show ?thesis by auto
qed

lemma quarter_bound: "k div 4 < k div 100 + 600 \<longleftrightarrow> k < (2496 :: nat)"
proof -
  obtain q a b where k: "k = 100 * q + 4 * a + b" and ab: "a < 25" "b < 4"
  proof
    show "k = 100 * (k div 100) + 4 * (k mod 100 div 4) + k mod 100 mod 4" by simp
  qed simp_all
  have "k div 4 = 25 * q + a" "k div 100 = q" using ab by (simp_all add: k)
  moreover have "24 * q + a < 600 \<longleftrightarrow> 100 * q + 4 * a + b < 2496"
  proof
    assume l: "24 * q + a < 600"
    then consider "q \<le> 23" | "q = 24" by linarith
    then show "100 * q + 4 * a + b < 2496" using l ab by cases linarith+
  next
    assume "100 * q + 4 * a + b < 2496"
    then have "q \<le> 23 \<or> q = 24 \<and> a < 24" by linarith
    with ab show "24 * q + a < 600" by auto
  qed
  ultimately show ?thesis by (simp add: k)
qed

text \<open>
  For inputs of less than \<open>2 ^ 50\<close> bytes \<open>compressBound\<close> computes exactly \<open>n + n div 4\<close>
  in spite of its floating-point arithmetic; that is below the \<open>n + n div 100 + 600\<close> which
  libbz2 documents as needed, for every input shorter than 2496 bytes.
\<close>

theorem bzip2_compressBound_small:
  assumes "unat n < 2 ^ 50"
  shows "ensures (compressBoundCB_bzip2 n) (\<lambda>b. unat b = unat n + unat n div 4 \<and>
    (unat b < unat n + unat n div 100 + 600 \<longleftrightarrow> unat n < 2496))"
proof -
  have q: "nearest 125 100 = 5 * 2 ^ 198" by (rule nearest_exact) simp_all
  have d: "d_mult (d_of_ulong n) (nearest 125 100) = (5 * unat n) * 2 ^ 198"
    unfolding d_mult_def q using assms by (intro nearest_exact) (simp_all add: d_of_ulong_exact)
  have v: "(5 * unat n) * 2 ^ 198 div 2 ^ 200 = unat n + unat n div 4" by simp
  have small: "unat n + unat n div 4 < 2 ^ 64" using assms by simp
  then have b: "unat (of_nat (unat n + unat n div 4) :: uLong) = unat n + unat n div 4"
    by (simp only: unat_of_nat) simp
  then have "\<not> (of_nat (unat n + unat n div 4) :: uLong) < n"
    by (simp only: word_less_nat_alt)
  then have "compressBoundCB_bzip2 n = Inr (of_nat (unat n + unat n div 4))"
    using small by (simp only: compressBoundCB_bzip2_def bzip2_compressBound_def d ulong_of_d_def Let_def v
        if_True andthen_Inr if_False)
  moreover have "unat n div 4 < unat n div 100 + 600 \<longleftrightarrow> unat n < 2496" by (rule quarter_bound)
  ultimately show ?thesis by (simp only: b ensures_Inr) simp
qed

theorem bzip2_compressBound_small_witness:
  "ensures (compressBoundCB_bzip2 1000) (\<lambda>b. unat b = 1250 \<and> unat b < 1000 + 10 + 600)"
  using bzip2_compressBound_small [of 1000] by simp


section \<open>One-shot calls\<close>

definition bzip2_enc :: "'l bz_lib \<Rightarrow> codec" where
  "bzip2_enc L dst cap src n m =
     (case BZ2_bzBuffToBuffCompress L dst (Some (ucast cap)) src (ucast n) levelMax_bzip2 0 0 m of
        (r, Some len, m) \<Rightarrow> if r = BZ_OK L then Some (ucast len, m) else None | _ \<Rightarrow> None)"

definition bzip2_dec :: "'l bz_lib \<Rightarrow> codec" where
  "bzip2_dec L dst cap src n m =
     (case BZ2_bzBuffToBuffDecompress L dst (Some (ucast cap)) src (ucast n) 0 0 m of
        (r, Some len, m) \<Rightarrow> if r = BZ_OK L then Some (ucast len, m) else None | _ \<Rightarrow> None)"

text \<open>The one-shot function keeps the length behind the pointer and returns none of the codes of a stream in progress.\<close>

definition bz_shot_codes :: "'l bz_lib \<Rightarrow> bool" where
  "bz_shot_codes L \<longleftrightarrow> (\<forall>dst cap src n lv vb wk m r len m'.
     BZ2_bzBuffToBuffCompress L dst (Some cap) src n lv vb wk m = (r, len, m') \<longrightarrow>
     len \<noteq> None \<and> (r = BZ_OK L \<or> r \<notin> {BZ_RUN_OK L, BZ_FLUSH_OK L, BZ_FINISH_OK L}))"

lemma set_low32_small: "uint x < 2 ^ 31 \<Longrightarrow> set_low32 x y = ucast y"
  by (rule word_uint_eqI) (simp add: set_low32_exact unsigned_ucast_eq take_bit_int_eq_self)

lemma map_error_bzip2_ok:
  "map_error_bzip2 L r = UNIZIP_OK \<longleftrightarrow> r \<in> {BZ_FINISH_OK L, BZ_FLUSH_OK L, BZ_OK L, BZ_RUN_OK L}"
  by (simp add: map_error_bzip2_def)

interpretation bzip2_shots: one_shot "bz_shot_codes L" 0 "\<lambda>_ _. True" "bzip2_enc L" "bzip2_dec L"
  "sure (compressCB_bzip2 L)" "sure (uncompressCB_bzip2 L)" for L
proof unfold_locales
  fix dest source n cap len :: uLong and w w' :: "'a world"
  assume ok: "bz_shot_codes L" and cap: "uint cap < 2 ^ 31"
    and c: "sure (compressCB_bzip2 L) dest (Some cap) source n w = Inr (UNIZIP_OK, Some len, w')"
  obtain r k m where b: "BZ2_bzBuffToBuffCompress L dest (Some (ucast cap)) source (ucast n) 9 0 0 (bytes w) = (r, k, m)"
    by (metis prod_cases3)
  with ok obtain k' where "k = Some k'" "r = BZ_OK L \<or> r \<notin> {BZ_RUN_OK L, BZ_FLUSH_OK L, BZ_FINISH_OK L}"
    unfolding bz_shot_codes_def by blast
  with b c show "bzip2_enc L dest (cap + 0) source n (bytes w) = Some (len + 0, bytes w')"
    by (auto simp: sure_def compressCB_bzip2_def bzip2_compress_def bzip2_enc_def map_error_bzip2_ok low32_def
        through_low32_def set_low32_small [OF cap])
next
  fix dest source n cap len :: uLong and w :: "'a world" and m
  assume cap: "uint cap < 2 ^ 31" and d: "bzip2_dec L dest cap source (len + 0) (bytes w) = Some (n, m)"
  then show "\<exists>w'. sure (uncompressCB_bzip2 L) dest (Some cap) source len w = Inr (UNIZIP_OK, Some n, w') \<and> bytes w' = m"
    by (auto simp: sure_def uncompressCB_bzip2_def bzip2_decompress_def bzip2_dec_def map_error_bzip2_ok low32_def
        through_low32_def set_low32_small [OF cap] split: prod.splits option.splits if_splits)
qed


section \<open>Streams\<close>

text \<open>
  What the manual of libbz2 documents of the data.  \<open>codes p h l xs ys\<close>: the coder \<open>h\<close> initialised
  at \<open>p\<close> has consumed \<open>xs\<close> and produced \<open>ys\<close>.  A call that makes progress (a code of \<open>prog\<close>)
  consumes bytes from \<open>next_in\<close> on and writes bytes from \<open>next_out\<close> on, no more than offered, and
  counts both; a new coder has done nothing; the end of the stream means that the two are an
  input and its \<open>.bz2\<close> file, \<open>bunzip2\<close> being the decoding of the format.
\<close>

definition bz_counts :: "bz_stream \<Rightarrow> uLong \<times> uLong" where
  "bz_counts st = (bzip2_totalsize (total_in_hi32 st) (total_in_lo32 st), bzip2_totalsize (total_out_hi32 st) (total_out_lo32 st))"

definition bz_streams ::
  "'l bz_lib \<Rightarrow> int set \<Rightarrow> (byte list \<Rightarrow> byte list \<Rightarrow> bool) \<Rightarrow> (ptr \<Rightarrow> ptr \<Rightarrow> 'l \<Rightarrow> byte list \<Rightarrow> byte list \<Rightarrow> bool) \<Rightarrow>
   (ptr \<Rightarrow> bz_stream \<Rightarrow> mem \<Rightarrow> 'l \<Rightarrow> (int \<times> bz_stream \<times> mem \<times> 'l) res) \<Rightarrow> bool" where
  "bz_streams L prog complete codes f \<longleftrightarrow> (\<forall>p st m l r st' m' l' xs ys. codes p (state_bz st) l xs ys \<longrightarrow>
     f p st m l = Inr (r, st', m', l') \<longrightarrow>
     (r \<in> prog \<longrightarrow> (\<exists>k vs. k \<le> unat (avail_in_bz st) \<and> length vs \<le> unat (avail_out_bz st) \<and> state_bz st' = state_bz st \<and>
        bz_counts st' = (fst (bz_counts st) + of_nat k, snd (bz_counts st) + of_nat (length vs)) \<and>
        m' = write_mem m (next_out_bz st) vs \<and> codes p (state_bz st) l' (xs @ read_mem m (next_in_bz st) k) (ys @ vs) \<and>
        (r = BZ_STREAM_END L \<longrightarrow> complete (xs @ read_mem m (next_in_bz st) k) (ys @ vs)))) \<and>
     (r \<notin> prog \<longrightarrow> r \<notin> {BZ_OK L, BZ_RUN_OK L, BZ_FLUSH_OK L, BZ_FINISH_OK L, BZ_STREAM_END L}))"

definition bz_starts ::
  "'l bz_lib \<Rightarrow> (ptr \<Rightarrow> ptr \<Rightarrow> 'l \<Rightarrow> byte list \<Rightarrow> byte list \<Rightarrow> bool) \<Rightarrow> ptr \<Rightarrow> int \<times> bz_stream \<times> 'l \<Rightarrow> bool" where
  "bz_starts L codes p = (\<lambda>(r, st', l').
     (r = BZ_OK L \<longrightarrow> codes p (state_bz st') l' [] [] \<and> bz_counts st' = (0, 0)) \<and>
     (r \<noteq> BZ_OK L \<longrightarrow> r \<notin> {BZ_RUN_OK L, BZ_FLUSH_OK L, BZ_FINISH_OK L}))"

definition bz_encodes ::
  "'l bz_lib \<Rightarrow> (byte list \<Rightarrow> byte list option) \<Rightarrow> (ptr \<Rightarrow> ptr \<Rightarrow> 'l \<Rightarrow> byte list \<Rightarrow> byte list \<Rightarrow> bool) \<Rightarrow> bool" where
  "bz_encodes L bunzip2 codes \<longleftrightarrow>
     (\<forall>a. bz_streams L {BZ_RUN_OK L, BZ_FINISH_OK L, BZ_STREAM_END L} (\<lambda>xs ys. bunzip2 ys = Some xs) codes
        (\<lambda>p st. BZ2_bzCompress L p st a)) \<and>
     (\<forall>p st lv vb wk l. bz_starts L codes p (BZ2_bzCompressInit L p st lv vb wk l))"

definition bz_decodes ::
  "'l bz_lib \<Rightarrow> (byte list \<Rightarrow> byte list option) \<Rightarrow> (ptr \<Rightarrow> ptr \<Rightarrow> 'l \<Rightarrow> byte list \<Rightarrow> byte list \<Rightarrow> bool) \<Rightarrow> bool" where
  "bz_decodes L bunzip2 codes \<longleftrightarrow>
     bz_streams L {BZ_OK L, BZ_STREAM_END L} (\<lambda>xs ys. bunzip2 xs = Some ys) codes (BZ2_bzDecompress L) \<and>
     (\<forall>p st vb sm l. bz_starts L codes p (BZ2_bzDecompressInit L p st vb sm l))"

definition bzip2_coding ::
  "(ptr \<Rightarrow> ptr \<Rightarrow> 'l \<Rightarrow> byte list \<Rightarrow> byte list \<Rightarrow> bool) \<Rightarrow> unizip_stream \<Rightarrow> 'l world \<Rightarrow> byte list \<Rightarrow> byte list \<Rightarrow> bool" where
  "bzip2_coding codes s w xs ys \<longleftrightarrow> (\<exists>c. load as_bzip2 (ud s) w = Inr c \<and> codes (ud s) (state_bz (bzstr c)) (lib w) xs ys \<and>
     bz_counts (bzstr c) = (total_in s, total_out s))"

lemma bzip2_coding_refill:
  "bzip2_coding codes s w xs ys \<Longrightarrow> bzip2_coding codes (apply_refill rf s) (refill_world rf w) xs ys"
  by (cases rf) (simp_all add: bzip2_coding_def)

lemma bzip2_codes:
  "map_error_bzip2 L r = UNIZIP_STREAM_END \<Longrightarrow> r = BZ_STREAM_END L"
  "map_error_bzip2 L r = UNIZIP_OK \<or> map_error_bzip2 L r = UNIZIP_STREAM_END \<Longrightarrow>
     r \<in> {BZ_OK L, BZ_RUN_OK L, BZ_FLUSH_OK L, BZ_FINISH_OK L, BZ_STREAM_END L}"
  by (auto simp: map_error_bzip2_def split: if_splits)

lemma bzip2_offer_fields [simp]:
  "next_in_bz (bzip2_deflate_offer L a c) = next_in_bzip2 c" "next_out_bz (bzip2_deflate_offer L a c) = next_out_bzip2 c"
  "bz_counts (bzip2_deflate_offer L a c) = bz_counts (bzstr c)"
  "next_in_bz (bzip2_inflate_offer c) = next_in_bzip2 c" "next_out_bz (bzip2_inflate_offer c) = next_out_bzip2 c"
  "bz_counts (bzip2_inflate_offer c) = bz_counts (bzstr c)"
  by (simp_all add: bzip2_deflate_offer_def bzip2_inflate_offer_def bz_counts_def Let_def)

lemma bzip2_account_totals:
  "total_in_bzip2 (bzip2_account c) = fst (bz_counts (bzstr c))" "total_out_bzip2 (bzip2_account c) = snd (bz_counts (bzstr c))"
  by (simp_all add: bzip2_account_def bz_counts_def Let_def)

text \<open>The common part of \<open>bzip2_deflate_eq\<close> and \<open>bzip2_inflate_eq\<close>: a call of the library and its accounting.\<close>

definition bzip2_use ::
  "'l bz_lib \<Rightarrow> int set \<Rightarrow> (ptr \<Rightarrow> bz_stream \<Rightarrow> mem \<Rightarrow> 'l \<Rightarrow> (int \<times> bz_stream \<times> mem \<times> 'l) res) \<Rightarrow> bz_stream \<Rightarrow> bzip2_ctx \<Rightarrow>
   'l stream_op" where
  "bzip2_use L prog f st c s w = andthen (f (ud s) st (bytes w) (lib w)) (\<lambda>(r, st, m, l).
     let c' = (bzip2_pull s c)\<lparr>bzstr := st\<rparr>; c' = (if r \<in> prog then bzip2_account c' else c')
     in Inr (map_error_bzip2 L r, bzip2_push c' s, store (ud s) (Bzip2_obj c') (w\<lparr>bytes := m, lib := l\<rparr>)))"

lemma bzip2_use_streams:
  assumes lib: "bz_streams L prog complete codes f" and c: "load as_bzip2 (ud s) w = Inr c"
    and inv: "codes (ud s) (state_bz (bzstr c)) (lib w) xs ys"
    and st: "state_bz st = state_bz (bzstr c)" "next_in_bz st = next_in s" "next_out_bz st = next_out s"
      "bz_counts st = (total_in s, total_out s)"
    and use: "bzip2_use L prog f st c s w = Inr (r, s', w')" and good: "r = UNIZIP_OK \<or> r = UNIZIP_STREAM_END"
  shows "bzip2_coding codes s' w' (xs @ consumed s w s') (ys @ produced s s' w') \<and>
    (r = UNIZIP_STREAM_END \<longrightarrow> complete (xs @ consumed s w s') (ys @ produced s s' w'))"
proof -
  from use obtain r0 st' m l where code: "f (ud s) st (bytes w) (lib w) = Inr (r0, st', m, l)"
    and r: "r = map_error_bzip2 L r0"
    and out: "r0 \<in> prog \<Longrightarrow> s' = bzip2_push (bzip2_account ((bzip2_pull s c)\<lparr>bzstr := st'\<rparr>)) s \<and>
      w' = store (ud s) (Bzip2_obj (bzip2_account ((bzip2_pull s c)\<lparr>bzstr := st'\<rparr>))) (w\<lparr>bytes := m, lib := l\<rparr>)"
    by (auto simp: bzip2_use_def andthen_eq_Inr Let_def)
  note law = lib [unfolded bz_streams_def, rule_format, OF inv [folded st(1)] code]
  have prog: "r0 \<in> prog" using law bzip2_codes(2) [of L r0] good by (auto simp: r)
  then obtain k vs where k: "k \<le> unat (avail_in_bz st)" "length vs \<le> unat (avail_out_bz st)"
    and st': "state_bz st' = state_bz (bzstr c)" "bz_counts st' = (total_in s + of_nat k, total_out s + of_nat (length vs))"
    and m: "m = write_mem (bytes w) (next_out s) vs"
    and new: "codes (ud s) (state_bz (bzstr c)) l (xs @ read_mem (bytes w) (next_in s) k) (ys @ vs)"
      "r0 = BZ_STREAM_END L \<longrightarrow> complete (xs @ read_mem (bytes w) (next_in s) k) (ys @ vs)"
    using law by (auto simp: st)
  have small: "k < 2 ^ 64" "length vs < 2 ^ 64"
    using k unat_uInt [of "avail_in_bz st"] unat_uInt [of "avail_out_bz st"] by linarith+
  have "next_in s' = next_in s + of_nat k" "next_out s' = next_out s + of_nat (length vs)" "bytes w' = write_mem (bytes w) (next_out s) vs"
    using out [OF prog] by (simp_all add: bzip2_account_totals st' bzip2_push_def bzip2_pull_def m)
  with small have io: "consumed s w s' = read_mem (bytes w) (next_in s) k" "produced s s' w' = vs"
    by (simp_all add: consumed_moved produced_moved)
  have "bzip2_coding codes s' w' (xs @ read_mem (bytes w) (next_in s) k) (ys @ vs)"
    using out [OF prog] new(1) load_nonnull [OF c] by (simp add: bzip2_coding_def bzip2_account_totals st' bzip2_push_def)
  with new(2) bzip2_codes(1) [of L r0] show ?thesis by (simp add: io r)
qed

lemma bzip2_deflate_streams:
  assumes lib: "\<forall>a. bz_streams L {BZ_RUN_OK L, BZ_FINISH_OK L, BZ_STREAM_END L} complete codes (\<lambda>p st. BZ2_bzCompress L p st a)"
    and inv: "bzip2_coding codes s w xs ys" and d: "deflateCB_bzip2 L f s w = Inr (r, s', w')"
    and good: "r = UNIZIP_OK \<or> r = UNIZIP_STREAM_END"
  shows "bzip2_coding codes s' w' (xs @ consumed s w s') (ys @ produced s s' w') \<and>
    (r = UNIZIP_STREAM_END \<longrightarrow> complete (xs @ consumed s w s') (ys @ produced s s' w'))"
proof -
  from inv obtain c where c: "load as_bzip2 (ud s) w = Inr c" "codes (ud s) (state_bz (bzstr c)) (lib w) xs ys"
    "bz_counts (bzstr c) = (total_in s, total_out s)" by (auto simp: bzip2_coding_def)
  let ?a = "if f = 4 then BZ_FINISH L else BZ_RUN L"
  show ?thesis
    by (rule bzip2_use_streams [OF lib [rule_format, of ?a] c(1,2), where st = "bzip2_deflate_offer L ?a (bzip2_pull s c)"])
      (use d good in \<open>simp_all add: bzip2_deflate_eq [OF c(1) refl] bzip2_use_def c(3) bzip2_pull_def bzip2_progress_def\<close>)
qed

lemma bzip2_inflate_streams:
  assumes lib: "bz_streams L {BZ_OK L, BZ_STREAM_END L} complete codes (BZ2_bzDecompress L)"
    and inv: "bzip2_coding codes s w xs ys" and d: "inflateCB_bzip2 L f s w = Inr (r, s', w')"
    and good: "r = UNIZIP_OK \<or> r = UNIZIP_STREAM_END"
  shows "bzip2_coding codes s' w' (xs @ consumed s w s') (ys @ produced s s' w') \<and>
    (r = UNIZIP_STREAM_END \<longrightarrow> complete (xs @ consumed s w s') (ys @ produced s s' w'))"
proof -
  from inv obtain c where c: "load as_bzip2 (ud s) w = Inr c" "codes (ud s) (state_bz (bzstr c)) (lib w) xs ys"
    "bz_counts (bzstr c) = (total_in s, total_out s)" by (auto simp: bzip2_coding_def)
  show ?thesis
    by (rule bzip2_use_streams [OF lib c(1,2), where st = "bzip2_inflate_offer (bzip2_pull s c)"])
      (use d good in \<open>simp_all add: bzip2_inflate_eq [OF c(1)] bzip2_use_def c(3) bzip2_pull_def\<close>)
qed

lemma bzip2_init_streams:
  shows "\<forall>p st lv vb wk l. bz_starts L codes p (BZ2_bzCompressInit L p st lv vb wk l) \<Longrightarrow>
      deflateInitCB_bzip2 L level s w = Inr (UNIZIP_OK, s', w') \<Longrightarrow> bzip2_coding codes s' w' [] []"
    and "\<forall>p st vb sm l. bz_starts L codes p (BZ2_bzDecompressInit L p st vb sm l) \<Longrightarrow>
      inflateInitCB_bzip2 L s w = Inr (UNIZIP_OK, s', w') \<Longrightarrow> bzip2_coding codes s' w' [] []"
proof -
  obtain p w1 where m: "bzip2_allocate L w = (p, w1)" by fastforce
  have started: "r = BZ_OK L" if "bz_starts L codes p (r, st, l)" "map_error_bzip2 L r = 0" for r st l
    using that by (auto simp: bz_starts_def map_error_bzip2_def split: if_splits)
  { assume st: "\<forall>p st lv vb wk l. bz_starts L codes p (BZ2_bzCompressInit L p st lv vb wk l)"
      and i: "deflateInitCB_bzip2 L level s w = Inr (UNIZIP_OK, s', w')"
    from i m have p: "p \<noteq> 0" "ud s' = p" "total_in s' = 0" "total_out s' = 0" and d: "bzip2_deflateInit L p level w1 = Inr (0, w')"
      by (auto simp: deflateInitCB_bzip2_def resetBzip2_def Let_def andthen_eq_Inr split: if_splits)
    from d obtain c0 where c0: "load as_bzip2 p w1 = Inr c0" by (auto simp: bzip2_deflateInit_def andthen_eq_Inr)
    let ?st = "(bzstr c0)\<lparr>avail_in_bz := 0, next_in_bz := 0, avail_out_bz := 0, next_out_bz := 0\<rparr>"
    from d c0 obtain lv r st1 l where
      e: "BZ2_bzCompressInit L p ?st lv 0 0 (lib w1) = (r, st1, l)" "map_error_bzip2 L r = 0"
      and w': "w' = store p (Bzip2_obj (c0\<lparr>bzstr := st1\<rparr>)) (w1\<lparr>lib := l\<rparr>)"
      by (auto simp: bzip2_deflateInit_def Let_def split: prod.splits)
    from st e(1) have b: "bz_starts L codes p (r, st1, l)" by metis
    with started [OF b e(2)] show "bzip2_coding codes s' w' [] []" using p by (simp add: bzip2_coding_def bz_starts_def w') }
  assume st: "\<forall>p st vb sm l. bz_starts L codes p (BZ2_bzDecompressInit L p st vb sm l)"
    and i: "inflateInitCB_bzip2 L s w = Inr (UNIZIP_OK, s', w')"
  from i m have p: "p \<noteq> 0" "ud s' = p" "total_in s' = 0" "total_out s' = 0" and d: "bzip2_inflateInit L p w1 = Inr (0, w')"
    by (auto simp: inflateInitCB_bzip2_def resetBzip2_def Let_def andthen_eq_Inr split: if_splits)
  from d obtain c0 where c0: "load as_bzip2 p w1 = Inr c0" by (auto simp: bzip2_inflateInit_def andthen_eq_Inr)
  let ?st = "(bzstr c0)\<lparr>avail_in_bz := 0, next_in_bz := 0, avail_out_bz := 0, next_out_bz := 0\<rparr>"
  from d c0 obtain r st1 l where
    e: "BZ2_bzDecompressInit L p ?st 0 0 (lib w1) = (r, st1, l)" "map_error_bzip2 L r = 0"
    and w': "w' = store p (Bzip2_obj (c0\<lparr>bzstr := st1\<rparr>)) (w1\<lparr>lib := l\<rparr>)"
    by (auto simp: bzip2_inflateInit_def Let_def split: prod.splits)
  from st e(1) have b: "bz_starts L codes p (r, st1, l)" by metis
  with started [OF b e(2)] show "bzip2_coding codes s' w' [] []" using p by (simp add: bzip2_coding_def bz_starts_def w')
qed

interpretation bzip2_encoding: streaming "bz_encodes L bunzip2 codes" "\<lambda>xs ys. bunzip2 ys = Some xs"
  "deflateInitCB_bzip2 L" "deflateCB_bzip2 L" "bzip2_coding codes" for L bunzip2 codes
proof unfold_locales
  fix xs ys f r s s' w w'
  assume "bz_encodes L bunzip2 codes" "bzip2_coding codes s w xs ys" "deflateCB_bzip2 L f s w = Inr (r, s', w')"
    "r = UNIZIP_OK \<or> r = UNIZIP_STREAM_END"
  then show "bzip2_coding codes s' w' (xs @ consumed s w s') (ys @ produced s s' w') \<and>
      (r = UNIZIP_STREAM_END \<longrightarrow> bunzip2 (ys @ produced s s' w') = Some (xs @ consumed s w s'))"
    using bzip2_deflate_streams unfolding bz_encodes_def by blast
qed (auto simp: bz_encodes_def intro: bzip2_init_streams bzip2_coding_refill)

interpretation bzip2_decoding: streaming "bz_decodes L bunzip2 codes" "\<lambda>xs ys. bunzip2 xs = Some ys"
  "\<lambda>level. inflateInitCB_bzip2 L" "inflateCB_bzip2 L" "bzip2_coding codes" for L bunzip2 codes
proof unfold_locales
  fix xs ys f r s s' w w'
  assume "bz_decodes L bunzip2 codes" "bzip2_coding codes s w xs ys" "inflateCB_bzip2 L f s w = Inr (r, s', w')"
    "r = UNIZIP_OK \<or> r = UNIZIP_STREAM_END"
  then show "bzip2_coding codes s' w' (xs @ consumed s w s') (ys @ produced s s' w') \<and>
      (r = UNIZIP_STREAM_END \<longrightarrow> bunzip2 (xs @ consumed s w s') = Some (ys @ produced s s' w'))"
    using bzip2_inflate_streams unfolding bz_decodes_def by blast
qed (auto simp: bz_decodes_def intro: bzip2_init_streams bzip2_coding_refill)

end
