(* ===== verification/Cstrings.thy ===== *)
theory Cstrings
  imports Prelude "HOL-Library.Char_ord"
begin

text \<open>
  The C string functions the sources call: \<open>snprintf\<close> into a character buffer (for the
  brotli version string) and \<open>atoi\<close> (for the environment variable that selects the
  library).  A buffer is the list of all its characters; the string it holds ends before
  its first \<open>NUL\<close>.
\<close>

abbreviation NUL :: char where "NUL \<equiv> CHR 0x00"

definition c_string :: "string \<Rightarrow> string" where
  "c_string buf = takeWhile (\<lambda>c. c \<noteq> NUL) buf"

definition digit :: "nat \<Rightarrow> char" where
  "digit n = char_of (48 + n)"

fun decimal :: "nat \<Rightarrow> string" where
  "decimal n = (if n < 10 then [digit n] else decimal (n div 10) @ [digit (n mod 10)])"

declare decimal.simps [simp del]

text \<open>
  \<open>snprintf\<close> at an offset of a buffer, of a text that is already formatted: at most
  \<open>sz - 1\<close> characters and the terminator are written, nothing if \<open>sz\<close> is 0.
\<close>

definition snprintf :: "string \<Rightarrow> nat \<Rightarrow> uLong \<Rightarrow> string \<Rightarrow> string res" where
  "snprintf buf off sz txt =
     (if sz = 0 then Inr buf
      else let out = take (unat sz - 1) txt @ [NUL]
           in if off + length out \<le> length buf
              then Inr (take off buf @ out @ drop (off + length out) buf) else Inl OutOfBounds)"

definition is_space :: "char \<Rightarrow> bool" where
  "is_space c \<longleftrightarrow> c = CHR '' '' \<or> (9 \<le> (of_char c :: nat) \<and> (of_char c :: nat) \<le> 13)"

definition is_digit :: "char \<Rightarrow> bool" where
  "is_digit c \<longleftrightarrow> 48 \<le> (of_char c :: nat) \<and> (of_char c :: nat) \<le> 57"

fun digits_value :: "int \<Rightarrow> string \<Rightarrow> int" where
  "digits_value acc [] = acc"
| "digits_value acc (c # cs) =
     (if is_digit c then digits_value (10 * acc + (of_char c - 48)) cs else acc)"

text \<open>A number outside the range of \<open>int\<close> is undefined behaviour of \<open>atoi\<close>.\<close>

definition atoi :: "string \<Rightarrow> int res" where
  "atoi str =
     (let str = dropWhile is_space str;
          v = (case str of [] \<Rightarrow> 0
               | c # cs \<Rightarrow> if c = CHR ''-'' then - digits_value 0 cs
                         else if c = CHR ''+'' then digits_value 0 cs else digits_value 0 str)
      in if - (2 ^ 31) \<le> v \<and> v < 2 ^ 31 then Inr v else Inl Overflow)"

section \<open>Laws\<close>

lemma of_char_digit: "n < 10 \<Longrightarrow> of_char (digit n) = (48 + n :: nat)"
  by (simp add: digit_def)

lemma digit_not_NUL: "n < 10 \<Longrightarrow> digit n \<noteq> NUL"
  by (drule of_char_digit) auto

lemma is_digit_digit: "n < 10 \<Longrightarrow> is_digit (digit n)"
  by (simp add: is_digit_def of_char_digit)

lemma decimal_not_empty [simp]: "decimal n \<noteq> []"
  by (simp add: decimal.simps)

lemma decimal_digits: "c \<in> set (decimal n) \<Longrightarrow> is_digit c \<and> c \<noteq> NUL"
proof (induction n rule: decimal.induct)
  case (1 n)
  show ?case
  proof (cases "n < 10")
    case True
    with 1(2) show ?thesis by (simp add: decimal.simps digit_not_NUL is_digit_digit)
  next
    case False
    with 1(2) have "c \<in> set (decimal (n div 10)) \<or> c = digit (n mod 10)"
      by (auto simp: decimal.simps [of n])
    with 1(1) [OF False] show ?thesis by (auto simp: digit_not_NUL is_digit_digit)
  qed
qed

lemma length_decimal: "n < 10 ^ Suc k \<Longrightarrow> length (decimal n) \<le> Suc k"
proof (induction k arbitrary: n)
  case (Suc k)
  then have "n div 10 < 10 ^ Suc k" by (simp add: div_less_iff_less_mult mult.commute)
  with Suc.IH [OF this] show ?case by (simp add: decimal.simps [of n])
qed (simp add: decimal.simps)

lemma digits_value_append:
  "(\<And>c. c \<in> set xs \<Longrightarrow> is_digit c) \<Longrightarrow> digits_value acc (xs @ ys) = digits_value (digits_value acc xs) ys"
  by (induction xs arbitrary: acc) auto

lemma of_char_digit_int: "n < 10 \<Longrightarrow> of_char (digit n) = (48 + int n)"
  using of_char_digit [of n] by (metis of_nat_add of_nat_of_char of_nat_numeral)

lemma digits_value_decimal: "digits_value 0 (decimal n) = int n"
proof (induction n rule: decimal.induct)
  case (1 n)
  show ?case
  proof (cases "n < 10")
    case True
    then show ?thesis by (simp add: decimal.simps is_digit_digit of_char_digit_int)
  next
    case False
    have "digits_value 0 (decimal n) = digits_value (digits_value 0 (decimal (n div 10))) [digit (n mod 10)]"
      using False by (subst decimal.simps) (simp add: digits_value_append decimal_digits)
    also have "\<dots> = 10 * int (n div 10) + int (n mod 10)"
      using 1 [OF False] by (simp add: is_digit_digit of_char_digit_int)
    finally show ?thesis using mult_div_mod_eq [of 10 n] by linarith
  qed
qed

text \<open>\<open>atoi\<close> reads back what \<open>%d\<close> prints.\<close>

lemma atoi_decimal:
  assumes "n < 2 ^ 31"
  shows "atoi (decimal n) = Inr (int n)"
proof -
  obtain c cs where c: "decimal n = c # cs" by (cases "decimal n") auto
  with decimal_digits [of c n] have d: "is_digit c" by simp
  then have "\<not> is_space c" "c \<noteq> CHR ''-''" "c \<noteq> CHR ''+''"
    by (auto simp: is_digit_def is_space_def)
  then have "atoi (decimal n) = (if - (2 ^ 31) \<le> int n \<and> int n < 2 ^ 31 then Inr (int n) else Inl Overflow)"
    using digits_value_decimal [of n] by (simp add: atoi_def c)
  with assms show ?thesis by simp
qed

end
