(* ===== verification/Brotli.thy ===== *)
theory Brotli
  imports Instances Cstrings
begin

text \<open>
  The brotli back end: \<open>brotli/unizip_algorithm_brotli.c\<close> and
  \<open>brotli/unizip_callback_brotli.c\<close>.  The library is the parameter \<open>brotli_lib\<close>; its
  instances are handles.  The streaming functions take the amounts and pointers the code
  passes by reference and return them updated.  \<open>brotli_indet\<close> and \<open>version_indet\<close> are the
  indeterminate contents of the two blocks the code gets from \<open>malloc\<close>.
\<close>

record 'l brotli_lib =
  BrotliDecoderVersion :: "32 word"
  BROTLI_DEFAULT_QUALITY :: int
  BROTLI_DEFAULT_WINDOW :: int
  BROTLI_DEFAULT_MODE :: int
  BROTLI_OPERATION_PROCESS :: int
  BROTLI_OPERATION_FINISH :: int
  BROTLI_PARAM_QUALITY :: int
  BROTLI_PARAM_LGWIN :: int
  BROTLI_FALSE :: int
  BROTLI_DECODER_RESULT_SUCCESS :: int
  BROTLI_DECODER_RESULT_NEEDS_MORE_INPUT :: int
  BROTLI_DECODER_RESULT_NEEDS_MORE_OUTPUT :: int
  BrotliEncoderCreateInstance :: "'l \<Rightarrow> ptr \<times> 'l"
  BrotliEncoderSetParameter :: "ptr \<Rightarrow> int \<Rightarrow> int \<Rightarrow> 'l \<Rightarrow> (int \<times> 'l) res"
  BrotliEncoderCompressStream :: "ptr \<Rightarrow> int \<Rightarrow> uLong \<Rightarrow> addr \<Rightarrow> uLong \<Rightarrow> addr \<Rightarrow> mem \<Rightarrow> 'l \<Rightarrow>
    (int \<times> uLong \<times> addr \<times> uLong \<times> addr \<times> uLong \<times> mem \<times> 'l) res"
  BrotliEncoderHasMoreOutput :: "ptr \<Rightarrow> 'l \<Rightarrow> int res"
  BrotliEncoderDestroyInstance :: "ptr \<Rightarrow> 'l \<Rightarrow> 'l res"
  BrotliDecoderCreateInstance :: "'l \<Rightarrow> ptr \<times> 'l"
  BrotliDecoderDecompressStream :: "ptr \<Rightarrow> uLong \<Rightarrow> addr \<Rightarrow> uLong \<Rightarrow> addr \<Rightarrow> mem \<Rightarrow> 'l \<Rightarrow>
    (int \<times> uLong \<times> addr \<times> uLong \<times> addr \<times> mem \<times> 'l) res"
  BrotliDecoderIsFinished :: "ptr \<Rightarrow> 'l \<Rightarrow> int res"
  BrotliDecoderDestroyInstance :: "ptr \<Rightarrow> 'l \<Rightarrow> 'l res"
  BrotliEncoderCompress :: "int \<Rightarrow> int \<Rightarrow> int \<Rightarrow> uLong \<Rightarrow> addr \<Rightarrow> uLong option \<Rightarrow> addr \<Rightarrow> mem \<Rightarrow>
    int \<times> uLong option \<times> mem"
  BrotliDecoderDecompress :: "uLong \<Rightarrow> addr \<Rightarrow> uLong option \<Rightarrow> addr \<Rightarrow> mem \<Rightarrow> int \<times> uLong option \<times> mem"
  BrotliEncoderMaxCompressedSize :: "uLong \<Rightarrow> uLong"
  brotli_indet :: brotli_ctx
  version_indet :: "nat \<Rightarrow> char"

abbreviation levelMin_brotli :: int where "levelMin_brotli \<equiv> 0"
abbreviation levelMax_brotli :: int where "levelMax_brotli \<equiv> 11"
abbreviation brotliAction_end :: int where "brotliAction_end \<equiv> 4"

section \<open>The algorithm layer\<close>

definition brotli_map :: "int \<Rightarrow> int" where
  "brotli_map ret = (if ret = 1 then UNIZIP_OK else if ret = 0 then UNIZIP_ERRNO else UNIZIP_ERRNO)"

definition brotli_allocate :: "'l brotli_lib \<Rightarrow> 'l world \<Rightarrow> ptr \<times> 'l world" where
  "brotli_allocate L w = malloc (Brotli_obj (brotli_indet L)) w"

definition brotli_Copy :: "ptr \<Rightarrow> ptr \<Rightarrow> 'l world \<Rightarrow> (int \<times> 'l world) res" where
  "brotli_Copy dest source w =
     (if dest \<noteq> NULL_ptr \<and> source \<noteq> NULL_ptr then
        andthen (load as_brotli source w) (\<lambda>c.
        andthen (load as_brotli dest w) (\<lambda>_.
        Inr (UNIZIP_OK, store dest (Brotli_obj c) w)))
      else Inr (UNIZIP_MEM_ERROR, w))"

text \<open>The assignments that initialisation and end have in common.\<close>

definition brotli_clear :: "'l brotli_lib \<Rightarrow> brotli_ctx \<Rightarrow> brotli_ctx" where
  "brotli_clear L ctx = ctx\<lparr>op_brotli := BROTLI_OPERATION_PROCESS L, next_in_brotli := NULL_addr,
     available_in := 0, next_out_brotli := NULL_addr, available_out := 0, total_out_brotli := 0,
     total_in_brotli := 0, avail_in_temp := 0, avail_out_temp := 0\<rparr>"

definition brotli_deflateInit :: "'l brotli_lib \<Rightarrow> ptr \<Rightarrow> int \<Rightarrow> 'l world \<Rightarrow> (int \<times> 'l world) res" where
  "brotli_deflateInit L p level w =
     (let tmpLevel = (if level > levelMax_brotli \<or> level < levelMin_brotli
                      then BROTLI_DEFAULT_QUALITY L else level)
      in if p = NULL_ptr then Inr (UNIZIP_MEM_ERROR, w)
         else andthen (load as_brotli p w) (\<lambda>ctx.
           let (h, l) = BrotliEncoderCreateInstance L (lib w);
               w = store p (Brotli_obj (brotli_clear L (ctx\<lparr>Enstate := h\<rparr>))) (w\<lparr>lib := l\<rparr>);
               lgwin = BROTLI_DEFAULT_WINDOW L
           in andthen (BrotliEncoderSetParameter L h (BROTLI_PARAM_QUALITY L) tmpLevel (lib w)) (\<lambda>(_, l).
              let w = w\<lparr>lib := l\<rparr>
              in andthen (BrotliEncoderSetParameter L h (BROTLI_PARAM_LGWIN L) lgwin (lib w)) (\<lambda>(_, l).
                 Inr (UNIZIP_OK, w\<lparr>lib := l\<rparr>)))))"

text \<open>
  One call of the encoder with the operation \<open>opr\<close> and the accounting after it, which both
  branches of \<open>brotli_deflate\<close> have.
\<close>

definition brotli_encode ::
  "'l brotli_lib \<Rightarrow> int \<Rightarrow> brotli_ctx \<Rightarrow> 'l world \<Rightarrow> (int \<times> brotli_ctx \<times> 'l world) res" where
  "brotli_encode L opr ctx w =
     (let ctx = ctx\<lparr>op_brotli := opr\<rparr>
      in andthen (BrotliEncoderCompressStream L (Enstate ctx) (op_brotli ctx) (available_in ctx)
                    (next_in_brotli ctx) (available_out ctx) (next_out_brotli ctx) (bytes w) (lib w))
           (\<lambda>(ret, ai, _, ao, no, tot, m, l).
         let ctx = ctx\<lparr>available_in := ai, available_out := ao, next_out_brotli := no, total_out_brotli := tot\<rparr>;
             ctx = ctx\<lparr>next_in_brotli := next_in_brotli ctx + (avail_in_temp ctx - available_in ctx)\<rparr>;
             ctx = ctx\<lparr>total_in_brotli := total_in_brotli ctx + (avail_in_temp ctx - available_in ctx)\<rparr>
         in Inr (ret, ctx, w\<lparr>bytes := m, lib := l\<rparr>)))"

definition brotli_deflate :: "'l brotli_lib \<Rightarrow> ptr \<Rightarrow> int \<Rightarrow> 'l world \<Rightarrow> (int \<times> 'l world) res" where
  "brotli_deflate L p flush w =
     andthen (load as_brotli p w) (\<lambda>ctx.
     let ctx = ctx\<lparr>avail_in_temp := available_in ctx\<rparr>;
         ctx = ctx\<lparr>avail_out_temp := available_out ctx\<rparr>
     in if flush = brotliAction_end then
          andthen (brotli_encode L (BROTLI_OPERATION_FINISH L) ctx w) (\<lambda>(ret, ctx, w).
          let w = store p (Brotli_obj ctx) w
          in andthen (BrotliEncoderHasMoreOutput L (Enstate ctx) (lib w)) (\<lambda>more.
             if more = BROTLI_FALSE L \<and> available_in ctx = 0 then Inr (UNIZIP_STREAM_END, w)
             else Inr (brotli_map ret, w)))
        else if flush = 0 then
          andthen (brotli_encode L (BROTLI_OPERATION_PROCESS L) ctx w) (\<lambda>(ret, ctx, w).
          Inr (brotli_map ret, store p (Brotli_obj ctx) w))
        else Inr (UNIZIP_ERRNO, store p (Brotli_obj ctx) w))"

definition brotli_deflateEnd :: "'l brotli_lib \<Rightarrow> ptr \<Rightarrow> 'l world \<Rightarrow> (int \<times> 'l world) res" where
  "brotli_deflateEnd L p w =
     (if p \<noteq> NULL_ptr then
        andthen (load as_brotli p w) (\<lambda>ctx.
        andthen (BrotliEncoderDestroyInstance L (Enstate ctx) (lib w)) (\<lambda>l.
        let w = store p (Brotli_obj (brotli_clear L ctx)) (w\<lparr>lib := l\<rparr>)
        in andthen (free p w) (\<lambda>w. Inr (UNIZIP_OK, w))))
      else Inr (UNIZIP_OK, w))"

definition brotli_inflateInit :: "'l brotli_lib \<Rightarrow> ptr \<Rightarrow> 'l world \<Rightarrow> (int \<times> 'l world) res" where
  "brotli_inflateInit L p w =
     andthen (load as_brotli p w) (\<lambda>ctx.
     let (h, l) = BrotliDecoderCreateInstance L (lib w);
         ctx = (brotli_clear L (ctx\<lparr>Destate := h\<rparr>))\<lparr>ret_brotli := BROTLI_DECODER_RESULT_NEEDS_MORE_INPUT L\<rparr>
     in Inr (UNIZIP_OK, store p (Brotli_obj ctx) (w\<lparr>lib := l\<rparr>)))"

definition brotli_inflate :: "'l brotli_lib \<Rightarrow> ptr \<Rightarrow> 'l world \<Rightarrow> (int \<times> 'l world) res" where
  "brotli_inflate L p w =
     andthen (load as_brotli p w) (\<lambda>ctx.
     let ctx = ctx\<lparr>avail_in_temp := available_in ctx\<rparr>;
         ctx = ctx\<lparr>avail_out_temp := available_out ctx\<rparr>;
         w = store p (Brotli_obj ctx) w
     in if ret_brotli ctx = BROTLI_DECODER_RESULT_SUCCESS L then
          andthen (BrotliDecoderIsFinished L (Destate ctx) (lib w)) (\<lambda>fin.
          if fin \<noteq> 0 then Inr (UNIZIP_STREAM_END, w) else Inr (UNIZIP_OK, w))
        else if ret_brotli ctx = BROTLI_DECODER_RESULT_NEEDS_MORE_INPUT L \<or>
                ret_brotli ctx = BROTLI_DECODER_RESULT_NEEDS_MORE_OUTPUT L then
          andthen (BrotliDecoderDecompressStream L (Destate ctx) (available_in ctx) (next_in_brotli ctx)
                     (available_out ctx) (next_out_brotli ctx) (bytes w) (lib w))
            (\<lambda>(ret, ai, _, ao, no, m, l).
          let ctx = ctx\<lparr>ret_brotli := ret, available_in := ai, available_out := ao, next_out_brotli := no\<rparr>;
              ctx = ctx\<lparr>total_in_brotli := total_in_brotli ctx + (avail_in_temp ctx - available_in ctx)\<rparr>;
              ctx = ctx\<lparr>next_in_brotli := next_in_brotli ctx + (avail_in_temp ctx - available_in ctx)\<rparr>;
              ctx = ctx\<lparr>total_out_brotli := total_out_brotli ctx + (avail_out_temp ctx - available_out ctx)\<rparr>
          in Inr (UNIZIP_OK, store p (Brotli_obj ctx) (w\<lparr>bytes := m, lib := l\<rparr>)))
        else Inr (UNIZIP_ERRNO, w))"

definition brotli_inflateEnd :: "'l brotli_lib \<Rightarrow> ptr \<Rightarrow> 'l world \<Rightarrow> (int \<times> 'l world) res" where
  "brotli_inflateEnd L p w =
     (if p \<noteq> NULL_ptr then
        andthen (load as_brotli p w) (\<lambda>ctx.
        andthen (BrotliDecoderDestroyInstance L (Destate ctx) (lib w)) (\<lambda>l.
        let ctx = brotli_clear L (ctx\<lparr>ret_brotli := BROTLI_DECODER_RESULT_SUCCESS L\<rparr>);
            w = store p (Brotli_obj ctx) (w\<lparr>lib := l\<rparr>)
        in andthen (free p w) (\<lambda>w. Inr (UNIZIP_OK, w))))
      else Inr (UNIZIP_OK, w))"

definition brotli_compress ::
  "'l brotli_lib \<Rightarrow> addr \<Rightarrow> uLong \<Rightarrow> addr \<Rightarrow> uLong option \<Rightarrow> 'l world \<Rightarrow> int \<times> uLong option \<times> 'l world" where
  "brotli_compress L source sourceLen dest destLen w =
     (let (ret, len, m) = BrotliEncoderCompress L (BROTLI_DEFAULT_QUALITY L) (BROTLI_DEFAULT_WINDOW L)
                            (BROTLI_DEFAULT_MODE L) sourceLen source destLen dest (bytes w)
      in (brotli_map ret, len, w\<lparr>bytes := m\<rparr>))"

definition brotli_decompress ::
  "'l brotli_lib \<Rightarrow> addr \<Rightarrow> uLong \<Rightarrow> addr \<Rightarrow> uLong option \<Rightarrow> 'l world \<Rightarrow> int \<times> uLong option \<times> 'l world" where
  "brotli_decompress L source sourceLen dest destLen w =
     (let (ret, len, m) = BrotliDecoderDecompress L sourceLen source destLen dest (bytes w)
      in (brotli_map ret, len, w\<lparr>bytes := m\<rparr>))"

definition brotli_compressBound :: "'l brotli_lib \<Rightarrow> uLong \<Rightarrow> uLong" where
  "brotli_compressBound L uncompressed_size =
     (let compressed_size = BrotliEncoderMaxCompressedSize L uncompressed_size
      in if compressed_size < uncompressed_size then ULONG_MAX else compressed_size)"

section \<open>The callback layer\<close>

text \<open>
  One of the five \<open>len += snprintf(version + len, sizeof(version) - len, ...)\<close>, where
  \<open>sizeof(version)\<close> is the size of a pointer, 8, and the difference is a \<open>size_t\<close>.
\<close>

definition version_print :: "string \<Rightarrow> string \<times> int \<Rightarrow> (string \<times> int) res" where
  "version_print txt = (\<lambda>(buf, len).
     andthen (snprintf buf (nat len) (8 - word_of_int len) txt) (\<lambda>buf. Inr (buf, len + int (length txt))))"

definition versionCB_brotli :: "'l brotli_lib \<Rightarrow> 'l world \<Rightarrow> (ptr \<times> 'l world) res" where
  "versionCB_brotli L w =
     (let decoderVersion = BrotliDecoderVersion L;
          buf = map (version_indet L) [0..<16];
          (version, w) = malloc (Chars_obj buf) w
      in if version \<noteq> NULL_ptr then
           let major = unat (drop_bit 24 decoderVersion);
               minor = unat (take_bit 12 (drop_bit 12 decoderVersion));
               patch = unat (take_bit 12 decoderVersion)
           in andthen (version_print (decimal major) (buf, 0)) (\<lambda>v.
              andthen (version_print ''.'' v) (\<lambda>v.
              andthen (version_print (decimal minor) v) (\<lambda>v.
              andthen (version_print ''.'' v) (\<lambda>v.
              andthen (version_print (decimal patch) v) (\<lambda>(buf, _).
              Inr (version, store version (Chars_obj buf) w))))))
         else Inr (version, w))"

definition resetBrotli :: "unizip_stream \<Rightarrow> unizip_stream" where
  "resetBrotli strm = strm\<lparr>next_in := NULL_addr, next_out := NULL_addr, avail_in := 0,
     avail_out := 0, total_in := 0, total_out := 0\<rparr>"

definition deflateInitCB_brotli :: "'l brotli_lib \<Rightarrow> int \<Rightarrow> 'l stream_op" where
  "deflateInitCB_brotli L level strm w =
     (let (p, w) = brotli_allocate L w; strm = strm\<lparr>ud := p\<rparr>;
          strm = strm\<lparr>compression_flag := level\<rparr>
      in andthen (brotli_deflateInit L (ud strm) level w) (\<lambda>(ret, w). Inr (ret, resetBrotli strm, w)))"

text \<open>Both stream callbacks copy the stream's six fields into the context and back.\<close>

definition brotli_pull :: "unizip_stream \<Rightarrow> brotli_ctx \<Rightarrow> brotli_ctx" where
  "brotli_pull strm ctx = ctx\<lparr>next_in_brotli := next_in strm, available_in := ucast (avail_in strm),
     next_out_brotli := next_out strm, available_out := ucast (avail_out strm),
     total_in_brotli := total_in strm, total_out_brotli := total_out strm\<rparr>"

definition brotli_push :: "brotli_ctx \<Rightarrow> unizip_stream \<Rightarrow> unizip_stream" where
  "brotli_push ctx strm = strm\<lparr>next_in := next_in_brotli ctx, avail_in := ucast (available_in ctx),
     next_out := next_out_brotli ctx, avail_out := ucast (available_out ctx),
     total_in := total_in_brotli ctx, total_out := total_out_brotli ctx\<rparr>"

definition deflateCB_brotli :: "'l brotli_lib \<Rightarrow> int \<Rightarrow> 'l stream_op" where
  "deflateCB_brotli L flush strm w =
     andthen (load as_brotli (ud strm) w) (\<lambda>ctx.
     andthen (brotli_deflate L (ud strm) flush (store (ud strm) (Brotli_obj (brotli_pull strm ctx)) w))
       (\<lambda>(status, w).
     andthen (load as_brotli (ud strm) w) (\<lambda>ctx.
     Inr (status, brotli_push ctx strm, w))))"

definition deflateEndCB_brotli :: "'l brotli_lib \<Rightarrow> 'l stream_op" where
  "deflateEndCB_brotli L strm w =
     (let ctx = ud strm; strm = resetBrotli strm
      in andthen (brotli_deflateEnd L ctx w) (\<lambda>(ret, w). Inr (ret, strm, w)))"

definition inflateInitCB_brotli :: "'l brotli_lib \<Rightarrow> 'l stream_op" where
  "inflateInitCB_brotli L strm w =
     (let (p, w) = brotli_allocate L w; strm = strm\<lparr>ud := p\<rparr>;
          strm = resetBrotli strm
      in andthen (brotli_inflateInit L (ud strm) w) (\<lambda>(ret, w). Inr (ret, strm, w)))"

text \<open>
  The one callback with a parameter less than the dispatcher passes: there is no \<open>flush\<close>.
\<close>

definition inflateCB_brotli :: "'l brotli_lib \<Rightarrow> 'l stream_op" where
  "inflateCB_brotli L strm w =
     andthen (load as_brotli (ud strm) w) (\<lambda>ctx.
     andthen (brotli_inflate L (ud strm) (store (ud strm) (Brotli_obj (brotli_pull strm ctx)) w))
       (\<lambda>(status, w).
     andthen (load as_brotli (ud strm) w) (\<lambda>ctx.
     Inr (status, brotli_push ctx strm, w))))"

definition inflateEndCB_brotli :: "'l brotli_lib \<Rightarrow> 'l stream_op" where
  "inflateEndCB_brotli L strm w =
     (let ctx = ud strm; strm = resetBrotli strm
      in andthen (brotli_inflateEnd L ctx w) (\<lambda>(ret, w). Inr (ret, strm, w)))"

definition deflateCopyCB_brotli :: "unizip_stream \<Rightarrow> unizip_stream \<Rightarrow> 'l world \<Rightarrow> (int \<times> unizip_stream \<times> 'l world) res" where
  "deflateCopyCB_brotli dest source w =
     andthen (brotli_Copy (ud dest) (ud source) w) (\<lambda>(ret, w). Inr (ret, dest, w))"

definition inflateCopyCB_brotli :: "unizip_stream \<Rightarrow> unizip_stream \<Rightarrow> 'l world \<Rightarrow> (int \<times> unizip_stream \<times> 'l world) res" where
  "inflateCopyCB_brotli dest source w =
     andthen (brotli_Copy (ud dest) (ud source) w) (\<lambda>(ret, w). Inr (ret, dest, w))"

definition deflateResetCB_brotli :: "'l brotli_lib \<Rightarrow> 'l stream_op" where
  "deflateResetCB_brotli L strm w =
     andthen (brotli_deflateEnd L (ud strm) w) (\<lambda>(_, w).
     let (p, w) = brotli_allocate L w; strm = strm\<lparr>ud := p\<rparr>
     in if ud strm = NULL_ptr then Inr (UNIZIP_MEM_ERROR, strm, w)
        else andthen (brotli_deflateInit L (ud strm) (compression_flag strm) w) (\<lambda>(ret, w).
             Inr (ret, strm, w)))"

definition inflateResetCB_brotli :: "'l brotli_lib \<Rightarrow> 'l stream_op" where
  "inflateResetCB_brotli L strm w =
     andthen (brotli_inflateEnd L (ud strm) w) (\<lambda>(_, w).
     let (p, w) = brotli_allocate L w; strm = strm\<lparr>ud := p\<rparr>
     in if ud strm = NULL_ptr then Inr (UNIZIP_MEM_ERROR, strm, w)
        else andthen (brotli_inflateInit L (ud strm) w) (\<lambda>(ret, w). Inr (ret, strm, w)))"

definition compressCB_brotli ::
  "'l brotli_lib \<Rightarrow> addr \<Rightarrow> uLong option \<Rightarrow> addr \<Rightarrow> uLong \<Rightarrow> 'l world \<Rightarrow> int \<times> uLong option \<times> 'l world" where
  "compressCB_brotli L dest destLen source sourceLen w = brotli_compress L source sourceLen dest destLen w"

definition uncompressCB_brotli ::
  "'l brotli_lib \<Rightarrow> addr \<Rightarrow> uLong option \<Rightarrow> addr \<Rightarrow> uLong \<Rightarrow> 'l world \<Rightarrow> int \<times> uLong option \<times> 'l world" where
  "uncompressCB_brotli L dest destLen source sourceLen w = brotli_decompress L source sourceLen dest destLen w"

definition compressBoundCB_brotli :: "'l brotli_lib \<Rightarrow> uLong \<Rightarrow> uLong" where
  "compressBoundCB_brotli L sourceLen = brotli_compressBound L sourceLen"

section \<open>Sessions\<close>

text \<open>
  What \<open>encode.h\<close> and \<open>decode.h\<close> document about instances: creating one gives a fresh handle
  (for the encoder possibly \<open>NULL\<close>, on which \<open>BrotliEncoderSetParameter\<close> may not be called;
  for the decoder the contract supposes that memory suffices), using a live one keeps all,
  destroying removes it.
\<close>

definition brotli_encoders :: "'l brotli_lib \<Rightarrow> ('l \<Rightarrow> ptr set) \<Rightarrow> bool" where
  "brotli_encoders L live \<longleftrightarrow>
     (\<forall>l h l'. BrotliEncoderCreateInstance L l = (h, l') \<longrightarrow>
        h \<noteq> 0 \<longrightarrow> h \<notin> live l \<and> live l' = insert h (live l)) \<and>
     (\<forall>l q v. BrotliEncoderSetParameter L 0 q v l = Inl NullDeref) \<and>
     (\<forall>l h q v. h \<in> live l \<longrightarrow> ensures (BrotliEncoderSetParameter L h q v l) (\<lambda>(r, l'). live l' = live l)) \<and>
     (\<forall>l h opr ai ni ao no m. h \<in> live l \<longrightarrow> ensures (BrotliEncoderCompressStream L h opr ai ni ao no m l)
        (\<lambda>(r, ai', ni', ao', no', tot, m', l'). live l' = live l)) \<and>
     (\<forall>l h. h \<in> live l \<longrightarrow> ensures (BrotliEncoderHasMoreOutput L h l) (\<lambda>_. True)) \<and>
     (\<forall>l h. h \<in> live l \<longrightarrow> ensures (BrotliEncoderDestroyInstance L h l) (\<lambda>l'. live l' = live l - {h}))"

definition brotli_decoders :: "'l brotli_lib \<Rightarrow> ('l \<Rightarrow> ptr set) \<Rightarrow> bool" where
  "brotli_decoders L live \<longleftrightarrow>
     (\<forall>l h l'. BrotliDecoderCreateInstance L l = (h, l') \<longrightarrow> h \<notin> live l \<and> live l' = insert h (live l)) \<and>
     (\<forall>l h ai ni ao no m. h \<in> live l \<longrightarrow> ensures (BrotliDecoderDecompressStream L h ai ni ao no m l)
        (\<lambda>(r, ai', ni', ao', no', m', l'). live l' = live l)) \<and>
     (\<forall>l h. h \<in> live l \<longrightarrow> ensures (BrotliDecoderIsFinished L h l) (\<lambda>_. True)) \<and>
     (\<forall>l h. h \<in> live l \<longrightarrow> ensures (BrotliDecoderDestroyInstance L h l) (\<lambda>l'. live l' = live l - {h}))"

lemma brotli_encodersD:
  assumes "brotli_encoders L live"
  shows "BrotliEncoderCreateInstance L l = (h, l') \<Longrightarrow> h \<noteq> 0 \<Longrightarrow> h \<notin> live l \<and> live l' = insert h (live l)"
    and "BrotliEncoderSetParameter L 0 q v l = Inl NullDeref"
    and "h \<in> live l \<Longrightarrow> ensures (BrotliEncoderSetParameter L h q v l) (\<lambda>(r, l'). live l' = live l)"
    and "h \<in> live l \<Longrightarrow> ensures (BrotliEncoderCompressStream L h opr ai ni ao no m l)
      (\<lambda>(r, ai', ni', ao', no', tot, m', l'). live l' = live l)"
    and "h \<in> live l \<Longrightarrow> ensures (BrotliEncoderHasMoreOutput L h l) (\<lambda>_. True)"
    and "h \<in> live l \<Longrightarrow> ensures (BrotliEncoderDestroyInstance L h l) (\<lambda>l'. live l' = live l - {h})"
  using assms unfolding brotli_encoders_def by (metis (no_types))+

lemma brotli_decodersD:
  assumes "brotli_decoders L live"
  shows "BrotliDecoderCreateInstance L l = (h, l') \<Longrightarrow> h \<notin> live l \<and> live l' = insert h (live l)"
    and "h \<in> live l \<Longrightarrow> ensures (BrotliDecoderDecompressStream L h ai ni ao no m l)
      (\<lambda>(r, ai', ni', ao', no', m', l'). live l' = live l)"
    and "h \<in> live l \<Longrightarrow> ensures (BrotliDecoderIsFinished L h l) (\<lambda>_. True)"
    and "h \<in> live l \<Longrightarrow> ensures (BrotliDecoderDestroyInstance L h l) (\<lambda>l'. live l' = live l - {h})"
  using assms unfolding brotli_decoders_def by (metis (no_types))+

lemma brotli_helpers [simp]:
  "Enstate (brotli_clear L c) = Enstate c" "Destate (brotli_clear L c) = Destate c"
  "Enstate (brotli_pull s c) = Enstate c" "Destate (brotli_pull s c) = Destate c"
  "ret_brotli (brotli_pull s c) = ret_brotli c" "ud (brotli_push c s) = ud s"
  by (simp_all add: brotli_clear_def brotli_pull_def brotli_push_def)

lemma brotli_encode_keeps:
  assumes ok: "brotli_encoders L live" and h: "Enstate c \<in> live (lib w)"
  shows "ensures (brotli_encode L opr c w) (\<lambda>(r, c', w'). Enstate c' = Enstate c \<and>
    live (lib w') = live (lib w) \<and> (\<exists>m l. w' = w\<lparr>bytes := m, lib := l\<rparr>))"
  unfolding brotli_encode_def Let_def
  by (auto intro!: ensures_mono [OF brotli_encodersD(4) [OF ok]] h) blast

lemma brotli_deflate_keeps:
  assumes ok: "brotli_encoders L live" and c: "load as_brotli p w = Inr c" and h: "Enstate c \<in> live (lib w)"
  shows "ensures (brotli_deflate L p f w) (\<lambda>(r, w'). keeps as_brotli p w w' \<and> live (lib w') = live (lib w) \<and>
    (\<exists>c'. load as_brotli p w' = Inr c' \<and> Enstate c' = Enstate c))"
proof -
  note p = load_nonnull [OF c]
  let ?c = "c\<lparr>avail_in_temp := available_in c, avail_out_temp := available_out c\<rparr>"
  have e: "ensures (brotli_encode L opr ?c w) (\<lambda>(r, c', w'). Enstate c' = Enstate c \<and>
    live (lib w') = live (lib w) \<and> (\<exists>m l. w' = w\<lparr>bytes := m, lib := l\<rparr>))" for opr
    using brotli_encode_keeps [OF ok, of ?c w] h by simp
  have more: "ensures (BrotliEncoderHasMoreOutput L (Enstate c) l) (\<lambda>_. True)" if "live l = live (lib w)" for l
    using brotli_encodersD(5) [OF ok] h that by blast
  show ?thesis
  proof (cases "f = 4")
    case True
    then show ?thesis using c p h
      by (auto simp: brotli_deflate_def Let_def ensures_if intro!: ensures_mono [OF e] ensures_mono [OF more])
  next
    case False
    then show ?thesis using c p h
      by (auto simp: brotli_deflate_def Let_def ensures_if intro!: ensures_mono [OF e])
  qed
qed

lemma brotli_inflate_keeps:
  assumes ok: "brotli_decoders L live" and c: "load as_brotli p w = Inr c" and h: "Destate c \<in> live (lib w)"
  shows "ensures (brotli_inflate L p w) (\<lambda>(r, w'). keeps as_brotli p w w' \<and> live (lib w') = live (lib w) \<and>
    (\<exists>c'. load as_brotli p w' = Inr c' \<and> Destate c' = Destate c))"
  using c load_nonnull [OF c] h
  by (auto simp: brotli_inflate_def Let_def ensures_if intro!: ensures_mono [OF brotli_decodersD(2) [OF ok]]
      ensures_mono [OF brotli_decodersD(3) [OF ok]])

lemma brotli_callback_keeps:
  shows "brotli_encoders L live \<Longrightarrow> load as_brotli (ud s) w = Inr c \<Longrightarrow> Enstate c \<in> live (lib w) \<Longrightarrow>
      ensures (deflateCB_brotli L f s w) (\<lambda>(r, s', w'). ud s' = ud s \<and> keeps as_brotli (ud s) w w' \<and>
        live (lib w') = live (lib w) \<and> (\<exists>c'. load as_brotli (ud s) w' = Inr c' \<and> Enstate c' = Enstate c))"
    and "brotli_decoders L live \<Longrightarrow> load as_brotli (ud s) w = Inr c \<Longrightarrow> Destate c \<in> live (lib w) \<Longrightarrow>
      ensures (inflateCB_brotli L s w) (\<lambda>(r, s', w'). ud s' = ud s \<and> keeps as_brotli (ud s) w w' \<and>
        live (lib w') = live (lib w) \<and> (\<exists>c'. load as_brotli (ud s) w' = Inr c' \<and> Destate c' = Destate c))"
proof -
  assume *: "load as_brotli (ud s) w = Inr c"
  let ?w = "store (ud s) (Brotli_obj (brotli_pull s c)) w"
  { assume "brotli_encoders L live" "Enstate c \<in> live (lib w)"
    then show "ensures (deflateCB_brotli L f s w) (\<lambda>(r, s', w'). ud s' = ud s \<and> keeps as_brotli (ud s) w w' \<and>
        live (lib w') = live (lib w) \<and> (\<exists>c'. load as_brotli (ud s) w' = Inr c' \<and> Enstate c' = Enstate c))"
      using * load_nonnull [OF *] brotli_deflate_keeps [of L live "ud s" ?w "brotli_pull s c" f]
      by (auto simp: deflateCB_brotli_def elim!: ensures_mono) }
  assume "brotli_decoders L live" "Destate c \<in> live (lib w)"
  then show "ensures (inflateCB_brotli L s w) (\<lambda>(r, s', w'). ud s' = ud s \<and> keeps as_brotli (ud s) w w' \<and>
      live (lib w') = live (lib w) \<and> (\<exists>c'. load as_brotli (ud s) w' = Inr c' \<and> Destate c' = Destate c))"
    using * load_nonnull [OF *] brotli_inflate_keeps [of L live "ud s" ?w "brotli_pull s c"]
    by (auto simp: inflateCB_brotli_def elim!: ensures_mono)
qed

lemma brotli_allocate_acquires:
  assumes "brotli_allocate L w = (p, w1)" and "p \<noteq> 0" and "wf_heap w"
  shows "acquires as_brotli p w w1 \<and> wf_heap w1 \<and> lib w1 = lib w \<and> holds as_brotli p w1"
  using malloc_acquires [OF assms(1) [unfolded brotli_allocate_def] assms(2,3), of as_brotli] by simp

lemma deflateInitCB_brotli_acquires:
  assumes ok: "brotli_encoders L live" and "wf_heap w"
    and i: "deflateInitCB_brotli L level s w = Inr (UNIZIP_OK, s', w')"
  shows "acquires as_brotli (ud s') w w' \<and> wf_heap w' \<and>
    (\<exists>c. load as_brotli (ud s') w' = Inr c \<and> Enstate c \<notin> live (lib w) \<and>
       live (lib w') = insert (Enstate c) (live (lib w)))"
proof -
  obtain p w1 where m: "brotli_allocate L w = (p, w1)" by fastforce
  from i m have p: "p \<noteq> 0" "ud s' = p" and d: "brotli_deflateInit L p level w1 = Inr (0, w')"
    by (auto simp: deflateInitCB_brotli_def brotli_deflateInit_def resetBrotli_def Let_def
        andthen_eq_Inr split: if_splits)
  note a = brotli_allocate_acquires [OF m p(1) \<open>wf_heap w\<close>]
  from a obtain c0 where c0: "load as_brotli p w1 = Inr c0" by (auto simp: holds_def)
  obtain h l where h: "BrotliEncoderCreateInstance L (lib w) = (h, l)" by fastforce
  from d a c0 h p obtain lv r1 l1 r2 l2 where
    s1: "BrotliEncoderSetParameter L h (BROTLI_PARAM_QUALITY L) lv l = Inr (r1, l1)" and
    s2: "BrotliEncoderSetParameter L h (BROTLI_PARAM_LGWIN L) (BROTLI_DEFAULT_WINDOW L) l1 = Inr (r2, l2)" and
    w': "w' = (store p (Brotli_obj (brotli_clear L (c0\<lparr>Enstate := h\<rparr>))) w1)\<lparr>lib := l2\<rparr>"
    by (auto simp: brotli_deflateInit_def Let_def andthen_eq_Inr)
  have "h \<noteq> 0"
  proof
    assume "h = 0"
    with s1 show False by (simp add: brotli_encodersD(2) [OF ok])
  qed
  from brotli_encodersD(1) [OF ok h this]
  have fresh: "h \<notin> live (lib w)" "live l = insert h (live (lib w))" by simp_all
  with brotli_encodersD(3) [OF ok, of h l "BROTLI_PARAM_QUALITY L" lv] s1 have "live l1 = live l" by simp
  with brotli_encodersD(3) [OF ok, of h l1 "BROTLI_PARAM_LGWIN L" "BROTLI_DEFAULT_WINDOW L"] s2 fresh
  have "live l2 = insert h (live (lib w))" by simp
  with fresh show ?thesis
    using a p by (auto simp: w' intro: acquires_keeps wf_heap_store_holds)
qed

lemma inflateInitCB_brotli_acquires:
  assumes ok: "brotli_decoders L live" and "wf_heap w"
    and i: "inflateInitCB_brotli L s w = Inr (UNIZIP_OK, s', w')"
  shows "acquires as_brotli (ud s') w w' \<and> wf_heap w' \<and>
    (\<exists>c. load as_brotli (ud s') w' = Inr c \<and> Destate c \<notin> live (lib w) \<and>
       live (lib w') = insert (Destate c) (live (lib w)))"
proof -
  obtain p w1 where m: "brotli_allocate L w = (p, w1)" by fastforce
  from i m have ud: "ud s' = p" and d: "brotli_inflateInit L p w1 = Inr (0, w')"
    by (auto simp: inflateInitCB_brotli_def resetBrotli_def Let_def andthen_eq_Inr)
  from d have "p \<noteq> 0"
    by (auto simp: brotli_inflateInit_def andthen_eq_Inr simp del: neq0_conv dest: load_nonnull)
  note p = this ud
  note a = brotli_allocate_acquires [OF m p(1) \<open>wf_heap w\<close>]
  from a obtain c0 where c0: "load as_brotli p w1 = Inr c0" by (auto simp: holds_def)
  obtain h l where h: "BrotliDecoderCreateInstance L (lib w) = (h, l)" by fastforce
  from brotli_decodersD(1) [OF ok h] d a c0 h p show ?thesis
    by (auto simp: brotli_inflateInit_def Let_def intro: acquires_keeps wf_heap_store_holds)
qed

lemma brotli_end_frees:
  shows "brotli_encoders L live \<Longrightarrow> wf_heap w \<Longrightarrow> load as_brotli (ud s) w = Inr c \<Longrightarrow> Enstate c \<in> live (lib w) \<Longrightarrow>
      ensures (deflateEndCB_brotli L s w) (\<lambda>(r, s', w'). wf_heap w' \<and> releases (ud s) w w' \<and>
        live (lib w') = live (lib w) - {Enstate c})"
    and "brotli_decoders L live \<Longrightarrow> wf_heap w \<Longrightarrow> load as_brotli (ud s) w = Inr c \<Longrightarrow> Destate c \<in> live (lib w) \<Longrightarrow>
      ensures (inflateEndCB_brotli L s w) (\<lambda>(r, s', w'). wf_heap w' \<and> releases (ud s) w w' \<and>
        live (lib w') = live (lib w) - {Destate c})"
proof -
  assume *: "wf_heap w" "load as_brotli (ud s) w = Inr c"
  note p = load_nonnull [OF *(2)]
  { assume "brotli_encoders L live" "Enstate c \<in> live (lib w)"
    from brotli_encodersD(6) [OF this] obtain l where
      "BrotliEncoderDestroyInstance L (Enstate c) (lib w) = Inr l" "live l = live (lib w) - {Enstate c}"
      by (auto simp: ensures_def)
    then show "ensures (deflateEndCB_brotli L s w) (\<lambda>(r, s', w'). wf_heap w' \<and> releases (ud s) w w' \<and>
        live (lib w') = live (lib w) - {Enstate c})"
      using * p by (simp add: deflateEndCB_brotli_def brotli_deflateEnd_def Let_def) }
  assume "brotli_decoders L live" "Destate c \<in> live (lib w)"
  from brotli_decodersD(4) [OF this] obtain l where
    "BrotliDecoderDestroyInstance L (Destate c) (lib w) = Inr l" "live l = live (lib w) - {Destate c}"
    by (auto simp: ensures_def)
  then show "ensures (inflateEndCB_brotli L s w) (\<lambda>(r, s', w'). wf_heap w' \<and> releases (ud s) w w' \<and>
      live (lib w') = live (lib w) - {Destate c})"
    using * p by (simp add: inflateEndCB_brotli_def brotli_inflateEnd_def Let_def)
qed

interpretation brotli_deflate: handle_session as_brotli "\<lambda>p. Enstate" live "brotli_encoders L live"
  "deflateInitCB_brotli L" "deflateCB_brotli L" "deflateEndCB_brotli L" for L live
  by (rule handle_session.intro)
    (simp_all add: deflateInitCB_brotli_acquires brotli_callback_keeps brotli_end_frees)

interpretation brotli_inflate: handle_session as_brotli "\<lambda>p. Destate" live "brotli_decoders L live"
  "\<lambda>level. inflateInitCB_brotli L" "\<lambda>f. inflateCB_brotli L" "inflateEndCB_brotli L" for L live
  by (rule handle_session.intro)
    (simp_all add: inflateInitCB_brotli_acquires brotli_callback_keeps brotli_end_frees)

section \<open>Accounting\<close>

text \<open>\<open>decode.h\<close>: the output pointer moves by what the amount of free output decreases.\<close>

definition brotli_decoder_advances :: "'l brotli_lib \<Rightarrow> bool" where
  "brotli_decoder_advances L \<longleftrightarrow> (\<forall>h ai ni ao no m l r ai' ni' ao' no' m' l'.
     BrotliDecoderDecompressStream L h ai ni ao no m l = Inr (r, ai', ni', ao', no', m', l') \<longrightarrow>
     no' = no + (ao - ao'))"

lemma brotli_decoder_advancesD:
  "brotli_decoder_advances L \<Longrightarrow>
   BrotliDecoderDecompressStream L h ai ni ao no m l = Inr (r, ai', ni', ao', no', m', l') \<Longrightarrow>
   no' = no + (ao - ao')"
  unfolding brotli_decoder_advances_def by blast

lemma brotli_inflate_in_step:
  assumes ok: "brotli_decoder_advances L" and i: "inflateCB_brotli L s w = Inr (r, s', w')"
  shows "in_step s s'"
proof -
  from i obtain c where c: "load as_brotli (ud s) w = Inr c" by (auto simp: inflateCB_brotli_def andthen_eq_Inr)
  from i c load_nonnull [OF c] show ?thesis
    by (auto simp: inflateCB_brotli_def brotli_inflate_def Let_def andthen_eq_Inr in_step_def brotli_push_def
        brotli_pull_def dest!: brotli_decoder_advancesD [OF ok] split: if_splits)
qed

interpretation brotli_inflate: accounting "brotli_decoder_advances L" "\<lambda>f. inflateCB_brotli L" for L
  by unfold_locales (rule brotli_inflate_in_step)

section \<open>The version string\<close>

text \<open>
  After printing the text \<open>txt\<close> in pieces, the buffer holds its first seven characters.
\<close>

definition version_inv :: "string \<Rightarrow> string \<times> int \<Rightarrow> bool" where
  "version_inv txt = (\<lambda>(buf, len). len = int (length txt) \<and> length buf = 16 \<and>
     (txt \<noteq> [] \<longrightarrow> take (Suc (min 7 (length txt))) buf = take 7 txt @ [NUL]))"

lemma version_print_inv:
  assumes "version_inv txt (buf, len)" and l: "length txt + length txt2 \<le> 15"
  shows "ensures (version_print txt2 (buf, len)) (version_inv (txt @ txt2))"
proof -
  let ?n = "length txt"
  from assms(1) have len: "len = int ?n" and buf: "length buf = 16"
    and pre: "txt \<noteq> [] \<Longrightarrow> take (Suc (min 7 ?n)) buf = take 7 txt @ [NUL]"
    by (simp_all add: version_inv_def)
  consider "?n < 8" | "?n = 8" | "8 < ?n" by linarith
  then show ?thesis
  proof cases
    case 1
    then have "word_of_int len = (of_nat ?n :: uLong)" by (simp add: len)
    moreover have "unat (8 - of_nat ?n :: uLong) = 8 - ?n"
      using 1 by (subst unat_sub) (simp_all add: word_le_nat_alt unat_of_nat)
    ultimately have sz: "unat (8 - word_of_int len :: uLong) = 8 - ?n" by simp
    with 1 have "(8 - word_of_int len :: uLong) \<noteq> 0" by (auto simp: unat_eq_0 dest: arg_cong [of _ _ unat])
    moreover have "take ?n buf = txt"
    proof (cases "txt = []")
      case False
      have "min 7 ?n = ?n" using 1 by simp
      with arg_cong [OF pre [OF False], of "take ?n"] 1 show ?thesis by simp
    qed simp
    moreover define out where "out = take (7 - ?n) txt2 @ [NUL]"
    moreover have "length out \<le> 8 - ?n" using 1 by (simp add: out_def)
    ultimately have "snprintf buf (nat len) (8 - word_of_int len) txt2 = Inr (txt @ out @ drop (?n + length out) buf)"
      using 1 buf sz by (simp add: snprintf_def Let_def len)
    moreover have "take (Suc (min 7 (?n + length txt2))) (txt @ out @ rest) = take 7 (txt @ txt2) @ [NUL]" for rest
    proof -
      have eq: "txt @ out = take 7 (txt @ txt2) @ [NUL]" using 1 by (simp add: out_def)
      have len: "Suc (min 7 (?n + length txt2)) = length (txt @ out)" using 1 by (auto simp: out_def min_def)
      have "take (length (txt @ out)) ((txt @ out) @ rest) = txt @ out" by simp
      then have "take (Suc (min 7 (?n + length txt2))) ((txt @ out) @ rest) = take 7 (txt @ txt2) @ [NUL]"
        unfolding len [symmetric] eq [symmetric] .
      then show ?thesis unfolding append_assoc .
    qed
    ultimately have "ensures (version_print txt2 (buf, len)) (\<lambda>(b, k). k = len + int (length txt2) \<and>
        length b = ?n + length out + (16 - (?n + length out)) \<and>
        take (Suc (min 7 (?n + length txt2))) b = take 7 (txt @ txt2) @ [NUL])"
      using buf by (simp add: version_print_def del: take_append take_take)
    moreover have "?n + length out \<le> 16" using 1 by (simp add: out_def)
    ultimately show ?thesis
      by (elim ensures_mono) (auto simp: version_inv_def len)
  next
    case 2
    then have "txt \<noteq> []" "(8 - word_of_int len :: uLong) = 0" by (auto simp: len)
    with 2 buf pre show ?thesis by (simp add: version_print_def snprintf_def len version_inv_def)
  next
    case 3
    let ?z = "8 - word_of_int len :: uLong"
    from 3 l consider "?n = 9" | "?n = 10" | "?n = 11" | "?n = 12" | "?n = 13" | "?n = 14" | "?n = 15"
      by linarith
    then have "?z \<noteq> 0 \<and> 15 < unat ?z" by cases (simp_all add: len unsigned_minus_1_eq_mask mask_eq_exp_minus_1)
    with l have sz: "?z \<noteq> 0" "length txt2 \<le> unat ?z - 1" by auto
    have "txt \<noteq> []" using 3 by auto
    from pre [OF this] 3 have "take 8 buf = take 7 txt @ [NUL]" by (simp add: min_def)
    with 3 sz buf l show ?thesis
      by (simp add: version_print_def snprintf_def len version_inv_def min_def)
  qed
qed

lemma version_inv_string:
  assumes "version_inv txt (buf, len)" and "txt \<noteq> []" and "\<And>c. c \<in> set txt \<Longrightarrow> c \<noteq> NUL"
  shows "c_string buf = take 7 txt"
proof -
  let ?k = "Suc (min 7 (length txt))"
  have "buf = take 7 txt @ NUL # drop ?k buf"
    using assms(1,2) append_take_drop_id [of ?k buf] by (simp add: version_inv_def)
  moreover have "takeWhile (\<lambda>c. c \<noteq> NUL) (take 7 txt @ NUL # rest) = take 7 txt" for rest
    using assms(3) by (subst takeWhile_append2) (auto dest: in_set_takeD)
  ultimately show ?thesis unfolding c_string_def by metis
qed

definition version_text :: "32 word \<Rightarrow> string" where
  "version_text v = decimal (unat (drop_bit 24 v)) @ ''.'' @ decimal (unat (take_bit 12 (drop_bit 12 v))) @
     ''.'' @ decimal (unat (take_bit 12 v))"

lemma version_parts_length:
  "length (decimal (unat (drop_bit 24 (v :: 32 word)))) \<le> 3"
  "length (decimal (unat (take_bit 12 (v :: 32 word)))) \<le> 4"
proof -
  have "unat (drop_bit 24 v) = unat v div 2 ^ 24"
    by (simp add: drop_bit_eq_div unat_div_distrib)
  moreover have "unat v < 2 ^ LENGTH(32)" by (rule unsigned_less)
  ultimately have "unat (drop_bit 24 v) < 10 ^ Suc 2" by (simp add: less_mult_imp_div_less)
  then show "length (decimal (unat (drop_bit 24 v))) \<le> 3" using length_decimal [of _ 2] by simp
  have "unat (take_bit 12 v) = take_bit 12 (unat v)" by (simp add: unsigned_take_bit_eq)
  then have "unat (take_bit 12 v) < 2 ^ 12" using take_bit_nat_less_exp [of 12 "unat v"] by simp
  then have "unat (take_bit 12 v) < 10 ^ Suc 3" by simp
  then show "length (decimal (unat (take_bit 12 v))) \<le> 4" using length_decimal [of _ 3] by simp
qed

lemma ucast_ucast_ulong: "ucast (ucast (x :: uInt) :: uLong) = x"
  by transfer simp

section \<open>Properties\<close>

text \<open>
  A library for the witnesses: instances are handles, encoder and decoder copy their input.
\<close>

definition demo_brotli_copy :: "uLong \<Rightarrow> addr \<Rightarrow> uLong \<Rightarrow> addr \<Rightarrow> mem \<Rightarrow> uLong \<times> addr \<times> uLong \<times> addr \<times> mem" where
  "demo_brotli_copy ai ni ao no m = (let k = min ai ao
     in (ai - k, ni + k, ao - k, no + k, write_mem m no (read_mem m ni (unat k))))"

definition demo_brotli :: "32 word \<Rightarrow> ptr list brotli_lib" where
  "demo_brotli v = \<lparr>BrotliDecoderVersion = v, BROTLI_DEFAULT_QUALITY = 11, BROTLI_DEFAULT_WINDOW = 22,
     BROTLI_DEFAULT_MODE = 0, BROTLI_OPERATION_PROCESS = 0, BROTLI_OPERATION_FINISH = 2,
     BROTLI_PARAM_QUALITY = 1, BROTLI_PARAM_LGWIN = 2, BROTLI_FALSE = 0,
     BROTLI_DECODER_RESULT_SUCCESS = 1, BROTLI_DECODER_RESULT_NEEDS_MORE_INPUT = 2,
     BROTLI_DECODER_RESULT_NEEDS_MORE_OUTPUT = 3,
     BrotliEncoderCreateInstance = demo_create,
     BrotliEncoderSetParameter = (\<lambda>h q v l. if h = 0 then Inl NullDeref else demo_use h 1 l),
     BrotliEncoderCompressStream = (\<lambda>h opr ai ni ao no m l. andthen (demo_use h () l) (\<lambda>_.
       let (ai, ni, ao', no, m) = demo_brotli_copy ai ni ao no m in Inr (1, ai, ni, ao', no, ao - ao', m, l))),
     BrotliEncoderHasMoreOutput = (\<lambda>h l. andthen (demo_use h () l) (\<lambda>_. Inr 0)),
     BrotliEncoderDestroyInstance = (\<lambda>h l. andthen (demo_free h () l) (\<lambda>(_, l). Inr l)),
     BrotliDecoderCreateInstance = demo_create,
     BrotliDecoderDecompressStream = (\<lambda>h ai ni ao no m l. andthen (demo_use h () l) (\<lambda>_.
       let (ai, ni, ao, no, m) = demo_brotli_copy ai ni ao no m
       in Inr (if ai = 0 then 1 else 3, ai, ni, ao, no, m, l))),
     BrotliDecoderIsFinished = (\<lambda>h l. andthen (demo_use h () l) (\<lambda>_. Inr 1)),
     BrotliDecoderDestroyInstance = (\<lambda>h l. andthen (demo_free h () l) (\<lambda>(_, l). Inr l)),
     BrotliEncoderCompress = (\<lambda>q wn md n src len dst m. (0, len, m)),
     BrotliDecoderDecompress = (\<lambda>n src len dst m. (0, len, m)),
     BrotliEncoderMaxCompressedSize = (\<lambda>n. n + 6),
     brotli_indet = \<lparr>compression_flags_brotli = 1, Enstate = 2, Destate = 3, op_brotli = 4,
       next_in_brotli = 5, available_in = 6, next_out_brotli = 7, available_out = 8, total_in_brotli = 9,
       total_out_brotli = 10, avail_in_temp = 11, avail_out_temp = 12, ret_brotli = 13\<rparr>,
     version_indet = (\<lambda>_. CHR ''x'')\<rparr>"

lemma demo_brotli_instances:
  "brotli_encoders (demo_brotli v) demo_live" "brotli_decoders (demo_brotli v) demo_live"
  by (auto simp: brotli_encoders_def brotli_decoders_def demo_brotli_def demo_live_def demo_use_def
      demo_free_def split_def Let_def dest: demo_create_fresh)

lemma demo_brotli_encoder:
  obtains s w where "deflateInitCB_brotli (demo_brotli v) 5 demo_stream demo_world = Inr (0, s, w)"
  by (simp add: deflateInitCB_brotli_def brotli_allocate_def malloc_ok brotli_deflateInit_def
      Let_def load_def deref_def demo_brotli_def demo_create_def)

lemma demo_brotli_decoder:
  obtains s w c where "inflateInitCB_brotli (demo_brotli v) demo_stream demo_world = Inr (0, s, w)"
    and "load as_brotli (ud s) w = Inr c" and "Destate c = 1" and "ret_brotli c = 2" and "lib w = [1]"
  by (simp add: inflateInitCB_brotli_def brotli_allocate_def malloc_ok brotli_inflateInit_def
      Let_def load_def deref_def demo_brotli_def demo_create_def resetBrotli_def brotli_clear_def)

text \<open>
  A brotli deflate session that initialises successfully, makes any calls and ends never
  faults, and afterwards the heap and the live encoders are what they were before.
\<close>

theorem brotli_deflate_lifecycle:
  assumes "brotli_encoders L live" and "wf_heap w" and "deflateInitCB_brotli L level s w = Inr (UNIZIP_OK, s1, w1)"
  shows "ensures (andthen (run_calls (deflateCB_brotli L) cs s1 w1) (\<lambda>(rs, s, w). deflateEndCB_brotli L s w))
    (\<lambda>(r, s', w'). heap w' = heap w \<and> live (lib w') = live (lib w))"
  using brotli_deflate.session_clean [OF conjI [OF assms(1,2)] assms(3), of cs] by simp

theorem brotli_deflate_lifecycle_witness:
  "\<exists>s1 w1. deflateInitCB_brotli (demo_brotli 0) 5 demo_stream demo_world = Inr (0, s1, w1) \<and>
     ensures (andthen (run_calls (deflateCB_brotli (demo_brotli 0)) [(Buffers [1, 2] 10 2 100 9, 0), (Keep, 4)] s1 w1)
       (\<lambda>(rs, s, w). deflateEndCB_brotli (demo_brotli 0) s w))
       (\<lambda>(r, s', w'). heap w' = heap demo_world \<and> demo_live (lib w') = {})"
proof -
  obtain s1 w1 where "deflateInitCB_brotli (demo_brotli 0) 5 demo_stream demo_world = Inr (0, s1, w1)"
    by (rule demo_brotli_encoder)
  with brotli_deflate_lifecycle [OF demo_brotli_instances(1) wf_demo_world this,
      of "[(Buffers [1, 2] 10 2 100 9, 0), (Keep, 4)]"]
  show ?thesis by (simp add: demo_live_def)
qed



text \<open>
  \<open>unizip_Version\<close> for brotli never writes outside its buffer and returns the version
  number cut to its first seven characters (the code takes the size of the pointer for the size
  of the buffer), in a block of 16 characters allocated anew by each call.
\<close>

theorem brotli_version_cut:
  assumes "\<not> oom w (allocs w)"
  shows "ensures (versionCB_brotli L w) (\<lambda>(p, w'). p = Suc (allocs w) \<and> allocs w' = p \<and>
    (\<exists>buf. heap w' = (heap w)(p \<mapsto> Chars_obj buf) \<and> length buf = 16 \<and>
       c_string buf = take 7 (version_text (BrotliDecoderVersion L))))"
proof -
  let ?v = "BrotliDecoderVersion L"
  define a b c where "a = decimal (unat (drop_bit 24 ?v))" and "b = decimal (unat (take_bit 12 (drop_bit 12 ?v)))"
    and "c = decimal (unat (take_bit 12 ?v))"
  have l: "length a \<le> 3" "length b \<le> 4" "length c \<le> 4"
    unfolding a_def b_def c_def by (rule version_parts_length)+
  have t: "version_text ?v = (((a @ ''.'') @ b) @ ''.'') @ c"
    by (simp add: version_text_def a_def b_def c_def)
  have nul: "x \<noteq> NUL" if "x \<in> set (version_text ?v)" for x
    using that decimal_digits by (auto simp: version_text_def)
  note step = ensuresE [OF version_print_inv]
  have "version_inv [] (map (version_indet L) [0..<16], 0)" by (simp add: version_inv_def)
  then obtain b1 k1 where 1: "version_print a (map (version_indet L) [0..<16], 0) = Inr (b1, k1)"
      "version_inv a (b1, k1)" by (rule step [of _ _ _ a]) (use l in auto)
  from 1(2) obtain b2 k2 where 2: "version_print ''.'' (b1, k1) = Inr (b2, k2)"
      "version_inv (a @ ''.'') (b2, k2)" by (rule step [of _ _ _ "''.''"]) (use l in auto)
  from 2(2) obtain b3 k3 where 3: "version_print b (b2, k2) = Inr (b3, k3)"
      "version_inv ((a @ ''.'') @ b) (b3, k3)" by (rule step [of _ _ _ b]) (use l in auto)
  from 3(2) obtain b4 k4 where 4: "version_print ''.'' (b3, k3) = Inr (b4, k4)"
      "version_inv (((a @ ''.'') @ b) @ ''.'') (b4, k4)" by (rule step [of _ _ _ "''.''"]) (use l in auto)
  from 4(2) obtain b5 k5 where 5: "version_print c (b4, k4) = Inr (b5, k5)"
      "version_inv (version_text ?v) (b5, k5)" unfolding t by (rule step [of _ _ _ c]) (use l in auto)
  have "version_text ?v \<noteq> []" by (simp add: version_text_def)
  from version_inv_string [OF 5(2) this nul] 5(2)
  have "c_string b5 = take 7 (version_text ?v)" "length b5 = 16" by (simp_all add: version_inv_def)
  moreover have "versionCB_brotli L w = Inr (Suc (allocs w),
      w\<lparr>allocs := Suc (allocs w), heap := (heap w)(Suc (allocs w) \<mapsto> Chars_obj b5)\<rparr>)"
    using 1(1) 2(1) 3(1) 4(1) 5(1) assms
    by (simp add: versionCB_brotli_def malloc_ok Let_def store_def a_def b_def c_def)
  ultimately show ?thesis by simp blast
qed

theorem brotli_version_cut_witness:
  "ensures (versionCB_brotli (demo_brotli 0x0A00C159) demo_world) (\<lambda>(p, w'). p = 1 \<and>
     (\<exists>buf. heap w' 1 = Some (Chars_obj buf) \<and> c_string buf = ''10.12.3''))"
proof -
  have d: "decimal 10 = ''10''" "decimal 12 = ''12''" "decimal 345 = ''345''"
    by (simp_all add: decimal.simps digit_def char_of_def bit_Suc_0_iff)
  have "version_text 0x0A00C159 = ''10.12.345''"
    by (simp add: version_text_def d)
  moreover have "\<not> oom demo_world (allocs demo_world)" by simp
  note brotli_version_cut [OF this, of "demo_brotli 0x0A00C159"]
  moreover have "BrotliDecoderVersion (demo_brotli 0x0A00C159) = 0x0A00C159" by (simp add: demo_brotli_def)
  ultimately show ?thesis by (auto elim!: ensures_mono)
qed

text \<open>
  When there is no memory for the context, brotli's \<open>deflateInit\<close> reports
  \<open>UNIZIP_MEM_ERROR\<close> and leaves the heap as it was, but its \<open>inflateInit\<close> stores through the
  null pointer.
\<close>

theorem brotli_init_without_memory:
  assumes "oom w (allocs w)"
  shows "ensures (deflateInitCB_brotli L level s w) (\<lambda>(r, s', w'). r = UNIZIP_MEM_ERROR \<and> heap w' = heap w) \<and>
    inflateInitCB_brotli L s w = Inl NullDeref"
  using assms by (simp add: deflateInitCB_brotli_def inflateInitCB_brotli_def brotli_allocate_def malloc_oom
      brotli_deflateInit_def brotli_inflateInit_def resetBrotli_def Let_def)

theorem brotli_init_without_memory_witness:
  "inflateInitCB_brotli (demo_brotli 0) demo_stream (demo_world\<lparr>oom := (\<lambda>_. True)\<rparr>) = Inl NullDeref"
  using brotli_init_without_memory [of "demo_world\<lparr>oom := (\<lambda>_. True)\<rparr>" "demo_brotli 0" 5 demo_stream] by simp

text \<open>
  Brotli's \<open>deflateReset\<close> is its end followed by its initialisation, documented as
  equivalent, except that it leaves the pointers, amounts and totals of the stream as they
  were instead of clearing them.
\<close>

theorem brotli_reset_keeps_counters:
  "andthen (deflateEndCB_brotli L s w) (\<lambda>(r, s', w'). deflateInitCB_brotli L (compression_flag s) s' w') =
     andthen (deflateResetCB_brotli L s w) (\<lambda>(r, s', w'). Inr (r, resetBrotli s', w')) \<and>
   andthen (deflateResetCB_brotli L s w) (\<lambda>(r, s', w'). Inr (s'\<lparr>ud := ud s\<rparr>)) =
     andthen (deflateResetCB_brotli L s w) (\<lambda>_. Inr s)"
proof
  show "andthen (deflateEndCB_brotli L s w) (\<lambda>(r, s', w'). deflateInitCB_brotli L (compression_flag s) s' w') =
     andthen (deflateResetCB_brotli L s w) (\<lambda>(r, s', w'). Inr (r, resetBrotli s', w'))"
    by (auto simp: deflateEndCB_brotli_def deflateInitCB_brotli_def deflateResetCB_brotli_def resetBrotli_def
        Let_def andthen_def brotli_deflateInit_def split: sum.split prod.splits)
  show "andthen (deflateResetCB_brotli L s w) (\<lambda>(r, s', w'). Inr (s'\<lparr>ud := ud s\<rparr>)) =
     andthen (deflateResetCB_brotli L s w) (\<lambda>_. Inr s)"
    by (auto simp: deflateResetCB_brotli_def Let_def andthen_def split: sum.split prod.splits)
qed


section \<open>One-shot calls\<close>

definition brotli_enc :: "'l brotli_lib \<Rightarrow> codec" where
  "brotli_enc L dst cap src n m =
     (case BrotliEncoderCompress L (BROTLI_DEFAULT_QUALITY L) (BROTLI_DEFAULT_WINDOW L) (BROTLI_DEFAULT_MODE L)
             n src (Some cap) dst m of
        (r, Some len, m) \<Rightarrow> if r = 1 then Some (len, m) else None | _ \<Rightarrow> None)"

definition brotli_dec :: "'l brotli_lib \<Rightarrow> codec" where
  "brotli_dec L dst cap src n m =
     (case BrotliDecoderDecompress L n src (Some cap) dst m of
        (r, Some len, m) \<Rightarrow> if r = 1 then Some (len, m) else None | _ \<Rightarrow> None)"

interpretation brotli_shots: one_shot True 0 "\<lambda>_ _. True" "brotli_enc L" "brotli_dec L"
  "sure (compressCB_brotli L)" "sure (uncompressCB_brotli L)" for L
  by unfold_locales
    (auto simp: sure_def brotli_enc_def brotli_dec_def compressCB_brotli_def uncompressCB_brotli_def brotli_compress_def
      brotli_decompress_def brotli_map_def split: prod.splits option.splits if_splits)


section \<open>Streams\<close>

text \<open>
  What \<open>encode.h\<close> and \<open>decode.h\<close> document of the data.  \<open>codes h l xs ys\<close>: the instance \<open>h\<close> has
  consumed \<open>xs\<close> and produced \<open>ys\<close>.  A call consumes bytes from \<open>next_in\<close> on, writes bytes from
  \<open>next_out\<close> on, and adjusts the amounts and the output pointer; a new instance has done
  nothing.  The encoder is done when it was told to finish, has taken all input and has no
  more output, the decoder when it returns \<open>BROTLI_DECODER_RESULT_SUCCESS\<close>; \<open>unbrotli\<close> is the
  decoding of the format.  The contract of the encoder supposes that memory suffices.
\<close>

definition brotli_moves ::
  "(ptr \<Rightarrow> 'l \<Rightarrow> byte list \<Rightarrow> byte list \<Rightarrow> bool) \<Rightarrow> ptr \<Rightarrow> uLong \<Rightarrow> addr \<Rightarrow> uLong \<Rightarrow> addr \<Rightarrow> mem \<Rightarrow> byte list \<Rightarrow> byte list \<Rightarrow>
   uLong \<Rightarrow> uLong \<Rightarrow> addr \<Rightarrow> mem \<Rightarrow> 'l \<Rightarrow> byte list \<Rightarrow> byte list \<Rightarrow> bool" where
  "brotli_moves codes h ai ni ao no m xs ys ai' ao' no' m' l' us vs \<longleftrightarrow>
     length us \<le> unat ai \<and> length vs \<le> unat ao \<and> us = read_mem m ni (length us) \<and> m' = write_mem m no vs \<and>
     ai' = ai - of_nat (length us) \<and> ao' = ao - of_nat (length vs) \<and> no' = no + of_nat (length vs) \<and>
     codes h l' (xs @ us) (ys @ vs)"

definition brotli_encodes ::
  "'l brotli_lib \<Rightarrow> (byte list \<Rightarrow> byte list option) \<Rightarrow> (ptr \<Rightarrow> 'l \<Rightarrow> byte list \<Rightarrow> byte list \<Rightarrow> bool) \<Rightarrow> bool" where
  "brotli_encodes L unbrotli codes \<longleftrightarrow>
     (\<forall>l h l'. BrotliEncoderCreateInstance L l = (h, l') \<longrightarrow> h \<noteq> 0 \<longrightarrow> codes h l' [] []) \<and>
     (\<forall>l q v. BrotliEncoderSetParameter L 0 q v l = Inl NullDeref) \<and>
     (\<forall>l h q v r l' xs ys. codes h l xs ys \<longrightarrow> BrotliEncoderSetParameter L h q v l = Inr (r, l') \<longrightarrow> codes h l' xs ys) \<and>
     (\<forall>l h opr ai ni ao no m r ai' ni' ao' no' tot m' l' xs ys. codes h l xs ys \<longrightarrow>
        BrotliEncoderCompressStream L h opr ai ni ao no m l = Inr (r, ai', ni', ao', no', tot, m', l') \<longrightarrow>
        (\<exists>us vs. brotli_moves codes h ai ni ao no m xs ys ai' ao' no' m' l' us vs \<and>
           (opr = BROTLI_OPERATION_FINISH L \<longrightarrow> ai' = 0 \<longrightarrow> BrotliEncoderHasMoreOutput L h l' = Inr (BROTLI_FALSE L) \<longrightarrow>
              unbrotli (ys @ vs) = Some (xs @ us))))"

definition brotli_decodes ::
  "'l brotli_lib \<Rightarrow> (byte list \<Rightarrow> byte list option) \<Rightarrow> (ptr \<Rightarrow> 'l \<Rightarrow> byte list \<Rightarrow> byte list \<Rightarrow> bool) \<Rightarrow> bool" where
  "brotli_decodes L unbrotli codes \<longleftrightarrow>
     BROTLI_DECODER_RESULT_SUCCESS L \<noteq> BROTLI_DECODER_RESULT_NEEDS_MORE_INPUT L \<and>
     (\<forall>l h l'. BrotliDecoderCreateInstance L l = (h, l') \<longrightarrow> codes h l' [] []) \<and>
     (\<forall>l h ai ni ao no m r ai' ni' ao' no' m' l' xs ys. codes h l xs ys \<longrightarrow>
        BrotliDecoderDecompressStream L h ai ni ao no m l = Inr (r, ai', ni', ao', no', m', l') \<longrightarrow>
        (\<exists>us vs. brotli_moves codes h ai ni ao no m xs ys ai' ao' no' m' l' us vs \<and>
           (r = BROTLI_DECODER_RESULT_SUCCESS L \<longrightarrow> unbrotli (xs @ us) = Some (ys @ vs))))"

definition brotli_encoding :: "(ptr \<Rightarrow> 'l \<Rightarrow> byte list \<Rightarrow> byte list \<Rightarrow> bool) \<Rightarrow> unizip_stream \<Rightarrow> 'l world \<Rightarrow> byte list \<Rightarrow> byte list \<Rightarrow> bool" where
  "brotli_encoding codes s w xs ys \<longleftrightarrow> (\<exists>c. load as_brotli (ud s) w = Inr c \<and> codes (Enstate c) (lib w) xs ys)"

definition brotli_decoding ::
  "'l brotli_lib \<Rightarrow> (byte list \<Rightarrow> byte list option) \<Rightarrow> (ptr \<Rightarrow> 'l \<Rightarrow> byte list \<Rightarrow> byte list \<Rightarrow> bool) \<Rightarrow>
   unizip_stream \<Rightarrow> 'l world \<Rightarrow> byte list \<Rightarrow> byte list \<Rightarrow> bool" where
  "brotli_decoding L unbrotli codes s w xs ys \<longleftrightarrow> (\<exists>c. load as_brotli (ud s) w = Inr c \<and> codes (Destate c) (lib w) xs ys \<and>
     (ret_brotli c = BROTLI_DECODER_RESULT_SUCCESS L \<longrightarrow> unbrotli xs = Some ys))"

lemma brotli_coding_refill:
  "brotli_encoding codes s w xs ys \<Longrightarrow> brotli_encoding codes (apply_refill rf s) (refill_world rf w) xs ys"
  "brotli_decoding L unbrotli codes s w xs ys \<Longrightarrow> brotli_decoding L unbrotli codes (apply_refill rf s) (refill_world rf w) xs ys"
  by (simp_all add: brotli_encoding_def brotli_decoding_def)

text \<open>What a move of the library shows of the stream.\<close>

lemma brotli_moves_seen:
  assumes "brotli_moves codes h (ucast (avail_in s)) (next_in s) (ucast (avail_out s)) (next_out s) (bytes w) xs ys ai' ao' no' m' l' us vs"
    and "next_in s' = next_in s + (ucast (avail_in s) - ai')" and "next_out s' = no'" and "bytes w' = m'"
  shows "consumed s w s' = us" and "produced s s' w' = vs" and "codes h l' (xs @ us) (ys @ vs)"
proof -
  note m = assms(1) [unfolded brotli_moves_def]
  have small: "length us < 2 ^ 64" "length vs < 2 ^ 64"
    using m unat_uLong [of "ucast (avail_in s)"] unat_uLong [of "ucast (avail_out s)"] by linarith+
  have "next_in s' = next_in s + of_nat (length us)" "next_out s' = next_out s + of_nat (length vs)"
    "bytes w' = write_mem (bytes w) (next_out s) vs" using assms(2-) m by simp_all
  then show "consumed s w s' = us" "produced s s' w' = vs"
    using small m by (simp_all add: consumed_moved produced_moved)
  show "codes h l' (xs @ us) (ys @ vs)" using m by simp
qed

lemma brotli_deflate_streams:
  assumes ok: "brotli_encodes L unbrotli codes" and inv: "brotli_encoding codes s w xs ys"
    and d: "deflateCB_brotli L f s w = Inr (r, s', w')" and good: "r = UNIZIP_OK \<or> r = UNIZIP_STREAM_END"
  shows "brotli_encoding codes s' w' (xs @ consumed s w s') (ys @ produced s s' w') \<and>
    (r = UNIZIP_STREAM_END \<longrightarrow> unbrotli (ys @ produced s s' w') = Some (xs @ consumed s w s'))"
proof -
  from inv obtain c where c: "load as_brotli (ud s) w = Inr c" and codes: "codes (Enstate c) (lib w) xs ys"
    by (auto simp: brotli_encoding_def)
  note p = load_nonnull [OF c]
  let ?opr = "if f = 4 then BROTLI_OPERATION_FINISH L else BROTLI_OPERATION_PROCESS L"
  from d c p good obtain r0 ai ni ao no tot m l where
    call: "BrotliEncoderCompressStream L (Enstate c) ?opr (ucast (avail_in s)) (next_in s) (ucast (avail_out s)) (next_out s)
      (bytes w) (lib w) = Inr (r0, ai, ni, ao, no, tot, m, l)"
    and s': "next_in s' = next_in s + (ucast (avail_in s) - ai)" "next_out s' = no" "ud s' = ud s"
    and w': "bytes w' = m" "lib w' = l" "\<exists>c'. load as_brotli (ud s) w' = Inr c' \<and> Enstate c' = Enstate c"
    and fin: "r = UNIZIP_STREAM_END \<Longrightarrow> f = 4 \<and> ai = 0 \<and> BrotliEncoderHasMoreOutput L (Enstate c) l = Inr (BROTLI_FALSE L)"
    by (auto simp: deflateCB_brotli_def brotli_deflate_def brotli_encode_def Let_def andthen_eq_Inr brotli_push_def
        brotli_pull_def brotli_map_def split: if_splits)
  have "\<exists>us vs. brotli_moves codes (Enstate c) (ucast (avail_in s)) (next_in s) (ucast (avail_out s)) (next_out s) (bytes w) xs ys
      ai ao no m l us vs \<and> (?opr = BROTLI_OPERATION_FINISH L \<longrightarrow> ai = 0 \<longrightarrow>
        BrotliEncoderHasMoreOutput L (Enstate c) l = Inr (BROTLI_FALSE L) \<longrightarrow> unbrotli (ys @ vs) = Some (xs @ us))"
    by (rule conjunct2 [OF conjunct2 [OF conjunct2 [OF ok [unfolded brotli_encodes_def]]], rule_format, OF codes call])
  then obtain us vs where moves: "brotli_moves codes (Enstate c) (ucast (avail_in s)) (next_in s) (ucast (avail_out s)) (next_out s)
      (bytes w) xs ys ai ao no m l us vs"
    and reached: "?opr = BROTLI_OPERATION_FINISH L \<longrightarrow> ai = 0 \<longrightarrow>
      BrotliEncoderHasMoreOutput L (Enstate c) l = Inr (BROTLI_FALSE L) \<longrightarrow> unbrotli (ys @ vs) = Some (xs @ us)" by blast
  note io = brotli_moves_seen [OF moves s'(1,2) w'(1)]
  show ?thesis using io(3) fin reached s'(3) w' by (auto simp: io(1,2) brotli_encoding_def)
qed

lemma brotli_inflate_streams:
  assumes ok: "brotli_decodes L unbrotli codes" and inv: "brotli_decoding L unbrotli codes s w xs ys"
    and d: "inflateCB_brotli L s w = Inr (r, s', w')" and good: "r = UNIZIP_OK \<or> r = UNIZIP_STREAM_END"
  shows "brotli_decoding L unbrotli codes s' w' (xs @ consumed s w s') (ys @ produced s s' w') \<and>
    (r = UNIZIP_STREAM_END \<longrightarrow> unbrotli (xs @ consumed s w s') = Some (ys @ produced s s' w'))"
proof -
  from inv obtain c where c: "load as_brotli (ud s) w = Inr c" and codes: "codes (Destate c) (lib w) xs ys"
    and ended: "ret_brotli c = BROTLI_DECODER_RESULT_SUCCESS L \<Longrightarrow> unbrotli xs = Some ys"
    by (auto simp: brotli_decoding_def)
  note p = load_nonnull [OF c]
  show ?thesis
  proof (cases "ret_brotli c = BROTLI_DECODER_RESULT_SUCCESS L")
    case True
    from d c p True good have "next_in s' = next_in s" "next_out s' = next_out s" "ud s' = ud s" "lib w' = lib w"
      "\<exists>c'. load as_brotli (ud s) w' = Inr c' \<and> Destate c' = Destate c"
      by (auto simp: inflateCB_brotli_def brotli_inflate_def Let_def andthen_eq_Inr brotli_push_def
          brotli_pull_def split: if_splits)
    with ended [OF True] codes show ?thesis by (auto simp: still_there brotli_decoding_def)
  next
    case False
    from d c p good False obtain r0 ai ni ao no m l where
      call: "BrotliDecoderDecompressStream L (Destate c) (ucast (avail_in s)) (next_in s) (ucast (avail_out s)) (next_out s)
        (bytes w) (lib w) = Inr (r0, ai, ni, ao, no, m, l)"
      and s': "next_in s' = next_in s + (ucast (avail_in s) - ai)" "next_out s' = no" "ud s' = ud s" and r: "r = UNIZIP_OK"
      and w': "bytes w' = m" "lib w' = l"
        "\<exists>c'. load as_brotli (ud s) w' = Inr c' \<and> Destate c' = Destate c \<and> ret_brotli c' = r0"
      by (auto simp: inflateCB_brotli_def brotli_inflate_def Let_def andthen_eq_Inr brotli_push_def
          brotli_pull_def split: if_splits)
    have "\<exists>us vs. brotli_moves codes (Destate c) (ucast (avail_in s)) (next_in s) (ucast (avail_out s)) (next_out s) (bytes w) xs ys
        ai ao no m l us vs \<and> (r0 = BROTLI_DECODER_RESULT_SUCCESS L \<longrightarrow> unbrotli (xs @ us) = Some (ys @ vs))"
      using ok codes call unfolding brotli_decodes_def by blast
    then obtain us vs where moves: "brotli_moves codes (Destate c) (ucast (avail_in s)) (next_in s) (ucast (avail_out s))
        (next_out s) (bytes w) xs ys ai ao no m l us vs"
      and reached: "r0 = BROTLI_DECODER_RESULT_SUCCESS L \<longrightarrow> unbrotli (xs @ us) = Some (ys @ vs)" by blast
    note io = brotli_moves_seen [OF moves s'(1,2) w'(1)]
    show ?thesis using io(3) reached s'(3) w' r by (auto simp: io(1,2) brotli_decoding_def)
  qed
qed

lemma deflateInitCB_brotli_streams:
  assumes ok: "brotli_encodes L unbrotli codes" and i: "deflateInitCB_brotli L level s w = Inr (UNIZIP_OK, s', w')"
  shows "brotli_encoding codes s' w' [] []"
proof -
  obtain p w1 where m: "brotli_allocate L w = (p, w1)" by fastforce
  from i m have p: "p \<noteq> 0" "ud s' = p" and d: "brotli_deflateInit L p level w1 = Inr (0, w')"
    by (auto simp: deflateInitCB_brotli_def brotli_deflateInit_def resetBrotli_def Let_def
        andthen_eq_Inr split: if_splits)
  from d p obtain c0 where c0: "load as_brotli p w1 = Inr c0" by (auto simp: brotli_deflateInit_def andthen_eq_Inr)
  obtain h l where h: "BrotliEncoderCreateInstance L (lib w1) = (h, l)" by fastforce
  from d c0 h p obtain lv r1 l1 r2 l2 where
    s1: "BrotliEncoderSetParameter L h (BROTLI_PARAM_QUALITY L) lv l = Inr (r1, l1)" and
    s2: "BrotliEncoderSetParameter L h (BROTLI_PARAM_LGWIN L) (BROTLI_DEFAULT_WINDOW L) l1 = Inr (r2, l2)" and
    w': "w' = (store p (Brotli_obj (brotli_clear L (c0\<lparr>Enstate := h\<rparr>))) w1)\<lparr>lib := l2\<rparr>"
    by (auto simp: brotli_deflateInit_def Let_def andthen_eq_Inr)
  note laws = ok [unfolded brotli_encodes_def]
  have "h \<noteq> 0" using s1 conjunct1 [OF conjunct2 [OF laws]] by (cases "h = 0") auto
  then have "codes h l [] []" using conjunct1 [OF laws] h by blast
  then have "codes h l1 [] []" using conjunct1 [OF conjunct2 [OF conjunct2 [OF laws]]] s1 by blast
  then have "codes h l2 [] []" using conjunct1 [OF conjunct2 [OF conjunct2 [OF laws]]] s2 by blast
  then show ?thesis using p by (simp add: brotli_encoding_def w')
qed

lemma inflateInitCB_brotli_streams:
  assumes ok: "brotli_decodes L unbrotli codes" and i: "inflateInitCB_brotli L s w = Inr (UNIZIP_OK, s', w')"
  shows "brotli_decoding L unbrotli codes s' w' [] []"
proof -
  obtain p w1 where m: "brotli_allocate L w = (p, w1)" by fastforce
  from i m have ud: "ud s' = p" and d: "brotli_inflateInit L p w1 = Inr (0, w')"
    by (auto simp: inflateInitCB_brotli_def resetBrotli_def Let_def andthen_eq_Inr)
  from d obtain c0 where c0: "load as_brotli p w1 = Inr c0" by (auto simp: brotli_inflateInit_def andthen_eq_Inr)
  obtain h l where h: "BrotliDecoderCreateInstance L (lib w1) = (h, l)" by fastforce
  note laws = ok [unfolded brotli_decodes_def]
  have "codes h l [] []" using conjunct1 [OF conjunct2 [OF laws]] h by blast
  then show ?thesis using d c0 h ud load_nonnull [OF c0] conjunct1 [OF laws]
    by (auto simp: brotli_inflateInit_def Let_def brotli_decoding_def)
qed

interpretation brotli_encoder: streaming "brotli_encodes L unbrotli codes" "\<lambda>xs ys. unbrotli ys = Some xs"
  "deflateInitCB_brotli L" "deflateCB_brotli L" "brotli_encoding codes" for L unbrotli codes
proof unfold_locales
qed (auto simp: brotli_deflate_streams intro: deflateInitCB_brotli_streams brotli_coding_refill)

interpretation brotli_decoder: streaming "brotli_decodes L unbrotli codes" "\<lambda>xs ys. unbrotli xs = Some ys"
  "\<lambda>level. inflateInitCB_brotli L" "\<lambda>f. inflateCB_brotli L" "brotli_decoding L unbrotli codes" for L unbrotli codes
proof unfold_locales
qed (auto simp: brotli_inflate_streams intro: inflateInitCB_brotli_streams brotli_coding_refill)

end
