(* ===== verification/Zip7.thy ===== *)
theory Zip7
  imports Instances Doubles
begin

text \<open>
  The 7-Zip back end: \<open>7zip/unizip_algorithm_7zip.c\<close> and \<open>7zip/unizip_callback_7zip.c\<close>.
  The LZMA SDK is the parameter \<open>sdk_lib\<close>.  A decoder object is a list of bytes the code only
  passes on; the memory the SDK allocates for it is part of the library state.  The encoder
  properties are a record of which the code sets the level.
\<close>

record CLzmaEncProps =
  level_props :: int
  other_props :: "byte list"

record 'l sdk_lib =
  MY_VERSION_NUMBERS :: string
  LZMA_PROPS_SIZE :: uLong
  SZ_OK :: int
  SZ_ERROR_DATA :: int
  SZ_ERROR_MEM :: int
  SZ_ERROR_UNSUPPORTED :: int
  SZ_ERROR_PARAM :: int
  SZ_ERROR_INPUT_EOF :: int
  SZ_ERROR_OUTPUT_EOF :: int
  SZ_ERROR_THREAD :: int
  LZMA_FINISH_ANY :: int
  LZMA_STATUS_FINISHED_WITH_MARK :: int
  LzmaEncProps_Init :: CLzmaEncProps
  LzmaEncode :: "addr \<Rightarrow> uLong \<Rightarrow> addr \<Rightarrow> uLong \<Rightarrow> CLzmaEncProps \<Rightarrow> addr \<Rightarrow> uLong \<Rightarrow> int \<Rightarrow> mem \<Rightarrow>
    int \<times> uLong \<times> uLong \<times> mem"
  LzmaUncompress :: "addr \<Rightarrow> uLong \<Rightarrow> addr \<Rightarrow> uLong \<Rightarrow> addr \<Rightarrow> uLong \<Rightarrow> mem \<Rightarrow> int \<times> uLong \<times> uLong \<times> mem"
  LzmaDec_Construct :: "byte list \<Rightarrow> byte list"
  LzmaDec_Allocate :: "byte list \<Rightarrow> addr \<Rightarrow> uLong \<Rightarrow> mem \<Rightarrow> 'l \<Rightarrow> (int \<times> byte list \<times> 'l) res"
  LzmaDec_Init :: "byte list \<Rightarrow> byte list"
  LzmaDec_DecodeToBuf :: "byte list \<Rightarrow> addr \<Rightarrow> uLong \<Rightarrow> addr \<Rightarrow> uLong \<Rightarrow> int \<Rightarrow> mem \<Rightarrow> 'l \<Rightarrow>
    (byte list \<times> uLong \<times> uLong \<times> int \<times> mem \<times> 'l) res"
  LzmaDec_Free :: "byte list \<Rightarrow> 'l \<Rightarrow> (byte list \<times> 'l) res"
  zip7_indet :: zip7_ctx

abbreviation levelMin_7zip :: int where "levelMin_7zip \<equiv> 0"
abbreviation levelMax_7zip :: int where "levelMax_7zip \<equiv> 9"
abbreviation levelDefault_7zip :: int where "levelDefault_7zip \<equiv> 5"
abbreviation actionEnd_7zip :: int where "actionEnd_7zip \<equiv> 4"

section \<open>The algorithm layer\<close>

definition zip7_map_error :: "'l sdk_lib \<Rightarrow> int \<Rightarrow> int" where
  "zip7_map_error L ret =
     (if ret = SZ_OK L then UNIZIP_OK
      else if ret = SZ_ERROR_MEM L then UNIZIP_MEM_ERROR
      else if ret = SZ_ERROR_DATA L then UNIZIP_DATA_ERROR
      else if ret = SZ_ERROR_OUTPUT_EOF L \<or> ret = SZ_ERROR_INPUT_EOF L then UNIZIP_BUF_ERROR
      else if ret = SZ_ERROR_PARAM L \<or> ret = SZ_ERROR_THREAD L \<or> ret = SZ_ERROR_UNSUPPORTED L
      then UNIZIP_ERRNO
      else UNIZIP_DATA_ERROR)"

definition zip7_allocate :: "'l sdk_lib \<Rightarrow> 'l world \<Rightarrow> ptr \<times> 'l world" where
  "zip7_allocate L w = malloc (Zip7_obj (zip7_indet L)) w"

definition zip7_deflateInit :: "ptr \<Rightarrow> int \<Rightarrow> 'l world \<Rightarrow> (int \<times> 'l world) res" where
  "zip7_deflateInit p level w =
     andthen (load as_zip7 p w) (\<lambda>ctx.
     let ctx = ctx\<lparr>level_7zip := (if level < levelMin_7zip \<or> level > levelMax_7zip
                                  then levelDefault_7zip else level)\<rparr>;
         ctx = ctx\<lparr>dest_7zip := NULL_addr, destLen_7zip := 0, src_7zip := NULL_addr, srcLen_7zip := 0\<rparr>;
         ctx = ctx\<lparr>next_in_7zip := NULL_addr, avail_in_7zip := 0, total_in_7zip := 0,
                   next_out_7zip := NULL_addr, avail_out_7zip := 0, total_out_7zip := 0\<rparr>
     in Inr (UNIZIP_OK, store p (Zip7_obj ctx) w))"

definition zip7_compressBound :: "uLong \<Rightarrow> uLong res" where
  "zip7_compressBound uncompressed_size =
     andthen (ulong_of_d (d_add (d_add (d_of_ulong uncompressed_size)
                                       (d_divide (d_of_ulong uncompressed_size) (d_of_ulong 3)))
                                (d_of_ulong 128))) (\<lambda>compressed_size.
     Inr (if compressed_size < uncompressed_size then ULONG_MAX else compressed_size))"

definition zip7_deflate2 :: "'l sdk_lib \<Rightarrow> ptr \<Rightarrow> 'l world \<Rightarrow> (int \<times> 'l world) res" where
  "zip7_deflate2 L p w =
     andthen (load as_zip7 p w) (\<lambda>ctx.
     let outPropsSize = LZMA_PROPS_SIZE L;
         ctx = ctx\<lparr>srcLen_7zip := total_in_7zip ctx\<rparr>
     in andthen (zip7_compressBound (srcLen_7zip ctx)) (\<lambda>outlen.
        let props = (LzmaEncProps_Init L)\<lparr>level_props := level_7zip ctx\<rparr>;
            (ret, outlen, outPropsSize, m) =
              LzmaEncode L (dest_7zip ctx + LZMA_PROPS_SIZE L) outlen (src_7zip ctx) (srcLen_7zip ctx)
                props (dest_7zip ctx) outPropsSize 1 (bytes w);
            w = store p (Zip7_obj (ctx\<lparr>destLen_7zip := outlen\<rparr>)) (w\<lparr>bytes := m\<rparr>)
        in if outPropsSize \<noteq> LZMA_PROPS_SIZE L then Inr (UNIZIP_DATA_ERROR, w)
           else Inr (zip7_map_error L ret, w)))"

text \<open>The first call after the totals were cleared records where the buffers begin.\<close>

definition zip7_begin :: "zip7_ctx \<Rightarrow> zip7_ctx" where
  "zip7_begin ctx = (if total_in_7zip ctx = 0
     then ctx\<lparr>src_7zip := next_in_7zip ctx, dest_7zip := next_out_7zip ctx\<rparr> else ctx)"

text \<open>A call that does not finish only counts; \<open>avail_in\<close> is an \<open>int\<close> and is sign-extended.\<close>

definition zip7_collect :: "zip7_ctx \<Rightarrow> zip7_ctx" where
  "zip7_collect ctx =
     (let ctx = ctx\<lparr>next_in_7zip := next_in_7zip ctx + scast (avail_in_7zip ctx)\<rparr>;
          ctx = ctx\<lparr>total_in_7zip := total_in_7zip ctx + scast (avail_in_7zip ctx)\<rparr>;
          ctx = ctx\<lparr>next_out_7zip := next_out_7zip ctx + scast (avail_in_7zip ctx)\<rparr>;
          ctx = ctx\<lparr>total_out_7zip := total_out_7zip ctx + scast (avail_in_7zip ctx)\<rparr>
      in ctx\<lparr>avail_in_7zip := 0, avail_out_7zip := 0\<rparr>)"

definition zip7_deflate :: "'l sdk_lib \<Rightarrow> ptr \<Rightarrow> int \<Rightarrow> 'l world \<Rightarrow> (int \<times> 'l world) res" where
  "zip7_deflate L p flush w =
     andthen (load as_zip7 p w) (\<lambda>ctx.
     let ctx = zip7_begin ctx
     in if flush = actionEnd_7zip then
          andthen (zip7_deflate2 L p (store p (Zip7_obj ctx) w)) (\<lambda>(rc, w).
          andthen (load as_zip7 p w) (\<lambda>ctx.
          let ctx = ctx\<lparr>total_out_7zip := destLen_7zip ctx\<rparr>;
              ctx = ctx\<lparr>next_out_7zip := dest_7zip ctx + total_out_7zip ctx\<rparr>;
              w = store p (Zip7_obj ctx) w
          in if rc \<noteq> 0 then Inr (zip7_map_error L rc, w) else Inr (UNIZIP_STREAM_END, w)))
        else Inr (UNIZIP_OK, store p (Zip7_obj (zip7_collect ctx)) w))"

definition zip7_deflateEnd :: "ptr \<Rightarrow> 'l world \<Rightarrow> (int \<times> 'l world) res" where
  "zip7_deflateEnd p w = andthen (free p w) (\<lambda>w. Inr (UNIZIP_OK, w))"

definition zip7_inflateInit :: "'l sdk_lib \<Rightarrow> ptr \<Rightarrow> 'l world \<Rightarrow> (int \<times> 'l world) res" where
  "zip7_inflateInit L p w =
     andthen (load as_zip7 p w) (\<lambda>ctx.
     let ctx = ctx\<lparr>dest_7zip := NULL_addr, destLen_7zip := 0, src_7zip := NULL_addr, srcLen_7zip := 0\<rparr>;
         ctx = ctx\<lparr>next_in_7zip := NULL_addr, avail_in_7zip := 0, total_in_7zip := 0,
                   next_out_7zip := NULL_addr, avail_out_7zip := 0, total_out_7zip := 0\<rparr>;
         ctx = ctx\<lparr>status_7zip := 0, dec_7zip := LzmaDec_Construct L (dec_7zip ctx)\<rparr>
     in Inr (UNIZIP_OK, store p (Zip7_obj ctx) w))"

text \<open>
  \<open>zip7_inflate\<close> has two parts: while nothing was read, the decoder is allocated from the
  properties at the beginning of the input; then one piece of the input is decoded.
\<close>

definition zip7_open ::
  "'l sdk_lib \<Rightarrow> zip7_ctx \<Rightarrow> 'l world \<Rightarrow> (int option \<times> zip7_ctx \<times> 'l world) res" where
  "zip7_open L ctx w =
     (if total_in_7zip ctx = 0 then
        let ctx = ctx\<lparr>src_7zip := next_in_7zip ctx, dest_7zip := next_out_7zip ctx\<rparr>
        in andthen (LzmaDec_Allocate L (dec_7zip ctx) (src_7zip ctx) (LZMA_PROPS_SIZE L) (bytes w) (lib w))
             (\<lambda>(rc, dec, l).
           let ctx = ctx\<lparr>dec_7zip := dec\<rparr>; w = w\<lparr>lib := l\<rparr>
           in if rc \<noteq> 0 then Inr (Some (zip7_map_error L rc), ctx, w)
              else Inr (None, ctx\<lparr>next_in_7zip := next_in_7zip ctx + LZMA_PROPS_SIZE L,
                                 total_in_7zip := total_in_7zip ctx + LZMA_PROPS_SIZE L,
                                 dec_7zip := LzmaDec_Init L dec\<rparr>, w))
      else Inr (None, ctx, w))"

definition zip7_decode :: "'l sdk_lib \<Rightarrow> zip7_ctx \<Rightarrow> 'l world \<Rightarrow> (int \<times> zip7_ctx \<times> 'l world) res" where
  "zip7_decode L ctx w =
     (if avail_in_7zip ctx = 0 then Inr (UNIZIP_STREAM_END, ctx, w)
      else
        let ctx = ctx\<lparr>src_7zip := next_in_7zip ctx, dest_7zip := next_out_7zip ctx,
                      srcLen_7zip := scast (avail_in_7zip ctx), destLen_7zip := scast (avail_out_7zip ctx)\<rparr>
        in andthen (LzmaDec_DecodeToBuf L (dec_7zip ctx) (dest_7zip ctx) (destLen_7zip ctx) (src_7zip ctx)
                      (srcLen_7zip ctx) (LZMA_FINISH_ANY L) (bytes w) (lib w)) (\<lambda>(dec, dlen, slen, st, m, l).
           let ctx = ctx\<lparr>dec_7zip := dec, destLen_7zip := dlen, srcLen_7zip := slen, status_7zip := st\<rparr>;
               ctx = ctx\<lparr>next_in_7zip := next_in_7zip ctx + srcLen_7zip ctx,
                         next_out_7zip := next_out_7zip ctx + destLen_7zip ctx,
                         total_in_7zip := total_in_7zip ctx + srcLen_7zip ctx,
                         total_out_7zip := total_out_7zip ctx + destLen_7zip ctx,
                         avail_in_7zip := ucast (scast (avail_in_7zip ctx) - srcLen_7zip ctx),
                         avail_out_7zip := ucast (scast (avail_out_7zip ctx) - destLen_7zip ctx)\<rparr>
           in Inr (if status_7zip ctx = LZMA_STATUS_FINISHED_WITH_MARK L then UNIZIP_STREAM_END else UNIZIP_OK,
                   ctx, w\<lparr>bytes := m, lib := l\<rparr>)))"

definition zip7_inflate :: "'l sdk_lib \<Rightarrow> ptr \<Rightarrow> 'l world \<Rightarrow> (int \<times> 'l world) res" where
  "zip7_inflate L p w =
     andthen (load as_zip7 p w) (\<lambda>ctx.
     andthen (zip7_open L ctx w) (\<lambda>(early, ctx, w).
     case early of
       Some rc \<Rightarrow> Inr (rc, store p (Zip7_obj ctx) w)
     | None \<Rightarrow> andthen (zip7_decode L ctx w) (\<lambda>(rc, ctx, w). Inr (rc, store p (Zip7_obj ctx) w))))"

definition zip7_inflateEnd :: "'l sdk_lib \<Rightarrow> ptr \<Rightarrow> 'l world \<Rightarrow> (int \<times> 'l world) res" where
  "zip7_inflateEnd L p w =
     andthen (load as_zip7 p w) (\<lambda>ctx.
     andthen (LzmaDec_Free L (dec_7zip ctx) (lib w)) (\<lambda>(dec, l).
     andthen (free p (store p (Zip7_obj (ctx\<lparr>dec_7zip := dec\<rparr>)) (w\<lparr>lib := l\<rparr>))) (\<lambda>w.
     Inr (UNIZIP_OK, w))))"

definition zip7_copy :: "ptr \<Rightarrow> ptr \<Rightarrow> 'l world \<Rightarrow> (int \<times> 'l world) res" where
  "zip7_copy dest source w =
     (if dest \<noteq> NULL_ptr \<and> source \<noteq> NULL_ptr then
        andthen (load as_zip7 source w) (\<lambda>c.
        andthen (load as_zip7 dest w) (\<lambda>_.
        Inr (UNIZIP_OK, store dest (Zip7_obj c) w)))
      else Inr (UNIZIP_ERRNO, w))"

definition zip7_compress ::
  "'l sdk_lib \<Rightarrow> addr \<Rightarrow> uLong option \<Rightarrow> addr \<Rightarrow> uLong \<Rightarrow> 'l world \<Rightarrow> (int \<times> uLong option \<times> 'l world) res" where
  "zip7_compress L dest destLen src srcLen w =
     (case destLen of None \<Rightarrow> Inl NullDeref
      | Some cap \<Rightarrow>
         let (ret, len, _, m) = LzmaEncode L (dest + LZMA_PROPS_SIZE L) cap src srcLen (LzmaEncProps_Init L)
                                  dest (LZMA_PROPS_SIZE L) 1 (bytes w)
         in Inr (zip7_map_error L ret, Some len, w\<lparr>bytes := m\<rparr>))"

definition zip7_uncompress ::
  "'l sdk_lib \<Rightarrow> addr \<Rightarrow> uLong option \<Rightarrow> addr \<Rightarrow> uLong \<Rightarrow> 'l world \<Rightarrow> (int \<times> uLong option \<times> 'l world) res" where
  "zip7_uncompress L dest destLen src srcLen w =
     (case destLen of None \<Rightarrow> Inl NullDeref
      | Some cap \<Rightarrow>
         let (ret, len, _, m) = LzmaUncompress L dest cap (src + LZMA_PROPS_SIZE L) srcLen src
                                  (LZMA_PROPS_SIZE L) (bytes w)
         in Inr (zip7_map_error L ret, Some len, w\<lparr>bytes := m\<rparr>))"

section \<open>The callback layer\<close>

definition versionCB_7zip :: "'l sdk_lib \<Rightarrow> string" where
  "versionCB_7zip L = MY_VERSION_NUMBERS L"

definition reset_7zip :: "unizip_stream \<Rightarrow> unizip_stream" where
  "reset_7zip strm = strm\<lparr>next_in := NULL_addr, next_out := NULL_addr, avail_in := 0,
     avail_out := 0, total_in := 0, total_out := 0\<rparr>"

definition deflateInitCB_7zip :: "'l sdk_lib \<Rightarrow> int \<Rightarrow> 'l stream_op" where
  "deflateInitCB_7zip L level strm w =
     (let (p, w) = zip7_allocate L w; strm = strm\<lparr>ud := p\<rparr>;
          strm = strm\<lparr>compression_flag := level\<rparr>
      in andthen (zip7_deflateInit (ud strm) level w) (\<lambda>(ret, w). Inr (ret, reset_7zip strm, w)))"

text \<open>Both stream callbacks copy the stream's six fields into the context and back.\<close>

definition zip7_pull :: "unizip_stream \<Rightarrow> zip7_ctx \<Rightarrow> zip7_ctx" where
  "zip7_pull strm ctx = ctx\<lparr>next_in_7zip := next_in strm, next_out_7zip := next_out strm,
     avail_in_7zip := avail_in strm, avail_out_7zip := avail_out strm,
     total_in_7zip := total_in strm, total_out_7zip := total_out strm\<rparr>"

definition zip7_push :: "zip7_ctx \<Rightarrow> unizip_stream \<Rightarrow> unizip_stream" where
  "zip7_push ctx strm = strm\<lparr>next_in := next_in_7zip ctx, next_out := next_out_7zip ctx,
     avail_in := avail_in_7zip ctx, avail_out := avail_out_7zip ctx,
     total_in := total_in_7zip ctx, total_out := total_out_7zip ctx\<rparr>"

definition deflateCB_7zip :: "'l sdk_lib \<Rightarrow> int \<Rightarrow> 'l stream_op" where
  "deflateCB_7zip L flush strm w =
     andthen (load as_zip7 (ud strm) w) (\<lambda>ctx.
     andthen (zip7_deflate L (ud strm) flush (store (ud strm) (Zip7_obj (zip7_pull strm ctx)) w)) (\<lambda>(ret, w).
     andthen (load as_zip7 (ud strm) w) (\<lambda>ctx.
     Inr (ret, zip7_push ctx strm, w))))"

definition deflateEndCB_7zip :: "'l stream_op" where
  "deflateEndCB_7zip strm w =
     (let ctx = ud strm; strm = reset_7zip strm
      in andthen (zip7_deflateEnd ctx w) (\<lambda>(ret, w). Inr (ret, strm, w)))"

definition inflateInitCB_7zip :: "'l sdk_lib \<Rightarrow> 'l stream_op" where
  "inflateInitCB_7zip L strm w =
     (let (p, w) = zip7_allocate L w; strm = strm\<lparr>ud := p\<rparr>
      in andthen (zip7_inflateInit L (ud strm) w) (\<lambda>(ret, w). Inr (ret, reset_7zip strm, w)))"

definition inflateCB_7zip :: "'l sdk_lib \<Rightarrow> int \<Rightarrow> 'l stream_op" where
  "inflateCB_7zip L flush strm w =
     andthen (load as_zip7 (ud strm) w) (\<lambda>ctx.
     andthen (zip7_inflate L (ud strm) (store (ud strm) (Zip7_obj (zip7_pull strm ctx)) w)) (\<lambda>(ret, w).
     andthen (load as_zip7 (ud strm) w) (\<lambda>ctx.
     Inr (ret, zip7_push ctx strm, w))))"

definition inflateEndCB_7zip :: "'l sdk_lib \<Rightarrow> 'l stream_op" where
  "inflateEndCB_7zip L strm w =
     (let ctx = ud strm; strm = reset_7zip strm
      in andthen (zip7_inflateEnd L ctx w) (\<lambda>(ret, w). Inr (ret, strm, w)))"

definition deflateCopyCB_7zip :: "unizip_stream \<Rightarrow> unizip_stream \<Rightarrow> 'l world \<Rightarrow> (int \<times> unizip_stream \<times> 'l world) res" where
  "deflateCopyCB_7zip dest source w =
     andthen (zip7_copy (ud dest) (ud source) w) (\<lambda>(ret, w). Inr (ret, dest, w))"

definition inflateCopyCB_7zip :: "unizip_stream \<Rightarrow> unizip_stream \<Rightarrow> 'l world \<Rightarrow> (int \<times> unizip_stream \<times> 'l world) res" where
  "inflateCopyCB_7zip dest source w =
     andthen (zip7_copy (ud dest) (ud source) w) (\<lambda>(ret, w). Inr (ret, dest, w))"

definition deflateResetCB_7zip :: "'l sdk_lib \<Rightarrow> 'l stream_op" where
  "deflateResetCB_7zip L strm w =
     andthen (zip7_deflateEnd (ud strm) w) (\<lambda>(_, w).
     let (p, w) = zip7_allocate L w; strm = strm\<lparr>ud := p\<rparr>;
         strm = (if compression_flag strm > levelMax_7zip \<or> compression_flag strm < levelMin_7zip
                 then strm\<lparr>compression_flag := levelDefault_7zip\<rparr> else strm)
     in andthen (zip7_deflateInit (ud strm) (compression_flag strm) w) (\<lambda>(ret, w). Inr (ret, strm, w)))"

definition inflateResetCB_7zip :: "'l sdk_lib \<Rightarrow> 'l stream_op" where
  "inflateResetCB_7zip L strm w =
     andthen (zip7_inflateEnd L (ud strm) w) (\<lambda>(_, w).
     let (p, w) = zip7_allocate L w; strm = strm\<lparr>ud := p\<rparr>
     in andthen (zip7_inflateInit L (ud strm) w) (\<lambda>(ret, w). Inr (ret, strm, w)))"

definition compressCB_7zip ::
  "'l sdk_lib \<Rightarrow> addr \<Rightarrow> uLong option \<Rightarrow> addr \<Rightarrow> uLong \<Rightarrow> 'l world \<Rightarrow> (int \<times> uLong option \<times> 'l world) res" where
  "compressCB_7zip L dest destLen source sourceLen w = zip7_compress L dest destLen source sourceLen w"

definition uncompressCB_7zip ::
  "'l sdk_lib \<Rightarrow> addr \<Rightarrow> uLong option \<Rightarrow> addr \<Rightarrow> uLong \<Rightarrow> 'l world \<Rightarrow> (int \<times> uLong option \<times> 'l world) res" where
  "uncompressCB_7zip L dest destLen source sourceLen w = zip7_uncompress L dest destLen source sourceLen w"

definition compressBoundCB_7zip :: "uLong \<Rightarrow> uLong res" where
  "compressBoundCB_7zip sourceLen = zip7_compressBound sourceLen"

section \<open>The callbacks on a live context\<close>

lemma zip7_helpers [simp]:
  "ud (zip7_push c s) = ud s" "level_7zip (zip7_pull s c) = level_7zip c"
  "src_7zip (zip7_pull s c) = src_7zip c" "dest_7zip (zip7_pull s c) = dest_7zip c"
  "next_in_7zip (zip7_pull s c) = next_in s" "next_out_7zip (zip7_pull s c) = next_out s"
  "avail_in_7zip (zip7_pull s c) = avail_in s" "avail_out_7zip (zip7_pull s c) = avail_out s"
  "total_in_7zip (zip7_pull s c) = total_in s" "total_out_7zip (zip7_pull s c) = total_out s"
  "level_7zip (zip7_begin c) = level_7zip c" "next_in_7zip (zip7_begin c) = next_in_7zip c"
  "next_out_7zip (zip7_begin c) = next_out_7zip c" "avail_in_7zip (zip7_begin c) = avail_in_7zip c"
  "avail_out_7zip (zip7_begin c) = avail_out_7zip c" "total_in_7zip (zip7_begin c) = total_in_7zip c"
  "total_out_7zip (zip7_begin c) = total_out_7zip c"
  by (simp_all add: zip7_push_def zip7_pull_def zip7_begin_def)

lemma zip7_collect_eq:
  assumes c: "load as_zip7 (ud s) w = Inr c" and "f \<noteq> 4"
  shows "deflateCB_7zip L f s w = (let c' = zip7_collect (zip7_begin (zip7_pull s c))
    in Inr (UNIZIP_OK, zip7_push c' s, store (ud s) (Zip7_obj c') w))"
  using load_nonnull [OF c] assms by (simp add: deflateCB_7zip_def zip7_deflate_def Let_def)

text \<open>What the finishing call hands to the encoder, and what it makes of the answer.\<close>

definition zip7_answer :: "'l sdk_lib \<Rightarrow> int \<Rightarrow> uLong \<Rightarrow> int" where
  "zip7_answer L ret ps =
     (let rc = (if ps \<noteq> LZMA_PROPS_SIZE L then UNIZIP_DATA_ERROR else zip7_map_error L ret)
      in if rc \<noteq> 0 then zip7_map_error L rc else UNIZIP_STREAM_END)"

lemma zip7_finish_eq:
  assumes c: "load as_zip7 (ud s) w = Inr c" and b: "b = zip7_begin (zip7_pull s c)"
  shows "deflateCB_7zip L 4 s w = andthen (zip7_compressBound (total_in s)) (\<lambda>bound.
    let (ret, k, ps, m) = LzmaEncode L (dest_7zip b + LZMA_PROPS_SIZE L) bound (src_7zip b) (total_in s)
          ((LzmaEncProps_Init L)\<lparr>level_props := level_7zip c\<rparr>) (dest_7zip b) (LZMA_PROPS_SIZE L) 1 (bytes w);
        c' = b\<lparr>srcLen_7zip := total_in s, destLen_7zip := k, total_out_7zip := k, next_out_7zip := dest_7zip b + k\<rparr>
    in Inr (zip7_answer L ret ps, zip7_push c' s, store (ud s) (Zip7_obj c') (w\<lparr>bytes := m\<rparr>)))"
proof (cases "zip7_compressBound (total_in s)")
  case (Inl e)
  then show ?thesis using load_nonnull [OF c] c
    by (simp add: deflateCB_7zip_def zip7_deflate_def zip7_deflate2_def b Let_def)
next
  case (Inr bound)
  obtain ret k ps m where e: "LzmaEncode L (dest_7zip b + LZMA_PROPS_SIZE L) bound (src_7zip b) (total_in s)
      ((LzmaEncProps_Init L)\<lparr>level_props := level_7zip c\<rparr>) (dest_7zip b) (LZMA_PROPS_SIZE L) 1 (bytes w) = (ret, k, ps, m)"
    by (metis prod_cases4)
  have "total_in_7zip b = total_in s" "level_7zip b = level_7zip c" by (simp_all add: b)
  then show ?thesis using load_nonnull [OF c] c Inr e
    by (simp add: deflateCB_7zip_def zip7_deflate_def zip7_deflate2_def b [symmetric] Let_def zip7_answer_def)
qed

section \<open>The heap\<close>

lemma zip7_deflate_keeps:
  assumes "holds as_zip7 (ud s) w" and bound: "zip7_compressBound (total_in s) = Inr b"
  shows "ensures (deflateCB_7zip L f s w) (\<lambda>(r, s', w'). ud s' = ud s \<and> keeps as_zip7 (ud s) w w')"
proof -
  from assms(1) obtain c where c: "load as_zip7 (ud s) w = Inr c" by (auto simp: holds_def)
  note p = load_nonnull [OF c]
  show ?thesis
    using p bound by (cases "f = 4") (simp_all add: zip7_finish_eq [OF c refl] zip7_collect_eq [OF c] Let_def
        split: prod.splits)
qed

lemma zip7_init_acquires:
  assumes "wf_heap w" and "deflateInitCB_7zip L level s w = Inr (UNIZIP_OK, s', w')"
  shows "acquires as_zip7 (ud s') w w' \<and> wf_heap w'"
proof -
  obtain p w1 where m: "zip7_allocate L w = (p, w1)" by fastforce
  from assms(2) m have ud: "ud s' = p" and d: "zip7_deflateInit p level w1 = Inr (0, w')"
    by (auto simp: deflateInitCB_7zip_def reset_7zip_def Let_def andthen_eq_Inr)
  from d have p: "p \<noteq> 0"
    by (auto simp: zip7_deflateInit_def andthen_eq_Inr simp del: neq0_conv dest: load_nonnull)
  note a = malloc_acquires [OF m [unfolded zip7_allocate_def] p assms(1), of as_zip7]
  from a(5) d p show ?thesis
    using a(1,2,5) by (auto simp: ud zip7_deflateInit_def Let_def andthen_eq_Inr intro: acquires_keeps wf_heap_store_holds)
qed


lemma zip7_end_frees:
  "wf_heap w \<Longrightarrow> holds as_zip7 (ud s) w \<Longrightarrow>
   ensures (deflateEndCB_7zip s w) (\<lambda>(r, s', w'). wf_heap w' \<and> releases (ud s) w w')"
  by (auto simp: deflateEndCB_7zip_def zip7_deflateEnd_def Let_def reset_7zip_def free_holds releases_def
      frame_def wf_heap_def)

section \<open>Collecting\<close>

text \<open>
  What the calls that do not finish preserve: the pointers are ahead of where the buffers
  begin by \<open>total_in\<close>, which the context remembers from the first call on.
\<close>

definition zip7_collected :: "addr \<Rightarrow> addr \<Rightarrow> int \<Rightarrow> mem \<Rightarrow> unizip_stream \<Rightarrow> 'l world \<Rightarrow> bool" where
  "zip7_collected src dst level m s w \<longleftrightarrow> (\<exists>c. load as_zip7 (ud s) w = Inr c \<and> level_7zip c = level \<and>
     next_in s = src + total_in s \<and> next_out s = dst + total_in s \<and> bytes w = m \<and>
     (total_in s = 0 \<or> src_7zip c = src \<and> dest_7zip c = dst))"

lemma zip7_collected_refill:
  "zip7_collected src dst level m s w \<Longrightarrow> keeps_buffers rf \<Longrightarrow>
   zip7_collected src dst level m (apply_refill rf s) (refill_world rf w)"
  by (cases rf) (auto simp: zip7_collected_def)

lemma zip7_begin_collected:
  assumes "next_in s = src + total_in s" and "next_out s = dst + total_in s"
    and "total_in s = 0 \<or> src_7zip c = src \<and> dest_7zip c = dst"
  shows "src_7zip (zip7_begin (zip7_pull s c)) = src" and "dest_7zip (zip7_begin (zip7_pull s c)) = dst"
  using assms by (auto simp: zip7_begin_def zip7_pull_def)

lemma zip7_collected_call:
  assumes "zip7_collected src dst level m s w" and "f \<noteq> 4"
  shows "ensures (deflateCB_7zip L f s w) (\<lambda>(r, s', w'). r = 0 \<and> zip7_collected src dst level m s' w' \<and>
    total_in s' = total_in s + scast (avail_in s))"
proof -
  from assms(1) obtain c where c: "load as_zip7 (ud s) w = Inr c" and i: "level_7zip c = level"
      "next_in s = src + total_in s" "next_out s = dst + total_in s" "bytes w = m"
      "total_in s = 0 \<or> src_7zip c = src \<and> dest_7zip c = dst"
    by (auto simp: zip7_collected_def)
  note b = zip7_begin_collected [OF i(2,3,5)]
  define b where "b = zip7_begin (zip7_pull s c)"
  have "src_7zip b = src" "dest_7zip b = dst" "level_7zip b = level" "next_in_7zip b = next_in s"
    "next_out_7zip b = next_out s" "total_in_7zip b = total_in s" "avail_in_7zip b = avail_in s"
    using b i(1) by (simp_all add: b_def)
  then show ?thesis
    using load_nonnull [OF c] i(2-4) assms(2)
    by (simp add: zip7_collect_eq [OF c] Let_def b_def [symmetric] zip7_collected_def zip7_collect_def zip7_push_def
        algebra_simps)
qed

lemma zip7_collected_run:
  assumes "zip7_collected src dst level m s w" and "\<forall>(rf, f) \<in> set cs. keeps_buffers rf \<and> f \<noteq> 4"
    and "run_calls (deflateCB_7zip L) cs s w = Inr (rs, s', w')"
  shows "zip7_collected src dst level m s' w' \<and> set rs \<subseteq> {0}"
  using assms
proof (induction cs arbitrary: s w rs)
  case (Cons x cs)
  obtain rf f where x: "x = (rf, f)" by (cases x)
  from Cons.prems(3) x obtain r s1 w1 rs1 where
    one: "deflateCB_7zip L f (apply_refill rf s) (refill_world rf w) = Inr (r, s1, w1)"
    and more: "run_calls (deflateCB_7zip L) cs s1 w1 = Inr (rs1, s', w')" and rs: "rs = r # rs1"
    by (auto simp: andthen_eq_Inr)
  from Cons.prems(2) x have "f \<noteq> 4" "keeps_buffers rf" by auto
  with zip7_collected_call [OF zip7_collected_refill [OF Cons.prems(1)], of rf f L] one
  have "r = 0" "zip7_collected src dst level m s1 w1" by simp_all
  with Cons.IH [OF _ _ more] Cons.prems(2) rs show ?case by simp
qed simp

section \<open>Properties\<close>

text \<open>The numbers of \<open>7zTypes.h\<close>: success is 0, errors are positive and distinct.\<close>

definition sz_codes :: "'l sdk_lib \<Rightarrow> bool" where
  "sz_codes L \<longleftrightarrow> SZ_OK L = 0 \<and> 0 < SZ_ERROR_DATA L \<and> 0 < SZ_ERROR_MEM L \<and> 0 < SZ_ERROR_UNSUPPORTED L \<and>
     0 < SZ_ERROR_PARAM L \<and> 0 < SZ_ERROR_INPUT_EOF L \<and> 0 < SZ_ERROR_OUTPUT_EOF L \<and> 0 < SZ_ERROR_THREAD L"

text \<open>A library for the witnesses: the encoder stores its input behind a zero byte.\<close>

definition demo_sdk :: "ptr list sdk_lib" where
  "demo_sdk = \<lparr>MY_VERSION_NUMBERS = ''21.07'', LZMA_PROPS_SIZE = 5, SZ_OK = 0, SZ_ERROR_DATA = 1,
     SZ_ERROR_MEM = 2, SZ_ERROR_UNSUPPORTED = 4, SZ_ERROR_PARAM = 5, SZ_ERROR_INPUT_EOF = 6,
     SZ_ERROR_OUTPUT_EOF = 7, SZ_ERROR_THREAD = 12, LZMA_FINISH_ANY = 0, LZMA_STATUS_FINISHED_WITH_MARK = 1,
     LzmaEncProps_Init = \<lparr>level_props = 5, other_props = []\<rparr>,
     LzmaEncode = (\<lambda>dst cap src n props pdst psize emark m. if n < cap
       then (0, n + 1, psize, write_mem (write_mem m pdst [93, 0, 0, 1, 0]) dst (0 # read_mem m src (unat n)))
       else (7, cap, psize, m)),
     LzmaUncompress = (\<lambda>dst cap src n pdst psize m. (1, cap, n, m)),
     LzmaDec_Construct = (\<lambda>_. []),
     LzmaDec_Allocate = (\<lambda>d src n m l. Inr (0, [1], l)),
     LzmaDec_Init = (\<lambda>d. d),
     LzmaDec_DecodeToBuf = (\<lambda>d dst cap src n fm m l. if d = [] then Inl NullDeref
       else let k = min cap n in Inr (d, k, k, 0, write_mem m dst (read_mem m src (unat k)), l)),
     LzmaDec_Free = (\<lambda>d l. Inr ([], l)),
     zip7_indet = \<lparr>dest_7zip = 1, destLen_7zip = 2, src_7zip = 3, srcLen_7zip = 4, level_7zip = 6,
       dec_7zip = [1, 2], status_7zip = 7, next_in_7zip = 8, avail_in_7zip = 9, total_in_7zip = 10,
       next_out_7zip = 11, avail_out_7zip = 12, total_out_7zip = 13\<rparr>\<rparr>"

lemma demo_sdk_codes: "sz_codes demo_sdk"
  by (simp add: sz_codes_def demo_sdk_def)

text \<open>
  C21: 7-Zip compresses in the finishing call, and only what earlier calls have taken.  After
  calls without \<open>Z_FINISH\<close> with buffers that are kept, which all succeed, the finishing call
  encodes the bytes from the first input pointer on, as many as \<open>total_in\<close> says, to the place
  behind the properties at the first output pointer; the capacity is the bound computed from
  the input length, not \<open>avail_out\<close>; the input still offered is ignored; and the properties
  are not counted in \<open>total_out\<close> nor in the final output pointer.
\<close>

theorem zip7_finish_encodes:
  assumes c: "load as_zip7 (ud s) w = Inr c" "total_in s = 0"
    and cs: "\<forall>(rf, f) \<in> set cs. keeps_buffers rf \<and> f \<noteq> 4"
    and run: "run_calls (deflateCB_7zip L) cs s w = Inr (rs, s1, w1)"
    and bound: "zip7_compressBound (total_in s1) = Inr b"
    and enc: "LzmaEncode L (next_out s + LZMA_PROPS_SIZE L) b (next_in s) (total_in s1)
      ((LzmaEncProps_Init L)\<lparr>level_props := level_7zip c\<rparr>) (next_out s) (LZMA_PROPS_SIZE L) 1 (bytes w)
      = (SZ_OK L, k, LZMA_PROPS_SIZE L, m)"
  shows "set rs \<subseteq> {UNIZIP_OK} \<and> ensures (deflateCB_7zip L 4 s1 w1) (\<lambda>(r, s', w').
    r = UNIZIP_STREAM_END \<and> bytes w' = m \<and> total_out s' = k \<and> next_out s' = next_out s + k \<and>
    total_in s' = total_in s1 \<and> next_in s' = next_in s1 \<and> avail_in s' = avail_in s1)"
proof
  have "zip7_collected (next_in s) (next_out s) (level_7zip c) (bytes w) s w"
    using c by (simp add: zip7_collected_def)
  from zip7_collected_run [OF this cs run] obtain c1 where r: "set rs \<subseteq> {0}"
    and c1: "load as_zip7 (ud s1) w1 = Inr c1" and i: "level_7zip c1 = level_7zip c"
      "next_in s1 = next_in s + total_in s1" "next_out s1 = next_out s + total_in s1" "bytes w1 = bytes w"
      "total_in s1 = 0 \<or> src_7zip c1 = next_in s \<and> dest_7zip c1 = next_out s"
    by (auto simp: zip7_collected_def)
  define e where "e = zip7_begin (zip7_pull s1 c1)"
  have e: "src_7zip e = next_in s" "dest_7zip e = next_out s" "total_in_7zip e = total_in s1"
    "next_in_7zip e = next_in s1" "avail_in_7zip e = avail_in s1"
    using zip7_begin_collected [OF i(2,3,5)] by (simp_all add: e_def)
  have "zip7_answer L (SZ_OK L) (LZMA_PROPS_SIZE L) = 1"
    by (simp add: zip7_answer_def zip7_map_error_def)
  with e enc i(1,4) show "ensures (deflateCB_7zip L 4 s1 w1) (\<lambda>(r, s', w').
      r = UNIZIP_STREAM_END \<and> bytes w' = m \<and> total_out s' = k \<and> next_out s' = next_out s + k \<and>
      total_in s' = total_in s1 \<and> next_in s' = next_in s1 \<and> avail_in s' = avail_in s1)"
    by (simp add: zip7_finish_eq [OF c1 e_def] bound Let_def zip7_push_def)
  show "set rs \<subseteq> {UNIZIP_OK}" by (rule r)
qed

lemma d_add_exact:
  "a + b < 2 ^ 53 \<Longrightarrow> d_add (a * 2 ^ 200) (b * 2 ^ 200) = (a + b) * 2 ^ 200"
  unfolding d_add_def by (rule nearest_exact) (simp_all add: algebra_simps)

lemma zip7_compressBound_3: "zip7_compressBound 3 = Inr 132"
proof -
  have n: "d_of_ulong 3 = 3 * 2 ^ 200" "d_of_ulong 128 = 128 * 2 ^ 200"
    by (simp_all add: d_of_ulong_exact)
  have "d_divide (3 * 2 ^ 200) (3 * 2 ^ 200) = 1 * 2 ^ 200"
    unfolding d_divide_def by (rule nearest_exact) simp_all
  then have "d_add (d_add (d_of_ulong 3) (d_divide (d_of_ulong 3) (d_of_ulong 3))) (d_of_ulong 128) = 132 * 2 ^ 200"
    unfolding n using d_add_exact [of 3 1] d_add_exact [of 4 128] by simp
  then show ?thesis by (simp add: zip7_compressBound_def ulong_of_d_def Let_def)
qed

lemma demo_sdk_init:
  obtains s w c where "deflateInitCB_7zip demo_sdk 5 demo_stream demo_world = Inr (0, s, w)"
    and "load as_zip7 (ud s) w = Inr c" and "total_in s = 0" and "ud s = 1" and "bytes w = bytes demo_world"
    and "level_7zip c = 5" and "lib w = []"
  by (simp add: deflateInitCB_7zip_def zip7_allocate_def malloc_ok zip7_deflateInit_def Let_def load_def
      deref_def reset_7zip_def demo_sdk_def)

theorem zip7_finish_encodes_witness:
  "\<exists>(s :: unizip_stream) (w :: ptr list world) rs s1 w1. next_in s = 1000 \<and> next_out s = 2000 \<and>
    read_mem (bytes w) 1000 3 = [7, 8, 9] \<and>
    run_calls (deflateCB_7zip demo_sdk) [(Keep, 0), (Amounts 1 0, 0)] s w = Inr (rs, s1, w1) \<and>
    ensures (deflateCB_7zip demo_sdk 4 s1 w1) (\<lambda>(r, s', w'). r = 1 \<and> total_out s' = 4 \<and> next_out s' = 2004 \<and>
      bytes w' = write_mem (write_mem (bytes w) 2000 [93, 0, 0, 1, 0]) 2005 [0, 7, 8, 9])"
proof -
  obtain s0 :: unizip_stream and w :: "ptr list world" and c where c0: "load as_zip7 (ud s0) w = Inr c" "total_in s0 = 0"
      "bytes w = bytes demo_world" "level_7zip c = 5"
    by (rule demo_sdk_init)
  define s where "s = s0\<lparr>next_in := 1000, avail_in := 2, next_out := 2000\<rparr>"
  have c: "load as_zip7 (ud s) w = Inr c" "total_in s = 0" "next_in s = 1000" "next_out s = 2000" "avail_in s = 2"
    using c0 by (simp_all add: s_def)
  have col: "zip7_collected 1000 2000 5 (bytes w) s w" using c c0(4) by (simp add: zip7_collected_def)
  from zip7_collected_call [OF col, of 0 demo_sdk] c(2,5) obtain sa wa where
    a: "deflateCB_7zip demo_sdk 0 s w = Inr (0, sa, wa)" "zip7_collected 1000 2000 5 (bytes w) sa wa" "total_in sa = 2"
    by (auto simp: ensures_def)
  from zip7_collected_call [OF zip7_collected_refill [OF a(2)], of "Amounts 1 0" 0 demo_sdk] a(3)
  obtain sb wb where b: "deflateCB_7zip demo_sdk 0 (apply_refill (Amounts 1 0) sa) wa = Inr (0, sb, wb)" "total_in sb = 3"
    by (auto simp: ensures_def)
  have run: "run_calls (deflateCB_7zip demo_sdk) [(Keep, 0), (Amounts 1 0, 0)] s w = Inr ([0, 0], sb, wb)"
    using a(1) b(1) by simp
  have bound: "zip7_compressBound (total_in sb) = Inr 132" by (simp add: b(2) zip7_compressBound_3)
  have rd: "read_mem (write_mem (bytes w) 2000 [93, 0, 0, 1, 0]) 1000 3 = [7, 8, 9]"
    by (simp add: c0(3) numeral_3_eq_3 read_mem_Suc)
  have "LzmaEncode demo_sdk (next_out s + LZMA_PROPS_SIZE demo_sdk) 132 (next_in s) (total_in sb)
      ((LzmaEncProps_Init demo_sdk)\<lparr>level_props := level_7zip c\<rparr>) (next_out s) (LZMA_PROPS_SIZE demo_sdk) 1 (bytes w)
      = (SZ_OK demo_sdk, 4, LZMA_PROPS_SIZE demo_sdk,
         write_mem (write_mem (bytes w) 2000 [93, 0, 0, 1, 0]) 2005 [0, 7, 8, 9])"
    using rd demo_bytes by (simp add: demo_sdk_def c b(2) c0(3))
  from zip7_finish_encodes [OF c(1,2) _ run bound this] c
  have "ensures (deflateCB_7zip demo_sdk 4 sb wb) (\<lambda>(r, s', w'). r = 1 \<and> total_out s' = 4 \<and> next_out s' = 2004 \<and>
      bytes w' = write_mem (write_mem (bytes w) 2000 [93, 0, 0, 1, 0]) 2005 [0, 7, 8, 9])"
    by (auto elim!: ensures_mono)
  moreover have "read_mem (bytes w) 1000 3 = [7, 8, 9]" unfolding c0(3) by (rule demo_bytes)
  ultimately show ?thesis
    using run c(3,4) by (intro exI [of _ s] exI [of _ w] exI [of _ "[0, 0]"] exI [of _ sb] exI [of _ wb] conjI)
qed

text \<open>
  \<open>zip7_deflate\<close> maps the error of the encoder twice, so whatever went wrong in the
  finishing call, lack of memory or of output space included, it is reported as
  \<open>UNIZIP_DATA_ERROR\<close>.
\<close>

theorem zip7_finish_error_is_data:
  assumes "sz_codes L" and "deflateCB_7zip L 4 s w = Inr (r, s', w')"
  shows "r = UNIZIP_STREAM_END \<or> r = UNIZIP_DATA_ERROR"
proof -
  from assms(2) obtain c where c: "load as_zip7 (ud s) w = Inr c" by (auto simp: deflateCB_7zip_def andthen_eq_Inr)
  have "zip7_answer L ret ps \<in> {1, - 3}" for ret ps
    using assms(1) by (auto simp: zip7_answer_def zip7_map_error_def sz_codes_def Let_def)
  moreover from assms(2) have "\<exists>ret ps. r = zip7_answer L ret ps"
    unfolding zip7_finish_eq [OF c refl] andthen_eq_Inr Let_def split_def by auto
  ultimately show ?thesis by blast
qed

theorem zip7_finish_error_is_data_witness:
  "\<exists>s w r s' w'. deflateCB_7zip (demo_sdk\<lparr>LzmaEncode := (\<lambda>dst cap src n props pdst psize emark m. (2, cap, psize, m))\<rparr>)
      4 s w = Inr (r, s', w') \<and> r = - 3"
proof -
  let ?L = "demo_sdk\<lparr>LzmaEncode := (\<lambda>dst cap src n props pdst psize emark m. (2, cap, psize, m))\<rparr>"
  obtain s0 :: unizip_stream and w :: "ptr list world" and c where c0: "load as_zip7 (ud s0) w = Inr c"
    by (rule demo_sdk_init)
  define s where "s = s0\<lparr>total_in := 3\<rparr>"
  have c: "load as_zip7 (ud s) w = Inr c" "total_in s = 3" using c0 by (simp_all add: s_def)
  have "zip7_answer ?L 2 5 = - 3" by (simp add: zip7_answer_def zip7_map_error_def demo_sdk_def)
  then have "\<exists>r s' w'. deflateCB_7zip ?L 4 s w = Inr (r, s', w') \<and> r \<noteq> 1"
    unfolding zip7_finish_eq [OF c(1) refl] by (simp add: c(2) zip7_compressBound_3 Let_def) (simp add: demo_sdk_def)
  then obtain r s' w' where d: "deflateCB_7zip ?L 4 s w = Inr (r, s', w')" "r \<noteq> 1" by blast
  have "sz_codes ?L" using demo_sdk_codes by (simp add: sz_codes_def)
  from zip7_finish_error_is_data [OF this d(1)] d show ?thesis by blast
qed

text \<open>
  C37: a 7-Zip stream that has read anything cannot be used after \<open>inflateReset\<close>.  The reset
  makes a new decoder but leaves \<open>total_in\<close>, which tells \<open>inflate\<close> whether the decoder was
  allocated; so the next call with any input decodes with a decoder that has no memory.
\<close>

theorem zip7_inflate_reset_unusable:
  assumes fresh: "\<And>d dst cap src n fm m l. LzmaDec_DecodeToBuf L (LzmaDec_Construct L d) dst cap src n fm m l = Inl NullDeref"
    and reset: "inflateResetCB_7zip L s w = Inr (r, s1, w1)" and "total_in s \<noteq> 0"
  shows "total_in s1 = total_in s \<and>
    (0 < ai \<longrightarrow> inflateCB_7zip L f (s1\<lparr>next_in := ni, avail_in := ai, next_out := no, avail_out := ao\<rparr>) w1 = Inl NullDeref)"
proof
  from reset obtain a w2 where e: "zip7_inflateEnd L (ud s) w = Inr (a, w2)"
    by (auto simp: inflateResetCB_7zip_def andthen_eq_Inr)
  obtain p w3 where "zip7_allocate L w2 = (p, w3)" by fastforce
  with e reset have i: "zip7_inflateInit L p w3 = Inr (r, w1)" and s1: "s1 = s\<lparr>ud := p\<rparr>"
    by (auto simp: inflateResetCB_7zip_def Let_def andthen_eq_Inr)
  then show "total_in s1 = total_in s" by simp
  from i obtain c0 where "load as_zip7 p w3 = Inr c0" by (auto simp: zip7_inflateInit_def andthen_eq_Inr)
  then have "p \<noteq> 0" by (rule load_nonnull)
  with i obtain c d where c: "load as_zip7 p w1 = Inr c" "dec_7zip c = LzmaDec_Construct L d"
    by (auto simp: zip7_inflateInit_def andthen_eq_Inr Let_def)
  show "0 < ai \<longrightarrow> inflateCB_7zip L f (s1\<lparr>next_in := ni, avail_in := ai, next_out := no, avail_out := ao\<rparr>) w1 = Inl NullDeref"
    using \<open>p \<noteq> 0\<close> c assms(1,3) by (auto simp: inflateCB_7zip_def zip7_inflate_def zip7_open_def zip7_decode_def
        zip7_pull_def s1 Let_def)
qed

lemma demo_sdk_free [simp]: "LzmaDec_Free demo_sdk d l = Inr ([], l)"
  by (simp add: demo_sdk_def)

theorem zip7_inflate_reset_unusable_witness:
  "\<exists>s w s1 w1. inflateResetCB_7zip demo_sdk s w = Inr (0, s1, w1) \<and> total_in s1 = 3 \<and>
    inflateCB_7zip demo_sdk 0 (s1\<lparr>next_in := 1000, avail_in := 2, next_out := 2000, avail_out := 9\<rparr>) w1 = Inl NullDeref"
proof -
  obtain s0 :: unizip_stream and w :: "ptr list world" where w: "inflateInitCB_7zip demo_sdk demo_stream demo_world = Inr (0, s0, w)"
      "holds as_zip7 (ud s0) w" "allocs w = 1" "ud s0 = 1" "\<not> oom w 1"
    by (simp add: inflateInitCB_7zip_def zip7_allocate_def malloc_ok zip7_inflateInit_def Let_def load_def
        deref_def reset_7zip_def demo_sdk_def holds_def)
  define s where "s = s0\<lparr>total_in := 3\<rparr>"
  have t: "total_in s \<noteq> 0" "total_in s = 3" by (simp_all add: s_def)
  from w(2) obtain c where c: "load as_zip7 1 w = Inr c" by (auto simp: holds_def w(4))
  have "\<exists>s1 w1. inflateResetCB_7zip demo_sdk s w = Inr (0, s1, w1)"
    using w c by (simp add: s_def inflateResetCB_7zip_def zip7_inflateEnd_def zip7_allocate_def malloc_ok
        zip7_inflateInit_def Let_def load_def deref_def split: option.splits)
  then obtain s1 w1 where r: "inflateResetCB_7zip demo_sdk s w = Inr (0, s1, w1)" by blast
  have "LzmaDec_DecodeToBuf demo_sdk (LzmaDec_Construct demo_sdk d) dst cap src n fm m l = Inl NullDeref" for d dst cap src n fm m l
    by (simp add: demo_sdk_def)
  from zip7_inflate_reset_unusable [OF this r t(1), where ai = 2 and f = 0 and ni = 1000 and no = 2000 and ao = 9] r t(2) show ?thesis by auto
qed


section \<open>One-shot calls\<close>

text \<open>
  The codec behind \<open>zip7_compress\<close>: the properties, \<open>LZMA_PROPS_SIZE\<close> bytes, and the stream
  behind them.  The reported length counts the stream only.
\<close>

definition zip7_enc :: "'l sdk_lib \<Rightarrow> codec" where
  "zip7_enc L dst cap src n m =
     (let (r, len, _, m) = LzmaEncode L (dst + LZMA_PROPS_SIZE L) (cap - LZMA_PROPS_SIZE L) src n (LzmaEncProps_Init L)
                             dst (LZMA_PROPS_SIZE L) 1 m
      in if r = SZ_OK L then Some (len + LZMA_PROPS_SIZE L, m) else None)"

definition zip7_dec :: "'l sdk_lib \<Rightarrow> codec" where
  "zip7_dec L dst cap src n m =
     (let (r, len, _, m) = LzmaUncompress L dst cap (src + LZMA_PROPS_SIZE L) (n - LZMA_PROPS_SIZE L) src
                             (LZMA_PROPS_SIZE L) m
      in if r = SZ_OK L then Some (len, m) else None)"

lemma zip7_map_error_ok: "zip7_map_error L r = UNIZIP_OK \<longleftrightarrow> r = SZ_OK L"
  by (simp add: zip7_map_error_def)

interpretation zip7_shots: one_shot True "LZMA_PROPS_SIZE L" "\<lambda>_ _. True" "zip7_enc L" "zip7_dec L"
  "compressCB_7zip L" "uncompressCB_7zip L" for L
proof unfold_locales
  fix dest source n cap len :: uLong and w w' :: "'a world"
  assume "compressCB_7zip L dest (Some cap) source n w = Inr (UNIZIP_OK, Some len, w')"
  then show "zip7_enc L dest (cap + LZMA_PROPS_SIZE L) source n (bytes w) = Some (len + LZMA_PROPS_SIZE L, bytes w')"
    by (cases "LzmaEncode L (dest + LZMA_PROPS_SIZE L) cap source n (LzmaEncProps_Init L) dest (LZMA_PROPS_SIZE L) 1 (bytes w)")
      (auto simp: compressCB_7zip_def zip7_compress_def zip7_enc_def zip7_map_error_ok)
next
  fix dest source n cap len :: uLong and w :: "'a world" and m
  assume "zip7_dec L dest cap source (len + LZMA_PROPS_SIZE L) (bytes w) = Some (n, m)"
  then show "\<exists>w'. uncompressCB_7zip L dest (Some cap) source len w = Inr (UNIZIP_OK, Some n, w') \<and> bytes w' = m"
    by (cases "LzmaUncompress L dest cap (source + LZMA_PROPS_SIZE L) len source (LZMA_PROPS_SIZE L) (bytes w)")
      (auto simp: uncompressCB_7zip_def zip7_uncompress_def zip7_dec_def zip7_map_error_ok split: if_splits)
qed

text \<open>
  C39: 7-Zip's \<open>compress\<close> may write behind the buffer it is given.  It passes the whole capacity
  on as room behind the properties; when the encoder fills that room, the last
  \<open>LZMA_PROPS_SIZE\<close> (5) bytes of the stream lie behind the end of the buffer, and the call
  reports success.
\<close>

theorem zip7_compress_overruns:
  assumes enc: "LzmaEncode L (dest + LZMA_PROPS_SIZE L) cap source n (LzmaEncProps_Init L) dest (LZMA_PROPS_SIZE L) 1 (bytes w) =
      (SZ_OK L, cap, ps, m)"
    and out: "read_mem m (dest + LZMA_PROPS_SIZE L) (unat cap) = stream" and fits: "unat (LZMA_PROPS_SIZE L) \<le> unat cap"
  shows "\<exists>w'. compressCB_7zip L dest (Some cap) source n w = Inr (UNIZIP_OK, Some cap, w') \<and>
    read_mem (bytes w') (dest + cap) (unat (LZMA_PROPS_SIZE L)) = drop (unat cap - unat (LZMA_PROPS_SIZE L)) stream"
proof -
  let ?k = "unat (LZMA_PROPS_SIZE L)" and ?c = "unat cap"
  have "read_mem m (dest + cap) ?k = drop (?c - ?k) (read_mem m (dest + LZMA_PROPS_SIZE L) ?c)"
  proof (rule nth_equalityI)
    fix i assume "i < length (read_mem m (dest + cap) ?k)"
    moreover have "(of_nat (?c - ?k + i) :: addr) = cap - LZMA_PROPS_SIZE L + of_nat i" using fits by (simp add: of_nat_diff)
    ultimately show "read_mem m (dest + cap) ?k ! i = drop (?c - ?k) (read_mem m (dest + LZMA_PROPS_SIZE L) ?c) ! i"
      using fits by (simp add: read_mem_def del: of_nat_add) (simp add: algebra_simps)
  qed (use fits in simp)
  with enc out show ?thesis by (simp add: compressCB_7zip_def zip7_compress_def zip7_map_error_ok)
qed

theorem zip7_compress_overruns_witness:
  "\<exists>w'. compressCB_7zip (demo_sdk\<lparr>LzmaEncode := \<lambda>dst cap src n props pdst psize emark m.
       (0, cap, psize, write_mem m dst (replicate (unat cap) 1))\<rparr>) 2000 (Some 6) 1000 3 demo_world = Inr (UNIZIP_OK, Some 6, w') \<and>
     read_mem (bytes w') 2006 5 = replicate 5 1"
proof -
  let ?L = "demo_sdk\<lparr>LzmaEncode := \<lambda>dst cap src n props pdst psize emark m.
       (0, cap, psize, write_mem m dst (replicate (unat cap) 1))\<rparr>"
  have s: "LZMA_PROPS_SIZE ?L = 5" "SZ_OK ?L = 0" by (simp_all add: demo_sdk_def)
  have o: "read_mem (write_mem m (2000 + 5) (replicate 6 1)) (2000 + 5) 6 = replicate 6 1" for m
    using read_write_mem [of "replicate 6 1" m "2000 + 5"] by (simp del: write_mem.simps)
  show ?thesis
    using zip7_compress_overruns [of ?L 2000 6 1000 3 demo_world 5 "write_mem (bytes demo_world) 2005 (replicate 6 1)" "replicate 6 1"] o
    by (simp add: s del: write_mem.simps)
qed

end
