(* ===== verification/Zlib.thy ===== *)
theory Zlib
  imports Instances
begin

text \<open>
  The zlib and gzip back ends: \<open>zlib/unizip_callback_zlib.c\<close> and
  \<open>gzip/unizip_callback_gzip.c\<close>.  Both pass every call to the zlib library, the parameter
  \<open>zlib_lib\<close>, after casting the \<open>unizip_stream *\<close> to a \<open>z_stream *\<close>.  The cast is sound
  because the fields of \<open>z_stream\<close> are the first fields of \<open>unizip_stream\<close>: the record
  \<open>z_stream\<close> is that prefix, \<open>as_z\<close> reads it and \<open>put_z\<close> writes it back.
\<close>

record z_stream =
  next_in_z :: addr
  avail_in_z :: uInt
  total_in_z :: uLong
  next_out_z :: addr
  avail_out_z :: uInt
  total_out_z :: uLong
  msg_z :: ptr
  state_z :: ptr
  zalloc_z :: ptr
  zfree_z :: ptr
  opaque_z :: ptr
  data_type_z :: int
  adler_z :: uLong
  reserved_z :: uLong

type_synonym 'l z_op = "z_stream \<Rightarrow> mem \<Rightarrow> 'l \<Rightarrow> (int \<times> z_stream \<times> mem \<times> 'l) res"

record 'l zlib_lib =
  zlibVersion :: string
  zError :: "int \<Rightarrow> string"
  zlib_deflateInit :: "int \<Rightarrow> 'l z_op"
  zlib_deflate :: "int \<Rightarrow> 'l z_op"
  zlib_deflateEnd :: "'l z_op"
  zlib_inflateInit :: "'l z_op"
  zlib_inflate :: "int \<Rightarrow> 'l z_op"
  zlib_inflateEnd :: "'l z_op"
  zlib_deflateCopy :: "z_stream \<Rightarrow> 'l z_op"
  zlib_inflateCopy :: "z_stream \<Rightarrow> 'l z_op"
  zlib_deflateReset :: "'l z_op"
  zlib_inflateReset :: "'l z_op"
  zlib_compress :: "addr \<Rightarrow> uLong option \<Rightarrow> addr \<Rightarrow> uLong \<Rightarrow> mem \<Rightarrow> (int \<times> uLong option \<times> mem) res"
  zlib_uncompress :: "addr \<Rightarrow> uLong option \<Rightarrow> addr \<Rightarrow> uLong \<Rightarrow> mem \<Rightarrow> (int \<times> uLong option \<times> mem) res"
  zlib_compressBound :: "uLong \<Rightarrow> uLong"
  zlib_deflateInit2 :: "int \<Rightarrow> int \<Rightarrow> int \<Rightarrow> int \<Rightarrow> int \<Rightarrow> 'l z_op"
  zlib_inflateInit2 :: "int \<Rightarrow> 'l z_op"
  zlib_compress2 :: "addr \<Rightarrow> uLong option \<Rightarrow> addr \<Rightarrow> uLong \<Rightarrow> int \<Rightarrow> mem \<Rightarrow> (int \<times> uLong option \<times> mem) res"
  zlib_uncompress2 :: "addr \<Rightarrow> uLong option \<Rightarrow> addr \<Rightarrow> uLong option \<Rightarrow> mem \<Rightarrow>
    (int \<times> uLong option \<times> uLong option \<times> mem) res"
  zlib_deflateParams :: "int \<Rightarrow> int \<Rightarrow> 'l z_op"
  zlib_deflateSetDictionary :: "addr \<Rightarrow> uInt \<Rightarrow> 'l z_op"
  zlib_deflatePending :: "z_stream \<Rightarrow> uInt option \<Rightarrow> int option \<Rightarrow> 'l \<Rightarrow> (int \<times> uInt option \<times> int option) res"
  zlib_deflateSetHeader :: "ptr \<Rightarrow> 'l z_op"
  zlib_inflateSetDictionary :: "addr \<Rightarrow> uInt \<Rightarrow> 'l z_op"
  zlib_inflateGetHeader :: "ptr \<Rightarrow> 'l z_op"

section \<open>The cast\<close>

definition as_z :: "unizip_stream \<Rightarrow> z_stream" where
  "as_z s = \<lparr>next_in_z = next_in s, avail_in_z = avail_in s, total_in_z = total_in s,
     next_out_z = next_out s, avail_out_z = avail_out s, total_out_z = total_out s, msg_z = msg s,
     state_z = state s, zalloc_z = zalloc s, zfree_z = zfree s, opaque_z = opaque s,
     data_type_z = data_type s, adler_z = adler s, reserved_z = reserved s\<rparr>"

definition put_z :: "z_stream \<Rightarrow> unizip_stream \<Rightarrow> unizip_stream" where
  "put_z z s = s\<lparr>next_in := next_in_z z, avail_in := avail_in_z z, total_in := total_in_z z,
     next_out := next_out_z z, avail_out := avail_out_z z, total_out := total_out_z z, msg := msg_z z,
     state := state_z z, zalloc := zalloc_z z, zfree := zfree_z z, opaque := opaque_z z,
     data_type := data_type_z z, adler := adler_z z, reserved := reserved_z z\<rparr>"

text \<open>A call of a library function on the cast pointer.\<close>

definition on_z :: "'l z_op \<Rightarrow> 'l stream_op" where
  "on_z f strm w = andthen (f (as_z strm) (bytes w) (lib w)) (\<lambda>(r, z, m, l).
     Inr (r, put_z z strm, w\<lparr>bytes := m, lib := l\<rparr>))"

text \<open>A one-shot call, which may read and write memory but keeps no state.\<close>

definition on_mem :: "(mem \<Rightarrow> (int \<times> 'a \<times> mem) res) \<Rightarrow> 'l world \<Rightarrow> (int \<times> 'a \<times> 'l world) res" where
  "on_mem f w = andthen (f (bytes w)) (\<lambda>(r, len, m). Inr (r, len, w\<lparr>bytes := m\<rparr>))"

section \<open>The zlib callbacks\<close>

definition versionCB_zlib :: "'l zlib_lib \<Rightarrow> string" where
  "versionCB_zlib Z = zlibVersion Z"

definition deflateInitCB_zlib :: "'l zlib_lib \<Rightarrow> int \<Rightarrow> 'l stream_op" where
  "deflateInitCB_zlib Z level strm w = on_z (zlib_deflateInit Z level) strm w"

definition deflateCB_zlib :: "'l zlib_lib \<Rightarrow> int \<Rightarrow> 'l stream_op" where
  "deflateCB_zlib Z flush strm w = on_z (zlib_deflate Z flush) strm w"

definition deflateEndCB_zlib :: "'l zlib_lib \<Rightarrow> 'l stream_op" where
  "deflateEndCB_zlib Z strm w = on_z (zlib_deflateEnd Z) strm w"

definition inflateInitCB_zlib :: "'l zlib_lib \<Rightarrow> 'l stream_op" where
  "inflateInitCB_zlib Z strm w = on_z (zlib_inflateInit Z) strm w"

definition inflateCB_zlib :: "'l zlib_lib \<Rightarrow> int \<Rightarrow> 'l stream_op" where
  "inflateCB_zlib Z flush strm w = on_z (zlib_inflate Z flush) strm w"

definition inflateEndCB_zlib :: "'l zlib_lib \<Rightarrow> 'l stream_op" where
  "inflateEndCB_zlib Z strm w = on_z (zlib_inflateEnd Z) strm w"

definition deflateResetCB_zlib :: "'l zlib_lib \<Rightarrow> 'l stream_op" where
  "deflateResetCB_zlib Z strm w = on_z (zlib_deflateReset Z) strm w"

definition inflateResetCB_zlib :: "'l zlib_lib \<Rightarrow> 'l stream_op" where
  "inflateResetCB_zlib Z strm w = on_z (zlib_inflateReset Z) strm w"

definition deflateCopyCB_zlib :: "'l zlib_lib \<Rightarrow> unizip_stream \<Rightarrow> unizip_stream \<Rightarrow> 'l world \<Rightarrow> (int \<times> unizip_stream \<times> 'l world) res" where
  "deflateCopyCB_zlib Z dest source w = on_z (zlib_deflateCopy Z (as_z source)) dest w"

definition inflateCopyCB_zlib :: "'l zlib_lib \<Rightarrow> unizip_stream \<Rightarrow> unizip_stream \<Rightarrow> 'l world \<Rightarrow> (int \<times> unizip_stream \<times> 'l world) res" where
  "inflateCopyCB_zlib Z dest source w = on_z (zlib_inflateCopy Z (as_z source)) dest w"

definition compressCB_zlib ::
  "'l zlib_lib \<Rightarrow> addr \<Rightarrow> uLong option \<Rightarrow> addr \<Rightarrow> uLong \<Rightarrow> 'l world \<Rightarrow> (int \<times> uLong option \<times> 'l world) res" where
  "compressCB_zlib Z dest destLen source sourceLen w = on_mem (zlib_compress Z dest destLen source sourceLen) w"

definition uncompressCB_zlib ::
  "'l zlib_lib \<Rightarrow> addr \<Rightarrow> uLong option \<Rightarrow> addr \<Rightarrow> uLong \<Rightarrow> 'l world \<Rightarrow> (int \<times> uLong option \<times> 'l world) res" where
  "uncompressCB_zlib Z dest destLen source sourceLen w = on_mem (zlib_uncompress Z dest destLen source sourceLen) w"

definition compressBoundCB_zlib :: "'l zlib_lib \<Rightarrow> uLong \<Rightarrow> uLong" where
  "compressBoundCB_zlib Z sourceLen = zlib_compressBound Z sourceLen"

definition deflateInit2CB_zlib :: "'l zlib_lib \<Rightarrow> int \<Rightarrow> int \<Rightarrow> int \<Rightarrow> int \<Rightarrow> int \<Rightarrow> 'l stream_op" where
  "deflateInit2CB_zlib Z level meth windowBits memLevel strategy strm w =
     on_z (zlib_deflateInit2 Z level meth windowBits memLevel strategy) strm w"

definition inflateInit2CB_zlib :: "'l zlib_lib \<Rightarrow> int \<Rightarrow> 'l stream_op" where
  "inflateInit2CB_zlib Z windowBits strm w = on_z (zlib_inflateInit2 Z windowBits) strm w"

definition compress2CB_zlib ::
  "'l zlib_lib \<Rightarrow> addr \<Rightarrow> uLong option \<Rightarrow> addr \<Rightarrow> uLong \<Rightarrow> int \<Rightarrow> 'l world \<Rightarrow> (int \<times> uLong option \<times> 'l world) res" where
  "compress2CB_zlib Z dest destLen source sourceLen level w =
     on_mem (zlib_compress2 Z dest destLen source sourceLen level) w"

definition uncompress2CB_zlib ::
  "'l zlib_lib \<Rightarrow> addr \<Rightarrow> uLong option \<Rightarrow> addr \<Rightarrow> uLong option \<Rightarrow> 'l world \<Rightarrow>
   (int \<times> uLong option \<times> uLong option \<times> 'l world) res" where
  "uncompress2CB_zlib Z dest destLen source sourceLen w =
     andthen (zlib_uncompress2 Z dest destLen source sourceLen (bytes w)) (\<lambda>(r, dlen, slen, m).
     Inr (r, dlen, slen, w\<lparr>bytes := m\<rparr>))"

definition deflateSetHeaderCB_zlib :: "'l zlib_lib \<Rightarrow> ptr \<Rightarrow> 'l stream_op" where
  "deflateSetHeaderCB_zlib Z head strm w = on_z (zlib_deflateSetHeader Z head) strm w"

definition inflateGetHeaderCB_zlib :: "'l zlib_lib \<Rightarrow> ptr \<Rightarrow> 'l stream_op" where
  "inflateGetHeaderCB_zlib Z head strm w = on_z (zlib_inflateGetHeader Z head) strm w"

definition deflateParamsCB_zlib :: "'l zlib_lib \<Rightarrow> int \<Rightarrow> int \<Rightarrow> 'l stream_op" where
  "deflateParamsCB_zlib Z level strategy strm w = on_z (zlib_deflateParams Z level strategy) strm w"

definition deflateSetDictionaryCB_zlib :: "'l zlib_lib \<Rightarrow> addr \<Rightarrow> uInt \<Rightarrow> 'l stream_op" where
  "deflateSetDictionaryCB_zlib Z dictionary dictLength strm w =
     on_z (zlib_deflateSetDictionary Z dictionary dictLength) strm w"

definition deflatePendingCB_zlib ::
  "'l zlib_lib \<Rightarrow> unizip_stream \<Rightarrow> uInt option \<Rightarrow> int option \<Rightarrow> 'l world \<Rightarrow> (int \<times> uInt option \<times> int option) res" where
  "deflatePendingCB_zlib Z strm pending bits w = zlib_deflatePending Z (as_z strm) pending bits (lib w)"

definition inflateSetDictionaryCB_zlib :: "'l zlib_lib \<Rightarrow> addr \<Rightarrow> uInt \<Rightarrow> 'l stream_op" where
  "inflateSetDictionaryCB_zlib Z dictionary dictLength strm w =
     on_z (zlib_inflateSetDictionary Z dictionary dictLength) strm w"

section \<open>The gzip callbacks\<close>

definition versionCB_gzip :: "'l zlib_lib \<Rightarrow> string" where
  "versionCB_gzip Z = zlibVersion Z"

definition deflateInitCB_gzip :: "'l zlib_lib \<Rightarrow> int \<Rightarrow> 'l stream_op" where
  "deflateInitCB_gzip Z level strm w = on_z (zlib_deflateInit Z level) strm w"

definition deflateCB_gzip :: "'l zlib_lib \<Rightarrow> int \<Rightarrow> 'l stream_op" where
  "deflateCB_gzip Z flush strm w = on_z (zlib_deflate Z flush) strm w"

definition deflateEndCB_gzip :: "'l zlib_lib \<Rightarrow> 'l stream_op" where
  "deflateEndCB_gzip Z strm w = on_z (zlib_deflateEnd Z) strm w"

definition inflateInitCB_gzip :: "'l zlib_lib \<Rightarrow> 'l stream_op" where
  "inflateInitCB_gzip Z strm w = on_z (zlib_inflateInit Z) strm w"

definition inflateCB_gzip :: "'l zlib_lib \<Rightarrow> int \<Rightarrow> 'l stream_op" where
  "inflateCB_gzip Z flush strm w = on_z (zlib_inflate Z flush) strm w"

definition inflateEndCB_gzip :: "'l zlib_lib \<Rightarrow> 'l stream_op" where
  "inflateEndCB_gzip Z strm w = on_z (zlib_inflateEnd Z) strm w"

definition deflateResetCB_gzip :: "'l zlib_lib \<Rightarrow> 'l stream_op" where
  "deflateResetCB_gzip Z strm w = on_z (zlib_deflateReset Z) strm w"

definition inflateResetCB_gzip :: "'l zlib_lib \<Rightarrow> 'l stream_op" where
  "inflateResetCB_gzip Z strm w = on_z (zlib_inflateReset Z) strm w"

definition deflateCopyCB_gzip :: "'l zlib_lib \<Rightarrow> unizip_stream \<Rightarrow> unizip_stream \<Rightarrow> 'l world \<Rightarrow> (int \<times> unizip_stream \<times> 'l world) res" where
  "deflateCopyCB_gzip Z dest source w = on_z (zlib_deflateCopy Z (as_z source)) dest w"

definition inflateCopyCB_gzip :: "'l zlib_lib \<Rightarrow> unizip_stream \<Rightarrow> unizip_stream \<Rightarrow> 'l world \<Rightarrow> (int \<times> unizip_stream \<times> 'l world) res" where
  "inflateCopyCB_gzip Z dest source w = on_z (zlib_inflateCopy Z (as_z source)) dest w"

definition compressCB_gzip ::
  "'l zlib_lib \<Rightarrow> addr \<Rightarrow> uLong option \<Rightarrow> addr \<Rightarrow> uLong \<Rightarrow> 'l world \<Rightarrow> (int \<times> uLong option \<times> 'l world) res" where
  "compressCB_gzip Z dest destLen source sourceLen w = on_mem (zlib_compress Z dest destLen source sourceLen) w"

definition uncompressCB_gzip ::
  "'l zlib_lib \<Rightarrow> addr \<Rightarrow> uLong option \<Rightarrow> addr \<Rightarrow> uLong \<Rightarrow> 'l world \<Rightarrow> (int \<times> uLong option \<times> 'l world) res" where
  "uncompressCB_gzip Z dest destLen source sourceLen w = on_mem (zlib_uncompress Z dest destLen source sourceLen) w"

definition compressBoundCB_gzip :: "'l zlib_lib \<Rightarrow> uLong \<Rightarrow> uLong" where
  "compressBoundCB_gzip Z sourceLen = zlib_compressBound Z sourceLen"

definition deflateInit2CB_gzip :: "'l zlib_lib \<Rightarrow> int \<Rightarrow> int \<Rightarrow> int \<Rightarrow> int \<Rightarrow> int \<Rightarrow> 'l stream_op" where
  "deflateInit2CB_gzip Z level meth windowBits memLevel strategy strm w =
     on_z (zlib_deflateInit2 Z level meth windowBits memLevel strategy) strm w"

definition inflateInit2CB_gzip :: "'l zlib_lib \<Rightarrow> int \<Rightarrow> 'l stream_op" where
  "inflateInit2CB_gzip Z windowBits strm w = on_z (zlib_inflateInit2 Z windowBits) strm w"

definition compress2CB_gzip ::
  "'l zlib_lib \<Rightarrow> addr \<Rightarrow> uLong option \<Rightarrow> addr \<Rightarrow> uLong \<Rightarrow> int \<Rightarrow> 'l world \<Rightarrow> (int \<times> uLong option \<times> 'l world) res" where
  "compress2CB_gzip Z dest destLen source sourceLen level w =
     on_mem (zlib_compress2 Z dest destLen source sourceLen level) w"

definition uncompress2CB_gzip ::
  "'l zlib_lib \<Rightarrow> addr \<Rightarrow> uLong option \<Rightarrow> addr \<Rightarrow> uLong option \<Rightarrow> 'l world \<Rightarrow>
   (int \<times> uLong option \<times> uLong option \<times> 'l world) res" where
  "uncompress2CB_gzip Z dest destLen source sourceLen w =
     andthen (zlib_uncompress2 Z dest destLen source sourceLen (bytes w)) (\<lambda>(r, dlen, slen, m).
     Inr (r, dlen, slen, w\<lparr>bytes := m\<rparr>))"

definition deflateSetHeaderCB_gzip :: "'l zlib_lib \<Rightarrow> ptr \<Rightarrow> 'l stream_op" where
  "deflateSetHeaderCB_gzip Z head strm w = on_z (zlib_deflateSetHeader Z head) strm w"

definition inflateGetHeaderCB_gzip :: "'l zlib_lib \<Rightarrow> ptr \<Rightarrow> 'l stream_op" where
  "inflateGetHeaderCB_gzip Z head strm w = on_z (zlib_inflateGetHeader Z head) strm w"

section \<open>The cast is faithful\<close>

lemma as_z_put_z [simp]: "as_z (put_z z s) = z"
  by (simp add: as_z_def put_z_def)

lemma put_z_as_z [simp]: "put_z (as_z s) s = s"
  by (simp add: as_z_def put_z_def)

lemma put_z_put_z [simp]: "put_z z (put_z z' s) = put_z z s"
  by (simp add: put_z_def)

text \<open>The two fields \<open>unizip_stream\<close> adds, and every context of the other back ends, are out of reach.\<close>

lemma put_z_rest [simp]: "ud (put_z z s) = ud s" "compression_flag (put_z z s) = compression_flag s"
  by (simp_all add: put_z_def)

lemma on_z_frame:
  "on_z f s w = Inr (r, s', w') \<Longrightarrow> ud s' = ud s \<and> compression_flag s' = compression_flag s \<and>
     heap w' = heap w \<and> allocs w' = allocs w"
  by (auto simp: on_z_def andthen_eq_Inr)

text \<open>A whole run of calls is the run of the library on its own structure.\<close>

lemma on_z_then:
  "andthen (on_z f s w) (\<lambda>(r, s, w). on_z g s w) =
     on_z (\<lambda>z m l. andthen (f z m l) (\<lambda>(r, z, m, l). g z m l)) s w"
  by (auto simp: on_z_def andthen_def split: sum.split)


section \<open>One-shot calls\<close>

definition zlib_enc :: "'l zlib_lib \<Rightarrow> codec" where
  "zlib_enc Z dst cap src n m =
     (case zlib_compress Z dst (Some cap) src n m of
        Inr (r, Some len, m) \<Rightarrow> if r = 0 then Some (len, m) else None | _ \<Rightarrow> None)"

definition zlib_dec :: "'l zlib_lib \<Rightarrow> codec" where
  "zlib_dec Z dst cap src n m =
     (case zlib_uncompress Z dst (Some cap) src n m of
        Inr (r, Some len, m) \<Rightarrow> if r = 0 then Some (len, m) else None | _ \<Rightarrow> None)"

interpretation zlib_shots: one_shot True 0 "\<lambda>_ _. True" "zlib_enc Z" "zlib_dec Z" "compressCB_zlib Z" "uncompressCB_zlib Z"
  for Z :: "'l zlib_lib"
  by unfold_locales
    (auto simp: zlib_enc_def zlib_dec_def compressCB_zlib_def uncompressCB_zlib_def on_mem_def andthen_eq_Inr
      split: sum.splits option.splits if_splits)

interpretation gzip_shots: one_shot True 0 "\<lambda>_ _. True" "zlib_enc Z" "zlib_dec Z" "compressCB_gzip Z" "uncompressCB_gzip Z"
  for Z :: "'l zlib_lib"
  by unfold_locales
    (auto simp: zlib_enc_def zlib_dec_def compressCB_gzip_def uncompressCB_gzip_def on_mem_def andthen_eq_Inr
      split: sum.splits option.splits if_splits)

section \<open>Streams\<close>

text \<open>
  What \<open>zlib.h\<close> documents of the data.  \<open>codes h l xs ys\<close>: the stream with the private state \<open>h\<close>
  has consumed \<open>xs\<close> and produced \<open>ys\<close>.  A call that reports \<open>Z_OK\<close> (0) or \<open>Z_STREAM_END\<close> (1) has
  consumed bytes from \<open>next_in\<close> on and written bytes from \<open>next_out\<close> on, no more than offered, and
  has moved both pointers; at the end of the stream the two are an input and its coded form, \<open>dec\<close>
  being the decoding of the format.
\<close>

definition z_streams ::
  "(byte list \<Rightarrow> byte list \<Rightarrow> bool) \<Rightarrow> (ptr \<Rightarrow> 'l \<Rightarrow> byte list \<Rightarrow> byte list \<Rightarrow> bool) \<Rightarrow> 'l z_op \<Rightarrow> bool" where
  "z_streams complete codes f \<longleftrightarrow> (\<forall>z m l r z' m' l' xs ys. codes (state_z z) l xs ys \<longrightarrow> f z m l = Inr (r, z', m', l') \<longrightarrow>
     r = 0 \<or> r = 1 \<longrightarrow>
     (\<exists>k vs. k \<le> unat (avail_in_z z) \<and> length vs \<le> unat (avail_out_z z) \<and> next_in_z z' = next_in_z z + of_nat k \<and>
        next_out_z z' = next_out_z z + of_nat (length vs) \<and> m' = write_mem m (next_out_z z) vs \<and>
        codes (state_z z') l' (xs @ read_mem m (next_in_z z) k) (ys @ vs) \<and>
        (r = 1 \<longrightarrow> complete (xs @ read_mem m (next_in_z z) k) (ys @ vs))))"

definition z_starts :: "(ptr \<Rightarrow> 'l \<Rightarrow> byte list \<Rightarrow> byte list \<Rightarrow> bool) \<Rightarrow> 'l z_op \<Rightarrow> bool" where
  "z_starts codes f \<longleftrightarrow> (\<forall>z m l z' m' l'. f z m l = Inr (0, z', m', l') \<longrightarrow> codes (state_z z') l' [] [])"

definition z_encodes ::
  "'l zlib_lib \<Rightarrow> (byte list \<Rightarrow> byte list option) \<Rightarrow> (ptr \<Rightarrow> 'l \<Rightarrow> byte list \<Rightarrow> byte list \<Rightarrow> bool) \<Rightarrow> bool" where
  "z_encodes Z dec codes \<longleftrightarrow> (\<forall>level. z_starts codes (zlib_deflateInit Z level)) \<and>
     (\<forall>f. z_streams (\<lambda>xs ys. dec ys = Some xs) codes (zlib_deflate Z f))"

definition z_decodes ::
  "'l zlib_lib \<Rightarrow> (byte list \<Rightarrow> byte list option) \<Rightarrow> (ptr \<Rightarrow> 'l \<Rightarrow> byte list \<Rightarrow> byte list \<Rightarrow> bool) \<Rightarrow> bool" where
  "z_decodes Z dec codes \<longleftrightarrow> z_starts codes (zlib_inflateInit Z) \<and>
     (\<forall>f. z_streams (\<lambda>xs ys. dec xs = Some ys) codes (zlib_inflate Z f))"

definition z_coding ::
  "(ptr \<Rightarrow> 'l \<Rightarrow> byte list \<Rightarrow> byte list \<Rightarrow> bool) \<Rightarrow> unizip_stream \<Rightarrow> 'l world \<Rightarrow> byte list \<Rightarrow> byte list \<Rightarrow> bool" where
  "z_coding codes s w xs ys \<longleftrightarrow> codes (state s) (lib w) xs ys"

lemma z_coding_refill: "z_coding codes s w xs ys \<Longrightarrow> z_coding codes (apply_refill rf s) (refill_world rf w) xs ys"
  by (cases rf) (simp_all add: z_coding_def)

lemma z_coding_starts:
  "z_starts codes f \<Longrightarrow> on_z f s w = Inr (UNIZIP_OK, s', w') \<Longrightarrow> z_coding codes s' w' [] []"
  by (auto simp: on_z_def andthen_eq_Inr z_coding_def z_starts_def put_z_def)

lemma on_z_streams:
  assumes lib: "z_streams complete codes f" and inv: "z_coding codes s w xs ys" and f: "on_z f s w = Inr (r, s', w')"
    and good: "r = UNIZIP_OK \<or> r = UNIZIP_STREAM_END"
  shows "z_coding codes s' w' (xs @ consumed s w s') (ys @ produced s s' w') \<and>
    (r = UNIZIP_STREAM_END \<longrightarrow> complete (xs @ consumed s w s') (ys @ produced s s' w'))"
proof -
  from f obtain z m l where call: "f (as_z s) (bytes w) (lib w) = Inr (r, z, m, l)"
    and out: "s' = put_z z s" "w' = w\<lparr>bytes := m, lib := l\<rparr>" by (auto simp: on_z_def andthen_eq_Inr)
  have "codes (state_z (as_z s)) (lib w) xs ys" using inv by (simp add: z_coding_def as_z_def)
  from lib [unfolded z_streams_def, rule_format, OF this call] good
  obtain k vs where k: "k \<le> unat (avail_in s)" "length vs \<le> unat (avail_out s)"
    and moved: "next_in_z z = next_in s + of_nat k" "next_out_z z = next_out s + of_nat (length vs)" "m = write_mem (bytes w) (next_out s) vs"
    and new: "codes (state_z z) l (xs @ read_mem (bytes w) (next_in s) k) (ys @ vs)"
      "r = 1 \<longrightarrow> complete (xs @ read_mem (bytes w) (next_in s) k) (ys @ vs)"
    by (auto simp: as_z_def)
  have small: "k < 2 ^ 64" "length vs < 2 ^ 64"
    using k unat_uInt [of "avail_in s"] unat_uInt [of "avail_out s"] by linarith+
  have "next_in s' = next_in s + of_nat k" "next_out s' = next_out s + of_nat (length vs)"
    "bytes w' = write_mem (bytes w) (next_out s) vs" using moved by (simp_all add: out put_z_def)
  with small have io: "consumed s w s' = read_mem (bytes w) (next_in s) k" "produced s s' w' = vs"
    by (simp_all add: consumed_moved produced_moved)
  have "state s' = state_z z" "lib w' = l" by (simp_all add: out put_z_def)
  with new show ?thesis by (simp add: io z_coding_def)
qed

interpretation zlib_encoding: streaming "z_encodes Z dec codes" "\<lambda>xs ys. dec ys = Some xs"
  "deflateInitCB_zlib Z" "deflateCB_zlib Z" "z_coding codes" for Z dec codes
  by unfold_locales (auto simp: z_encodes_def deflateInitCB_zlib_def deflateCB_zlib_def
      intro: z_coding_starts z_coding_refill on_z_streams [THEN conjunct1] on_z_streams [THEN conjunct2, THEN mp])

interpretation zlib_decoding: streaming "z_decodes Z dec codes" "\<lambda>xs ys. dec xs = Some ys"
  "\<lambda>level. inflateInitCB_zlib Z" "inflateCB_zlib Z" "z_coding codes" for Z dec codes
  by unfold_locales (auto simp: z_decodes_def inflateInitCB_zlib_def inflateCB_zlib_def
      intro: z_coding_starts z_coding_refill on_z_streams [THEN conjunct1] on_z_streams [THEN conjunct2, THEN mp])

interpretation gzip_encoding: streaming "z_encodes Z dec codes" "\<lambda>xs ys. dec ys = Some xs"
  "deflateInitCB_gzip Z" "deflateCB_gzip Z" "z_coding codes" for Z dec codes
  by unfold_locales (auto simp: z_encodes_def deflateInitCB_gzip_def deflateCB_gzip_def
      intro: z_coding_starts z_coding_refill on_z_streams [THEN conjunct1] on_z_streams [THEN conjunct2, THEN mp])

interpretation gzip_decoding: streaming "z_decodes Z dec codes" "\<lambda>xs ys. dec xs = Some ys"
  "\<lambda>level. inflateInitCB_gzip Z" "inflateCB_gzip Z" "z_coding codes" for Z dec codes
  by unfold_locales (auto simp: z_decodes_def inflateInitCB_gzip_def inflateCB_gzip_def
      intro: z_coding_starts z_coding_refill on_z_streams [THEN conjunct1] on_z_streams [THEN conjunct2, THEN mp])

text \<open>A zlib that stores: both directions copy what fits, and end when told to finish (4) with no input left.\<close>

definition storing_call :: "int \<Rightarrow> 'l z_op" where
  "storing_call f z m l =
     (let n = min (avail_in_z z) (avail_out_z z); data = read_mem m (next_in_z z) (unat n)
      in Inr (if f = 4 \<and> n = avail_in_z z then 1 else 0,
           z\<lparr>next_in_z := next_in_z z + ucast n, avail_in_z := avail_in_z z - n,
             next_out_z := next_out_z z + ucast n, avail_out_z := avail_out_z z - n\<rparr>,
           write_mem m (next_out_z z) data, l))"

definition storing_zlib :: "'l zlib_lib \<Rightarrow> 'l zlib_lib" where
  "storing_zlib Z = Z\<lparr>zlib_deflateInit := \<lambda>level z m l. Inr (0, z, m, l), zlib_inflateInit := \<lambda>z m l. Inr (0, z, m, l),
     zlib_deflate := storing_call, zlib_inflate := storing_call\<rparr>"

lemma storing_streams:
  assumes "\<And>xs. complete xs xs"
  shows "z_streams complete (\<lambda>h l xs ys. ys = xs) (storing_call f)"
  unfolding z_streams_def
proof (intro allI impI)
  fix z m and l :: 'l and r z' m' l' xs ys
  assume inv: "ys = (xs :: byte list)" and call: "storing_call f z m l = Inr (r, z', m', l')"
  let ?n = "min (avail_in_z z) (avail_out_z z)"
  let ?k = "unat ?n" and ?vs = "read_mem m (next_in_z z) (unat ?n)"
  have le: "?k \<le> unat (avail_in_z z)" "length ?vs \<le> unat (avail_out_z z)" by (simp_all add: min_def word_le_nat_alt)
  have n: "ucast ?n = (of_nat ?k :: addr)" by simp
  from call have out: "next_in_z z' = next_in_z z + of_nat ?k" "next_out_z z' = next_out_z z + of_nat (length ?vs)"
    "m' = write_mem m (next_out_z z) ?vs" by (auto simp: storing_call_def Let_def)
  show "\<exists>k vs. k \<le> unat (avail_in_z z) \<and> length vs \<le> unat (avail_out_z z) \<and> next_in_z z' = next_in_z z + of_nat k \<and>
      next_out_z z' = next_out_z z + of_nat (length vs) \<and> m' = write_mem m (next_out_z z) vs \<and>
      ys @ vs = xs @ read_mem m (next_in_z z) k \<and> (r = 1 \<longrightarrow> complete (xs @ read_mem m (next_in_z z) k) (ys @ vs))"
    by (rule exI [of _ ?k], rule exI [of _ ?vs]) (use le out inv assms in blast)
qed

lemma storing_codes:
  "z_encodes (storing_zlib Z) Some (\<lambda>h l xs ys. ys = xs)" "z_decodes (storing_zlib Z) Some (\<lambda>h l xs ys. ys = xs)"
  by (simp_all add: z_encodes_def z_decodes_def storing_zlib_def z_starts_def storing_streams)

end
