(* ===== verification/UadkAlg.thy ===== *)
theory UadkAlg
  imports Instances Cstrings
begin

unbundle bit_operations_syntax

text \<open>
  The algorithm layer of the UADK back end, \<open>uadk/unizip_algorithm_uadk.c\<close>: a zlib-like
  interface over the stream operations of the hardware accelerator.  The UADK library is the
  parameter \<open>wd_lib\<close>.  A pointer to a \<open>struct zip_stream\<close> that may be \<open>NULL\<close> is an option of
  its contents; the functions return the new contents.  The control block, the operation data
  and the queue are objects of the heap.  Loops are \<open>partial_function (option)\<close>: \<open>None\<close> is a
  loop that does not end.
\<close>

record 'l wd_lib =
  WCRYPTO_ZLIB :: int
  WCRYPTO_GZIP :: int
  WCRYPTO_DEFLATE :: int
  WCRYPTO_INFLATE :: int
  WCRYPTO_COMP_STATEFUL :: int
  WCRYPTO_COMP_STREAM_NEW :: int
  WCRYPTO_COMP_STREAM_OLD :: int
  WCRYPTO_NO_FLUSH :: int
  WCRYPTO_SYNC_FLUSH :: int
  WCRYPTO_FINISH :: int
  WCRYPTO_DECOMP_END :: int
  WCRYPTO_DECOMP_END_NOSPACE :: int
  WD_VERIFY_ERR :: int
  WD_IN_EPARA :: int
  wd_request_queue :: "ptr \<Rightarrow> wd_queue \<Rightarrow> 'l \<Rightarrow> int \<times> wd_queue \<times> 'l"
  wd_release_queue :: "ptr \<Rightarrow> wd_queue \<Rightarrow> 'l \<Rightarrow> 'l res"
  wd_blkpool_create :: "ptr \<Rightarrow> uInt \<Rightarrow> uInt \<Rightarrow> uInt \<Rightarrow> 'l \<Rightarrow> ptr \<times> 'l"
  wd_blkpool_destroy :: "ptr \<Rightarrow> 'l \<Rightarrow> 'l res"
  wd_alloc_blk :: "ptr \<Rightarrow> 'l \<Rightarrow> addr \<times> 'l"
  wd_free_blk :: "ptr \<Rightarrow> addr \<Rightarrow> 'l \<Rightarrow> 'l res"
  wcrypto_create_comp_ctx :: "ptr \<Rightarrow> int \<Rightarrow> int \<Rightarrow> ptr \<Rightarrow> 'l \<Rightarrow> ptr \<times> 'l"
  wcrypto_del_comp_ctx :: "ptr \<Rightarrow> 'l \<Rightarrow> 'l res"
  wcrypto_do_comp :: "ptr \<Rightarrow> wcrypto_comp_op_data \<Rightarrow> mem \<Rightarrow> 'l \<Rightarrow> (int \<times> wcrypto_comp_op_data \<times> mem \<times> 'l) res"
  uadk_tool_output :: "string option"
  buffer_indet :: "nat \<Rightarrow> char"
  zip_stream_indet :: zip_stream

abbreviation DMEMSIZE :: uInt where "DMEMSIZE \<equiv> 1024 * 1024"
abbreviation MAX_WBITS :: int where "MAX_WBITS \<equiv> 15"
abbreviation DEF_WBITS :: int where "DEF_WBITS \<equiv> MAX_WBITS"
abbreviation DEF_MEM_LEVEL :: int where "DEF_MEM_LEVEL \<equiv> 8"
abbreviation Z_DEFAULT_COMPRESSION :: int where "Z_DEFAULT_COMPRESSION \<equiv> - 1"
abbreviation Z_DEFAULT_STRATEGY :: int where "Z_DEFAULT_STRATEGY \<equiv> 0"
abbreviation Z_DEFLATED :: int where "Z_DEFLATED \<equiv> 8"

text \<open>What \<open>calloc\<close> returns.\<close>

definition zero_queue :: wd_queue where
  "zero_queue = \<lparr>alg_queue = None, throughput_queue = 0, latency_queue = 0, direction_queue = 0, qinfo_queue = NULL_ptr\<rparr>"

definition zero_op :: wcrypto_comp_op_data where
  "zero_op = \<lparr>alg_type_op = 0, flush_op = 0, stream_pos_op = 0, status_op = 0, in_op = NULL_addr,
     out_op = NULL_addr, in_len_op = 0, avail_out_op = 0, consumed_op = 0, produced_op = 0, isize_op = 0,
     checksum_op = 0\<rparr>"

definition zero_ctl :: zip_ctl where
  "zero_ctl = \<lparr>pool_ctl = NULL_ptr, in_ctl = NULL_addr, out_ctl = NULL_addr, ctxbuf_ctl = NULL_ptr,
     queue_ctl = NULL_ptr, ctx_ctl = NULL_ptr, opdata_ctl = NULL_ptr\<rparr>"

text \<open>A library function that only changes the state of the library.\<close>

definition on_lib :: "('l \<Rightarrow> 'l res) \<Rightarrow> 'l world \<Rightarrow> 'l world res" where
  "on_lib f w = andthen (f (lib w)) (\<lambda>l. Inr (w\<lparr>lib := l\<rparr>))"

section \<open>Setting up and tearing down\<close>

text \<open>The cleanup labels of \<open>hw_init\<close>, from the last one to the first one.\<close>

definition hw_q_free :: "int \<Rightarrow> ptr \<Rightarrow> 'l world \<Rightarrow> (int \<times> 'l world) res" where
  "hw_q_free ret q w = andthen (free q w) (\<lambda>w.
     Inr (if ret = UNIZIP_DATA_ERROR then UNIZIP_DATA_ERROR else UNIZIP_MEM_ERROR, w))"

definition release_q :: "'l wd_lib \<Rightarrow> int \<Rightarrow> ptr \<Rightarrow> 'l world \<Rightarrow> (int \<times> 'l world) res" where
  "release_q L ret q w =
     andthen (load as_queue q w) (\<lambda>qc.
     andthen (on_lib (wd_release_queue L q qc) w) (hw_q_free ret q))"

definition buf_free :: "'l wd_lib \<Rightarrow> int \<Rightarrow> ptr \<Rightarrow> ptr \<Rightarrow> addr \<Rightarrow> addr \<Rightarrow> 'l world \<Rightarrow> (int \<times> 'l world) res" where
  "buf_free L ret q pool inb outb w =
     andthen (if inb \<noteq> NULL_addr then on_lib (wd_free_blk L pool inb) w else Inr w) (\<lambda>w.
     andthen (if outb \<noteq> NULL_addr then on_lib (wd_free_blk L pool outb) w else Inr w) (\<lambda>w.
     andthen (on_lib (wd_blkpool_destroy L pool) w) (release_q L ret q)))"

definition comp_ctx_free ::
  "'l wd_lib \<Rightarrow> int \<Rightarrow> ptr \<Rightarrow> ptr \<Rightarrow> addr \<Rightarrow> addr \<Rightarrow> ptr \<Rightarrow> 'l world \<Rightarrow> (int \<times> 'l world) res" where
  "comp_ctx_free L ret q pool inb outb zip_ctx w =
     andthen (on_lib (wcrypto_del_comp_ctx L zip_ctx) w) (buf_free L ret q pool inb outb)"

definition comp_opdata_free ::
  "'l wd_lib \<Rightarrow> int \<Rightarrow> ptr \<Rightarrow> ptr \<Rightarrow> addr \<Rightarrow> addr \<Rightarrow> ptr \<Rightarrow> ptr \<Rightarrow> 'l world \<Rightarrow> (int \<times> 'l world) res" where
  "comp_opdata_free L ret q pool inb outb zip_ctx opdata w =
     andthen (free opdata w) (comp_ctx_free L ret q pool inb outb zip_ctx)"

text \<open>A failure: the stream keeps its contents.\<close>

definition failing :: "zip_stream \<Rightarrow> (int \<times> 'l world) res \<Rightarrow> (int \<times> zip_stream \<times> 'l world) res" where
  "failing zs m = andthen m (\<lambda>(ret, w). Inr (ret, zs, w))"

text \<open>The last part of \<open>hw_init\<close>, from the creation of the compression context on.\<close>

definition hw_init_ctx ::
  "'l wd_lib \<Rightarrow> zip_stream \<Rightarrow> int \<Rightarrow> int \<Rightarrow> ptr \<Rightarrow> ptr \<Rightarrow> addr \<Rightarrow> addr \<Rightarrow> 'l world \<Rightarrow> (int \<times> zip_stream \<times> 'l world) res" where
  "hw_init_ctx L zstrm alg_type ret q pool inb outb w =
     (let (zip_ctx, l) = wcrypto_create_comp_ctx L q alg_type (WCRYPTO_COMP_STATEFUL L) pool (lib w);
          w = w\<lparr>lib := l\<rparr>
      in if zip_ctx = NULL_ptr then failing zstrm (buf_free L ret q pool inb outb w)
         else
           let (opdata, w) = malloc (Op_obj zero_op) w
           in if opdata = NULL_ptr then failing zstrm (comp_ctx_free L ret q pool inb outb zip_ctx w)
              else
                let w = store opdata (Op_obj (zero_op\<lparr>in_op := inb, out_op := outb,
                          stream_pos_op := WCRYPTO_COMP_STREAM_NEW L, alg_type_op := alg_type\<rparr>)) w;
                    (ctl, w) = malloc (Ctl_obj zero_ctl) w
                in if ctl = NULL_ptr
                   then failing zstrm (comp_opdata_free L ret q pool inb outb zip_ctx opdata w)
                   else Inr (UNIZIP_OK, zstrm\<lparr>next_in_hw := inb, next_out_hw := outb, reserved_hw := ctl\<rparr>,
                          store ctl (Ctl_obj (zero_ctl\<lparr>pool_ctl := pool, in_ctl := inb, out_ctl := outb,
                            ctx_ctl := zip_ctx, queue_ctl := q, opdata_ctl := opdata\<rparr>)) w))"

text \<open>The part before it: the pool and its two blocks.\<close>

definition hw_init_pool ::
  "'l wd_lib \<Rightarrow> zip_stream \<Rightarrow> int \<Rightarrow> int \<Rightarrow> ptr \<Rightarrow> 'l world \<Rightarrow> (int \<times> zip_stream \<times> 'l world) res" where
  "hw_init_pool L zstrm alg_type ret q w =
     (let (pool, l) = wd_blkpool_create L q DMEMSIZE 3 128 (lib w); w = w\<lparr>lib := l\<rparr>
      in if pool = NULL_ptr then failing zstrm (release_q L ret q w)
         else
           let (inb, l) = wd_alloc_blk L pool (lib w); w = w\<lparr>lib := l\<rparr>;
               (outb, l) = wd_alloc_blk L pool (lib w); w = w\<lparr>lib := l\<rparr>
           in if inb = NULL_addr \<or> outb = NULL_addr
              then failing zstrm (buf_free L ret q pool inb outb w)
              else hw_init_ctx L zstrm alg_type ret q pool inb outb w)"

definition hw_init ::
  "'l wd_lib \<Rightarrow> zip_stream \<Rightarrow> int \<Rightarrow> int \<Rightarrow> 'l world \<Rightarrow> (int \<times> zip_stream \<times> 'l world) res" where
  "hw_init L zstrm alg_type comp_optype w =
     (let (q, w) = malloc (Queue_obj zero_queue) w
      in if q = NULL_ptr then Inr (UNIZIP_MEM_ERROR, zstrm, w)
         else if alg_type \<noteq> WCRYPTO_ZLIB L \<and> alg_type \<noteq> WCRYPTO_GZIP L
         then failing zstrm (hw_q_free UNIZIP_DATA_ERROR q w)
         else
           let qc = zero_queue\<lparr>alg_queue := Some (if alg_type = WCRYPTO_ZLIB L then ''zlib'' else ''gzip''),
                      latency_queue := 0, throughput_queue := 0, direction_queue := comp_optype\<rparr>;
               (ret, qc, l) = wd_request_queue L q qc (lib w);
               w = store q (Queue_obj qc) (w\<lparr>lib := l\<rparr>)
           in if ret \<noteq> 0 then failing zstrm (hw_q_free ret q w)
              else hw_init_pool L zstrm alg_type ret q w)"

definition hw_end :: "'l wd_lib \<Rightarrow> zip_stream \<Rightarrow> 'l world \<Rightarrow> 'l world res" where
  "hw_end L zstrm w =
     andthen (load as_ctl (reserved_hw zstrm) w) (\<lambda>ctl.
     let opdata = opdata_ctl ctl
     in andthen (if in_ctl ctl \<noteq> NULL_addr then on_lib (wd_free_blk L (pool_ctl ctl) (in_ctl ctl)) w else Inr w) (\<lambda>w.
        andthen (if out_ctl ctl \<noteq> NULL_addr then on_lib (wd_free_blk L (pool_ctl ctl) (out_ctl ctl)) w else Inr w) (\<lambda>w.
        andthen (if ctx_ctl ctl \<noteq> NULL_ptr then on_lib (wcrypto_del_comp_ctx L (ctx_ctl ctl)) w else Inr w) (\<lambda>w.
        andthen (if queue_ctl ctl \<noteq> NULL_ptr then
                   andthen (load as_queue (queue_ctl ctl) w) (\<lambda>qc.
                   andthen (on_lib (wd_release_queue L (queue_ctl ctl) qc) w) (free (queue_ctl ctl)))
                 else Inr w) (\<lambda>w.
        andthen (on_lib (wd_blkpool_destroy L (pool_ctl ctl)) w) (\<lambda>w.
        andthen (free opdata w) (free (reserved_hw zstrm))))))))"

section \<open>Calls of the hardware\<close>

definition bit_reverse :: "32 word \<Rightarrow> 32 word" where
  "bit_reverse x =
     (let x = drop_bit 1 (x AND 0xaaaaaaaa) OR push_bit 1 (x AND 0x55555555);
          x = drop_bit 2 (x AND 0xcccccccc) OR push_bit 2 (x AND 0x33333333);
          x = drop_bit 4 (x AND 0xf0f0f0f0) OR push_bit 4 (x AND 0x0f0f0f0f);
          x = drop_bit 8 (x AND 0xff00ff00) OR push_bit 8 (x AND 0x00ff00ff)
      in drop_bit 16 x OR push_bit 16 x)"

definition swab32 :: "32 word \<Rightarrow> 32 word" where
  "swab32 x = push_bit 24 (x AND 0x000000ff) OR push_bit 8 (x AND 0x0000ff00) OR
     drop_bit 8 (x AND 0x00ff0000) OR drop_bit 24 (x AND 0xff000000)"

text \<open>The four bytes of a word in memory, on a little-endian machine.\<close>

definition le_bytes :: "32 word \<Rightarrow> byte list" where
  "le_bytes x = [ucast x, ucast (drop_bit 8 x), ucast (drop_bit 16 x), ucast (drop_bit 24 x)]"

text \<open>An empty stored block, and the trailer of the format if the stream is finished.\<close>

definition append_store_block ::
  "'l wd_lib \<Rightarrow> zip_stream \<Rightarrow> int \<Rightarrow> 'l world \<Rightarrow> (int \<times> zip_stream \<times> 'l world) res" where
  "append_store_block L zstrm flush w =
     andthen (load as_ctl (reserved_hw zstrm) w) (\<lambda>ctl.
     andthen (load as_op (opdata_ctl ctl) w) (\<lambda>opdata.
     let checksum = checksum_op opdata; isize = isize_op opdata;
         m = write_mem (bytes w) (next_out_hw zstrm) [0x1, 0x00, 0x00, 0xff, 0xff];
         zstrm = zstrm\<lparr>total_out_hw := total_out_hw zstrm + 5, avail_out_hw := avail_out_hw zstrm - 5\<rparr>
     in if flush \<noteq> WCRYPTO_FINISH L then Inr (UNIZIP_STREAM_END, zstrm, w\<lparr>bytes := m\<rparr>)
        else if alg_type_op opdata = WCRYPTO_ZLIB L then
          Inr (UNIZIP_STREAM_END,
            zstrm\<lparr>total_out_hw := total_out_hw zstrm + 4, avail_out_hw := avail_out_hw zstrm - 4\<rparr>,
            w\<lparr>bytes := write_mem m (next_out_hw zstrm + 5) (le_bytes (swab32 checksum))\<rparr>)
        else if alg_type_op opdata = WCRYPTO_GZIP L then
          let checksum = bit_reverse (NOT checksum);
              m = write_mem m (next_out_hw zstrm + 5) (le_bytes checksum)
          in Inr (UNIZIP_STREAM_END,
               zstrm\<lparr>total_out_hw := total_out_hw zstrm + 8, avail_out_hw := avail_out_hw zstrm - 8\<rparr>,
               w\<lparr>bytes := write_mem m (next_out_hw zstrm + 9) (le_bytes isize)\<rparr>)
        else Inr (UNIZIP_STREAM_END, zstrm, w\<lparr>bytes := m\<rparr>)))"

text \<open>How the outcome of a call of the hardware that did not fail is reported.\<close>

definition hw_status :: "'l wd_lib \<Rightarrow> int \<Rightarrow> int \<Rightarrow> int \<Rightarrow> int" where
  "hw_status L ret flush status =
     (if ret = 3 \<or> (ret = 0 \<and> flush = WCRYPTO_FINISH L) then UNIZIP_STREAM_END
      else if ret = 0 \<and> status = WD_VERIFY_ERR L then - WD_VERIFY_ERR L
      else if ret = 0 \<and> status = WD_IN_EPARA L then - WD_IN_EPARA L
      else if ret = 0 \<and> status = WCRYPTO_DECOMP_END_NOSPACE L then UNIZIP_STREAM_END
      else if ret = 0 \<and> status = WCRYPTO_DECOMP_END L then UNIZIP_STREAM_END
      else ret)"

text \<open>What it took and produced.\<close>

definition hw_account ::
  "'l wd_lib \<Rightarrow> zip_ctl \<Rightarrow> wcrypto_comp_op_data \<Rightarrow> zip_stream \<Rightarrow> wcrypto_comp_op_data \<times> zip_stream" where
  "hw_account L ctl opdata zstrm =
     (let first = (stream_pos_op opdata = WCRYPTO_COMP_STREAM_NEW L);
          opdata = (if first then opdata\<lparr>stream_pos_op := WCRYPTO_COMP_STREAM_OLD L\<rparr> else opdata);
          zstrm = (if first then zstrm\<lparr>total_out_hw := 0, total_in_hw := 0\<rparr> else zstrm);
          zstrm = zstrm\<lparr>avail_in_hw := ucast (in_len_op opdata - consumed_op opdata)\<rparr>;
          zstrm = zstrm\<lparr>avail_out_hw := avail_out_hw zstrm - ucast (produced_op opdata)\<rparr>;
          zstrm = zstrm\<lparr>total_out_hw := total_out_hw zstrm + ucast (produced_op opdata)\<rparr>;
          zstrm = zstrm\<lparr>total_in_hw := total_in_hw zstrm + ucast (consumed_op opdata)\<rparr>;
          opdata = (if avail_in_hw zstrm > 0
                    then opdata\<lparr>in_op := in_op opdata + ucast (consumed_op opdata)\<rparr> else opdata);
          opdata = (if avail_in_hw zstrm = 0 then opdata\<lparr>in_op := in_ctl ctl\<rparr> else opdata)
      in (opdata, zstrm))"

definition hw_send_and_recv ::
  "'l wd_lib \<Rightarrow> zip_stream \<Rightarrow> int \<Rightarrow> 'l world \<Rightarrow> (int \<times> zip_stream \<times> 'l world) res" where
  "hw_send_and_recv L zstrm flush w =
     andthen (load as_ctl (reserved_hw zstrm) w) (\<lambda>ctl.
     andthen (load as_op (opdata_ctl ctl) w) (\<lambda>opdata.
     if avail_in_hw zstrm = 0 \<and> flush = WCRYPTO_FINISH L then append_store_block L zstrm flush w
     else
       let opdata = opdata\<lparr>flush_op := flush, in_len_op := ucast (avail_in_hw zstrm),
                           avail_out_op := ucast (avail_out_hw zstrm)\<rparr>
       in andthen (wcrypto_do_comp L (ctx_ctl ctl) opdata (bytes w) (lib w)) (\<lambda>(ret, opdata, m, l).
          let w = w\<lparr>bytes := m, lib := l\<rparr>
          in if ret < 0 then Inr (ret, zstrm, store (opdata_ctl ctl) (Op_obj opdata) w)
             else
               let (opdata, zstrm) = hw_account L ctl opdata zstrm
               in Inr (hw_status L ret flush (status_op opdata), zstrm,
                    store (opdata_ctl ctl) (Op_obj opdata) w))))"

section \<open>The zlib-like interface\<close>

text \<open>The four functions whose name ends in an underscore in the source end in \<open>_fn\<close> here.\<close>

definition hw_deflateInit2_fn ::
  "'l wd_lib \<Rightarrow> zip_stream \<Rightarrow> int \<Rightarrow> int \<Rightarrow> int \<Rightarrow> int \<Rightarrow> int \<Rightarrow> 'l world \<Rightarrow> (int \<times> zip_stream \<times> 'l world) res" where
  "hw_deflateInit2_fn L zstrm level meth windowBits memLevel strategy w =
     (let wrap = (if windowBits < 0 then 0 else if windowBits > 15 then 2 else 0 :: int);
          alg_type = (if bit wrap 1 then WCRYPTO_GZIP L else WCRYPTO_ZLIB L)
      in hw_init L zstrm alg_type (WCRYPTO_DEFLATE L) w)"

text \<open>Lifting to a pointer: \<open>NULL\<close> is reported as \<open>UNIZIP_DATA_ERROR\<close>.\<close>

definition on_hw ::
  "(zip_stream \<Rightarrow> 'l world \<Rightarrow> (int \<times> zip_stream \<times> 'l world) res) \<Rightarrow> zip_stream option \<Rightarrow> 'l world \<Rightarrow>
   (int \<times> zip_stream option \<times> 'l world) res" where
  "on_hw f zstrm w = (case zstrm of
     None \<Rightarrow> Inr (UNIZIP_DATA_ERROR, None, w)
   | Some zs \<Rightarrow> andthen (f zs w) (\<lambda>(ret, zs, w). Inr (ret, Some zs, w)))"

definition hw_deflateInit_fn ::
  "'l wd_lib \<Rightarrow> int \<Rightarrow> zip_stream option \<Rightarrow> 'l world \<Rightarrow> (int \<times> zip_stream option \<times> 'l world) res" where
  "hw_deflateInit_fn L level = on_hw (\<lambda>zs. hw_deflateInit2_fn L zs level Z_DEFLATED MAX_WBITS DEF_MEM_LEVEL Z_DEFAULT_STRATEGY)"

text \<open>The common body of \<open>hw_deflate\<close> and \<open>hw_inflate\<close>.\<close>

definition hw_call ::
  "'l wd_lib \<Rightarrow> int \<Rightarrow> zip_stream \<Rightarrow> 'l world \<Rightarrow> (int \<times> zip_stream \<times> 'l world) res" where
  "hw_call L flush zs w = andthen (hw_send_and_recv L zs flush w) (\<lambda>(ret, zs, w).
     Inr (if ret < 0 then UNIZIP_STREAM_ERROR else ret, zs, w))"

definition hw_deflate ::
  "'l wd_lib \<Rightarrow> int \<Rightarrow> zip_stream option \<Rightarrow> 'l world \<Rightarrow> (int \<times> zip_stream option \<times> 'l world) res" where
  "hw_deflate L flush = on_hw (hw_call L flush)"

definition hw_deflateEnd ::
  "'l wd_lib \<Rightarrow> zip_stream option \<Rightarrow> 'l world \<Rightarrow> (int \<times> zip_stream option \<times> 'l world) res" where
  "hw_deflateEnd L = on_hw (\<lambda>zs w. andthen (hw_end L zs w) (\<lambda>w. Inr (UNIZIP_OK, zs, w)))"

text \<open>
  \<open>alg_type\<close> is not initialised: \<open>None\<close> until one of the two bits of \<open>wrap\<close> sets it.  With
  neither bit set its indeterminate value is passed on.
\<close>

definition hw_inflateInit2_fn ::
  "'l wd_lib \<Rightarrow> zip_stream \<Rightarrow> int \<Rightarrow> 'l world \<Rightarrow> (int \<times> zip_stream \<times> 'l world) res" where
  "hw_inflateInit2_fn L zstrm windowBits w =
     (let wrap = (if windowBits < 0 then 0 else drop_bit 4 windowBits + 5);
          alg_type = None;
          alg_type = (if bit wrap 0 then Some (WCRYPTO_ZLIB L) else alg_type);
          alg_type = (if bit wrap 1 then Some (WCRYPTO_GZIP L) else alg_type)
      in case alg_type of
           None \<Rightarrow> Inl Indeterminate
         | Some alg_type \<Rightarrow> hw_init L zstrm alg_type (WCRYPTO_INFLATE L) w)"

definition hw_inflateInit_fn ::
  "'l wd_lib \<Rightarrow> zip_stream option \<Rightarrow> 'l world \<Rightarrow> (int \<times> zip_stream option \<times> 'l world) res" where
  "hw_inflateInit_fn L = on_hw (\<lambda>zs. hw_inflateInit2_fn L zs DEF_WBITS)"

definition hw_inflate ::
  "'l wd_lib \<Rightarrow> int \<Rightarrow> zip_stream option \<Rightarrow> 'l world \<Rightarrow> (int \<times> zip_stream option \<times> 'l world) res" where
  "hw_inflate L flush = on_hw (hw_call L flush)"

definition hw_inflateEnd ::
  "'l wd_lib \<Rightarrow> zip_stream option \<Rightarrow> 'l world \<Rightarrow> (int \<times> zip_stream option \<times> 'l world) res" where
  "hw_inflateEnd L = on_hw (\<lambda>zs w. andthen (hw_end L zs w) (\<lambda>w. Inr (UNIZIP_OK, zs, w)))"

section \<open>The streaming loops\<close>

definition memcpy :: "addr \<Rightarrow> addr \<Rightarrow> uLong \<Rightarrow> 'l world \<Rightarrow> 'l world" where
  "memcpy dst src n w = w\<lparr>bytes := write_mem (bytes w) dst (read_mem (bytes w) src (unat n))\<rparr>"

text \<open>
  The beginning of a round of every loop: at most \<open>chunk\<close> bytes are copied to the input block.
  (The two one-shot functions do not move \<open>src\<close> past the last piece, where it is dead.)
\<close>

definition feed ::
  "uLong \<Rightarrow> zip_stream \<Rightarrow> addr \<Rightarrow> uLong \<Rightarrow> 'l world \<Rightarrow> zip_stream \<times> addr \<times> uLong \<times> 'l world" where
  "feed chunk zs src srclen w =
     (if srclen > chunk
      then (zs\<lparr>avail_in_hw := chunk\<rparr>, src + chunk, srclen - chunk, memcpy (next_in_hw zs) src chunk w)
      else (zs\<lparr>avail_in_hw := srclen\<rparr>, src + srclen, 0, memcpy (next_in_hw zs) src srclen w))"

text \<open>\<open>have\<close> is an \<open>int\<close>, converted to 64 bits where it is used.\<close>

definition have_out :: "uLong \<Rightarrow> zip_stream \<Rightarrow> uLong" where
  "have_out chunk zs = word_of_int (c_int (chunk - avail_out_hw zs))"

text \<open>
  The inner loop: call the hardware until it has taken all of the input block, copying the
  output block to \<open>dst\<close> each time.  It stops early when a call fails.
\<close>

partial_function (option) pump ::
  "'l wd_lib \<Rightarrow> int \<Rightarrow> uLong \<Rightarrow> zip_stream \<Rightarrow> addr \<Rightarrow> 'l world \<Rightarrow> (int \<times> zip_stream \<times> addr \<times> 'l world) res option"
  where
  "pump L flush chunk zs dst w =
     (case hw_call L flush (zs\<lparr>avail_out_hw := chunk\<rparr>) w of
        Inl e \<Rightarrow> Some (Inl e)
      | Inr (ret, zs, w) \<Rightarrow>
          if ret < 0 then Some (Inr (ret, zs, dst, w))
          else
            let w = memcpy dst (next_out_hw zs) (have_out chunk zs) w; dst = dst + have_out chunk zs
            in if avail_in_hw zs > 0 then pump L flush chunk zs dst w else Some (Inr (ret, zs, dst, w)))"

text \<open>
  The outer loop of \<open>hw_stream_compress\<close>.  \<open>*dstlen\<close> and \<open>dst\<close> are advanced together, so the
  length is the distance from where \<open>dst\<close> began.
\<close>

partial_function (option) compress_loop ::
  "'l wd_lib \<Rightarrow> uLong \<Rightarrow> zip_stream \<Rightarrow> addr \<Rightarrow> uLong \<Rightarrow> addr \<Rightarrow> 'l world \<Rightarrow>
   (int \<times> zip_stream \<times> addr \<times> 'l world) res option" where
  "compress_loop L chunk zs src srclen dst w =
     (let (zs, src, srclen, w) = feed chunk zs src srclen w;
          flush = (if srclen \<noteq> 0 then WCRYPTO_SYNC_FLUSH L else WCRYPTO_FINISH L)
      in case pump L flush chunk zs dst w of
           None \<Rightarrow> None
         | Some (Inl e) \<Rightarrow> Some (Inl e)
         | Some (Inr (ret, zs, dst, w)) \<Rightarrow>
             if ret < 0 then Some (Inr (ret, zs, dst, w))
             else if flush \<noteq> WCRYPTO_FINISH L then compress_loop L chunk zs src srclen dst w
             else Some (Inr (UNIZIP_OK, zs, dst, w)))"

definition hw_stream_compress ::
  "'l wd_lib \<Rightarrow> int \<Rightarrow> int \<Rightarrow> addr \<Rightarrow> uLong option \<Rightarrow> addr \<Rightarrow> uLong \<Rightarrow> 'l world \<Rightarrow>
   (int \<times> uLong option \<times> 'l world) res option" where
  "hw_stream_compress L alg_type blksize dst dstlen src srclen w =
     (if blksize < 0 \<or> dst = NULL_addr \<or> src = NULL_addr then Some (Inr (UNIZIP_DATA_ERROR, dstlen, w))
      else if dstlen = None then Some (Inl NullDeref)
      else
        let stream_chunk = word_of_int blksize
        in case (if alg_type = WCRYPTO_ZLIB L
                 then hw_deflateInit2_fn L (zip_stream_indet L) Z_DEFAULT_COMPRESSION Z_DEFLATED MAX_WBITS
                        DEF_MEM_LEVEL Z_DEFAULT_STRATEGY w
                 else hw_deflateInit2_fn L (zip_stream_indet L) Z_DEFAULT_COMPRESSION Z_DEFLATED (15 + 16)
                        DEF_MEM_LEVEL Z_DEFAULT_STRATEGY w) of
             Inl e \<Rightarrow> Some (Inl e)
           | Inr (ret, zs, w) \<Rightarrow>
               if ret \<noteq> UNIZIP_OK then Some (Inr (ret, Some 0, w))
               else map_option (\<lambda>r. andthen r (\<lambda>(ret, zs, dst', w).
                      andthen (hw_end L zs w) (\<lambda>w. Inr (ret, Some (dst' - dst), w))))
                      (compress_loop L stream_chunk zs src srclen dst w))"

text \<open>
  The loops of \<open>hw_stream_decompress\<close>: the inner one also stops, with nothing copied, when the
  total is more than the capacity.  The first component tells whether it stopped early.
\<close>

partial_function (option) drain ::
  "'l wd_lib \<Rightarrow> uLong \<Rightarrow> uLong option \<Rightarrow> zip_stream \<Rightarrow> addr \<Rightarrow> 'l world \<Rightarrow>
   (bool \<times> int \<times> zip_stream \<times> addr \<times> 'l world) res option" where
  "drain L chunk dstlen zs dst w =
     (case hw_call L (WCRYPTO_SYNC_FLUSH L) (zs\<lparr>avail_out_hw := chunk\<rparr>) w of
        Inl e \<Rightarrow> Some (Inl e)
      | Inr (ret, zs, w) \<Rightarrow>
          if ret < 0 then Some (Inr (True, ret, zs, dst, w))
          else case dstlen of
            None \<Rightarrow> Some (Inl NullDeref)
          | Some cap \<Rightarrow>
              if total_out_hw zs > cap then Some (Inr (True, UNIZIP_MEM_ERROR, zs, dst, w))
              else
                let w = memcpy dst (next_out_hw zs) (have_out chunk zs) w; dst = dst + have_out chunk zs
                in if avail_in_hw zs > 0 then drain L chunk dstlen zs dst w
                   else Some (Inr (False, ret, zs, dst, w)))"

partial_function (option) decompress_loop ::
  "'l wd_lib \<Rightarrow> uLong \<Rightarrow> uLong option \<Rightarrow> zip_stream \<Rightarrow> addr \<Rightarrow> uLong \<Rightarrow> addr \<Rightarrow> 'l world \<Rightarrow>
   (bool \<times> int \<times> zip_stream \<times> addr \<times> 'l world) res option" where
  "decompress_loop L chunk dstlen zs src srclen dst w =
     (let (zs, src, srclen, w) = feed chunk zs src srclen w
      in if avail_in_hw zs = 0 then Some (Inr (False, UNIZIP_STREAM_END, zs, dst, w))
         else case drain L chunk dstlen zs dst w of
           None \<Rightarrow> None
         | Some (Inl e) \<Rightarrow> Some (Inl e)
         | Some (Inr (stop, ret, zs, dst, w)) \<Rightarrow>
             if stop then Some (Inr (True, ret, zs, dst, w))
             else if ret \<noteq> UNIZIP_STREAM_END then decompress_loop L chunk dstlen zs src srclen dst w
             else Some (Inr (False, ret, zs, dst, w)))"

definition hw_stream_decompress ::
  "'l wd_lib \<Rightarrow> int \<Rightarrow> int \<Rightarrow> addr \<Rightarrow> uLong option \<Rightarrow> addr \<Rightarrow> uLong \<Rightarrow> 'l world \<Rightarrow>
   (int \<times> uLong option \<times> 'l world) res option" where
  "hw_stream_decompress L alg_type blksize dst dstlen src srclen w =
     (if blksize < 0 \<or> dst = NULL_addr \<or> src = NULL_addr then Some (Inr (UNIZIP_DATA_ERROR, dstlen, w))
      else
        let stream_chunk = word_of_int blksize
        in case (if alg_type = WCRYPTO_ZLIB L then hw_inflateInit2_fn L (zip_stream_indet L) DEF_WBITS w
                 else hw_inflateInit2_fn L (zip_stream_indet L) (16 + MAX_WBITS) w) of
             Inl e \<Rightarrow> Some (Inl e)
           | Inr (ret, zs, w) \<Rightarrow>
               if ret \<noteq> UNIZIP_OK then Some (Inr (ret, dstlen, w))
               else map_option (\<lambda>r. andthen r (\<lambda>(stop, ret, zs, dst', w).
                      if stop then andthen (hw_end L zs w) (\<lambda>w. Inr (ret, dstlen, w))
                      else if dstlen = None then Inl NullDeref
                      else andthen (hw_end L zs w) (\<lambda>w. Inr (UNIZIP_OK, Some (dst' - dst), w))))
                      (decompress_loop L stream_chunk dstlen zs src srclen dst w))"

section \<open>The version of the driver\<close>

fun strstr :: "string \<Rightarrow> string \<Rightarrow> nat option" where
  "strstr hay needle =
     (if take (length needle) hay = needle then Some 0
      else case hay of [] \<Rightarrow> None | _ # rest \<Rightarrow> map_option Suc (strstr rest needle))"

declare strstr.simps [simp del]

text \<open>
  The output of \<open>uadk_tool\<close> (\<open>None\<close> when it cannot be started) is read into a buffer of 10000
  characters which is then searched as a string, although nothing terminates it: if nothing is
  found before the end of the buffer, the search reads on behind it.
\<close>

definition uadk_getVersion :: "'l wd_lib \<Rightarrow> 'l world \<Rightarrow> (ptr \<times> 'l world) res" where
  "uadk_getVersion L w = (case uadk_tool_output L of
     None \<Rightarrow> Inr (NULL_ptr, w)
   | Some out \<Rightarrow>
       let read = take 10000 out;
           buffer = read @ map (buffer_indet L) [length read..<10000];
           txt = c_string buffer;
           missing = (if length txt = 10000 then Inl OutOfBounds else Inr (NULL_ptr, w))
       in if read = [] then Inr (NULL_ptr, w)
          else case strstr txt ''UADK version: '' of
            None \<Rightarrow> missing
          | Some i \<Rightarrow>
              let versionStart = drop (i + length ''UADK version: '') txt
              in if CHR 0x0A \<in> set versionStart then
                   Inr (malloc (Chars_obj (takeWhile (\<lambda>c. c \<noteq> CHR 0x0A) versionStart @ [NUL])) w)
                 else missing)"

section \<open>Bits and bytes\<close>

lemma bit_reverse_bit: "bit (bit_reverse x) n \<longleftrightarrow> n < 32 \<and> bit x (31 - n)"
proof (cases "n < 32")
  case True
  have "bit (x * 2) k \<longleftrightarrow> 0 < k \<and> k < 32 \<and> bit x (k - 1)" for k
    by (auto simp: mult.commute [of x] bit_double_iff)
  then have "\<forall>n \<in> {..<32}. bit (bit_reverse x) n \<longleftrightarrow> bit x (31 - n)"
    by (simp add: below_numeral bit_reverse_def Let_def bit_simps) (simp add: numeral_2_eq_2)
  with True show ?thesis by simp
next
  case False
  then show ?thesis using bit_imp_le_length [of "bit_reverse x" n] by auto
qed

lemma bit_reverse_twice: "bit_reverse (bit_reverse x) = x"
  by (rule bit_word_eqI) (auto simp: bit_reverse_bit)

lemma swab32_bytes: "le_bytes (swab32 x) = rev (le_bytes x)"
proof -
  have "ucast (drop_bit (8 * k) (swab32 x)) = (ucast (drop_bit (24 - 8 * k) x) :: byte)"
    if k: "k = 0 \<or> k = 1 \<or> k = 2 \<or> k = 3" for k
  proof (rule bit_word_eqI)
    fix n assume n: "n < LENGTH(8)"
    have "\<forall>n \<in> {..<8}. bit (ucast (drop_bit (8 * k) (swab32 x)) :: byte) n
      \<longleftrightarrow> bit (ucast (drop_bit (24 - 8 * k) x) :: byte) n"
      using k by (elim disjE) (simp_all add: below_numeral swab32_def bit_simps)
    with n show "bit (ucast (drop_bit (8 * k) (swab32 x)) :: byte) n \<longleftrightarrow> bit (ucast (drop_bit (24 - 8 * k) x) :: byte) n"
      by simp
  qed
  from this [of 0] this [of 1] this [of 2] this [of 3] show ?thesis by (simp add: le_bytes_def)
qed

section \<open>The resources of the driver\<close>

text \<open>
  What the UADK library documents.  \<open>live l\<close> are the queues, memory pools, blocks and
  compression contexts that exist.  Creating one of them gives a fresh one or fails with
  nothing changed, releasing one that exists succeeds, and \<open>wcrypto_do_comp\<close> keeps them all;
  unless it fails it takes at most what it is offered and produces at most what there is
  room for, and if there is input and room it takes some of the input or comes closer to
  doing so: \<open>pending l\<close> measures the output it still has to deliver first.
\<close>

datatype wd_res = Wd_queue ptr | Wd_pool ptr | Wd_block ptr addr | Wd_ctx ptr

definition acquiring :: "('l \<Rightarrow> wd_res set) \<Rightarrow> 'l \<Rightarrow> bool \<Rightarrow> wd_res \<Rightarrow> 'l \<Rightarrow> bool" where
  "acquiring live l got r l' \<longleftrightarrow>
     (if got then r \<notin> live l \<and> live l' = insert r (live l) else live l' = live l)"

definition releasing :: "('l \<Rightarrow> wd_res set) \<Rightarrow> wd_res \<Rightarrow> ('l \<Rightarrow> 'l res) \<Rightarrow> bool" where
  "releasing live r f \<longleftrightarrow> (\<forall>l. r \<in> live l \<longrightarrow> ensures (f l) (\<lambda>l'. live l' = live l - {r}))"

definition computing :: "('l \<Rightarrow> wd_res set) \<Rightarrow> ('l \<Rightarrow> nat) \<Rightarrow> wcrypto_comp_op_data \<Rightarrow> mem \<Rightarrow> 'l \<Rightarrow>
    int \<times> wcrypto_comp_op_data \<times> mem \<times> 'l \<Rightarrow> bool" where
  "computing live pending opd m l = (\<lambda>(ret, opd', m', l'). live l' = live l \<and> in_len_op opd' = in_len_op opd \<and>
     out_op opd' = out_op opd \<and> stream_pos_op opd' = stream_pos_op opd \<and>
     (0 \<le> ret \<longrightarrow> consumed_op opd' \<le> in_len_op opd \<and> produced_op opd' \<le> avail_out_op opd \<and>
        (in_len_op opd \<noteq> 0 \<longrightarrow> avail_out_op opd \<noteq> 0 \<longrightarrow> consumed_op opd' \<noteq> 0 \<or> pending l' < pending l)))"

definition wd_ok :: "'l wd_lib \<Rightarrow> ('l \<Rightarrow> wd_res set) \<Rightarrow> ('l \<Rightarrow> nat) \<Rightarrow> bool" where
  "wd_ok L live pending \<longleftrightarrow>
     (\<forall>q qc l ret qc' l'. wd_request_queue L q qc l = (ret, qc', l') \<longrightarrow> acquiring live l (ret = 0) (Wd_queue q) l') \<and>
     (\<forall>q qc. releasing live (Wd_queue q) (wd_release_queue L q qc)) \<and>
     (\<forall>q sz num al l p l'. wd_blkpool_create L q sz num al l = (p, l') \<longrightarrow> acquiring live l (p \<noteq> 0) (Wd_pool p) l') \<and>
     (\<forall>p. releasing live (Wd_pool p) (wd_blkpool_destroy L p)) \<and>
     (\<forall>p l a l'. wd_alloc_blk L p l = (a, l') \<longrightarrow> acquiring live l (a \<noteq> 0) (Wd_block p a) l') \<and>
     (\<forall>p a. releasing live (Wd_block p a) (wd_free_blk L p a)) \<and>
     (\<forall>q ty sm p l c l'. wcrypto_create_comp_ctx L q ty sm p l = (c, l') \<longrightarrow> acquiring live l (c \<noteq> 0) (Wd_ctx c) l') \<and>
     (\<forall>c. releasing live (Wd_ctx c) (wcrypto_del_comp_ctx L c)) \<and>
     (\<forall>c opd m l. Wd_ctx c \<in> live l \<longrightarrow> ensures (wcrypto_do_comp L c opd m l) (computing live pending opd m l))"

lemma wd_okD:
  assumes "wd_ok L live pending"
  shows "wd_request_queue L q qc l = (ret, qc', l') \<Longrightarrow> acquiring live l (ret = 0) (Wd_queue q) l'"
    and "releasing live (Wd_queue q) (wd_release_queue L q qc)"
    and "wd_blkpool_create L q sz num al l = (p, l') \<Longrightarrow> acquiring live l (p \<noteq> 0) (Wd_pool p) l'"
    and "releasing live (Wd_pool p) (wd_blkpool_destroy L p)"
    and "wd_alloc_blk L p l = (a, l') \<Longrightarrow> acquiring live l (a \<noteq> 0) (Wd_block p a) l'"
    and "releasing live (Wd_block p a) (wd_free_blk L p a)"
    and "wcrypto_create_comp_ctx L q ty sm p l = (c, l') \<Longrightarrow> acquiring live l (c \<noteq> 0) (Wd_ctx c) l'"
    and "releasing live (Wd_ctx c) (wcrypto_del_comp_ctx L c)"
    and "Wd_ctx c \<in> live l \<Longrightarrow> ensures (wcrypto_do_comp L c opd m l) (computing live pending opd m l)"
  using assms unfolding wd_ok_def by (metis (no_types))+

text \<open>Releasing a resource changes nothing but the library.\<close>

lemma on_lib_then:
  assumes "releasing live r f" and "r \<in> live (lib w)"
    and "\<And>l. live l = live (lib w) - {r} \<Longrightarrow> ensures (g (w\<lparr>lib := l\<rparr>)) Q"
  shows "ensures (andthen (on_lib f w) g) Q"
  using assms by (auto simp: on_lib_def releasing_def ensures_def)

text \<open>The effect of a cleanup: failure, with the heap \<open>H\<close> after \<open>k\<close> allocations and the resources \<open>S\<close> left.\<close>

definition cleaned :: "('l \<Rightarrow> wd_res set) \<Rightarrow> nat \<Rightarrow> (ptr \<rightharpoonup> obj) \<Rightarrow> wd_res set \<Rightarrow> int \<times> 'l world \<Rightarrow> bool" where
  "cleaned live k H S = (\<lambda>(r, w'). r \<noteq> 0 \<and> allocs w' = k \<and> heap w' = H \<and> live (lib w') = S)"

lemma hw_q_free_cleaned:
  "q \<noteq> 0 \<Longrightarrow> heap w q \<noteq> None \<Longrightarrow>
   ensures (hw_q_free ret q w) (cleaned live (allocs w) ((heap w)(q := None)) (live (lib w)))"
  by (simp add: hw_q_free_def free_def cleaned_def)

lemma release_q_cleaned:
  assumes ok: "wd_ok L live pending" and q: "load as_queue q w = Inr qc" "Wd_queue q \<in> live (lib w)"
  shows "ensures (release_q L ret q w) (cleaned live (allocs w) ((heap w)(q := None)) (live (lib w) - {Wd_queue q}))"
proof -
  have "ensures (andthen (on_lib (wd_release_queue L q qc) w) (hw_q_free ret q))
      (cleaned live (allocs w) ((heap w)(q := None)) (live (lib w) - {Wd_queue q}))"
  proof (rule on_lib_then [OF wd_okD(2) [OF ok] q(2)])
    fix l assume "live l = live (lib w) - {Wd_queue q}"
    then show "ensures (hw_q_free ret q (w\<lparr>lib := l\<rparr>))
        (cleaned live (allocs w) ((heap w)(q := None)) (live (lib w) - {Wd_queue q}))"
      using hw_q_free_cleaned [of q "w\<lparr>lib := l\<rparr>" ret live] q(1) by (auto simp: load_eq_Inr)
  qed
  then show ?thesis by (simp add: release_q_def q(1))
qed

text \<open>The blocks that were allocated.\<close>

definition blocks :: "ptr \<Rightarrow> addr \<Rightarrow> addr \<Rightarrow> wd_res set" where
  "blocks pool inb outb = (if inb = 0 then {} else {Wd_block pool inb}) \<union> (if outb = 0 then {} else {Wd_block pool outb})"

lemma free_block_then:
  assumes "wd_ok L live pending" and "a \<noteq> 0 \<Longrightarrow> Wd_block pool a \<in> live (lib w)"
    and "\<And>w'. heap w' = heap w \<Longrightarrow> allocs w' = allocs w \<Longrightarrow> bytes w' = bytes w \<Longrightarrow>
      live (lib w') = live (lib w) - (if a = 0 then {} else {Wd_block pool a}) \<Longrightarrow> ensures (g w') Q"
  shows "ensures (andthen (if a \<noteq> 0 then on_lib (wd_free_blk L pool a) w else Inr w) g) Q"
proof (cases "a = 0")
  case False
  have "ensures (andthen (on_lib (wd_free_blk L pool a) w) g) Q"
    by (rule on_lib_then [OF wd_okD(6) [OF assms(1)] assms(2) [OF False]]) (simp add: assms(3) False)
  then show ?thesis using False by simp
qed (simp add: assms(3))

lemma buf_free_cleaned:
  assumes ok: "wd_ok L live pending" and q: "load as_queue q w = Inr qc"
    and l: "{Wd_queue q, Wd_pool pool} \<union> blocks pool inb outb \<subseteq> live (lib w)" and d: "inb = 0 \<or> inb \<noteq> outb"
  shows "ensures (buf_free L ret q pool inb outb w)
    (cleaned live (allocs w) ((heap w)(q := None)) (live (lib w) - {Wd_queue q, Wd_pool pool} - blocks pool inb outb))"
  unfolding buf_free_def
proof (rule free_block_then [OF ok])
  show "Wd_block pool inb \<in> live (lib w)" if "inb \<noteq> 0" using l that by (simp add: blocks_def)
  fix w1 :: "'a world"
  assume 1: "heap w1 = heap w" "allocs w1 = allocs w" "live (lib w1) = live (lib w) - (if inb = 0 then {} else {Wd_block pool inb})"
  show "ensures (andthen (if outb \<noteq> 0 then on_lib (wd_free_blk L pool outb) w1 else Inr w1)
      (\<lambda>w. andthen (on_lib (wd_blkpool_destroy L pool) w) (release_q L ret q)))
      (cleaned live (allocs w) ((heap w)(q := None)) (live (lib w) - {Wd_queue q, Wd_pool pool} - blocks pool inb outb))"
  proof (rule free_block_then [OF ok])
    show "Wd_block pool outb \<in> live (lib w1)" if "outb \<noteq> 0" using l d that by (auto simp: 1 blocks_def)
    fix w2 :: "'a world"
    assume 2: "heap w2 = heap w1" "allocs w2 = allocs w1" "live (lib w2) = live (lib w1) - (if outb = 0 then {} else {Wd_block pool outb})"
    show "ensures (andthen (on_lib (wd_blkpool_destroy L pool) w2) (release_q L ret q))
      (cleaned live (allocs w) ((heap w)(q := None)) (live (lib w) - {Wd_queue q, Wd_pool pool} - blocks pool inb outb))"
    proof (rule on_lib_then [OF wd_okD(4) [OF ok]])
      show "Wd_pool pool \<in> live (lib w2)" using l by (simp add: 1 2)
      fix l2 assume l2: "live l2 = live (lib w2) - {Wd_pool pool}"
      have "load as_queue q (w2\<lparr>lib := l2\<rparr>) = Inr qc" using q by (simp add: load_eq_Inr 1 2)
      moreover have "Wd_queue q \<in> live (lib (w2\<lparr>lib := l2\<rparr>))" using l by (simp add: l2 1 2)
      moreover have "live l2 - {Wd_queue q} = live (lib w) - {Wd_queue q, Wd_pool pool} - blocks pool inb outb"
        by (auto simp: l2 1 2 blocks_def)
      ultimately show "ensures (release_q L ret q (w2\<lparr>lib := l2\<rparr>))
          (cleaned live (allocs w) ((heap w)(q := None)) (live (lib w) - {Wd_queue q, Wd_pool pool} - blocks pool inb outb))"
        using release_q_cleaned [OF ok, of q "w2\<lparr>lib := l2\<rparr>" qc ret] by (simp add: 1 2)
    qed
  qed
qed

lemma comp_ctx_free_cleaned:
  assumes ok: "wd_ok L live pending" and q: "load as_queue q w = Inr qc"
    and l: "{Wd_queue q, Wd_pool pool, Wd_ctx c} \<union> blocks pool inb outb \<subseteq> live (lib w)" and d: "inb = 0 \<or> inb \<noteq> outb"
  shows "ensures (comp_ctx_free L ret q pool inb outb c w) (cleaned live (allocs w) ((heap w)(q := None))
    (live (lib w) - {Wd_ctx c} - {Wd_queue q, Wd_pool pool} - blocks pool inb outb))"
  unfolding comp_ctx_free_def
proof (rule on_lib_then [OF wd_okD(8) [OF ok]])
  show "Wd_ctx c \<in> live (lib w)" using l by simp
  fix l1 assume l1: "live l1 = live (lib w) - {Wd_ctx c}"
  have "{Wd_queue q, Wd_pool pool} \<union> blocks pool inb outb \<subseteq> live (lib (w\<lparr>lib := l1\<rparr>))"
    using l by (auto simp: l1 blocks_def)
  from buf_free_cleaned [OF ok _ this d, of qc ret] q
  show "ensures (buf_free L ret q pool inb outb (w\<lparr>lib := l1\<rparr>)) (cleaned live (allocs w) ((heap w)(q := None))
    (live (lib w) - {Wd_ctx c} - {Wd_queue q, Wd_pool pool} - blocks pool inb outb))"
    by (simp add: l1)
qed

text \<open>What an initialised stream owns, and what is left in the world without it.\<close>

definition hw_resources :: "zip_ctl \<Rightarrow> wd_res set" where
  "hw_resources ctl = {Wd_queue (queue_ctl ctl), Wd_pool (pool_ctl ctl), Wd_block (pool_ctl ctl) (in_ctl ctl),
     Wd_block (pool_ctl ctl) (out_ctl ctl), Wd_ctx (ctx_ctl ctl)}"

definition hw_owns :: "('l \<Rightarrow> wd_res set) \<Rightarrow> zip_stream \<Rightarrow> 'l world \<Rightarrow> bool" where
  "hw_owns live zs w \<longleftrightarrow> (\<exists>ctl opd qc. load as_ctl (reserved_hw zs) w = Inr ctl \<and>
     load as_op (opdata_ctl ctl) w = Inr opd \<and> load as_queue (queue_ctl ctl) w = Inr qc \<and>
     in_ctl ctl \<noteq> 0 \<and> out_ctl ctl \<noteq> 0 \<and> in_ctl ctl \<noteq> out_ctl ctl \<and> ctx_ctl ctl \<noteq> 0 \<and>
     out_op opd = out_ctl ctl \<and> next_in_hw zs = in_ctl ctl \<and> next_out_hw zs = out_ctl ctl \<and>
     hw_resources ctl \<subseteq> live (lib w))"

definition hw_rest :: "('l \<Rightarrow> wd_res set) \<Rightarrow> zip_stream \<Rightarrow> 'l world \<Rightarrow> (ptr \<rightharpoonup> obj) \<times> wd_res set" where
  "hw_rest live zs w = (case load as_ctl (reserved_hw zs) w of
     Inl _ \<Rightarrow> (heap w, live (lib w))
   | Inr ctl \<Rightarrow> ((heap w)(reserved_hw zs := None, opdata_ctl ctl := None, queue_ctl ctl := None),
               live (lib w) - hw_resources ctl))"

text \<open>
  The outcome of an initialisation: the stream owns what was added to the heap \<open>H\<close> and the
  resources \<open>S\<close>, or nothing was added.
\<close>

definition hw_outcome ::
  "('l \<Rightarrow> wd_res set) \<Rightarrow> zip_stream \<Rightarrow> (ptr \<rightharpoonup> obj) \<Rightarrow> wd_res set \<Rightarrow> int \<times> zip_stream \<times> 'l world \<Rightarrow> bool" where
  "hw_outcome live zs H S = (\<lambda>(r, zs', w'). wf_heap w' \<and>
     (if r = 0 then hw_owns live zs' w' \<and> hw_rest live zs' w' = (H, S)
      else zs' = zs \<and> heap w' = H \<and> live (lib w') = S))"

lemma failing_outcome:
  assumes "ensures m (cleaned live k H S)" and "\<forall>p \<in> dom H. 0 < p \<and> p \<le> k"
  shows "ensures (failing zs m) (hw_outcome live zs H S)"
  using assms by (auto simp: failing_def cleaned_def hw_outcome_def wf_heap_def elim!: ensures_mono)

lemma wf_heap_dom: "wf_heap w \<Longrightarrow> heap w p = Some ob \<Longrightarrow> 0 < p \<and> p \<le> allocs w"
  by (auto simp: wf_heap_def)

lemma wf_heap_upd_fresh:
  "wf_heap w \<Longrightarrow> (heap w)(Suc (allocs w) := None) = heap w"
  by (simp add: wf_heap_fresh fun_upd_idem)

lemma hw_init_ctx_outcome:
  assumes ok: "wd_ok L live pending" and heap: "wf_heap w" and q: "load as_queue q w = Inr qc"
    and l: "{Wd_queue q, Wd_pool pool} \<union> blocks pool inb outb \<subseteq> live (lib w)"
    and d: "inb \<noteq> 0" "outb \<noteq> 0" "inb \<noteq> outb"
  shows "ensures (hw_init_ctx L zs a ret q pool inb outb w) (hw_outcome live zs ((heap w)(q := None))
    (live (lib w) - {Wd_queue q, Wd_pool pool} - blocks pool inb outb))"
    (is "ensures ?init (hw_outcome live zs ?H ?S)")
proof -
  note [simp] = hw_init_ctx_def Let_def
  have q': "q \<noteq> 0" "heap w q \<noteq> None" "q \<le> allocs w"
    using q heap by (auto simp: load_eq_Inr wf_heap_def)
  have dom: "\<forall>p \<in> dom ?H. 0 < p \<and> p \<le> k" if "allocs w \<le> k" for k
  proof
    fix p assume "p \<in> dom ?H"
    then have "p \<in> dom (heap w)" by (auto split: if_splits)
    then have "0 < p \<and> p \<le> allocs w" using heap unfolding wf_heap_def by blast
    then show "0 < p \<and> p \<le> k" using that by simp
  qed
  obtain c l1 where c: "wcrypto_create_comp_ctx L q a (WCRYPTO_COMP_STATEFUL L) pool (lib w) = (c, l1)"
    by fastforce
  note acq = wd_okD(7) [OF ok c, unfolded acquiring_def]
  show ?thesis
  proof (cases "c = 0")
    case True
    with acq have l1: "live l1 = live (lib w)" by simp
    have "ensures (buf_free L ret q pool inb outb (w\<lparr>lib := l1\<rparr>)) (cleaned live (allocs w) ?H ?S)"
      using buf_free_cleaned [OF ok, of q "w\<lparr>lib := l1\<rparr>" qc pool inb outb ret] q l d by (simp add: l1)
    from failing_outcome [OF this dom] c True show ?thesis by simp
  next
    case False
    with acq have l1: "Wd_ctx c \<notin> live (lib w)" "live l1 = insert (Wd_ctx c) (live (lib w))" by simp_all
    have S: "live l1 - {Wd_ctx c} - {Wd_queue q, Wd_pool pool} - blocks pool inb outb = ?S" using l1 by auto
    let ?w1 = "w\<lparr>lib := l1, allocs := Suc (allocs w)\<rparr>"
    let ?p = "Suc (allocs w)"
    have free_ctx: "ensures (comp_ctx_free L ret q pool inb outb c w') (cleaned live (allocs w') ?H ?S)"
      if "heap w' = heap w" "lib w' = l1" for w'
    proof -
      have "load as_queue q w' = Inr qc" using q that by (simp add: load_eq_Inr)
      moreover have "{Wd_queue q, Wd_pool pool, Wd_ctx c} \<union> blocks pool inb outb \<subseteq> live (lib w')"
        using l by (auto simp: that l1)
      ultimately show ?thesis
        using comp_ctx_free_cleaned [OF ok, of q w' qc pool c inb outb ret] d(3) by (simp only: that S simp_thms)
    qed
    show ?thesis
    proof (cases "oom w (allocs w)")
      case True
      then have "malloc (Op_obj zero_op) (w\<lparr>lib := l1\<rparr>) = (0, ?w1)" by (simp add: malloc_oom)
      moreover have "ensures (failing zs (comp_ctx_free L ret q pool inb outb c ?w1)) (hw_outcome live zs ?H ?S)"
        using failing_outcome [OF free_ctx [of ?w1] dom] by simp
      ultimately show ?thesis using c False by simp
    next
      case op: False
      let ?op = "zero_op\<lparr>in_op := inb, out_op := outb, stream_pos_op := WCRYPTO_COMP_STREAM_NEW L, alg_type_op := a\<rparr>"
      let ?w2 = "w\<lparr>lib := l1, allocs := ?p, heap := (heap w)(?p \<mapsto> Op_obj ?op)\<rparr>"
      have m: "malloc (Op_obj zero_op) (w\<lparr>lib := l1\<rparr>) = (?p, ?w1\<lparr>heap := (heap w)(?p \<mapsto> Op_obj zero_op)\<rparr>)"
        using op by (simp add: malloc_ok)
      have s: "store ?p (Op_obj ?op) (?w1\<lparr>heap := (heap w)(?p \<mapsto> Op_obj zero_op)\<rparr>) = ?w2"
        by (simp add: store_def)
      show ?thesis
      proof (cases "oom w ?p")
        case True
        then have m2: "malloc (Ctl_obj zero_ctl) ?w2 = (0, ?w2\<lparr>allocs := Suc ?p\<rparr>)" by (simp add: malloc_oom)
        let ?w3 = "?w2\<lparr>allocs := Suc ?p, heap := (heap w)(?p := None)\<rparr>"
        have f: "free ?p (?w2\<lparr>allocs := Suc ?p\<rparr>) = Inr ?w3" by (simp add: free_def)
        have "ensures (failing zs (comp_ctx_free L ret q pool inb outb c ?w3)) (hw_outcome live zs ?H ?S)"
          using failing_outcome [OF free_ctx [of ?w3] dom] wf_heap_upd_fresh [OF heap] by simp
        then have "ensures (failing zs (comp_opdata_free L ret q pool inb outb c ?p (?w2\<lparr>allocs := Suc ?p\<rparr>)))
            (hw_outcome live zs ?H ?S)"
          by (simp only: comp_opdata_free_def f andthen_Inr)
        then show ?thesis using c False m m2 by (simp add: store_def)
      next
        case ctl: False
        let ?ctl = "zero_ctl\<lparr>pool_ctl := pool, in_ctl := inb, out_ctl := outb, ctx_ctl := c, queue_ctl := q,
          opdata_ctl := ?p\<rparr>"
        let ?zs = "zs\<lparr>next_in_hw := inb, next_out_hw := outb, reserved_hw := Suc ?p\<rparr>"
        let ?w3 = "?w2\<lparr>allocs := Suc ?p, heap := (heap w)(?p \<mapsto> Op_obj ?op, Suc ?p \<mapsto> Ctl_obj ?ctl)\<rparr>"
        have m2: "malloc (Ctl_obj zero_ctl) ?w2 =
            (Suc ?p, ?w2\<lparr>allocs := Suc ?p, heap := (heap w)(?p \<mapsto> Op_obj ?op, Suc ?p \<mapsto> Ctl_obj zero_ctl)\<rparr>)"
          using ctl by (simp add: malloc_ok)
        have s2: "store (Suc ?p) (Ctl_obj ?ctl) (?w2\<lparr>allocs := Suc ?p,
            heap := (heap w)(?p \<mapsto> Op_obj ?op, Suc ?p \<mapsto> Ctl_obj zero_ctl)\<rparr>) = ?w3"
          by (simp add: store_def)
        have wf3: "wf_heap ?w3" using wf_heap_dom [OF heap] by (fastforce simp: wf_heap_def intro: le_SucI)
        have lc: "load as_ctl (Suc ?p) ?w3 = Inr ?ctl" by (simp add: load_eq_Inr)
        have lq: "load as_queue q ?w3 = Inr qc" using q q'(3) by (simp add: load_eq_Inr)
        have "hw_resources ?ctl = {Wd_queue q, Wd_pool pool, Wd_ctx c} \<union> blocks pool inb outb"
          using d by (auto simp: hw_resources_def blocks_def)
        then have res: "hw_resources ?ctl \<subseteq> live l1" "live l1 - hw_resources ?ctl = ?S"
          using l l1 by auto
        have "heap w (Suc ?p) = None" "heap w ?p = None"
          using heap by (auto simp: wf_heap_def dest!: bspec)
        then have H: "(heap ?w3)(Suc ?p := None, ?p := None, q := None) = ?H"
          using q'(3) by (auto simp: fun_eq_iff)
        have "hw_owns live ?zs ?w3"
          unfolding hw_owns_def using lc lq d res(1) False by (auto simp: load_eq_Inr)
        moreover have "hw_rest live ?zs ?w3 = (?H, ?S)"
          using lc H res(2) by (simp add: hw_rest_def)
        ultimately have "ensures (Inr (0, ?zs, ?w3)) (hw_outcome live zs ?H ?S)"
          using wf3 by (simp add: hw_outcome_def)
        then show ?thesis using c False m m2 by (simp add: store_def)
      qed
    qed
  qed
qed

lemma wf_heap_le: "wf_heap w \<Longrightarrow> allocs w \<le> k \<Longrightarrow> \<forall>p \<in> dom ((heap w)(q := None)). 0 < p \<and> p \<le> k"
  by (auto split: if_splits dest!: wf_heap_dom)

lemma hw_init_pool_outcome:
  assumes ok: "wd_ok L live pending" and heap: "wf_heap w" and q: "load as_queue q w = Inr qc"
    and l: "Wd_queue q \<in> live (lib w)"
  shows "ensures (hw_init_pool L zs a ret q w)
    (hw_outcome live zs ((heap w)(q := None)) (live (lib w) - {Wd_queue q}))"
    (is "ensures _ (hw_outcome live zs ?H ?S)")
proof -
  note [simp] = hw_init_pool_def Let_def
  obtain pool l1 where p: "wd_blkpool_create L q DMEMSIZE 3 128 (lib w) = (pool, l1)" by fastforce
  note acq = wd_okD(3) [OF ok p, unfolded acquiring_def]
  obtain inb l2 where i: "wd_alloc_blk L pool l1 = (inb, l2)" by fastforce
  note acq2 = wd_okD(5) [OF ok i, unfolded acquiring_def]
  obtain outb l3 where o: "wd_alloc_blk L pool l2 = (outb, l3)" by fastforce
  note acq3 = wd_okD(5) [OF ok o, unfolded acquiring_def]
  show ?thesis
  proof (cases "pool = 0")
    case True
    with acq have l1: "live l1 = live (lib w)" by simp
    have "ensures (release_q L ret q (w\<lparr>lib := l1\<rparr>)) (cleaned live (allocs w) ?H ?S)"
      using release_q_cleaned [OF ok, of q "w\<lparr>lib := l1\<rparr>" qc ret] q l by (simp add: l1)
    from failing_outcome [OF this wf_heap_le [OF heap order_refl]] p True show ?thesis by simp
  next
    case False
    let ?w3 = "w\<lparr>lib := l3\<rparr>"
    from False acq have l1: "Wd_pool pool \<notin> live (lib w)" "live l1 = insert (Wd_pool pool) (live (lib w))" by simp_all
    have l3: "live l3 = insert (Wd_pool pool) (live (lib w)) \<union> blocks pool inb outb"
      using l1 acq2 acq3 by (auto simp: blocks_def split: if_splits)
    have S: "live l3 - {Wd_queue q, Wd_pool pool} - blocks pool inb outb = ?S"
      using l1 l3 acq2 acq3 by (auto simp: blocks_def split: if_splits)
    have q3: "load as_queue q ?w3 = Inr qc" using q by simp
    have sub: "{Wd_queue q, Wd_pool pool} \<union> blocks pool inb outb \<subseteq> live (lib ?w3)" using l by (auto simp: l3)
    have ne: "inb = 0 \<or> inb \<noteq> outb" using acq2 acq3 by (auto split: if_splits)
    show ?thesis
    proof (cases "inb = 0 \<or> outb = 0")
      case True
      have "ensures (buf_free L ret q pool inb outb ?w3) (cleaned live (allocs w) ?H ?S)"
        using buf_free_cleaned [OF ok q3 sub ne, of ret] by (simp add: S)
      from failing_outcome [OF this wf_heap_le [OF heap order_refl]] p i o False True show ?thesis by simp
    next
      case both: False
      have "ensures (hw_init_ctx L zs a ret q pool inb outb ?w3) (hw_outcome live zs ?H ?S)"
        using hw_init_ctx_outcome [OF ok _ q3 sub, of zs a ret] both ne heap by (simp add: S)
      then show ?thesis using p i o False both by simp
    qed
  qed
qed

text \<open>Initialisation is all or nothing.\<close>

lemma hw_init_outcome:
  assumes ok: "wd_ok L live pending" and heap: "wf_heap w"
  shows "ensures (hw_init L zs a ty w) (hw_outcome live zs (heap w) (live (lib w)))"
proof -
  note [simp] = hw_init_def Let_def
  let ?q = "Suc (allocs w)"
  show ?thesis
  proof (cases "oom w (allocs w)")
    case True
    then show ?thesis using heap by (auto simp: malloc_oom hw_outcome_def wf_heap_def le_SucI)
  next
    case False
    let ?w1 = "w\<lparr>allocs := ?q, heap := (heap w)(?q \<mapsto> Queue_obj zero_queue)\<rparr>"
    have m: "malloc (Queue_obj zero_queue) w = (?q, ?w1)" using False by (simp add: malloc_ok)
    have fr: "(heap w)(?q := None) = heap w" by (rule wf_heap_upd_fresh [OF heap])
    have q_free: "ensures (failing zs (hw_q_free ret ?q w')) (hw_outcome live zs (heap w) (live (lib w)))"
      if "heap w' = (heap w)(?q \<mapsto> ob)" "allocs w' = ?q" "live (lib w') = live (lib w)" for w' ob ret
      using failing_outcome [OF hw_q_free_cleaned [of ?q w' ret live], of zs] wf_heap_le [OF heap, of ?q ?q]
      by (simp add: that fr)
    show ?thesis
    proof (cases "a \<noteq> WCRYPTO_ZLIB L \<and> a \<noteq> WCRYPTO_GZIP L")
      case True
      then show ?thesis using q_free [of ?w1] by (simp add: m)
    next
      case alg: False
      define qc where "qc = zero_queue\<lparr>alg_queue := Some (if a = WCRYPTO_ZLIB L then ''zlib'' else ''gzip''),
                      latency_queue := 0, throughput_queue := 0, direction_queue := ty\<rparr>"
      obtain ret qc' l2 where rq: "wd_request_queue L ?q qc (lib w) = (ret, qc', l2)" by (metis prod_cases3)
      note acq = wd_okD(1) [OF ok rq, unfolded acquiring_def]
      let ?w2 = "w\<lparr>allocs := ?q, lib := l2, heap := (heap w)(?q \<mapsto> Queue_obj qc')\<rparr>"
      have init: "hw_init L zs a ty w = (if ret \<noteq> 0 then failing zs (hw_q_free ret ?q ?w2)
          else hw_init_pool L zs a ret ?q ?w2)"
        using alg rq by (simp add: m store_def flip: qc_def) blast
      show ?thesis
      proof (cases "ret = 0")
        case False
        then show ?thesis using q_free [of ?w2 "Queue_obj qc'" ret] acq by (simp only: init) simp
      next
        case True
        have "wf_heap ?w2" using wf_heap_dom [OF heap] by (fastforce simp: wf_heap_def intro: le_SucI)
        moreover have "load as_queue ?q ?w2 = Inr qc'" by (simp add: load_eq_Inr)
        moreover have "live l2 = insert (Wd_queue ?q) (live (lib w))" "Wd_queue ?q \<notin> live (lib w)"
          using acq True by simp_all
        ultimately show ?thesis using hw_init_pool_outcome [OF ok, of ?w2 ?q qc' zs a 0] True fr
          by (simp only: init) simp
      qed
    qed
  qed
qed

lemma releasingE: "releasing live r f \<Longrightarrow> r \<in> live l \<Longrightarrow> \<exists>l'. f l = Inr l' \<and> live l' = live l - {r}"
  by (auto simp: releasing_def ensures_def)

lemma hw_owns_objects:
  assumes "hw_owns live zs w"
  obtains ctl opd qc where "heap w (reserved_hw zs) = Some (Ctl_obj ctl)" "heap w (opdata_ctl ctl) = Some (Op_obj opd)"
    "heap w (queue_ctl ctl) = Some (Queue_obj qc)" "reserved_hw zs \<noteq> 0" "opdata_ctl ctl \<noteq> 0" "queue_ctl ctl \<noteq> 0"
    "in_ctl ctl \<noteq> 0" "out_ctl ctl \<noteq> 0" "in_ctl ctl \<noteq> out_ctl ctl" "ctx_ctl ctl \<noteq> 0"
    "out_op opd = out_ctl ctl" "next_in_hw zs = in_ctl ctl" "next_out_hw zs = out_ctl ctl" "hw_resources ctl \<subseteq> live (lib w)"
  using assms unfolding hw_owns_def by (auto simp: load_eq_Inr)

text \<open>\<open>hw_end\<close> gives back everything, each resource once.\<close>

lemma hw_end_releases:
  assumes ok: "wd_ok L live pending" and heap: "wf_heap w" and owns: "hw_owns live zs w"
  shows "ensures (hw_end L zs w) (\<lambda>w'. wf_heap w' \<and> (heap w', live (lib w')) = hw_rest live zs w)"
proof -
  obtain ctl opd qc where o: "heap w (reserved_hw zs) = Some (Ctl_obj ctl)" "heap w (opdata_ctl ctl) = Some (Op_obj opd)"
    "heap w (queue_ctl ctl) = Some (Queue_obj qc)" "reserved_hw zs \<noteq> 0" "opdata_ctl ctl \<noteq> 0" "queue_ctl ctl \<noteq> 0"
    "in_ctl ctl \<noteq> 0" "out_ctl ctl \<noteq> 0" "in_ctl ctl \<noteq> out_ctl ctl" "ctx_ctl ctl \<noteq> 0"
    and res: "hw_resources ctl \<subseteq> live (lib w)" using hw_owns_objects [OF owns] by metis
  have lc: "load as_ctl (reserved_hw zs) w = Inr ctl" using o by (simp add: load_eq_Inr)
  have ne: "opdata_ctl ctl \<noteq> reserved_hw zs" "queue_ctl ctl \<noteq> reserved_hw zs" "queue_ctl ctl \<noteq> opdata_ctl ctl"
    using o by auto
  let ?Q = "\<lambda>w'. wf_heap w' \<and> (heap w', live (lib w')) = hw_rest live zs w"
  have r: "Wd_block (pool_ctl ctl) (in_ctl ctl) \<in> live (lib w)" "Wd_block (pool_ctl ctl) (out_ctl ctl) \<in> live (lib w)"
    "Wd_ctx (ctx_ctl ctl) \<in> live (lib w)" "Wd_queue (queue_ctl ctl) \<in> live (lib w)" "Wd_pool (pool_ctl ctl) \<in> live (lib w)"
    using res by (auto simp: hw_resources_def)
  have S: "live (lib w) - {Wd_block (pool_ctl ctl) (in_ctl ctl)} - {Wd_block (pool_ctl ctl) (out_ctl ctl)} -
      {Wd_ctx (ctx_ctl ctl)} - {Wd_queue (queue_ctl ctl)} - {Wd_pool (pool_ctl ctl)} = live (lib w) - hw_resources ctl"
    by (auto simp: hw_resources_def)
  have wf: "wf_heap (w\<lparr>lib := l, heap := (heap w)(queue_ctl ctl := None, opdata_ctl ctl := None, reserved_hw zs := None)\<rparr>)" for l
    using wf_heap_dom [OF heap] by (fastforce simp: wf_heap_def)
  have H: "(heap w)(queue_ctl ctl := None, opdata_ctl ctl := None, reserved_hw zs := None) =
      (heap w)(reserved_hw zs := None, opdata_ctl ctl := None, queue_ctl ctl := None)"
    using ne by (auto simp: fun_eq_iff)
  obtain l1 where 1: "wd_free_blk L (pool_ctl ctl) (in_ctl ctl) (lib w) = Inr l1"
    "live l1 = live (lib w) - {Wd_block (pool_ctl ctl) (in_ctl ctl)}" using releasingE [OF wd_okD(6) [OF ok] r(1)] by blast
  have "Wd_block (pool_ctl ctl) (out_ctl ctl) \<in> live l1" using r o(9) by (simp add: 1)
  then obtain l2 where 2: "wd_free_blk L (pool_ctl ctl) (out_ctl ctl) l1 = Inr l2"
    "live l2 = live l1 - {Wd_block (pool_ctl ctl) (out_ctl ctl)}" using releasingE [OF wd_okD(6) [OF ok]] by blast
  have "Wd_ctx (ctx_ctl ctl) \<in> live l2" using r by (simp add: 1 2)
  then obtain l3 where 3: "wcrypto_del_comp_ctx L (ctx_ctl ctl) l2 = Inr l3"
    "live l3 = live l2 - {Wd_ctx (ctx_ctl ctl)}" using releasingE [OF wd_okD(8) [OF ok]] by blast
  have "Wd_queue (queue_ctl ctl) \<in> live l3" using r by (simp add: 1 2 3)
  then obtain l4 where 4: "wd_release_queue L (queue_ctl ctl) qc l3 = Inr l4"
    "live l4 = live l3 - {Wd_queue (queue_ctl ctl)}" using releasingE [OF wd_okD(2) [OF ok]] by blast
  have "Wd_pool (pool_ctl ctl) \<in> live l4" using r by (simp add: 1 2 3 4)
  then obtain l5 where 5: "wd_blkpool_destroy L (pool_ctl ctl) l4 = Inr l5"
    "live l5 = live l4 - {Wd_pool (pool_ctl ctl)}" using releasingE [OF wd_okD(4) [OF ok]] by blast
  have "load as_queue (queue_ctl ctl) (w\<lparr>lib := l\<rparr>) = Inr qc" for l using o by (simp add: load_eq_Inr)
  then have "hw_end L zs w = Inr (w\<lparr>lib := l5, heap := (heap w)(queue_ctl ctl := None, opdata_ctl ctl := None,
      reserved_hw zs := None)\<rparr>)"
    using o 1(1) 2(1) 3(1) 4(1) 5(1) ne by (simp add: hw_end_def lc on_lib_def free_def)
  moreover have "live l5 = live (lib w) - hw_resources ctl" using S by (simp add: 1 2 3 4 5)
  ultimately show ?thesis using wf [of l5] H by (simp add: hw_rest_def lc)
qed

text \<open>What a call keeps, and how far it gets.\<close>

definition hw_kept :: "('l \<Rightarrow> wd_res set) \<Rightarrow> zip_stream \<Rightarrow> 'l world \<Rightarrow> zip_stream \<Rightarrow> 'l world \<Rightarrow> bool" where
  "hw_kept live zs w zs' w' \<longleftrightarrow> wf_heap w' \<and> hw_owns live zs' w' \<and> hw_rest live zs' w' = hw_rest live zs w"

lemma hw_kept_trans: "hw_kept live zs w zs1 w1 \<Longrightarrow> hw_kept live zs1 w1 zs' w' \<Longrightarrow> hw_kept live zs w zs' w'"
  by (simp add: hw_kept_def)

lemma hw_kept_cong:
  assumes same: "next_in_hw zs' = next_in_hw zs" "next_out_hw zs' = next_out_hw zs" "reserved_hw zs' = reserved_hw zs"
    "heap w' = heap w" "allocs w' = allocs w" "live (lib w') = live (lib w)" and "wf_heap w" "hw_owns live zs w"
  shows "hw_kept live zs w zs' w'"
proof -
  have "deref p w' = deref p w" for p by (simp add: deref_def same)
  with assms(7-) show ?thesis
    unfolding hw_kept_def hw_owns_def hw_rest_def wf_heap_def load_def by (simp only: same simp_thms)
qed

lemma hw_kept_op:
  assumes "wf_heap w" and owns: "hw_owns live zs w"
    and l: "load as_ctl (reserved_hw zs) w = Inr ctl" "load as_op (opdata_ctl ctl) w = Inr opd"
    and same: "next_in_hw zs' = next_in_hw zs" "next_out_hw zs' = next_out_hw zs" "reserved_hw zs' = reserved_hw zs"
    and w': "heap w' = (heap w)(opdata_ctl ctl \<mapsto> Op_obj opd')" "allocs w' = allocs w" "live (lib w') = live (lib w)"
    and out: "out_op opd' = out_op opd"
  shows "hw_kept live zs w zs' w'"
proof -
  obtain qc where h: "heap w (reserved_hw zs) = Some (Ctl_obj ctl)" "heap w (opdata_ctl ctl) = Some (Op_obj opd)"
    "heap w (queue_ctl ctl) = Some (Queue_obj qc)" "reserved_hw zs \<noteq> 0" "opdata_ctl ctl \<noteq> 0" "queue_ctl ctl \<noteq> 0"
    "in_ctl ctl \<noteq> 0" "out_ctl ctl \<noteq> 0" "in_ctl ctl \<noteq> out_ctl ctl" "ctx_ctl ctl \<noteq> 0" "out_op opd = out_ctl ctl"
    "next_in_hw zs = in_ctl ctl" "next_out_hw zs = out_ctl ctl" "hw_resources ctl \<subseteq> live (lib w)"
    using owns l unfolding hw_owns_def by (auto simp: load_eq_Inr)
  have ne: "opdata_ctl ctl \<noteq> reserved_hw zs" "queue_ctl ctl \<noteq> opdata_ctl ctl" using h by auto
  have l': "load as_ctl (reserved_hw zs) w' = Inr ctl" "load as_op (opdata_ctl ctl) w' = Inr opd'"
    "load as_queue (queue_ctl ctl) w' = Inr qc" using h ne by (simp_all add: load_eq_Inr w')
  have "hw_owns live zs' w'" unfolding hw_owns_def using l' h by (simp add: same w' out)
  moreover have "(heap w')(reserved_hw zs := None, opdata_ctl ctl := None) = (heap w)(reserved_hw zs := None, opdata_ctl ctl := None)"
    using ne by (auto simp: fun_eq_iff w')
  then have "hw_rest live zs' w' = hw_rest live zs w" by (simp add: hw_rest_def same l' l w')
  moreover have "wf_heap w'" using wf_heap_dom [OF assms(1)] h by (auto simp: wf_heap_def w')
  ultimately show ?thesis by (simp add: hw_kept_def)
qed

definition hw_fresh :: "'l wd_lib \<Rightarrow> zip_stream \<Rightarrow> 'l world \<Rightarrow> bool" where
  "hw_fresh L zs w \<longleftrightarrow> (\<exists>ctl opd. load as_ctl (reserved_hw zs) w = Inr ctl \<and> load as_op (opdata_ctl ctl) w = Inr opd \<and>
     stream_pos_op opd = WCRYPTO_COMP_STREAM_NEW L)"

definition hw_moves :: "'l wd_lib \<Rightarrow> ('l \<Rightarrow> nat) \<Rightarrow> zip_stream \<Rightarrow> 'l world \<Rightarrow> zip_stream \<Rightarrow> 'l world \<Rightarrow> bool" where
  "hw_moves L pending zs w zs' w' \<longleftrightarrow> (\<exists>(c :: uInt) (p :: uInt). c \<le> ucast (avail_in_hw zs) \<and> p \<le> ucast (avail_out_hw zs) \<and>
     (ucast (avail_in_hw zs) \<noteq> (0 :: uInt) \<longrightarrow> ucast (avail_out_hw zs) \<noteq> (0 :: uInt) \<longrightarrow> c \<noteq> 0 \<or> pending (lib w') < pending (lib w)) \<and>
     avail_in_hw zs' = ucast (ucast (avail_in_hw zs) - c) \<and> avail_out_hw zs' = avail_out_hw zs - ucast p \<and>
     total_out_hw zs' = (if hw_fresh L zs w then 0 else total_out_hw zs) + ucast p \<and>
     (WCRYPTO_COMP_STREAM_OLD L \<noteq> WCRYPTO_COMP_STREAM_NEW L \<longrightarrow> \<not> hw_fresh L zs' w'))"

lemma append_store_block_result:
  assumes "load as_ctl (reserved_hw zs) w = Inr ctl" "load as_op (opdata_ctl ctl) w = Inr opd"
  shows "\<exists>zs' w'. append_store_block L zs flush w = Inr (UNIZIP_STREAM_END, zs', w') \<and> avail_in_hw zs' = avail_in_hw zs \<and>
    next_in_hw zs' = next_in_hw zs \<and> next_out_hw zs' = next_out_hw zs \<and> reserved_hw zs' = reserved_hw zs \<and>
    heap w' = heap w \<and> allocs w' = allocs w \<and> lib w' = lib w"
proof -
  consider "flush \<noteq> WCRYPTO_FINISH L" | "flush = WCRYPTO_FINISH L" "alg_type_op opd = WCRYPTO_ZLIB L"
    | "flush = WCRYPTO_FINISH L" "alg_type_op opd \<noteq> WCRYPTO_ZLIB L" "alg_type_op opd = WCRYPTO_GZIP L"
    | "flush = WCRYPTO_FINISH L" "alg_type_op opd \<noteq> WCRYPTO_ZLIB L" "alg_type_op opd \<noteq> WCRYPTO_GZIP L" by blast
  then show ?thesis by cases (simp_all add: append_store_block_def Let_def assms)
qed

lemma hw_account_result:
  assumes "hw_account L ctl opd zs = (opd', zs')"
  shows "next_in_hw zs' = next_in_hw zs" "next_out_hw zs' = next_out_hw zs" "reserved_hw zs' = reserved_hw zs"
    "avail_in_hw zs' = ucast (in_len_op opd - consumed_op opd)"
    "avail_out_hw zs' = avail_out_hw zs - ucast (produced_op opd)"
    "total_out_hw zs' = (if stream_pos_op opd = WCRYPTO_COMP_STREAM_NEW L then 0 else total_out_hw zs) + ucast (produced_op opd)"
    "out_op opd' = out_op opd" "status_op opd' = status_op opd"
    "stream_pos_op opd' = (if stream_pos_op opd = WCRYPTO_COMP_STREAM_NEW L then WCRYPTO_COMP_STREAM_OLD L else stream_pos_op opd)"
proof -
  have e: "opd' = fst (hw_account L ctl opd zs)" "zs' = snd (hw_account L ctl opd zs)" using assms by simp_all
  show "next_in_hw zs' = next_in_hw zs" "next_out_hw zs' = next_out_hw zs" "reserved_hw zs' = reserved_hw zs"
    "avail_in_hw zs' = ucast (in_len_op opd - consumed_op opd)"
    "avail_out_hw zs' = avail_out_hw zs - ucast (produced_op opd)"
    "total_out_hw zs' = (if stream_pos_op opd = WCRYPTO_COMP_STREAM_NEW L then 0 else total_out_hw zs) + ucast (produced_op opd)"
    "out_op opd' = out_op opd" "status_op opd' = status_op opd"
    "stream_pos_op opd' = (if stream_pos_op opd = WCRYPTO_COMP_STREAM_NEW L then WCRYPTO_COMP_STREAM_OLD L else stream_pos_op opd)"
    unfolding e hw_account_def Let_def fst_conv snd_conv
    by (cases "stream_pos_op opd = WCRYPTO_COMP_STREAM_NEW L"; simp)+
qed

lemma hw_call_result:
  assumes ok: "wd_ok L live pending" and heap: "wf_heap w" and owns: "hw_owns live zs w"
  obtains r zs' w' where "hw_call L flush zs w = Inr (r, zs', w')" "hw_kept live zs w zs' w'"
    "0 \<le> r \<Longrightarrow> avail_in_hw zs = 0 \<and> flush = WCRYPTO_FINISH L \<and> avail_in_hw zs' = 0 \<or> hw_moves L pending zs w zs' w'"
proof -
  obtain ctl opd qc where l: "load as_ctl (reserved_hw zs) w = Inr ctl" "load as_op (opdata_ctl ctl) w = Inr opd"
    "load as_queue (queue_ctl ctl) w = Inr qc" and ctx: "Wd_ctx (ctx_ctl ctl) \<in> live (lib w)"
    using owns unfolding hw_owns_def hw_resources_def by auto
  show ?thesis
  proof (cases "avail_in_hw zs = 0 \<and> flush = WCRYPTO_FINISH L")
    case True
    obtain zs' w' where a: "append_store_block L zs flush w = Inr (UNIZIP_STREAM_END, zs', w')"
      and same: "avail_in_hw zs' = avail_in_hw zs" "next_in_hw zs' = next_in_hw zs" "next_out_hw zs' = next_out_hw zs"
        "reserved_hw zs' = reserved_hw zs" "heap w' = heap w" "allocs w' = allocs w" "lib w' = lib w"
      using append_store_block_result [OF l(1,2), of L flush] by auto
    have "hw_call L flush zs w = Inr (UNIZIP_STREAM_END, zs', w')"
      using True a by (simp add: hw_call_def hw_send_and_recv_def l Let_def)
    moreover have "hw_kept live zs w zs' w'" by (rule hw_kept_cong) (simp_all add: same heap owns)
    ultimately show ?thesis using that True same(1) by simp
  next
    case False
    define opd1 where "opd1 = opd\<lparr>flush_op := flush, in_len_op := ucast (avail_in_hw zs), avail_out_op := ucast (avail_out_hw zs)\<rparr>"
    obtain ret opd2 m l2 where do: "wcrypto_do_comp L (ctx_ctl ctl) opd1 (bytes w) (lib w) = Inr (ret, opd2, m, l2)"
      and comp: "computing live pending opd1 (bytes w) (lib w) (ret, opd2, m, l2)"
      using wd_okD(9) [OF ok ctx, of opd1 "bytes w"] unfolding ensures_def by (metis prod_cases4)
    note c = comp [unfolded computing_def prod.case]
    have opd1: "in_len_op opd1 = ucast (avail_in_hw zs)" "avail_out_op opd1 = ucast (avail_out_hw zs)"
      "out_op opd1 = out_op opd" "stream_pos_op opd1 = stream_pos_op opd" by (simp_all add: opd1_def)
    let ?w = "w\<lparr>bytes := m, lib := l2\<rparr>"
    show ?thesis
    proof (cases "ret < 0")
      case True
      have "hw_call L flush zs w = Inr (UNIZIP_STREAM_ERROR, zs, store (opdata_ctl ctl) (Op_obj opd2) ?w)"
        unfolding hw_call_def hw_send_and_recv_def l Let_def andthen_Inr if_not_P [OF False]
        using do True by (simp flip: opd1_def)
      moreover have "hw_kept live zs w zs (store (opdata_ctl ctl) (Op_obj opd2) ?w)"
        using c opd1 by (intro hw_kept_op [where opd' = opd2, OF heap owns l(1,2)]) simp_all
      ultimately show ?thesis using that by simp
    next
      case pos: False
      define first where "first \<longleftrightarrow> stream_pos_op opd2 = WCRYPTO_COMP_STREAM_NEW L"
      have fresh: "hw_fresh L zs w \<longleftrightarrow> first" using c opd1 l by (simp add: hw_fresh_def first_def)
      obtain opd' zs' where acc: "hw_account L ctl opd2 zs = (opd', zs')" by fastforce
      note acc_parts = hw_account_result [OF acc, folded first_def]
      note zs' = acc_parts(1-6) and opd' = acc_parts(7-9)
      let ?r = "hw_status L ret flush (status_op opd2)"
      have call: "hw_call L flush zs w = Inr (if ?r < 0 then UNIZIP_STREAM_ERROR else ?r, zs', store (opdata_ctl ctl) (Op_obj opd') ?w)"
        unfolding hw_call_def hw_send_and_recv_def l Let_def andthen_Inr if_not_P [OF False]
        using do pos acc opd' by (simp flip: opd1_def)
      have kept: "hw_kept live zs w zs' (store (opdata_ctl ctl) (Op_obj opd') ?w)"
        using c opd1 zs' opd' by (intro hw_kept_op [where opd' = opd', OF heap owns l(1,2)]) simp_all
      have "opdata_ctl ctl \<noteq> reserved_hw zs" using l by (auto simp: load_eq_Inr)
      then have "hw_fresh L zs' (store (opdata_ctl ctl) (Op_obj opd') ?w) \<longleftrightarrow> stream_pos_op opd' = WCRYPTO_COMP_STREAM_NEW L"
        using l by (auto simp: hw_fresh_def zs' load_eq_Inr)
      then have "hw_moves L pending zs w zs' (store (opdata_ctl ctl) (Op_obj opd') ?w)"
        unfolding hw_moves_def using c pos zs' opd1 opd' fresh
        by (intro exI [of _ "consumed_op opd2"] exI [of _ "produced_op opd2"]) (auto simp: first_def)
      then show ?thesis using that call kept by blast
    qed
  qed
qed

text \<open>The loops end: each call takes input or brings the hardware closer to taking some.\<close>

lemma hw_moves_smaller:
  assumes "hw_moves L pending zs w zs' w'" and "uint (avail_in_hw zs) < 2 ^ 32" and "avail_in_hw zs' > 0"
    and "0 < avail_out_hw zs" "uint (avail_out_hw zs) < 2 ^ 32"
  shows "unat (avail_in_hw zs') < unat (avail_in_hw zs) \<or>
      unat (avail_in_hw zs') = unat (avail_in_hw zs) \<and> pending (lib w') < pending (lib w)"
    and "uint (avail_in_hw zs') < 2 ^ 32"
proof -
  let ?a = "ucast (avail_in_hw zs) :: uInt"
  obtain c :: uInt where c: "c \<le> ?a" "?a \<noteq> 0 \<longrightarrow> ucast (avail_out_hw zs) \<noteq> (0 :: uInt) \<longrightarrow> c \<noteq> 0 \<or> pending (lib w') < pending (lib w)"
    "avail_in_hw zs' = ucast (?a - c)" using assms(1) unfolding hw_moves_def by auto
  have down: "unat (ucast x :: uInt) = unat x" if "uint x < 2 ^ 32" for x :: uLong
  proof -
    have "uint x < int (2 ^ 32)" using that by simp
    then have "unat x < 2 ^ 32" by (simp only: uint_nat of_nat_less_iff)
    then have "take_bit 32 (unat x) = unat x" by (rule take_bit_nat_eq_self)
    then show ?thesis by (simp only: unsigned_ucast_eq) simp
  qed
  have a: "unat ?a = unat (avail_in_hw zs)" using assms(2) by (rule down)
  have o: "ucast (avail_out_hw zs) \<noteq> (0 :: uInt)"
    using down [OF assms(5)] assms(4) by (metis unat_eq_zero word_neq_0_conv)
  have a': "unat (avail_in_hw zs') = unat ?a - unat c" using c by (simp add: unat_ucast_up unat_sub)
  have "?a \<noteq> 0" using assms(3) c by auto
  with c(2) o have "c \<noteq> 0 \<or> pending (lib w') < pending (lib w)" by simp
  moreover have "unat c \<le> unat ?a" using c(1) by (simp add: word_le_nat_alt)
  moreover have "0 < unat ?a" using \<open>?a \<noteq> 0\<close> by (simp add: unat_gt_0)
  ultimately show "unat (avail_in_hw zs') < unat (avail_in_hw zs) \<or>
      unat (avail_in_hw zs') = unat (avail_in_hw zs) \<and> pending (lib w') < pending (lib w)"
    unfolding a' a by (cases "c = 0") (auto simp: unat_gt_0)
  show "uint (avail_in_hw zs') < 2 ^ 32" unfolding c(3) uint_ucast_up using uint_lt2p [of "?a - c"] by simp
qed

lemma hw_moves_have:
  assumes "hw_moves L pending (zs\<lparr>avail_out_hw := chunk\<rparr>) w zs' w'" and "uint chunk < 2 ^ 31"
  shows "total_out_hw zs' = (if hw_fresh L zs w then 0 else total_out_hw zs) + have_out chunk zs'"
    and "WCRYPTO_COMP_STREAM_OLD L \<noteq> WCRYPTO_COMP_STREAM_NEW L \<Longrightarrow> \<not> hw_fresh L zs' w'"
proof -
  have fr: "hw_fresh L (zs\<lparr>avail_out_hw := chunk\<rparr>) w = hw_fresh L zs w" by (simp add: hw_fresh_def)
  have to: "total_out_hw (zs\<lparr>avail_out_hw := chunk\<rparr>) = total_out_hw zs" "avail_out_hw (zs\<lparr>avail_out_hw := chunk\<rparr>) = chunk"
    by simp_all
  obtain p :: uInt where p: "p \<le> ucast chunk" "avail_out_hw zs' = chunk - ucast p"
    "total_out_hw zs' = (if hw_fresh L zs w then 0 else total_out_hw zs) + ucast p"
    "WCRYPTO_COMP_STREAM_OLD L \<noteq> WCRYPTO_COMP_STREAM_NEW L \<longrightarrow> \<not> hw_fresh L zs' w'"
    using assms(1) unfolding hw_moves_def fr to by blast
  have "uint p \<le> uint (ucast chunk :: uInt)" using p(1) by (simp add: word_le_def)
  also have "\<dots> \<le> uint chunk" by (simp add: unsigned_ucast_eq take_bit_int_less_eq_self_iff)
  finally have "uint p < 2 ^ 31" using assms(2) by simp
  then have "c_int (ucast p :: uLong) = uint p" by (simp add: c_int_small)
  then have "have_out chunk zs' = ucast p" by (simp add: have_out_def p(2))
  then show "total_out_hw zs' = (if hw_fresh L zs w then 0 else total_out_hw zs) + have_out chunk zs'" using p(3) by simp
  show "WCRYPTO_COMP_STREAM_OLD L \<noteq> WCRYPTO_COMP_STREAM_NEW L \<Longrightarrow> \<not> hw_fresh L zs' w'" using p(4) by simp
qed

lemma memcpy_world [simp]:
  "heap (memcpy d s n w) = heap w" "allocs (memcpy d s n w) = allocs w" "lib (memcpy d s n w) = lib w"
  "oom (memcpy d s n w) = oom w"
  by (simp_all add: memcpy_def)

lemma hw_owns_cong:
  assumes "next_in_hw zs' = next_in_hw zs" "next_out_hw zs' = next_out_hw zs" "reserved_hw zs' = reserved_hw zs"
    "heap w' = heap w" "allocs w' = allocs w" "live (lib w') = live (lib w)" and "wf_heap w" "hw_owns live zs w"
  shows "wf_heap w'" "hw_owns live zs' w'" "hw_rest live zs' w' = hw_rest live zs w"
  using hw_kept_cong [OF assms] by (simp_all add: hw_kept_def)

lemma pump_returns:
  assumes ok: "wd_ok L live pending" and chunk: "0 < chunk" "uint chunk < 2 ^ 31"
  shows "wf_heap w \<Longrightarrow> hw_owns live zs w \<Longrightarrow> uint (avail_in_hw zs) < 2 ^ 32 \<Longrightarrow>
    \<exists>ret zs' dst' w'. pump L flush chunk zs dst w = Some (Inr (ret, zs', dst', w')) \<and> hw_kept live zs w zs' w' \<and>
      (0 \<le> ret \<longrightarrow> avail_in_hw zs' = 0)"
proof (induction "(zs, dst, w)" arbitrary: zs dst w
    rule: wf_induct_rule [OF wf_measures [of "[\<lambda>(zs, dst, w). unat (avail_in_hw zs), \<lambda>(zs, dst, w). pending (lib w)]"]])
  case (1 zs dst w)
  note IH = 1(1) and heap = 1(2) and owns = 1(3) and small = 1(4)
  let ?zs = "zs\<lparr>avail_out_hw := chunk\<rparr>"
  have owns': "hw_owns live ?zs w" "hw_rest live ?zs w = hw_rest live zs w"
    using hw_owns_cong [of ?zs zs w w live] heap owns by simp_all
  obtain r zs1 w1 where call: "hw_call L flush ?zs w = Inr (r, zs1, w1)" and k: "hw_kept live ?zs w zs1 w1"
    and m: "0 \<le> r \<Longrightarrow> avail_in_hw ?zs = 0 \<and> flush = WCRYPTO_FINISH L \<and> avail_in_hw zs1 = 0 \<or> hw_moves L pending ?zs w zs1 w1"
    using hw_call_result [OF ok heap owns'(1), of flush] by metis
  let ?w2 = "memcpy dst (next_out_hw zs1) (have_out chunk zs1) w1" and ?dst = "dst + have_out chunk zs1"
  have k2: "hw_kept live zs w zs1 w1" "hw_kept live zs w zs1 ?w2"
    using k owns'(2) hw_owns_cong [of zs1 zs1 ?w2 w1 live] by (simp_all add: hw_kept_def)
  show ?case
  proof (cases "0 \<le> r \<and> avail_in_hw zs1 > 0")
    case False
    then show ?thesis using call k2 by (subst pump.simps) (auto simp: not_le not_less word_gt_0)
  next
    case True
    with m have mv: "hw_moves L pending ?zs w zs1 w1" by auto
    note lt = hw_moves_smaller [OF mv] 
    have "((zs1, ?dst, ?w2), (zs, dst, w)) \<in> measures [\<lambda>(zs, dst, w). unat (avail_in_hw zs), \<lambda>(zs, dst, w). pending (lib w)]"
      using lt(1) small True chunk by auto
    moreover have "wf_heap ?w2" "hw_owns live zs1 ?w2" using k2(2) by (simp_all add: hw_kept_def)
    moreover have "uint (avail_in_hw zs1) < 2 ^ 32" using lt(2) small True chunk by simp
    ultimately obtain ret zs' dst' w' where "pump L flush chunk zs1 ?dst ?w2 = Some (Inr (ret, zs', dst', w'))"
      "hw_kept live zs1 ?w2 zs' w'" "0 \<le> ret \<longrightarrow> avail_in_hw zs' = 0" using IH by blast
    with call True hw_kept_trans [OF k2(2)] show ?thesis by (subst pump.simps) (simp add: Let_def)
  qed
qed

lemma feed_result:
  assumes "feed chunk zs src srclen w = (zs1, src1, srclen1, w1)"
  shows "next_in_hw zs1 = next_in_hw zs" "next_out_hw zs1 = next_out_hw zs" "reserved_hw zs1 = reserved_hw zs"
    "total_out_hw zs1 = total_out_hw zs" "heap w1 = heap w" "allocs w1 = allocs w" "lib w1 = lib w" "avail_in_hw zs1 \<le> chunk"
    "srclen1 \<noteq> 0 \<Longrightarrow> 0 < chunk \<Longrightarrow> unat srclen1 < unat srclen"
    "avail_in_hw zs1 = 0 \<Longrightarrow> 0 < chunk \<Longrightarrow> srclen1 = 0"
    "avail_in_hw zs1 \<noteq> 0 \<Longrightarrow> 0 < chunk \<Longrightarrow> unat srclen1 < unat srclen"
  using assms by (auto simp: feed_def unat_sub word_le_nat_alt word_less_nat_alt unat_gt_0 intro!: diff_less split: if_splits)

lemma hw_kept_feed:
  assumes "feed chunk zs src srclen w = (zs1, src1, srclen1, w1)" and "wf_heap w" "hw_owns live zs w"
  shows "hw_kept live zs w zs1 w1" "hw_fresh L zs1 w1 = hw_fresh L zs w"
proof -
  show "hw_kept live zs w zs1 w1" by (rule hw_kept_cong) (simp_all add: feed_result [OF assms(1)] assms(2,3))
  have "deref p w1 = deref p w" for p by (simp add: deref_def feed_result [OF assms(1)])
  then show "hw_fresh L zs1 w1 = hw_fresh L zs w"
    unfolding hw_fresh_def load_def by (simp only: feed_result [OF assms(1)])
qed

lemma compress_loop_returns:
  assumes ok: "wd_ok L live pending" and chunk: "0 < chunk" "uint chunk < 2 ^ 31"
  shows "wf_heap w \<Longrightarrow> hw_owns live zs w \<Longrightarrow>
    \<exists>ret zs' dst' w'. compress_loop L chunk zs src srclen dst w = Some (Inr (ret, zs', dst', w')) \<and> hw_kept live zs w zs' w'"
proof (induction "unat srclen" arbitrary: zs src srclen dst w rule: less_induct)
  case less
  obtain zs1 src1 srclen1 w1 where f: "feed chunk zs src srclen w = (zs1, src1, srclen1, w1)" by (metis prod_cases4)
  note k = hw_kept_feed(1) [OF f less(2,3)]
  let ?flush = "if srclen1 \<noteq> 0 then WCRYPTO_SYNC_FLUSH L else WCRYPTO_FINISH L"
  have "uint (avail_in_hw zs1) < 2 ^ 32" using feed_result(8) [OF f] chunk(2) by (simp add: word_le_def)
  then obtain ret zs2 dst2 w2 where p: "pump L ?flush chunk zs1 dst w1 = Some (Inr (ret, zs2, dst2, w2))" and "hw_kept live zs1 w1 zs2 w2"
    using pump_returns [OF ok chunk] k unfolding hw_kept_def by metis
  then have k2: "hw_kept live zs w zs2 w2" using k hw_kept_trans by blast
  show ?case
  proof (cases "0 \<le> ret \<and> ?flush \<noteq> WCRYPTO_FINISH L")
    case False
    then show ?thesis using f p k2 by (subst compress_loop.simps) (auto simp: Let_def)
  next
    case True
    then have "unat srclen1 < unat srclen" using feed_result(9) [OF f] chunk by (simp split: if_splits)
    from less(1) [OF this, of w2 zs2 src1 dst2] k2 obtain ret' zs' dst' w' where
      "compress_loop L chunk zs2 src1 srclen1 dst2 w2 = Some (Inr (ret', zs', dst', w'))" "hw_kept live zs2 w2 zs' w'"
      unfolding hw_kept_def by blast
    then show ?thesis using f p True hw_kept_trans [OF k2] by (subst compress_loop.simps) (simp add: Let_def)
  qed
qed

text \<open>What \<open>hw_stream_decompress\<close> has written so far is the total the hardware has produced.\<close>

definition at_out :: "'l wd_lib \<Rightarrow> addr \<Rightarrow> zip_stream \<Rightarrow> addr \<Rightarrow> 'l world \<Rightarrow> bool" where
  "at_out L dst0 zs dst w \<longleftrightarrow> dst - dst0 = (if hw_fresh L zs w then 0 else total_out_hw zs)"

lemma drain_returns:
  assumes ok: "wd_ok L live pending" and chunk: "0 < chunk" "uint chunk < 2 ^ 31"
    and ne: "WCRYPTO_COMP_STREAM_OLD L \<noteq> WCRYPTO_COMP_STREAM_NEW L"
  shows "wf_heap w \<Longrightarrow> hw_owns live zs w \<Longrightarrow> uint (avail_in_hw zs) < 2 ^ 32 \<Longrightarrow> 0 < avail_in_hw zs \<Longrightarrow> at_out L dst0 zs dst w \<Longrightarrow>
    \<exists>stop ret zs' dst' w'. drain L chunk (Some cap) zs dst w = Some (Inr (stop, ret, zs', dst', w')) \<and> hw_kept live zs w zs' w' \<and>
      (if stop then ret \<noteq> UNIZIP_OK else avail_in_hw zs' = 0 \<and> at_out L dst0 zs' dst' w' \<and> dst' - dst0 \<le> cap)"
proof (induction "(zs, dst, w)" arbitrary: zs dst w
    rule: wf_induct_rule [OF wf_measures [of "[\<lambda>(zs, dst, w). unat (avail_in_hw zs), \<lambda>(zs, dst, w). pending (lib w)]"]])
  case (1 zs dst w)
  note IH = 1(1) and heap = 1(2) and owns = 1(3) and small = 1(4,5) and at = 1(6)
  let ?zs = "zs\<lparr>avail_out_hw := chunk\<rparr>"
  have owns': "hw_owns live ?zs w" "hw_rest live ?zs w = hw_rest live zs w"
    using hw_owns_cong [of ?zs zs w w live] heap owns by simp_all
  have nz: "avail_in_hw ?zs \<noteq> 0" using small(2) by simp
  obtain r zs1 w1 where call: "hw_call L (WCRYPTO_SYNC_FLUSH L) ?zs w = Inr (r, zs1, w1)" and k: "hw_kept live ?zs w zs1 w1"
    and m: "0 \<le> r \<Longrightarrow> hw_moves L pending ?zs w zs1 w1"
    using hw_call_result [OF ok heap owns'(1), of "WCRYPTO_SYNC_FLUSH L"] nz by metis
  let ?w2 = "memcpy dst (next_out_hw zs1) (have_out chunk zs1) w1" and ?dst = "dst + have_out chunk zs1"
  have k2: "hw_kept live zs w zs1 w1" "hw_kept live zs w zs1 ?w2"
    using k owns'(2) hw_owns_cong [of zs1 zs1 ?w2 w1 live] by (simp_all add: hw_kept_def)
  have at2: "at_out L dst0 zs1 ?dst ?w2" "?dst - dst0 = total_out_hw zs1" if "0 \<le> r"
  proof -
    note h = hw_moves_have [OF m [OF that] chunk(2)]
    show "?dst - dst0 = total_out_hw zs1"
      unfolding h(1) at [unfolded at_out_def, symmetric] by simp
    moreover have "deref p ?w2 = deref p w1" for p by (simp add: deref_def)
    then have "hw_fresh L zs1 ?w2 = hw_fresh L zs1 w1" by (simp add: hw_fresh_def load_def)
    ultimately show "at_out L dst0 zs1 ?dst ?w2" using h(2) [OF ne] by (simp add: at_out_def)
  qed
  show ?case
  proof (cases "0 \<le> r \<and> total_out_hw zs1 \<le> cap")
    case False
    then show ?thesis using call k2 by (subst drain.simps) (auto simp: not_le)
  next
    case go: True
    then have within: "\<not> r < 0" "\<not> cap < total_out_hw zs1" by (simp_all add: not_less)
    show ?thesis
    proof (cases "avail_in_hw zs1 > 0")
      case False
      then have "drain L chunk (Some cap) zs dst w = Some (Inr (False, r, zs1, ?dst, ?w2))"
        using call within by (subst drain.simps) (simp add: Let_def)
      then show ?thesis using k2 at2 go False
        by (intro exI [of _ False] exI [of _ r] exI [of _ zs1] exI [of _ ?dst] exI [of _ ?w2]) (simp add: word_gt_0)
    next
      case True
      note lt = hw_moves_smaller [OF m]
      have "((zs1, ?dst, ?w2), (zs, dst, w)) \<in> measures [\<lambda>(zs, dst, w). unat (avail_in_hw zs), \<lambda>(zs, dst, w). pending (lib w)]"
        using lt(1) small True chunk go by auto
      moreover have "wf_heap ?w2" "hw_owns live zs1 ?w2" using k2(2) by (simp_all add: hw_kept_def)
      moreover have "uint (avail_in_hw zs1) < 2 ^ 32" using lt(2) small True chunk go by simp
      ultimately obtain stop ret zs' dst' w' where "drain L chunk (Some cap) zs1 ?dst ?w2 = Some (Inr (stop, ret, zs', dst', w'))"
        "hw_kept live zs1 ?w2 zs' w'" "if stop then ret \<noteq> UNIZIP_OK else avail_in_hw zs' = 0 \<and> at_out L dst0 zs' dst' w' \<and> dst' - dst0 \<le> cap"
        using IH True at2(1) go by blast
      with call True within hw_kept_trans [OF k2(2)] show ?thesis
        by (subst drain.simps) (simp add: Let_def)
    qed
  qed
qed

lemma decompress_loop_returns:
  assumes ok: "wd_ok L live pending" and chunk: "0 < chunk" "uint chunk < 2 ^ 31"
    and ne: "WCRYPTO_COMP_STREAM_OLD L \<noteq> WCRYPTO_COMP_STREAM_NEW L"
  shows "wf_heap w \<Longrightarrow> hw_owns live zs w \<Longrightarrow> at_out L dst0 zs dst w \<Longrightarrow> dst - dst0 \<le> cap \<Longrightarrow>
    \<exists>stop ret zs' dst' w'. decompress_loop L chunk (Some cap) zs src srclen dst w = Some (Inr (stop, ret, zs', dst', w')) \<and>
      hw_kept live zs w zs' w' \<and> (if stop then ret \<noteq> UNIZIP_OK else dst' - dst0 \<le> cap)"
proof (induction "unat srclen" arbitrary: zs src srclen dst w rule: less_induct)
  case less
  obtain zs1 src1 srclen1 w1 where f: "feed chunk zs src srclen w = (zs1, src1, srclen1, w1)" by (metis prod_cases4)
  note k = hw_kept_feed [OF f less(2,3)]
  show ?case
  proof (cases "avail_in_hw zs1 = 0")
    case True
    then have "decompress_loop L chunk (Some cap) zs src srclen dst w = Some (Inr (False, UNIZIP_STREAM_END, zs1, dst, w1))"
      using f by (subst decompress_loop.simps) simp
    then show ?thesis using k less(5) by (intro exI [of _ False]) auto
  next
    case some: False
    have "uint (avail_in_hw zs1) < 2 ^ 32" using feed_result(8) [OF f] chunk(2) by (simp add: word_le_def)
    moreover have "at_out L dst0 zs1 dst w1" using less(4) k(2) feed_result(4) [OF f] by (simp add: at_out_def)
    moreover have "wf_heap w1" "hw_owns live zs1 w1" using k(1) by (simp_all add: hw_kept_def)
    moreover have "0 < avail_in_hw zs1" using some by (simp add: word_gt_0)
    ultimately obtain stop ret zs2 dst2 w2 where
      d: "drain L chunk (Some cap) zs1 dst w1 = Some (Inr (stop, ret, zs2, dst2, w2))" and "hw_kept live zs1 w1 zs2 w2"
      and s: "if stop then ret \<noteq> UNIZIP_OK else avail_in_hw zs2 = 0 \<and> at_out L dst0 zs2 dst2 w2 \<and> dst2 - dst0 \<le> cap"
      using drain_returns [OF ok chunk ne, of w1 zs1 dst0 dst cap] by blast
    then have k2: "hw_kept live zs w zs2 w2" using k(1) hw_kept_trans by blast
    show ?thesis
    proof (cases "\<not> stop \<and> ret \<noteq> UNIZIP_STREAM_END")
      case False
      then have "decompress_loop L chunk (Some cap) zs src srclen dst w = Some (Inr (stop, ret, zs2, dst2, w2))"
        using f d some by (subst decompress_loop.simps) (auto simp: Let_def)
      then show ?thesis using k2 s by (intro exI [of _ stop]) auto
    next
      case True
      have "unat srclen1 < unat srclen" using feed_result(11) [OF f some chunk(1)] .
      from less(1) [OF this, of w2 zs2 dst2 src1] k2 s True obtain stop' ret' zs' dst' w' where
        "decompress_loop L chunk (Some cap) zs2 src1 srclen1 dst2 w2 = Some (Inr (stop', ret', zs', dst', w'))"
        "hw_kept live zs2 w2 zs' w'" "if stop' then ret' \<noteq> UNIZIP_OK else dst' - dst0 \<le> cap"
        unfolding hw_kept_def by auto
      then show ?thesis using f d some True hw_kept_trans [OF k2] by (subst decompress_loop.simps) (simp add: Let_def)
    qed
  qed
qed

text \<open>A stream that was initialised has the operation data at the beginning of a stream.\<close>

lemma cleanup_fails:
  "hw_q_free ret q w = Inr (r, w') \<Longrightarrow> r \<noteq> 0"
  "release_q L ret q w = Inr (r, w') \<Longrightarrow> r \<noteq> 0"
  "buf_free L ret q p i ou w = Inr (r, w') \<Longrightarrow> r \<noteq> 0"
  "comp_ctx_free L ret q p i ou c w = Inr (r, w') \<Longrightarrow> r \<noteq> 0"
  "comp_opdata_free L ret q p i ou c od w = Inr (r, w') \<Longrightarrow> r \<noteq> 0"
  by (auto simp: hw_q_free_def release_q_def buf_free_def comp_ctx_free_def comp_opdata_free_def andthen_eq_Inr split: if_splits)

lemma failing_not_ok: "(\<And>r w'. m = Inr (r, w') \<Longrightarrow> r \<noteq> 0) \<Longrightarrow> failing zs m \<noteq> Inr (0, x)"
  by (auto simp: failing_def andthen_eq_Inr)

definition hw_initial :: "'l wd_lib \<Rightarrow> int \<Rightarrow> zip_stream \<Rightarrow> 'l world \<Rightarrow> bool" where
  "hw_initial L a zs w \<longleftrightarrow> (\<exists>ctl. load as_ctl (reserved_hw zs) w = Inr ctl \<and> next_out_hw zs = out_ctl ctl \<and>
     load as_op (opdata_ctl ctl) w = Inr (zero_op\<lparr>in_op := in_ctl ctl, out_op := out_ctl ctl,
       stream_pos_op := WCRYPTO_COMP_STREAM_NEW L, alg_type_op := a\<rparr>))"

lemma hw_initial_fresh: "hw_initial L a zs w \<Longrightarrow> hw_fresh L zs w"
  by (auto simp: hw_initial_def hw_fresh_def)

lemma hw_init_initial:
  assumes "hw_init L zs a ty w = Inr (0, zs', w')"
  shows "hw_initial L a zs' w'"
proof -
  have ctx: "hw_initial L a zs' w'" if "hw_init_ctx L zs a ret q pool inb outb w0 = Inr (0, zs', w')" for ret q pool inb outb w0
  proof -
    obtain c l1 where c: "wcrypto_create_comp_ctx L q a (WCRYPTO_COMP_STATEFUL L) pool (lib w0) = (c, l1)" by fastforce
    obtain p w1 where m: "malloc (Op_obj zero_op) (w0\<lparr>lib := l1\<rparr>) = (p, w1)" by fastforce
    define w2 where "w2 = store p (Op_obj (zero_op\<lparr>in_op := inb, out_op := outb,
        stream_pos_op := WCRYPTO_COMP_STREAM_NEW L, alg_type_op := a\<rparr>)) w1"
    obtain p' w3 where m': "malloc (Ctl_obj zero_ctl) w2 = (p', w3)" by fastforce
    have ne: "p \<noteq> 0" "p' \<noteq> 0"
      and r: "zs' = zs\<lparr>next_in_hw := inb, next_out_hw := outb, reserved_hw := p'\<rparr>"
        "w' = store p' (Ctl_obj (zero_ctl\<lparr>pool_ctl := pool, in_ctl := inb, out_ctl := outb,
           ctx_ctl := c, queue_ctl := q, opdata_ctl := p\<rparr>)) w3"
      using that unfolding hw_init_ctx_def Let_def c m split_def fst_conv snd_conv w2_def [symmetric] m'
      by (simp_all add: failing_not_ok cleanup_fails split: if_splits)
    have "p = Suc (allocs w0)" "allocs w2 = Suc (allocs w0)" using m ne(1) by (auto simp: w2_def malloc_def Let_def split: if_splits)
    moreover have "p' = Suc (allocs w2)" "heap w3 = (heap w2)(p' \<mapsto> Ctl_obj zero_ctl)"
      using m' ne(2) by (auto simp: malloc_def Let_def split: if_splits)
    ultimately show ?thesis using ne by (auto simp: hw_initial_def load_eq_Inr r w2_def)
  qed
  have "hw_initial L a zs' w'" if "hw_init_pool L zs a ret q w0 = Inr (0, zs', w')" for ret q w0
    using that ctx unfolding hw_init_pool_def Let_def split_def by (simp add: failing_not_ok cleanup_fails split: if_splits)
  with assms show ?thesis
    unfolding hw_init_def Let_def split_def by (simp add: failing_not_ok cleanup_fails split: if_splits)
qed

section \<open>The one-shot functions\<close>

lemma hw_deflateInit2_init:
  "hw_deflateInit2_fn L zs level meth 15 memLevel strategy w = hw_init L zs (WCRYPTO_ZLIB L) (WCRYPTO_DEFLATE L) w"
  "hw_deflateInit2_fn L zs level meth 31 memLevel strategy w = hw_init L zs (WCRYPTO_GZIP L) (WCRYPTO_DEFLATE L) w"
  by (simp_all add: hw_deflateInit2_fn_def Let_def bit_iff_odd)

lemma hw_inflateInit2_init:
  "hw_inflateInit2_fn L zs 15 w = hw_init L zs (WCRYPTO_ZLIB L) (WCRYPTO_INFLATE L) w"
  "hw_inflateInit2_fn L zs 31 w = hw_init L zs (WCRYPTO_GZIP L) (WCRYPTO_INFLATE L) w"
  by (simp_all add: hw_inflateInit2_fn_def Let_def bit_iff_odd drop_bit_eq_div)

lemma hw_init_ok:
  assumes "hw_outcome live zs H S (0, zs', w')"
  shows "wf_heap w'" "hw_owns live zs' w'" "hw_rest live zs' w' = (H, S)"
  using assms by (simp_all add: hw_outcome_def)

lemma hw_init_cases:
  assumes "wd_ok L live pending" and "wf_heap w"
  obtains ret zs' w' where "hw_init L zs a ty w = Inr (ret, zs', w')" "ret \<noteq> 0" "wf_heap w'" "heap w' = heap w"
      "live (lib w') = live (lib w)"
  | zs' w' where "hw_init L zs a ty w = Inr (0, zs', w')" "hw_initial L a zs' w'" "wf_heap w'" "hw_owns live zs' w'"
      "hw_rest live zs' w' = (heap w, live (lib w))"
proof -
  obtain ret zs' w' where h: "hw_init L zs a ty w = Inr (ret, zs', w')" "hw_outcome live zs (heap w) (live (lib w)) (ret, zs', w')"
    using hw_init_outcome [OF assms, of zs a ty] unfolding ensures_def by (metis prod_cases3)
  show thesis
  proof (cases "ret = 0")
    case True
    with h that(2) hw_init_initial [of L zs a ty w] show thesis by (simp add: hw_outcome_def)
  next
    case False
    with h that(1) show thesis by (simp add: hw_outcome_def)
  qed
qed

lemma hw_end_after:
  assumes ok: "wd_ok L live pending" and k: "hw_kept live zs w zs' w'" and r: "hw_rest live zs w = (H, S)"
  shows "\<exists>w''. hw_end L zs' w' = Inr w'' \<and> wf_heap w'' \<and> heap w'' = H \<and> live (lib w'') = S"
  using hw_end_releases [OF ok, of w' zs'] k r unfolding hw_kept_def by (auto simp: ensures_def)

lemma hw_stream_compress_returns:
  assumes ok: "wd_ok L live pending" and heap: "wf_heap w" and blk: "0 < blksize" "blksize < 2 ^ 31"
  shows "\<exists>ret len w'. hw_stream_compress L a blksize dst (Some n) src srclen w = Some (Inr (ret, len, w')) \<and>
    wf_heap w' \<and> heap w' = heap w \<and> live (lib w') = live (lib w)"
proof (cases "dst = 0 \<or> src = 0")
  case True
  then show ?thesis using heap by (auto simp: hw_stream_compress_def)
next
  case False
  let ?a = "if a = WCRYPTO_ZLIB L then WCRYPTO_ZLIB L else WCRYPTO_GZIP L"
  have init: "(if a = WCRYPTO_ZLIB L
       then hw_deflateInit2_fn L (zip_stream_indet L) Z_DEFAULT_COMPRESSION Z_DEFLATED MAX_WBITS DEF_MEM_LEVEL Z_DEFAULT_STRATEGY w
       else hw_deflateInit2_fn L (zip_stream_indet L) Z_DEFAULT_COMPRESSION Z_DEFLATED (15 + 16) DEF_MEM_LEVEL Z_DEFAULT_STRATEGY w)
    = hw_init L (zip_stream_indet L) ?a (WCRYPTO_DEFLATE L) w" by (simp add: hw_deflateInit2_init)
  have chunk: "0 < (word_of_int blksize :: uLong)" "uint (word_of_int blksize :: uLong) < 2 ^ 31"
    using blk by (simp_all add: uint_word_of_int word_less_def)
  show ?thesis
  proof (rule hw_init_cases [OF ok heap, of "zip_stream_indet L" ?a "WCRYPTO_DEFLATE L"], goal_cases)
    case (1 ret zs' w')
    then show ?thesis using False blk init by (simp add: hw_stream_compress_def)
  next
    case (2 zs1 w1)
    then obtain ret zs2 dst2 w2 where
      l: "compress_loop L (word_of_int blksize) zs1 src srclen dst w1 = Some (Inr (ret, zs2, dst2, w2))" "hw_kept live zs1 w1 zs2 w2"
      using compress_loop_returns [OF ok chunk] by blast
    from hw_end_after [OF ok l(2) 2(5)] obtain w3 where "hw_end L zs2 w2 = Inr w3" "wf_heap w3" "heap w3 = heap w"
      "live (lib w3) = live (lib w)" by auto
    then show ?thesis using False blk 2 init l by (simp add: hw_stream_compress_def)
  qed
qed

lemma hw_stream_decompress_returns:
  assumes ok: "wd_ok L live pending" and heap: "wf_heap w" and blk: "0 < blksize" "blksize < 2 ^ 31"
    and ne: "WCRYPTO_COMP_STREAM_OLD L \<noteq> WCRYPTO_COMP_STREAM_NEW L"
  shows "\<exists>ret len w'. hw_stream_decompress L a blksize dst (Some n) src srclen w = Some (Inr (ret, Some len, w')) \<and>
    wf_heap w' \<and> heap w' = heap w \<and> live (lib w') = live (lib w) \<and> len \<le> n"
proof (cases "dst = 0 \<or> src = 0")
  case True
  then show ?thesis using heap by (auto simp: hw_stream_decompress_def)
next
  case False
  let ?a = "if a = WCRYPTO_ZLIB L then WCRYPTO_ZLIB L else WCRYPTO_GZIP L"
  have init: "(if a = WCRYPTO_ZLIB L then hw_inflateInit2_fn L (zip_stream_indet L) DEF_WBITS w
       else hw_inflateInit2_fn L (zip_stream_indet L) (16 + MAX_WBITS) w)
    = hw_init L (zip_stream_indet L) ?a (WCRYPTO_INFLATE L) w" by (simp add: hw_inflateInit2_init)
  have chunk: "0 < (word_of_int blksize :: uLong)" "uint (word_of_int blksize :: uLong) < 2 ^ 31"
    using blk by (simp_all add: uint_word_of_int word_less_def)
  show ?thesis
  proof (rule hw_init_cases [OF ok heap, of "zip_stream_indet L" ?a "WCRYPTO_INFLATE L"], goal_cases)
    case (1 ret zs' w')
    then show ?thesis using False blk init by (simp add: hw_stream_decompress_def)
  next
    case (2 zs1 w1)
    have "at_out L dst zs1 dst w1" using hw_initial_fresh [OF 2(2)] by (simp add: at_out_def)
    with 2 obtain stop ret zs2 dst2 w2 where
      l: "decompress_loop L (word_of_int blksize) (Some n) zs1 src srclen dst w1 = Some (Inr (stop, ret, zs2, dst2, w2))"
        "hw_kept live zs1 w1 zs2 w2" "if stop then ret \<noteq> UNIZIP_OK else dst2 - dst \<le> n"
      using decompress_loop_returns [OF ok chunk ne, of w1 zs1 dst dst n] by (metis diff_self word_zero_le)
    from hw_end_after [OF ok l(2) 2(5)] obtain w3 where "hw_end L zs2 w2 = Inr w3" "wf_heap w3" "heap w3 = heap w"
      "live (lib w3) = live (lib w)" by auto
    then show ?thesis using False blk 2 init l by (cases stop) (simp_all add: hw_stream_decompress_def)
  qed
qed

text \<open>Ending changes no byte.\<close>

lemma on_lib_bytes: "on_lib f w = Inr w' \<Longrightarrow> bytes w' = bytes w"
  by (auto simp: on_lib_def andthen_eq_Inr)

lemma free_bytes: "free p w = Inr w' \<Longrightarrow> bytes w' = bytes w"
  by (auto simp: free_def split: if_splits)

lemma hw_end_bytes: "hw_end L zs w = Inr w' \<Longrightarrow> bytes w' = bytes w"
  unfolding hw_end_def Let_def by (auto simp: andthen_eq_Inr dest!: on_lib_bytes free_bytes split: if_splits)

text \<open>
  The gzip trailer of nothing: the finished stream is an empty stored block, the inverted
  initial checksum and the length 0.  No gzip header is written in front of it.
\<close>

definition empty_stream :: "byte list" where
  "empty_stream = [0x1, 0x00, 0x00, 0xff, 0xff, 0xff, 0xff, 0xff, 0xff, 0x00, 0x00, 0x00, 0x00]"

lemma append_store_block_empty:
  assumes "hw_initial L (WCRYPTO_GZIP L) zs w" and ne: "WCRYPTO_GZIP L \<noteq> WCRYPTO_ZLIB L"
  shows "append_store_block L (zs\<lparr>avail_out_hw := chunk\<rparr>) (WCRYPTO_FINISH L) w =
    Inr (UNIZIP_STREAM_END, zs\<lparr>avail_out_hw := chunk - 13, total_out_hw := total_out_hw zs + 13\<rparr>,
      w\<lparr>bytes := write_mem (bytes w) (next_out_hw zs) empty_stream\<rparr>)"
proof -
  obtain ctl where l: "load as_ctl (reserved_hw zs) w = Inr ctl"
    "load as_op (opdata_ctl ctl) w = Inr (zero_op\<lparr>in_op := in_ctl ctl, out_op := out_ctl ctl,
       stream_pos_op := WCRYPTO_COMP_STREAM_NEW L, alg_type_op := WCRYPTO_GZIP L\<rparr>)"
    using assms(1) by (auto simp: hw_initial_def)
  have "bit_reverse (- 1) = - 1" by (rule bit_word_eqI) (simp add: bit_reverse_bit)
  moreover have "ucast (- 1 :: uInt) = (255 :: byte)" by code_simp
  ultimately have b: "le_bytes (bit_reverse (- 1)) = [0xff, 0xff, 0xff, 0xff]" "le_bytes 0 = [0, 0, 0, 0]"
    by (simp_all add: le_bytes_def mask_eq_exp_minus_1)
  show ?thesis
    using ne by (simp add: append_store_block_def l Let_def zero_op_def b empty_stream_def add.commute add.left_commute)
qed

lemma hw_stream_compress_empty:
  assumes ne: "WCRYPTO_GZIP L \<noteq> WCRYPTO_ZLIB L" and blk: "0 < blksize" "blksize < 2 ^ 31" and nn: "dst \<noteq> 0" "src \<noteq> 0"
    and c: "hw_stream_compress L (WCRYPTO_GZIP L) blksize dst (Some n) src 0 w = Some (Inr (UNIZIP_OK, len, w'))"
  shows "len = Some 13 \<and> read_mem (bytes w') dst 13 = empty_stream"
proof -
  let ?chunk = "word_of_int blksize :: uLong"
  obtain r zs w1 where i: "hw_init L (zip_stream_indet L) (WCRYPTO_GZIP L) (WCRYPTO_DEFLATE L) w = Inr (r, zs, w1)" and r: "r = 0"
    and rest: "map_option (\<lambda>r. andthen r (\<lambda>(ret, zs, dst', w).
                      andthen (hw_end L zs w) (\<lambda>w. Inr (ret, Some (dst' - dst), w))))
                      (compress_loop L ?chunk zs src 0 dst w1) = Some (Inr (UNIZIP_OK, len, w'))"
    using c ne nn blk by (auto simp: hw_stream_compress_def hw_deflateInit2_init split: sum.splits if_splits)
  let ?zs1 = "zs\<lparr>avail_in_hw := 0\<rparr>" let ?w1 = "memcpy (next_in_hw zs) src 0 w1"
  have w1: "?w1 = w1" by (simp add: memcpy_def)
  have init: "hw_initial L (WCRYPTO_GZIP L) ?zs1 w1" using hw_init_initial [of L _ _ _ w zs w1] i r by (simp add: hw_initial_def)
  let ?m = "write_mem (bytes w1) (next_out_hw zs) empty_stream"
  let ?zs2 = "?zs1\<lparr>avail_out_hw := ?chunk - 13, total_out_hw := total_out_hw zs + 13\<rparr>"
  have "hw_call L (WCRYPTO_FINISH L) (?zs1\<lparr>avail_out_hw := ?chunk\<rparr>) w1 = Inr (UNIZIP_STREAM_END, ?zs2, w1\<lparr>bytes := ?m\<rparr>)"
    using append_store_block_empty [OF init ne, of ?chunk] init
    by (auto simp: hw_call_def hw_send_and_recv_def hw_initial_def)
  moreover have "have_out ?chunk ?zs2 = 13" by (simp add: have_out_def c_int_def)
  moreover have "compress_loop L ?chunk zs src 0 dst w1 = (case pump L (WCRYPTO_FINISH L) ?chunk ?zs1 dst w1 of
       None \<Rightarrow> None | Some (Inl e) \<Rightarrow> Some (Inl e)
     | Some (Inr (ret, zs, dst, w)) \<Rightarrow> if ret < 0 then Some (Inr (ret, zs, dst, w)) else Some (Inr (UNIZIP_OK, zs, dst, w)))"
    by (subst compress_loop.simps) (simp add: feed_def w1 split: option.splits sum.splits)
  ultimately have loop: "compress_loop L ?chunk zs src 0 dst w1 =
      Some (Inr (UNIZIP_OK, ?zs2, dst + 13, memcpy dst (next_out_hw zs) 13 (w1\<lparr>bytes := ?m\<rparr>)))"
    by (simp add: pump.simps Let_def)
  then obtain w2 where e: "hw_end L ?zs2 (memcpy dst (next_out_hw zs) 13 (w1\<lparr>bytes := ?m\<rparr>)) = Inr w2"
    and "len = Some 13" "w' = w2" using rest by (auto simp: andthen_eq_Inr)
  moreover have l13: "length empty_stream = 13" by (simp add: empty_stream_def)
  have "read_mem ?m (next_out_hw zs) 13 = empty_stream"
    using read_write_mem [of empty_stream "bytes w1" "next_out_hw zs"] by (simp add: l13)
  then have "bytes w2 = write_mem ?m dst empty_stream" using hw_end_bytes [OF e] by (simp add: memcpy_def)
  then have "read_mem (bytes w2) dst 13 = empty_stream"
    using read_write_mem [of empty_stream ?m dst] by (simp add: l13)
  ultimately show ?thesis by simp
qed

end
