(* ===== verification/Uadk.thy ===== *)
theory Uadk
  imports UadkAlg Doubles
begin

text \<open>
  The callbacks of the UADK back end, \<open>uadk/unizip_callback_uadk.c\<close>, which is compiled on
  AArch64 only, over the algorithm layer of \<open>UadkAlg\<close>.  The context \<open>ud\<close> points to is the
  \<open>struct zip_stream\<close>.
\<close>

definition ALG_TYPE :: "'l wd_lib \<Rightarrow> int" where "ALG_TYPE L = WCRYPTO_GZIP L"

abbreviation DEFAULT_STREAM_CHUNK :: int where "DEFAULT_STREAM_CHUNK \<equiv> 1024 * 64"
abbreviation MAX_STREAM_CHUNK :: uLong where "MAX_STREAM_CHUNK \<equiv> 1024 * 1024"
abbreviation DEFLATE_MIN_CHUNK :: uLong where "DEFLATE_MIN_CHUNK \<equiv> 256"
abbreviation INFLATE_MIN_CHUNK :: uLong where "INFLATE_MIN_CHUNK \<equiv> 32"

abbreviation Z_NO_FLUSH :: int where "Z_NO_FLUSH \<equiv> 0"
abbreviation Z_FINISH :: int where "Z_FINISH \<equiv> 4"

definition versionCB_uadk :: "'l wd_lib \<Rightarrow> 'l world \<Rightarrow> (ptr \<times> 'l world) res" where
  "versionCB_uadk L w = uadk_getVersion L w"

definition resetUadk :: "unizip_stream \<Rightarrow> unizip_stream" where
  "resetUadk strm = strm\<lparr>next_in := NULL_addr, next_out := NULL_addr, avail_in := 0,
     avail_out := 0, total_in := 0, total_out := 0\<rparr>"

text \<open>The \<open>struct zip_stream\<close> at a pointer that may be \<open>NULL\<close>, and a call that updates it.\<close>

definition load_hw :: "ptr \<Rightarrow> 'l world \<Rightarrow> zip_stream option res" where
  "load_hw p w = (if p = NULL_ptr then Inr None else andthen (load as_hw p w) (\<lambda>zs. Inr (Some zs)))"

definition at_hw ::
  "ptr \<Rightarrow> (zip_stream option \<Rightarrow> 'l world \<Rightarrow> (int \<times> zip_stream option \<times> 'l world) res) \<Rightarrow> 'l world \<Rightarrow> (int \<times> 'l world) res"
  where
  "at_hw p f w = andthen (load_hw p w) (\<lambda>zs. andthen (f zs w) (\<lambda>(ret, zs, w).
     Inr (ret, case zs of None \<Rightarrow> w | Some zs \<Rightarrow> store p (Hw_obj zs) w)))"

definition deflateInitCB_uadk :: "'l wd_lib \<Rightarrow> int \<Rightarrow> 'l stream_op" where
  "deflateInitCB_uadk L level strm w =
     (let (p, w) = malloc (Hw_obj (zip_stream_indet L)) w; strm = strm\<lparr>ud := p\<rparr>
      in if p = NULL_ptr then Inr (UNIZIP_MEM_ERROR, strm, w)
         else
           let algType = compression_flag strm
           in andthen (if algType = WCRYPTO_ZLIB L then at_hw p (hw_deflateInit_fn L level) w
                       else if algType = WCRYPTO_GZIP L then
                         let windowBits = 15; gzipEncoding = 16
                         in at_hw p (on_hw (\<lambda>zs. hw_deflateInit2_fn L zs level Z_DEFLATED
                              (windowBits OR gzipEncoding) DEF_MEM_LEVEL Z_DEFAULT_STRATEGY)) w
                       else Inr (UNIZIP_DATA_ERROR, w))
                (\<lambda>(ret, w). Inr (ret, resetUadk strm, w)))"

text \<open>
  The loop over the input, with the local \<open>srclen\<close>, \<open>src\<close> and \<open>dst\<close>.  After a failure only
  the contents of the \<open>zip_stream\<close> matter.
\<close>

partial_function (option) deflate_loop ::
  "'l wd_lib \<Rightarrow> int \<Rightarrow> uLong \<Rightarrow> zip_stream \<Rightarrow> addr \<Rightarrow> uLong \<Rightarrow> addr \<Rightarrow> 'l world \<Rightarrow>
   (int \<times> zip_stream \<times> addr \<times> addr \<times> 'l world) res option" where
  "deflate_loop L flush chunk ctx src srclen dst w =
     (let (ctx, src, srclen, w) = feed MAX_STREAM_CHUNK ctx src srclen w
      in case pump L flush chunk ctx dst w of
           None \<Rightarrow> None
         | Some (Inl e) \<Rightarrow> Some (Inl e)
         | Some (Inr (err, ctx, dst, w)) \<Rightarrow>
             if err < 0 then Some (Inr (err, ctx, src, dst, w))
             else if srclen > 0 then deflate_loop L flush chunk ctx src srclen dst w
             else Some (Inr (err, ctx, src, dst, w)))"

text \<open>What both calls do around their loop.\<close>

definition hw_flush :: "'l wd_lib \<Rightarrow> int \<Rightarrow> int" where
  "hw_flush L flush = (if flush = Z_FINISH then WCRYPTO_FINISH L
     else if flush = Z_NO_FLUSH then WCRYPTO_NO_FLUSH L else flush)"

definition out_chunk :: "uLong \<Rightarrow> uInt \<Rightarrow> uLong" where
  "out_chunk least avail =
     (let chunk = ucast avail; chunk = (if chunk < least then least else chunk)
      in if chunk > MAX_STREAM_CHUNK then MAX_STREAM_CHUNK else chunk)"

definition hw_start :: "unizip_stream \<Rightarrow> zip_stream \<Rightarrow> zip_stream" where
  "hw_start strm ctx = ctx\<lparr>total_in_hw := total_in strm, total_out_hw := total_out strm\<rparr>"

definition hw_finish ::
  "unizip_stream \<Rightarrow> int \<times> zip_stream \<times> addr \<times> addr \<times> 'l world \<Rightarrow> (int \<times> unizip_stream \<times> 'l world) res" where
  "hw_finish strm = (\<lambda>(err, ctx, src, dst, w).
     let w = store (ud strm) (Hw_obj ctx) w
     in if err < 0 then Inr (err, strm, w)
        else Inr (err, strm\<lparr>next_in := src, next_out := dst, avail_in := ucast (avail_in_hw ctx),
               avail_out := ucast (avail_out_hw ctx), total_in := total_in_hw ctx,
               total_out := total_out_hw ctx\<rparr>, w))"

definition deflateCB_uadk :: "'l wd_lib \<Rightarrow> int \<Rightarrow> 'l stream_op" where
  "deflateCB_uadk L flush strm w =
     andthen (load as_hw (ud strm) w) (\<lambda>ctx.
     andthen (returning (deflate_loop L (hw_flush L flush) (out_chunk DEFLATE_MIN_CHUNK (avail_out strm))
                (hw_start strm ctx) (next_in strm) (ucast (avail_in strm)) (next_out strm) w))
       (hw_finish strm))"

definition deflateEndCB_uadk :: "'l wd_lib \<Rightarrow> 'l stream_op" where
  "deflateEndCB_uadk L strm w =
     (let strm = resetUadk strm
      in andthen (at_hw (ud strm) (hw_deflateEnd L) w) (\<lambda>(ret, w). Inr (ret, strm, w)))"

definition inflateInitCB_uadk :: "'l wd_lib \<Rightarrow> 'l stream_op" where
  "inflateInitCB_uadk L strm w =
     (let (p, w) = malloc (Hw_obj (zip_stream_indet L)) w; strm = strm\<lparr>ud := p\<rparr>
      in if p = NULL_ptr then Inr (UNIZIP_MEM_ERROR, strm, w)
         else
           let algType = compression_flag strm
           in andthen (if algType = WCRYPTO_ZLIB L then at_hw p (hw_inflateInit_fn L) w
                       else if algType = WCRYPTO_GZIP L then
                         let gzipEncoding = 16
                         in at_hw p (on_hw (\<lambda>zs. hw_inflateInit2_fn L zs (gzipEncoding + MAX_WBITS))) w
                       else Inr (UNIZIP_DATA_ERROR, w))
                (\<lambda>(ret, w). Inr (ret, resetUadk strm, w)))"

partial_function (option) inflate_loop ::
  "'l wd_lib \<Rightarrow> int \<Rightarrow> uLong \<Rightarrow> zip_stream \<Rightarrow> addr \<Rightarrow> uLong \<Rightarrow> addr \<Rightarrow> 'l world \<Rightarrow>
   (int \<times> zip_stream \<times> addr \<times> addr \<times> 'l world) res option" where
  "inflate_loop L flush chunk ctx src srclen dst w =
     (let (ctx, src, srclen, w) = feed MAX_STREAM_CHUNK ctx src srclen w
      in if avail_in_hw ctx = 0 then Some (Inr (UNIZIP_STREAM_END, ctx, src, dst, w))
         else case pump L flush chunk ctx dst w of
           None \<Rightarrow> None
         | Some (Inl e) \<Rightarrow> Some (Inl e)
         | Some (Inr (err, ctx, dst, w)) \<Rightarrow>
             if err < 0 then Some (Inr (err, ctx, src, dst, w))
             else if srclen > 0 then inflate_loop L flush chunk ctx src srclen dst w
             else Some (Inr (err, ctx, src, dst, w)))"

definition inflateCB_uadk :: "'l wd_lib \<Rightarrow> int \<Rightarrow> 'l stream_op" where
  "inflateCB_uadk L flush strm w =
     andthen (load as_hw (ud strm) w) (\<lambda>ctx.
     andthen (returning (inflate_loop L (hw_flush L flush) (out_chunk INFLATE_MIN_CHUNK (avail_out strm))
                (hw_start strm ctx) (next_in strm) (ucast (avail_in strm)) (next_out strm) w))
       (hw_finish strm))"

definition inflateEndCB_uadk :: "'l wd_lib \<Rightarrow> 'l stream_op" where
  "inflateEndCB_uadk L strm w =
     (let strm = resetUadk strm
      in andthen (at_hw (ud strm) (hw_inflateEnd L) w) (\<lambda>(ret, w). Inr (ret, strm, w)))"

definition deflateCopyCB_uadk ::
  "'l wd_lib \<Rightarrow> unizip_stream \<Rightarrow> unizip_stream \<Rightarrow> 'l world \<Rightarrow> (int \<times> unizip_stream \<times> 'l world) res" where
  "deflateCopyCB_uadk L dest source w =
     deflateInitCB_uadk L Z_DEFAULT_COMPRESSION (dest\<lparr>compression_flag := compression_flag source\<rparr>) w"

definition inflateCopyCB_uadk ::
  "'l wd_lib \<Rightarrow> unizip_stream \<Rightarrow> unizip_stream \<Rightarrow> 'l world \<Rightarrow> (int \<times> unizip_stream \<times> 'l world) res" where
  "inflateCopyCB_uadk L dest source w =
     inflateInitCB_uadk L (dest\<lparr>compression_flag := compression_flag source\<rparr>) w"

definition deflateResetCB_uadk :: "'l wd_lib \<Rightarrow> 'l stream_op" where
  "deflateResetCB_uadk L strm w = andthen (at_hw (ud strm) (hw_deflateEnd L) w) (\<lambda>(_, w).
     deflateInitCB_uadk L Z_DEFAULT_COMPRESSION strm w)"

definition inflateResetCB_uadk :: "'l wd_lib \<Rightarrow> 'l stream_op" where
  "inflateResetCB_uadk L strm w = andthen (at_hw (ud strm) (hw_inflateEnd L) w) (\<lambda>(_, w).
     inflateInitCB_uadk L strm w)"

definition compressCB_uadk ::
  "'l wd_lib \<Rightarrow> addr \<Rightarrow> uLong option \<Rightarrow> addr \<Rightarrow> uLong \<Rightarrow> 'l world \<Rightarrow> (int \<times> uLong option \<times> 'l world) res" where
  "compressCB_uadk L dest destLen source sourceLen w =
     returning (hw_stream_compress L (ALG_TYPE L) DEFAULT_STREAM_CHUNK dest destLen source sourceLen w)"

definition uncompressCB_uadk ::
  "'l wd_lib \<Rightarrow> addr \<Rightarrow> uLong option \<Rightarrow> addr \<Rightarrow> uLong \<Rightarrow> 'l world \<Rightarrow> (int \<times> uLong option \<times> 'l world) res" where
  "uncompressCB_uadk L dest destLen source sourceLen w =
     returning (hw_stream_decompress L (ALG_TYPE L) DEFAULT_STREAM_CHUNK dest destLen source sourceLen w)"

definition POSSIBLE_INCREASE :: double where "POSSIBLE_INCREASE = nearest 1 10"

definition compressBoundCB_uadk :: "uLong \<Rightarrow> uLong res" where
  "compressBoundCB_uadk sourceLen = ulong_of_d
     (d_add (d_add (d_add (d_add (d_mult (d_of_ulong sourceLen) (d_add (d_of_ulong 1) POSSIBLE_INCREASE))
        (d_of_ulong (drop_bit 12 sourceLen))) (d_of_ulong (drop_bit 14 sourceLen)))
        (d_of_ulong (drop_bit 25 sourceLen))) (d_of_ulong 13))"

section \<open>A stream and its resources\<close>

definition uadk_owns :: "('l \<Rightarrow> wd_res set) \<Rightarrow> ptr \<Rightarrow> 'l world \<Rightarrow> bool" where
  "uadk_owns live p w \<longleftrightarrow> (\<exists>zs. load as_hw p w = Inr zs \<and> hw_owns live zs w)"

definition uadk_rest :: "('l \<Rightarrow> wd_res set) \<Rightarrow> ptr \<Rightarrow> 'l world \<Rightarrow> (ptr \<rightharpoonup> obj) \<times> wd_res set" where
  "uadk_rest live p w = (case load as_hw p w of Inl _ \<Rightarrow> (heap w, live (lib w))
     | Inr zs \<Rightarrow> ((fst (hw_rest live zs w))(p := None), snd (hw_rest live zs w)))"

lemma resetUadk_simps [simp]: "ud (resetUadk s) = ud s"
  by (simp add: resetUadk_def)

text \<open>Storing the \<open>zip_stream\<close> changes nothing the algorithm layer looks at.\<close>

lemma load_store_other: "as ob = None \<Longrightarrow> load as q w = Inr c \<Longrightarrow> heap w p = Some ob' \<Longrightarrow> as ob' = None \<Longrightarrow>
    load as q (store p ob w) = Inr c"
  by (auto simp: load_eq_Inr)

lemma hw_kept_store:
  assumes "hw_kept live zs w zs' w'" and "\<And>ob. heap w' p = Some ob \<Longrightarrow> \<exists>z. ob = Hw_obj z" and "heap w' p \<noteq> None" and p: "p \<noteq> 0"
  shows "uadk_owns live p (store p (Hw_obj zs') w')" "wf_heap (store p (Hw_obj zs') w')"
    "uadk_rest live p (store p (Hw_obj zs') w') = ((fst (hw_rest live zs w))(p := None), snd (hw_rest live zs w))"
proof -
  from assms(2,3) obtain z where z: "heap w' p = Some (Hw_obj z)" by blast
  have k: "wf_heap w'" "hw_owns live zs' w'" "hw_rest live zs' w' = hw_rest live zs w" using assms(1) by (simp_all add: hw_kept_def)
  let ?w = "store p (Hw_obj zs') w'"
  obtain ctl opd qc where l: "load as_ctl (reserved_hw zs') w' = Inr ctl" "load as_op (opdata_ctl ctl) w' = Inr opd"
    "load as_queue (queue_ctl ctl) w' = Inr qc" using k(2) by (auto simp: hw_owns_def)
  then have l': "load as_ctl (reserved_hw zs') ?w = Inr ctl" "load as_op (opdata_ctl ctl) ?w = Inr opd"
    "load as_queue (queue_ctl ctl) ?w = Inr qc"
    by (auto intro!: load_store_other [OF _ _ z])
  have ne: "p \<noteq> reserved_hw zs'" "p \<noteq> opdata_ctl ctl" "p \<noteq> queue_ctl ctl" using l z by (auto simp: load_eq_Inr)
  have lp: "load as_hw p ?w = Inr zs'" using p by simp
  have "hw_owns live zs' ?w" using k(2) l l' unfolding hw_owns_def by simp
  then show "uadk_owns live p ?w" using lp by (auto simp: uadk_owns_def)
  show "wf_heap ?w" using k(1) z by (auto intro: wf_heap_store)
  have "hw_rest live zs' ?w = ((fst (hw_rest live zs' w'))(p \<mapsto> Hw_obj zs'), snd (hw_rest live zs' w'))"
    using l l' ne by (auto simp: hw_rest_def fun_eq_iff)
  then show "uadk_rest live p ?w = ((fst (hw_rest live zs w))(p := None), snd (hw_rest live zs w))"
    using lp by (simp add: uadk_rest_def k(3))
qed

lemma hw_kept_hw:
  assumes "hw_kept live zs w zs' w'" and "hw_owns live zs w" and "heap w p = Some (Hw_obj z)"
  shows "heap w' p = Some (Hw_obj z)"
proof -
  obtain ctl opd qc where l: "load as_ctl (reserved_hw zs) w = Inr ctl" "load as_op (opdata_ctl ctl) w = Inr opd"
    "load as_queue (queue_ctl ctl) w = Inr qc" using assms(2) by (auto simp: hw_owns_def)
  have "fst (hw_rest live zs w) p = Some (Hw_obj z)"
  proof -
    have "p \<noteq> reserved_hw zs" "p \<noteq> opdata_ctl ctl" "p \<noteq> queue_ctl ctl" using l assms(3) by (auto simp: load_eq_Inr)
    then show ?thesis using assms(3) by (simp add: hw_rest_def l(1))
  qed
  then have "fst (hw_rest live zs' w') p = Some (Hw_obj z)" using assms(1) by (simp add: hw_kept_def)
  then show ?thesis by (simp add: hw_rest_def split: sum.splits if_splits)
qed

lemma uadk_keeps:
  assumes k: "hw_kept live zs w zs' w'" and "load as_hw p w = Inr zs0" and "hw_owns live zs w"
    and "hw_rest live zs w = hw_rest live zs0 w"
  shows "uadk_owns live p (store p (Hw_obj zs') w')" "wf_heap (store p (Hw_obj zs') w')"
    "uadk_rest live p (store p (Hw_obj zs') w') = uadk_rest live p w"
proof -
  have p: "p \<noteq> 0" "heap w p = Some (Hw_obj zs0)" using assms(2) by (auto simp: load_eq_Inr)
  note * = hw_kept_store [OF k _ _ p(1)]
  have "heap w' p = Some (Hw_obj zs0)" by (rule hw_kept_hw [OF k assms(3) p(2)])
  then show "uadk_owns live p (store p (Hw_obj zs') w')" "wf_heap (store p (Hw_obj zs') w')"
    "uadk_rest live p (store p (Hw_obj zs') w') = uadk_rest live p w"
    using * assms(2,4) by (simp_all add: uadk_rest_def)
qed

lemma out_chunk_bounds:
  "0 < out_chunk DEFLATE_MIN_CHUNK a" "uint (out_chunk DEFLATE_MIN_CHUNK a) < 2 ^ 31"
  "0 < out_chunk INFLATE_MIN_CHUNK a" "uint (out_chunk INFLATE_MIN_CHUNK a) < 2 ^ 31"
  by (auto simp: out_chunk_def Let_def word_less_def)

text \<open>Both loops return.\<close>

lemma max_chunk: "0 < MAX_STREAM_CHUNK" "uint MAX_STREAM_CHUNK < 2 ^ 32"
  by simp_all

lemma deflate_loop_returns:
  assumes ok: "wd_ok L live pending" and chunk: "0 < chunk" "uint chunk < 2 ^ 31"
  shows "wf_heap w \<Longrightarrow> hw_owns live zs w \<Longrightarrow> \<exists>ret zs' src' dst' w'.
    deflate_loop L flush chunk zs src srclen dst w = Some (Inr (ret, zs', src', dst', w')) \<and> hw_kept live zs w zs' w'"
proof (induction "unat srclen" arbitrary: zs src srclen dst w rule: less_induct)
  case less
  obtain zs1 src1 srclen1 w1 where f: "feed MAX_STREAM_CHUNK zs src srclen w = (zs1, src1, srclen1, w1)" by (metis prod_cases4)
  note k = hw_kept_feed(1) [OF f less(2,3)]
  have "uint (avail_in_hw zs1) < 2 ^ 32" using feed_result(8) [OF f] by (simp add: word_le_def)
  then obtain ret zs2 dst2 w2 where p: "pump L flush chunk zs1 dst w1 = Some (Inr (ret, zs2, dst2, w2))" and "hw_kept live zs1 w1 zs2 w2"
    using pump_returns [OF ok chunk] k unfolding hw_kept_def by metis
  then have k2: "hw_kept live zs w zs2 w2" using k hw_kept_trans by blast
  show ?case
  proof (cases "0 \<le> ret \<and> srclen1 > 0")
    case False
    then show ?thesis using f p k2 by (subst deflate_loop.simps) (auto simp: Let_def)
  next
    case True
    then have "unat srclen1 < unat srclen" using feed_result(9) [OF f] by (simp add: word_gt_0)
    from less(1) [OF this, of w2 zs2 src1 dst2] k2 obtain ret' zs' src' dst' w' where
      "deflate_loop L flush chunk zs2 src1 srclen1 dst2 w2 = Some (Inr (ret', zs', src', dst', w'))" "hw_kept live zs2 w2 zs' w'"
      unfolding hw_kept_def by blast
    then show ?thesis using f p True hw_kept_trans [OF k2] by (subst deflate_loop.simps) (simp add: Let_def)
  qed
qed

lemma inflate_loop_returns:
  assumes ok: "wd_ok L live pending" and chunk: "0 < chunk" "uint chunk < 2 ^ 31"
  shows "wf_heap w \<Longrightarrow> hw_owns live zs w \<Longrightarrow> \<exists>ret zs' src' dst' w'.
    inflate_loop L flush chunk zs src srclen dst w = Some (Inr (ret, zs', src', dst', w')) \<and> hw_kept live zs w zs' w'"
proof (induction "unat srclen" arbitrary: zs src srclen dst w rule: less_induct)
  case less
  obtain zs1 src1 srclen1 w1 where f: "feed MAX_STREAM_CHUNK zs src srclen w = (zs1, src1, srclen1, w1)" by (metis prod_cases4)
  note k = hw_kept_feed(1) [OF f less(2,3)]
  show ?case
  proof (cases "avail_in_hw zs1 = 0")
    case True
    then show ?thesis using f k by (subst inflate_loop.simps) simp
  next
    case some: False
    have "uint (avail_in_hw zs1) < 2 ^ 32" using feed_result(8) [OF f] by (simp add: word_le_def)
    then obtain ret zs2 dst2 w2 where p: "pump L flush chunk zs1 dst w1 = Some (Inr (ret, zs2, dst2, w2))" and "hw_kept live zs1 w1 zs2 w2"
      using pump_returns [OF ok chunk] k unfolding hw_kept_def by metis
    then have k2: "hw_kept live zs w zs2 w2" using k hw_kept_trans by blast
    show ?thesis
    proof (cases "0 \<le> ret \<and> srclen1 > 0")
      case False
      then show ?thesis using f p k2 some by (subst inflate_loop.simps) (auto simp: Let_def)
    next
      case True
      then have "unat srclen1 < unat srclen" using feed_result(9) [OF f] by (simp add: word_gt_0)
      from less(1) [OF this, of w2 zs2 src1 dst2] k2 obtain ret' zs' src' dst' w' where
        "inflate_loop L flush chunk zs2 src1 srclen1 dst2 w2 = Some (Inr (ret', zs', src', dst', w'))" "hw_kept live zs2 w2 zs' w'"
        unfolding hw_kept_def by blast
      then show ?thesis using f p True some hw_kept_trans [OF k2] by (subst inflate_loop.simps) (simp add: Let_def)
    qed
  qed
qed

text \<open>The three laws of a session, with the \<open>free\<close> of the \<open>zip_stream\<close> that the code lacks added to the end.\<close>

definition then_free :: "'l stream_op \<Rightarrow> 'l stream_op" where
  "then_free fin s w = andthen (fin s w) (\<lambda>(r, s', w'). andthen (free (ud s) w') (\<lambda>w'. Inr (r, s', w')))"

lemma uadk_init_owns:
  assumes ok: "wd_ok L live pending" and heap: "wf_heap w" and m: "malloc (Hw_obj z) w = (p, w1)" "p \<noteq> 0"
    and i: "at_hw p (on_hw (\<lambda>zs. hw_init L zs a ty)) w1 = Inr (0, w')"
  shows "wf_heap w' \<and> uadk_owns live p w' \<and> uadk_rest live p w' = (heap w, live (lib w))"
proof -
  have w1: "p = Suc (allocs w)" "heap w1 = (heap w)(p \<mapsto> Hw_obj z)" "lib w1 = lib w"
    using m by (auto simp: malloc_def Let_def split: if_splits)
  have heap1: "wf_heap w1" by (rule wf_heap_malloc [OF heap m(1)])
  have "load as_hw p w1 = Inr z" using m(2) w1 by (simp add: load_eq_Inr)
  with i m(2) obtain zs' w2 where h: "hw_init L z a ty w1 = Inr (0, zs', w2)" and w': "w' = store p (Hw_obj zs') w2"
    by (auto simp: at_hw_def load_hw_def on_hw_def andthen_eq_Inr)
  have "hw_outcome live z (heap w1) (live (lib w1)) (0, zs', w2)" using hw_init_outcome [OF ok heap1, of z a ty] h by simp
  note o = hw_init_ok [OF this]
  then have k: "hw_kept live zs' w2 zs' w2" by (simp add: hw_kept_def)
  have "fst (hw_rest live zs' w2) p = Some (Hw_obj z)" by (simp add: o(3) w1(2))
  then have "heap w2 p = Some (Hw_obj z)" by (simp add: hw_rest_def split: sum.splits if_splits)
  moreover have "(heap w)(p := None) = heap w" using wf_heap_upd_fresh [OF heap] w1(1) by simp
  ultimately show ?thesis using hw_kept_store [OF k _ _ m(2)] o(3) w1 by (simp add: w')
qed

lemma uadk_step_owns:
  assumes ok: "wd_ok L live pending" and heap: "wf_heap w" and owns: "uadk_owns live (ud s) w"
    and loop: "\<And>zs. hw_owns live zs w \<Longrightarrow> \<exists>ret zs' src' dst' w'.
      loop zs = Some (Inr (ret, zs', src', dst', w')) \<and> hw_kept live zs w zs' w'"
  shows "ensures (andthen (load as_hw (ud s) w) (\<lambda>ctx. andthen (returning (loop (hw_start s ctx))) (hw_finish s)))
    (\<lambda>(r, s', w'). ud s' = ud s \<and> wf_heap w' \<and> uadk_owns live (ud s) w' \<and> uadk_rest live (ud s) w' = uadk_rest live (ud s) w)"
proof -
  obtain zs where zs: "load as_hw (ud s) w = Inr zs" "hw_owns live zs w" using owns by (auto simp: uadk_owns_def)
  note st = hw_owns_cong [of "hw_start s zs" zs w w live, OF _ _ _ _ _ _ heap zs(2)]
  have st': "hw_owns live (hw_start s zs) w" "hw_rest live (hw_start s zs) w = hw_rest live zs w"
    using st(2,3) by (simp_all add: hw_start_def)
  from loop [OF st'(1)] obtain ret zs' src' dst' w' where
    l: "loop (hw_start s zs) = Some (Inr (ret, zs', src', dst', w'))" and k: "hw_kept live (hw_start s zs) w zs' w'" by blast
  note u = uadk_keeps [OF k zs(1) st']
  show ?thesis using u by (simp add: zs(1) l hw_finish_def Let_def)
qed

lemma uadk_fin_releases:
  assumes ok: "wd_ok L live pending" and heap: "wf_heap w" and owns: "uadk_owns live (ud s) w"
  shows "ensures (then_free (deflateEndCB_uadk L) s w) (\<lambda>(r, s', w'). wf_heap w' \<and> (heap w', live (lib w')) = uadk_rest live (ud s) w)"
    "ensures (then_free (inflateEndCB_uadk L) s w) (\<lambda>(r, s', w'). wf_heap w' \<and> (heap w', live (lib w')) = uadk_rest live (ud s) w)"
proof -
  obtain zs where zs: "load as_hw (ud s) w = Inr zs" "hw_owns live zs w" using owns by (auto simp: uadk_owns_def)
  have p: "ud s \<noteq> 0" "heap w (ud s) = Some (Hw_obj zs)" using zs(1) by (auto simp: load_eq_Inr)
  obtain w' where e: "hw_end L zs w = Inr w'" "wf_heap w'" "(heap w', live (lib w')) = hw_rest live zs w"
    using hw_end_releases [OF ok heap zs(2)] by (auto simp: ensures_def)
  then have "fst (hw_rest live zs w) = heap w'" "snd (hw_rest live zs w) = live (lib w')" by (metis fst_conv, metis snd_conv)
  then have "wf_heap (dealloc (ud s) w')" "((heap w')(ud s := None), live (lib w')) = uadk_rest live (ud s) w"
    using e(2) by (simp_all add: uadk_rest_def zs(1))
  then show "ensures (then_free (deflateEndCB_uadk L) s w) (\<lambda>(r, s', w'). wf_heap w' \<and> (heap w', live (lib w')) = uadk_rest live (ud s) w)"
    "ensures (then_free (inflateEndCB_uadk L) s w) (\<lambda>(r, s', w'). wf_heap w' \<and> (heap w', live (lib w')) = uadk_rest live (ud s) w)"
    using p zs(1) e(1)
    by (simp_all add: then_free_def deflateEndCB_uadk_def inflateEndCB_uadk_def at_hw_def load_hw_def hw_deflateEnd_def hw_inflateEnd_def on_hw_def)
qed

lemma hw_init_fns:
  "hw_deflateInit2_fn L zs level meth 15 memLevel strategy = hw_init L zs (WCRYPTO_ZLIB L) (WCRYPTO_DEFLATE L)"
  "hw_deflateInit2_fn L zs level meth 31 memLevel strategy = hw_init L zs (WCRYPTO_GZIP L) (WCRYPTO_DEFLATE L)"
  "hw_inflateInit2_fn L zs 15 = hw_init L zs (WCRYPTO_ZLIB L) (WCRYPTO_INFLATE L)"
  "hw_inflateInit2_fn L zs 31 = hw_init L zs (WCRYPTO_GZIP L) (WCRYPTO_INFLATE L)"
  by (simp_all add: fun_eq_iff hw_deflateInit2_init hw_inflateInit2_init)

lemma deflateInitCB_uadk_owns:
  assumes "wd_ok L live pending" "wf_heap w" "deflateInitCB_uadk L level s w = Inr (UNIZIP_OK, s', w')"
  shows "wf_heap w' \<and> uadk_owns live (ud s') w' \<and> uadk_rest live (ud s') w' = (heap w, live (lib w))"
proof -
  obtain p w1 where m: "malloc (Hw_obj (zip_stream_indet L)) w = (p, w1)" by fastforce
  have or31: "(15 :: int) OR 16 = 31" by code_simp
  from assms(3) have "p \<noteq> 0" "ud s' = p" "\<exists>a. at_hw p (on_hw (\<lambda>zs. hw_init L zs a (WCRYPTO_DEFLATE L))) w1 = Inr (0, w')"
    by (auto simp: deflateInitCB_uadk_def m Let_def andthen_eq_Inr hw_deflateInit_fn_def hw_init_fns or31 split: if_splits)
  then show ?thesis using uadk_init_owns [OF assms(1,2) m] by auto
qed

lemma inflateInitCB_uadk_owns:
  assumes "wd_ok L live pending" "wf_heap w" "inflateInitCB_uadk L s w = Inr (UNIZIP_OK, s', w')"
  shows "wf_heap w' \<and> uadk_owns live (ud s') w' \<and> uadk_rest live (ud s') w' = (heap w, live (lib w))"
proof -
  obtain p w1 where m: "malloc (Hw_obj (zip_stream_indet L)) w = (p, w1)" by fastforce
  from assms(3) have "p \<noteq> 0" "ud s' = p" "\<exists>a. at_hw p (on_hw (\<lambda>zs. hw_init L zs a (WCRYPTO_INFLATE L))) w1 = Inr (0, w')"
    by (auto simp: inflateInitCB_uadk_def m Let_def andthen_eq_Inr hw_inflateInit_fn_def hw_init_fns split: if_splits)
  then show ?thesis using uadk_init_owns [OF assms(1,2) m] by auto
qed

lemma hw_owns_refill: "hw_owns live zs (refill_world rf w) = hw_owns live zs w" "hw_rest live zs (refill_world rf w) = hw_rest live zs w"
  by (simp_all add: hw_owns_def hw_rest_def split: sum.split)

interpretation uadk_deflate: session "deflateInitCB_uadk L" "deflateCB_uadk L" "then_free (deflateEndCB_uadk L)"
  "\<lambda>w. wd_ok L live pending \<and> wf_heap w" "uadk_owns live" "\<lambda>w. (heap w, live (lib w))" "uadk_rest live"
  for L :: "'l wd_lib" and live :: "'l \<Rightarrow> wd_res set" and pending :: "'l \<Rightarrow> nat"
proof unfold_locales
  fix f and s :: unizip_stream and w :: "'l world"
  assume a: "wd_ok L live pending \<and> wf_heap w" "uadk_owns live (ud s) w"
  from uadk_step_owns [of L live pending w s "\<lambda>zs. deflate_loop L (hw_flush L f) (out_chunk DEFLATE_MIN_CHUNK (avail_out s)) zs
      (next_in s) (ucast (avail_in s)) (next_out s) w"] a deflate_loop_returns [of L live pending _ w] out_chunk_bounds(1,2)
  show "ensures (deflateCB_uadk L f s w) (\<lambda>(r, s', w'). ud s' = ud s \<and> (wd_ok L live pending \<and> wf_heap w') \<and> uadk_owns live (ud s) w' \<and>
      uadk_rest live (ud s) w' = uadk_rest live (ud s) w)"
    by (simp add: deflateCB_uadk_def)
  show "ensures (then_free (deflateEndCB_uadk L) s w) (\<lambda>(r, s', w'). (wd_ok L live pending \<and> wf_heap w') \<and>
      (heap w', live (lib w')) = uadk_rest live (ud s) w)"
    using uadk_fin_releases(1) [of L live pending w s] a by simp
next
  fix level and s s' :: unizip_stream and w w' :: "'l world"
  show "wd_ok L live pending \<and> wf_heap w \<Longrightarrow> deflateInitCB_uadk L level s w = Inr (UNIZIP_OK, s', w') \<Longrightarrow>
      (wd_ok L live pending \<and> wf_heap w') \<and> uadk_owns live (ud s') w' \<and> uadk_rest live (ud s') w' = (heap w, live (lib w))"
    using deflateInitCB_uadk_owns by blast
qed (simp_all add: uadk_owns_def uadk_rest_def hw_owns_refill split: sum.split)

interpretation uadk_inflate: session "\<lambda>_. inflateInitCB_uadk L" "inflateCB_uadk L" "then_free (inflateEndCB_uadk L)"
  "\<lambda>w. wd_ok L live pending \<and> wf_heap w" "uadk_owns live" "\<lambda>w. (heap w, live (lib w))" "uadk_rest live"
  for L :: "'l wd_lib" and live :: "'l \<Rightarrow> wd_res set" and pending :: "'l \<Rightarrow> nat"
proof unfold_locales
  fix f and s :: unizip_stream and w :: "'l world"
  assume a: "wd_ok L live pending \<and> wf_heap w" "uadk_owns live (ud s) w"
  from uadk_step_owns [of L live pending w s "\<lambda>zs. inflate_loop L (hw_flush L f) (out_chunk INFLATE_MIN_CHUNK (avail_out s)) zs
      (next_in s) (ucast (avail_in s)) (next_out s) w"] a inflate_loop_returns [of L live pending _ w] out_chunk_bounds(3,4)
  show "ensures (inflateCB_uadk L f s w) (\<lambda>(r, s', w'). ud s' = ud s \<and> (wd_ok L live pending \<and> wf_heap w') \<and> uadk_owns live (ud s) w' \<and>
      uadk_rest live (ud s) w' = uadk_rest live (ud s) w)"
    by (simp add: inflateCB_uadk_def)
  show "ensures (then_free (inflateEndCB_uadk L) s w) (\<lambda>(r, s', w'). (wd_ok L live pending \<and> wf_heap w') \<and>
      (heap w', live (lib w')) = uadk_rest live (ud s) w)"
    using uadk_fin_releases(2) [of L live pending w s] a by simp
next
  fix s s' :: unizip_stream and w w' :: "'l world"
  show "wd_ok L live pending \<and> wf_heap w \<Longrightarrow> inflateInitCB_uadk L s w = Inr (UNIZIP_OK, s', w') \<Longrightarrow>
      (wd_ok L live pending \<and> wf_heap w') \<and> uadk_owns live (ud s') w' \<and> uadk_rest live (ud s') w' = (heap w, live (lib w))"
    using inflateInitCB_uadk_owns by blast
qed (simp_all add: uadk_owns_def uadk_rest_def hw_owns_refill split: sum.split)

lemma then_free_clean:
  assumes "ensures (then_free fin s w) (\<lambda>(r, s', w'). (heap w', live (lib w')) = (H, S))" and "ud s \<noteq> 0"
  shows "ensures (fin s w) (\<lambda>(r, s', w'). live (lib w') = S \<and> (\<exists>ob. heap w' = H(ud s \<mapsto> ob)))"
proof -
  obtain r s' w1 w2 where f: "fin s w = Inr (r, s', w1)" "free (ud s) w1 = Inr w2" "heap w2 = H" "live (lib w2) = S"
    using assms(1) by (auto simp: then_free_def ensures_def andthen_eq_Inr)
  then obtain ob where "heap w1 (ud s) = Some ob" "H = (heap w1)(ud s := None)" "lib w1 = lib w2"
    using assms(2) by (auto simp: free_def split: if_splits)
  then have "heap w1 = H(ud s \<mapsto> ob)" "live (lib w1) = S" using f by (auto simp: fun_eq_iff)
  then show ?thesis using f(1) by auto
qed

section \<open>A library on which the properties are applied\<close>

text \<open>Its state is the list of what exists; it takes all of its input and copies what fits.\<close>

definition demo_take :: "'a::zero \<Rightarrow> wd_res \<Rightarrow> wd_res list \<Rightarrow> 'a \<times> wd_res list" where
  "demo_take x r l = (if x = 0 \<or> r \<in> set l then (0, l) else (x, r # l))"

definition demo_give :: "wd_res \<Rightarrow> wd_res list \<Rightarrow> wd_res list res" where
  "demo_give r l = (if r \<in> set l then Inr (removeAll r l) else Inl DoubleFree)"

definition demo_wd :: "wd_res list wd_lib" where
  "demo_wd = \<lparr>WCRYPTO_ZLIB = 0, WCRYPTO_GZIP = 1, WCRYPTO_DEFLATE = 0, WCRYPTO_INFLATE = 1, WCRYPTO_COMP_STATEFUL = 1,
     WCRYPTO_COMP_STREAM_NEW = 0, WCRYPTO_COMP_STREAM_OLD = 1, WCRYPTO_NO_FLUSH = 0, WCRYPTO_SYNC_FLUSH = 1,
     WCRYPTO_FINISH = 2, WCRYPTO_DECOMP_END = 3, WCRYPTO_DECOMP_END_NOSPACE = 4, WD_VERIFY_ERR = 10, WD_IN_EPARA = 11,
     wd_request_queue = (\<lambda>q qc l. if Wd_queue q \<in> set l then (- 1, qc, l) else (0, qc, Wd_queue q # l)),
     wd_release_queue = (\<lambda>q qc. demo_give (Wd_queue q)),
     wd_blkpool_create = (\<lambda>q sz n al l. demo_take (length l) (Wd_pool (length l)) l),
     wd_blkpool_destroy = (\<lambda>p. demo_give (Wd_pool p)),
     wd_alloc_blk = (\<lambda>p l. demo_take (of_nat (length l) * 0x100000) (Wd_block p (of_nat (length l) * 0x100000)) l),
     wd_free_blk = (\<lambda>p a. demo_give (Wd_block p a)),
     wcrypto_create_comp_ctx = (\<lambda>q ty sm p l. demo_take (length l) (Wd_ctx (length l)) l),
     wcrypto_del_comp_ctx = (\<lambda>c. demo_give (Wd_ctx c)),
     wcrypto_do_comp = (\<lambda>c opd m l. if Wd_ctx c \<in> set l
       then let n = min (in_len_op opd) (avail_out_op opd)
         in Inr (0, opd\<lparr>consumed_op := in_len_op opd, produced_op := n\<rparr>,
              write_mem m (out_op opd) (read_mem m (in_op opd) (unat n)), l)
       else Inl Dangling),
     uadk_tool_output = None, buffer_indet = (\<lambda>_. CHR ''?''),
     zip_stream_indet = \<lparr>next_in_hw = 0, avail_in_hw = 0, total_in_hw = 0, next_out_hw = 0, avail_out_hw = 0, total_out_hw = 0,
       msg_hw = 0, workspace_hw = 0, data_type_hw = 0, adler_hw = 0, reserved_hw = 0\<rparr>\<rparr>"

lemma demo_wd_ok: "wd_ok demo_wd set (\<lambda>_. 0)"
  unfolding wd_ok_def
  by (auto simp: demo_wd_def acquiring_def releasing_def computing_def demo_take_def demo_give_def Let_def split: if_splits)

definition demo_wd_world :: "wd_res list world" where
  "demo_wd_world = \<lparr>heap = Map.empty, allocs = 0, oom = (\<lambda>_. False),
     bytes = (\<lambda>_. 0)(1000 := 7, 1001 := 8, 1002 := 9), lib = []\<rparr>"

lemma demo_wd_simps:
  "WCRYPTO_ZLIB demo_wd = 0" "WCRYPTO_GZIP demo_wd = 1" "WCRYPTO_DEFLATE demo_wd = 0" "WCRYPTO_SYNC_FLUSH demo_wd = 1"
  "WCRYPTO_FINISH demo_wd = 2"
  by (simp_all add: demo_wd_def)

lemma returning_eq_Inr: "returning m = Inr x \<longleftrightarrow> m = Some (Inr x)"
  by (auto simp: returning_def split: option.splits)

lemma wf_demo_wd_world [simp]: "wf_heap demo_wd_world"
  by (simp add: wf_heap_def demo_wd_world_def)

lemma demo_wd_init: "\<exists>s1 w1. deflateInitCB_uadk demo_wd 6 demo_stream demo_wd_world = Inr (UNIZIP_OK, s1, w1)"
  by (simp add: deflateInitCB_uadk_def demo_wd_world_def malloc_def Let_def demo_wd_def at_hw_def load_hw_def
      hw_deflateInit_fn_def on_hw_def hw_init_fns hw_init_def hw_init_pool_def hw_init_ctx_def demo_take_def store_def load_def deref_def)

section \<open>Properties\<close>

text \<open>
  C25: a UADK deflate session gives back everything it acquired except the \<open>struct zip_stream\<close>.
  After an initialisation that succeeds, any calls and the end, every queue, memory pool, block
  and compression context of the driver is as before, each released once, no step faults and
  every loop of every call returns; but the object \<open>strm->ud\<close> points to is still allocated:
  neither the end nor anything else frees it.
\<close>

theorem uadk_deflate_session_leaks_context:
  assumes "wd_ok L live pending" and "wf_heap w" and "deflateInitCB_uadk L level s w = Inr (UNIZIP_OK, s1, w1)"
  shows "ensures (andthen (run_calls (deflateCB_uadk L) cs s1 w1) (\<lambda>(rs, s2, w2). deflateEndCB_uadk L s2 w2))
    (\<lambda>(r, s', w'). live (lib w') = live (lib w) \<and> (\<exists>ob. heap w' = (heap w)(ud s1 \<mapsto> ob)))"
proof -
  have inv: "wd_ok L live pending \<and> wf_heap w" using assms(1,2) by simp
  have i: "wd_ok L live pending \<and> wf_heap w1" "uadk_owns live (ud s1) w1"
    using uadk_deflate.init_owns [OF inv assms(3)] by auto
  then have ud: "ud s1 \<noteq> 0" by (auto simp: uadk_owns_def load_eq_Inr)
  obtain rs s2 w2 where r: "run_calls (deflateCB_uadk L) cs s1 w1 = Inr (rs, s2, w2)" "ud s2 = ud s1"
    using uadk_deflate.run_owns [OF i, of cs] by (auto simp: ensures_def)
  have "ensures (then_free (deflateEndCB_uadk L) s2 w2) (\<lambda>(r, s', w'). (heap w', live (lib w')) = (heap w, live (lib w)))"
    using uadk_deflate.session_clean [OF inv assms(3), of cs] r(1) by simp
  from then_free_clean [OF this] show ?thesis using ud r by simp
qed

theorem uadk_deflate_session_leaks_context_witness:
  "\<exists>s1 w1. deflateInitCB_uadk demo_wd 6 demo_stream demo_wd_world = Inr (UNIZIP_OK, s1, w1) \<and>
    ensures (andthen (run_calls (deflateCB_uadk demo_wd) [(Keep, 0), (Keep, 4)] s1 w1) (\<lambda>(rs, s2, w2). deflateEndCB_uadk demo_wd s2 w2))
      (\<lambda>(r, s', w'). set (lib w') = {} \<and> (\<exists>ob. heap w' = [ud s1 \<mapsto> ob]))"
proof -
  obtain s1 w1 where i: "deflateInitCB_uadk demo_wd 6 demo_stream demo_wd_world = Inr (UNIZIP_OK, s1, w1)"
    using demo_wd_init by blast
  from uadk_deflate_session_leaks_context [OF demo_wd_ok wf_demo_wd_world i, of "[(Keep, 0), (Keep, 4)]"] i
  show ?thesis by (simp add: demo_wd_world_def)
qed

text \<open>
  C20: \<open>compress\<close> on the accelerator always returns, whatever the hardware reports, for an input
  of any length: the nested loops end, no step faults, and when it returns every resource of the
  driver that it acquired has been given back and the heap is as before, also when the
  initialisation failed half way or a call of the hardware failed.
\<close>

theorem uadk_compress_returns:
  assumes "wd_ok L live pending" and "wf_heap w"
  shows "ensures (compressCB_uadk L dest (Some n) source sourceLen w)
    (\<lambda>(r, len, w'). heap w' = heap w \<and> live (lib w') = live (lib w))"
  using hw_stream_compress_returns [OF assms, of DEFAULT_STREAM_CHUNK "ALG_TYPE L" dest n source sourceLen]
  by (auto simp: compressCB_uadk_def)

theorem uadk_compress_returns_witness:
  "ensures (compressCB_uadk demo_wd 2000 (Some 50) 1000 3 demo_wd_world)
    (\<lambda>(r, len, w'). heap w' = Map.empty \<and> set (lib w') = {})"
  using uadk_compress_returns [OF demo_wd_ok wf_demo_wd_world, of 2000 50 1000 3] by (simp add: demo_wd_world_def)

text \<open>
  C19: \<open>uncompress\<close> on the accelerator always returns and never reports more than the capacity
  it was given: \<open>*destLen\<close> comes back as the number of bytes written when it succeeds, unchanged
  when it fails, and in both cases is at most what it was.
\<close>

theorem uadk_uncompress_bounded:
  assumes "wd_ok L live pending" and "wf_heap w" and "WCRYPTO_COMP_STREAM_OLD L \<noteq> WCRYPTO_COMP_STREAM_NEW L"
  shows "ensures (uncompressCB_uadk L dest (Some n) source sourceLen w)
    (\<lambda>(r, len, w'). heap w' = heap w \<and> live (lib w') = live (lib w) \<and> (\<exists>k. len = Some k \<and> k \<le> n))"
  using hw_stream_decompress_returns [OF assms(1,2) _ _ assms(3), of DEFAULT_STREAM_CHUNK "ALG_TYPE L" dest n source sourceLen]
  by (auto simp: uncompressCB_uadk_def)

theorem uadk_uncompress_bounded_witness:
  "ensures (uncompressCB_uadk demo_wd 2000 (Some 50) 1000 3 demo_wd_world)
    (\<lambda>(r, len, w'). heap w' = Map.empty \<and> set (lib w') = {} \<and> (\<exists>k. len = Some k \<and> k \<le> 50))"
  using uadk_uncompress_bounded [OF demo_wd_ok wf_demo_wd_world, of 2000 50 1000 3] by (simp add: demo_wd_world_def demo_wd_def)

text \<open>
  Compressing nothing on the accelerator gives 13 bytes that are not a gzip file: an empty
  stored block and a gzip trailer (inverted checksum, length 0) with no gzip header in front,
  although \<open>ALG_TYPE\<close> asks for the gzip format.
\<close>

theorem uadk_compress_empty:
  assumes "WCRYPTO_GZIP L \<noteq> WCRYPTO_ZLIB L" and "dest \<noteq> 0" and "source \<noteq> 0"
    and "compressCB_uadk L dest (Some n) source 0 w = Inr (UNIZIP_OK, len, w')"
  shows "len = Some 13 \<and> read_mem (bytes w') dest 13 = [1, 0, 0, 255, 255, 255, 255, 255, 255, 0, 0, 0, 0]"
  using hw_stream_compress_empty [OF assms(1) _ _ assms(2,3), of DEFAULT_STREAM_CHUNK n w len w'] assms(4)
  by (simp add: compressCB_uadk_def ALG_TYPE_def returning_eq_Inr empty_stream_def)

lemma demo_wd_empty: "\<exists>len w'. compressCB_uadk demo_wd 2000 (Some 50) 1000 0 demo_wd_world = Inr (UNIZIP_OK, len, w')"
proof -
  have init: "\<exists>zs w1. hw_init demo_wd (zip_stream_indet demo_wd) 1 0 demo_wd_world = Inr (0, zs, w1)"
    by (simp add: demo_wd_world_def malloc_def Let_def demo_wd_def hw_init_def hw_init_pool_def hw_init_ctx_def
        demo_take_def store_def load_def deref_def)
  then obtain zs w1 where i: "hw_init demo_wd (zip_stream_indet demo_wd) 1 0 demo_wd_world = Inr (0, zs, w1)" by blast
  have loop: "\<exists>zs' dst' w'. compress_loop demo_wd 65536 zs 1000 0 2000 w1 = Some (Inr (0, zs', dst', w'))"
  proof -
    obtain ctl where "load as_ctl (reserved_hw zs) w1 = Inr ctl" "load as_op (opdata_ctl ctl) w1 = Inr (zero_op\<lparr>in_op := in_ctl ctl, out_op := out_ctl ctl,
       stream_pos_op := 0, alg_type_op := 1\<rparr>)"
      using hw_init_initial [OF i] by (auto simp: hw_initial_def demo_wd_def)
    then show ?thesis
      by (simp add: compress_loop.simps pump.simps feed_def hw_call_def hw_send_and_recv_def append_store_block_def demo_wd_simps Let_def memcpy_def)
  qed
  obtain zs' dst' w2 where l: "compress_loop demo_wd 65536 zs 1000 0 2000 w1 = Some (Inr (0, zs', dst', w2))" using loop by blast
  obtain r len w' where "hw_stream_compress demo_wd 1 DEFAULT_STREAM_CHUNK 2000 (Some 50) 1000 0 demo_wd_world = Some (Inr (r, len, w'))"
    using hw_stream_compress_returns [OF demo_wd_ok wf_demo_wd_world, of DEFAULT_STREAM_CHUNK 1 2000 50 1000 0] by auto
  then have "compressCB_uadk demo_wd 2000 (Some 50) 1000 0 demo_wd_world = Inr (0, len, w')"
    using i l by (auto simp: compressCB_uadk_def ALG_TYPE_def hw_stream_compress_def hw_deflateInit2_init demo_wd_simps andthen_eq_Inr)
  then show ?thesis by blast
qed

theorem uadk_compress_empty_witness:
  "\<exists>len w'. compressCB_uadk demo_wd 2000 (Some 50) 1000 0 demo_wd_world = Inr (UNIZIP_OK, len, w') \<and>
    len = Some 13 \<and> read_mem (bytes w') 2000 13 = [1, 0, 0, 255, 255, 255, 255, 255, 255, 0, 0, 0, 0]"
proof -
  obtain len w' where c: "compressCB_uadk demo_wd 2000 (Some 50) 1000 0 demo_wd_world = Inr (UNIZIP_OK, len, w')"
    using demo_wd_empty by blast
  from uadk_compress_empty [OF _ _ _ c] c show ?thesis by (simp add: demo_wd_simps)
qed

end
