(* ===== verification/Adapt.thy ===== *)
theory Adapt
  imports Lz4 Snappy Zstd Xz Bzip2 Brotli Zip7 Zlib Uadk
begin

text \<open>
  The dispatcher, \<open>unizip_adapt.c\<close>: the tables of callbacks of the ten back ends, the choice
  of one of them, and the functions of the interface, which check the choice and call through
  the table.  A function pointer is an option: calling \<open>None\<close> is the fault \<open>NullCall\<close>.  The
  parameter \<open>platform\<close> holds the libraries, the environment and the architecture the code is
  compiled for; the record \<open>globals\<close> holds the variables of the file.
\<close>

section \<open>Tables\<close>

datatype Z_ALG = ALG_ZLIB | ALG_BZIP2 | ALG_BROTLI | ALG_LZ4 | ALG_SNAPPY | ALG_ZSTD | ALG_7ZIP
  | ALG_UADK | ALG_XZ | ALG_GZIP

text \<open>A \<open>const char *\<close>: a literal, or an object of the heap.\<close>

datatype c_str = Literal string | At ptr

type_synonym 'l version_op = "'l world \<Rightarrow> (c_str \<times> 'l world) res"
type_synonym 'l copy_op = "unizip_stream \<Rightarrow> unizip_stream \<Rightarrow> 'l world \<Rightarrow> (int \<times> unizip_stream \<times> 'l world) res"

record 'l callback_t =
  alg :: Z_ALG
  versionCB :: "'l version_op option"
  deflateInitCB :: "(int \<Rightarrow> 'l stream_op) option"
  deflateCB :: "(int \<Rightarrow> 'l stream_op) option"
  deflateEndCB :: "'l stream_op option"
  inflateInitCB :: "'l stream_op option"
  inflateCB :: "(int \<Rightarrow> 'l stream_op) option"
  inflateEndCB :: "'l stream_op option"
  deflateCopyCB :: "'l copy_op option"
  inflateCopyCB :: "'l copy_op option"
  deflateResetCB :: "'l stream_op option"
  inflateResetCB :: "'l stream_op option"
  compressCB :: "'l shot_op option"
  uncompressCB :: "'l shot_op option"
  compressBoundCB :: "(uLong \<Rightarrow> uLong res) option"
  deflateInit2CB :: "(int \<Rightarrow> int \<Rightarrow> int \<Rightarrow> int \<Rightarrow> int \<Rightarrow> 'l stream_op) option"
  inflateInit2CB :: "(int \<Rightarrow> 'l stream_op) option"
  compress2CB :: "(addr \<Rightarrow> uLong option \<Rightarrow> addr \<Rightarrow> uLong \<Rightarrow> int \<Rightarrow> 'l world \<Rightarrow> (int \<times> uLong option \<times> 'l world) res) option"
  uncompress2CB :: "(addr \<Rightarrow> uLong option \<Rightarrow> addr \<Rightarrow> uLong option \<Rightarrow> 'l world \<Rightarrow>
    (int \<times> uLong option \<times> uLong option \<times> 'l world) res) option"
  deflateSetDictionaryCB :: "(addr \<Rightarrow> uInt \<Rightarrow> 'l stream_op) option"
  inflateSetDictionaryCB :: "(addr \<Rightarrow> uInt \<Rightarrow> 'l stream_op) option"
  deflateSetHeaderCB :: "(ptr \<Rightarrow> 'l stream_op) option"
  inflateGetHeaderCB :: "(ptr \<Rightarrow> 'l stream_op) option"
  deflateParamsCB :: "(int \<Rightarrow> int \<Rightarrow> 'l stream_op) option"
  deflatePendingCB :: "(unizip_stream \<Rightarrow> uInt option \<Rightarrow> int option \<Rightarrow> 'l world \<Rightarrow> (int \<times> uInt option \<times> int option) res) option"

text \<open>The libraries, \<open>getenv\<close>, the architecture, and the address of the local \<open>queue\<close> of \<open>UadkEnabled\<close>.\<close>

record 'l platform =
  zlib_of :: "'l zlib_lib"
  bzip2_of :: "'l bz_lib"
  brotli_of :: "'l brotli_lib"
  lz4_of :: lz4_lib
  snappy_of :: snappy_lib
  zstd_of :: "'l zstd_lib"
  sdk_of :: "'l sdk_lib"
  wd_of :: "'l wd_lib"
  lzma_of :: "'l lzma_lib"
  getenv :: "string \<Rightarrow> string option"
  aarch64 :: bool
  queue_local :: ptr

text \<open>A table of the fourteen functions of \<open>BASIC_INTERFACE\<close> followed by ten \<open>NULL\<close>.\<close>

definition basic_ck ::
  "Z_ALG \<Rightarrow> 'l version_op \<Rightarrow> (int \<Rightarrow> 'l stream_op) \<Rightarrow> (int \<Rightarrow> 'l stream_op) \<Rightarrow> 'l stream_op \<Rightarrow> 'l stream_op \<Rightarrow>
   (int \<Rightarrow> 'l stream_op) \<Rightarrow> 'l stream_op \<Rightarrow> 'l copy_op \<Rightarrow> 'l copy_op \<Rightarrow> 'l stream_op \<Rightarrow> 'l stream_op \<Rightarrow>
   'l shot_op \<Rightarrow> 'l shot_op \<Rightarrow> (uLong \<Rightarrow> uLong res) \<Rightarrow> 'l callback_t" where
  "basic_ck a version deflateInit deflate deflateEnd inflateInit inflate inflateEnd deflateCopy inflateCopy
     deflateReset inflateReset compress uncompress compressBound =
   \<lparr>alg = a, versionCB = Some version, deflateInitCB = Some deflateInit, deflateCB = Some deflate,
    deflateEndCB = Some deflateEnd, inflateInitCB = Some inflateInit, inflateCB = Some inflate,
    inflateEndCB = Some inflateEnd, deflateCopyCB = Some deflateCopy, inflateCopyCB = Some inflateCopy,
    deflateResetCB = Some deflateReset, inflateResetCB = Some inflateReset, compressCB = Some compress,
    uncompressCB = Some uncompress, compressBoundCB = Some compressBound, deflateInit2CB = None,
    inflateInit2CB = None, compress2CB = None, uncompress2CB = None, deflateSetDictionaryCB = None,
    inflateSetDictionaryCB = None, deflateSetHeaderCB = None, inflateGetHeaderCB = None,
    deflateParamsCB = None, deflatePendingCB = None\<rparr>"

text \<open>A version that is a literal, and one that is an object.\<close>

definition literal :: "string \<Rightarrow> 'l version_op" where
  "literal s w = Inr (Literal s, w)"

definition object :: "('l world \<Rightarrow> (ptr \<times> 'l world) res) \<Rightarrow> 'l version_op" where
  "object f w = andthen (f w) (\<lambda>(p, w). Inr (At p, w))"

definition zlib_ck :: "'l platform \<Rightarrow> 'l callback_t" where
  "zlib_ck P =
     (let L = zlib_of P
      in (basic_ck ALG_ZLIB (literal (versionCB_zlib L)) (deflateInitCB_zlib L) (deflateCB_zlib L) (deflateEndCB_zlib L)
        (inflateInitCB_zlib L) (inflateCB_zlib L) (inflateEndCB_zlib L) (deflateCopyCB_zlib L) (inflateCopyCB_zlib L)
        (deflateResetCB_zlib L) (inflateResetCB_zlib L) (compressCB_zlib L) (uncompressCB_zlib L) (\<lambda>n. Inr (compressBoundCB_zlib L n)))
        \<lparr>deflateInit2CB := Some (deflateInit2CB_zlib L), inflateInit2CB := Some (inflateInit2CB_zlib L),
          compress2CB := Some (compress2CB_zlib L), uncompress2CB := Some (uncompress2CB_zlib L),
          deflateSetDictionaryCB := Some (deflateSetDictionaryCB_zlib L),
          inflateSetDictionaryCB := Some (inflateSetDictionaryCB_zlib L), deflateSetHeaderCB := Some (deflateSetHeaderCB_zlib L),
          inflateGetHeaderCB := Some (inflateGetHeaderCB_zlib L),
          deflateParamsCB := Some (deflateParamsCB_zlib L), deflatePendingCB := Some (deflatePendingCB_zlib L)\<rparr>)"

definition gzip_ck :: "'l platform \<Rightarrow> 'l callback_t" where
  "gzip_ck P =
     (let L = zlib_of P
      in (basic_ck ALG_GZIP (literal (versionCB_gzip L)) (deflateInitCB_gzip L) (deflateCB_gzip L) (deflateEndCB_gzip L)
        (inflateInitCB_gzip L) (inflateCB_gzip L) (inflateEndCB_gzip L) (deflateCopyCB_gzip L) (inflateCopyCB_gzip L)
        (deflateResetCB_gzip L) (inflateResetCB_gzip L) (compressCB_gzip L) (uncompressCB_gzip L) (\<lambda>n. Inr (compressBoundCB_gzip L n)))
        \<lparr>deflateInit2CB := Some (deflateInit2CB_gzip L), inflateInit2CB := Some (inflateInit2CB_gzip L),
          compress2CB := Some (compress2CB_gzip L), uncompress2CB := Some (uncompress2CB_gzip L), deflateSetHeaderCB := Some (deflateSetHeaderCB_gzip L),
          inflateGetHeaderCB := Some (inflateGetHeaderCB_gzip L)\<rparr>)"

definition zip7_ck :: "'l platform \<Rightarrow> 'l callback_t" where
  "zip7_ck P =
     (let L = sdk_of P
      in basic_ck ALG_7ZIP (literal (versionCB_7zip L)) (deflateInitCB_7zip L) (deflateCB_7zip L) deflateEndCB_7zip
        (inflateInitCB_7zip L) (inflateCB_7zip L) (inflateEndCB_7zip L) deflateCopyCB_7zip inflateCopyCB_7zip
        (deflateResetCB_7zip L) (inflateResetCB_7zip L) (compressCB_7zip L) (uncompressCB_7zip L) compressBoundCB_7zip)"

definition brotli_ck :: "'l platform \<Rightarrow> 'l callback_t" where
  "brotli_ck P =
     (let L = brotli_of P
      in basic_ck ALG_BROTLI (object (versionCB_brotli L)) (deflateInitCB_brotli L) (deflateCB_brotli L) (deflateEndCB_brotli L)
        (inflateInitCB_brotli L) (\<lambda>_. inflateCB_brotli L) (inflateEndCB_brotli L) deflateCopyCB_brotli inflateCopyCB_brotli
        (deflateResetCB_brotli L) (inflateResetCB_brotli L) (sure (compressCB_brotli L)) (sure (uncompressCB_brotli L)) (\<lambda>n. Inr (compressBoundCB_brotli L n)))"

definition bzip2_ck :: "'l platform \<Rightarrow> 'l callback_t" where
  "bzip2_ck P =
     (let L = bzip2_of P
      in basic_ck ALG_BZIP2 (literal (versionCB_bzip2 L)) (deflateInitCB_bzip2 L) (deflateCB_bzip2 L) (deflateEndCB_bzip2 L)
        (inflateInitCB_bzip2 L) (inflateCB_bzip2 L) (inflateEndCB_bzip2 L) deflateCopyCB_bzip2 inflateCopyCB_bzip2
        (deflateResetCB_bzip2 L) (inflateResetCB_bzip2 L) (sure (compressCB_bzip2 L)) (sure (uncompressCB_bzip2 L)) compressBoundCB_bzip2)"

definition lz4_ck :: "'l platform \<Rightarrow> 'l callback_t" where
  "lz4_ck P =
     (let L = lz4_of P
      in basic_ck ALG_LZ4 (literal (versionCB_lz4 L)) (deflateInitCB_lz4 L) (deflateCB_lz4 L) deflateEndCB_lz4
        (inflateInitCB_lz4 L) (inflateCB_lz4 L) inflateEndCB_lz4 deflateCopyCB_lz4 inflateCopyCB_lz4
        (deflateResetCB_lz4 L) (inflateResetCB_lz4 L) (sure (compressCB_lz4 L)) (sure (uncompressCB_lz4 L)) (\<lambda>n. Inr (compressBoundCB_lz4 L n)))"

definition snappy_ck :: "'l platform \<Rightarrow> 'l callback_t" where
  "snappy_ck P =
     (let L = snappy_of P
      in basic_ck ALG_SNAPPY (literal versionCB_snappy) (deflateInitCB_snappy L) (deflateCB_snappy L) deflateEndCB_snappy
        (inflateInitCB_snappy L) (inflateCB_snappy L) inflateEndCB_snappy deflateCopyCB_snappy inflateCopyCB_snappy
        (deflateResetCB_snappy L) (inflateResetCB_snappy L) (sure (compressCB_snappy L)) (sure (uncompressCB_snappy L)) (\<lambda>n. Inr (compressBoundCB_snappy L n)))"

definition xz_ck :: "'l platform \<Rightarrow> 'l callback_t" where
  "xz_ck P =
     (let L = lzma_of P
      in basic_ck ALG_XZ (literal (versionCB_xz L)) (deflateInitCB_xz L) (deflateCB_xz L) (deflateEndCB_xz L)
        (inflateInitCB_xz L) (inflateCB_xz L) (inflateEndCB_xz L) deflateCopyCB_xz inflateCopyCB_xz
        (deflateResetCB_xz L) (inflateResetCB_xz L) (compressCB_xz L) (uncompressCB_xz L) compressBoundCB_xz)"

definition zstd_ck :: "'l platform \<Rightarrow> 'l callback_t" where
  "zstd_ck P =
     (let L = zstd_of P
      in basic_ck ALG_ZSTD (literal (versionCB_zstd L)) (deflateInitCB_zstd L) (deflateCB_zstd L) (deflateEndCB_zstd L)
        (inflateInitCB_zstd L) (inflateCB_zstd L) (inflateEndCB_zstd L) deflateCopyCB_zstd inflateCopyCB_zstd
        (deflateResetCB_zstd L) (inflateResetCB_zstd L) (compressCB_zstd L) (uncompressCB_zstd L) (\<lambda>n. Inr (compressBoundCB_zstd L n)))"

definition uadk_ck :: "'l platform \<Rightarrow> 'l callback_t" where
  "uadk_ck P =
     (let L = wd_of P
      in if aarch64 P then basic_ck ALG_UADK (object (versionCB_uadk L)) (deflateInitCB_uadk L) (deflateCB_uadk L) (deflateEndCB_uadk L)
        (inflateInitCB_uadk L) (inflateCB_uadk L) (inflateEndCB_uadk L) (deflateCopyCB_uadk L) (inflateCopyCB_uadk L)
        (deflateResetCB_uadk L) (inflateResetCB_uadk L) (compressCB_uadk L) (uncompressCB_uadk L) compressBoundCB_uadk
      else \<lparr>alg = ALG_UADK, versionCB = None, deflateInitCB = None, deflateCB = None, deflateEndCB = None,
        inflateInitCB = None, inflateCB = None, inflateEndCB = None, deflateCopyCB = None, inflateCopyCB = None,
        deflateResetCB = None, inflateResetCB = None, compressCB = None, uncompressCB = None,
        compressBoundCB = None, deflateInit2CB = None, inflateInit2CB = None, compress2CB = None,
        uncompress2CB = None, deflateSetDictionaryCB = None, inflateSetDictionaryCB = None,
        deflateSetHeaderCB = None, inflateGetHeaderCB = None, deflateParamsCB = None, deflatePendingCB = None\<rparr>)"

definition alg_cks :: "'l platform \<Rightarrow> 'l callback_t list" where
  "alg_cks P = [zlib_ck P, bzip2_ck P, brotli_ck P, lz4_ck P, snappy_ck P, zstd_ck P, zip7_ck P, uadk_ck P, xz_ck P, gzip_ck P]"

section \<open>The choice of a back end\<close>

abbreviation CASE_ZLIB :: int where "CASE_ZLIB \<equiv> 0"
abbreviation CASE_UADK :: int where "CASE_UADK \<equiv> 7"
abbreviation CASE_GZIP :: int where "CASE_GZIP \<equiv> 9"
abbreviation CASE_INVALID :: int where "CASE_INVALID \<equiv> 10"

record globals =
  value_of :: int
  inited :: bool
  enabled :: bool

text \<open>The variables when the program starts.\<close>

definition init_globals :: globals where
  "init_globals = \<lparr>value_of = CASE_INVALID, inited = False, enabled = False\<rparr>"

definition SetValue :: "int \<Rightarrow> globals \<Rightarrow> globals" where
  "SetValue v g = g\<lparr>value_of := v\<rparr>"

definition UadkEnabled :: "'l platform \<Rightarrow> globals \<Rightarrow> 'l world \<Rightarrow> (bool \<times> globals \<times> 'l world) res" where
  "UadkEnabled P g w =
     (if aarch64 P then
        if inited g then Inr (enabled g, g, w)
        else if getenv P ''UNIZIP_UADK_ENABLE'' = Some ''NO''
        then Inr (False, g\<lparr>inited := True, enabled := False\<rparr>, w)
        else
          let g = g\<lparr>inited := True\<rparr>;
              queue = zero_queue\<lparr>alg_queue := Some ''zlib''\<rparr>;
              (ret, queue, l) = wd_request_queue (wd_of P) (queue_local P) queue (lib w);
              w = w\<lparr>lib := l\<rparr>
          in if ret \<noteq> 0 then Inr (False, g\<lparr>enabled := False\<rparr>, w)
             else andthen (on_lib (wd_release_queue (wd_of P) (queue_local P) queue) w) (\<lambda>w.
                  Inr (True, g\<lparr>enabled := True\<rparr>, w))
      else Inr (False, g, w))"

text \<open>The first part of \<open>check_algorithm\<close>: a choice that is not made yet is read from the environment.\<close>

definition read_value :: "'l platform \<Rightarrow> globals \<Rightarrow> globals res" where
  "read_value P g =
     (if value_of g = CASE_INVALID then
        case getenv P ''UNIZIP_VALUE'' of
          Some lib_value \<Rightarrow> andthen (atoi lib_value) (\<lambda>v. Inr (g\<lparr>value_of := v\<rparr>))
        | None \<Rightarrow> Inr (g\<lparr>value_of := CASE_ZLIB\<rparr>)
      else Inr g)"

definition check_algorithm :: "'l platform \<Rightarrow> globals \<Rightarrow> 'l world \<Rightarrow> (int \<times> globals \<times> 'l world) res" where
  "check_algorithm P g w =
     andthen (read_value P g) (\<lambda>g.
     if value_of g < CASE_ZLIB \<or> value_of g > CASE_GZIP then Inr (UNIZIP_ALGO_ERROR, g, w)
     else if value_of g = CASE_UADK then
       andthen (UadkEnabled P g w) (\<lambda>(on, g, w). Inr (if on then 0 else UNIZIP_ALGO_ERROR, g, w))
     else Inr (0, g, w))"

text \<open>\<open>alg_cks[value]\<close>, and a call through a function pointer.\<close>

definition selected_ck :: "'l platform \<Rightarrow> globals \<Rightarrow> 'l callback_t res" where
  "selected_ck P g = (if 0 \<le> value_of g \<and> value_of g < int (length (alg_cks P))
     then Inr (alg_cks P ! nat (value_of g)) else Inl OutOfBounds)"

definition invoke :: "'f option \<Rightarrow> 'f res" where
  "invoke f = (case f of None \<Rightarrow> Inl NullCall | Some f \<Rightarrow> Inr f)"

text \<open>The guard every function of the interface begins with: \<open>bad\<close> is what it returns if the check fails.\<close>

definition checked ::
  "'l platform \<Rightarrow> (globals \<Rightarrow> 'l world \<Rightarrow> 'r res) \<Rightarrow> ('l callback_t \<Rightarrow> globals \<Rightarrow> 'l world \<Rightarrow> 'r res) \<Rightarrow>
   globals \<Rightarrow> 'l world \<Rightarrow> 'r res" where
  "checked P bad good g w =
     andthen (check_algorithm P g w) (\<lambda>(ret, g, w).
     if ret = UNIZIP_ALGO_ERROR then bad g w
     else andthen (selected_ck P g) (\<lambda>ck. good ck g w))"

text \<open>A function on a stream: \<open>field\<close> is the table entry, \<open>call\<close> gives it the arguments.\<close>

type_synonym 'l api = "unizip_stream \<Rightarrow> globals \<Rightarrow> 'l world \<Rightarrow> (int \<times> unizip_stream \<times> globals \<times> 'l world) res"

definition stream_result :: "globals \<Rightarrow> (int \<times> unizip_stream \<times> 'l world) res \<Rightarrow> (int \<times> unizip_stream \<times> globals \<times> 'l world) res" where
  "stream_result g m = andthen m (\<lambda>(ret, strm, w). Inr (ret, strm, g, w))"

definition on_stream :: "'l platform \<Rightarrow> ('l callback_t \<Rightarrow> 'f option) \<Rightarrow> ('f \<Rightarrow> 'l stream_op) \<Rightarrow> 'l api" where
  "on_stream P field call strm = checked P
     (\<lambda>g w. Inr (UNIZIP_ALGO_ERROR, strm, g, w))
     (\<lambda>ck g w. andthen (invoke (field ck)) (\<lambda>f. stream_result g (call f strm w)))"

text \<open>The same with a test for \<open>NULL\<close> before the call.\<close>

definition on_stream_tested :: "'l platform \<Rightarrow> ('l callback_t \<Rightarrow> 'f option) \<Rightarrow> ('f \<Rightarrow> 'l stream_op) \<Rightarrow> 'l api" where
  "on_stream_tested P field call strm = checked P
     (\<lambda>g w. Inr (UNIZIP_ALGO_ERROR, strm, g, w))
     (\<lambda>ck g w. case field ck of None \<Rightarrow> Inr (UNIZIP_ALGO_ERROR, strm, g, w)
        | Some f \<Rightarrow> stream_result g (call f strm w))"

section \<open>The interface\<close>

definition unizip_Version :: "'l platform \<Rightarrow> globals \<Rightarrow> 'l world \<Rightarrow> (c_str \<times> globals \<times> 'l world) res" where
  "unizip_Version P = checked P
     (\<lambda>g w. Inr (Literal (''can'' @ [CHR 0x27] @ ''t find algo!'' @ [CHR 0x0A]), g, w))
     (\<lambda>ck g w. andthen (invoke (versionCB ck)) (\<lambda>f. andthen (f w) (\<lambda>(v, w). Inr (v, g, w))))"

definition unizip_zError :: "'l platform \<Rightarrow> int \<Rightarrow> globals \<Rightarrow> 'l world \<Rightarrow> (c_str \<times> globals \<times> 'l world) res" where
  "unizip_zError P err = checked P
     (\<lambda>g w. Inr (Literal (''undifined algo'' @ [CHR 0x0A]), g, w))
     (\<lambda>ck g w. Inr (Literal (zError (zlib_of P) err), g, w))"

definition unizip_deflateInit :: "'l platform \<Rightarrow> int \<Rightarrow> 'l api" where
  "unizip_deflateInit P level = on_stream P deflateInitCB (\<lambda>f. f level)"

definition unizip_inflateInit :: "'l platform \<Rightarrow> 'l api" where
  "unizip_inflateInit P = on_stream P inflateInitCB (\<lambda>f. f)"

definition unizip_deflateEnd :: "'l platform \<Rightarrow> 'l api" where
  "unizip_deflateEnd P = on_stream P deflateEndCB (\<lambda>f. f)"

definition unizip_inflateEnd :: "'l platform \<Rightarrow> 'l api" where
  "unizip_inflateEnd P = on_stream P inflateEndCB (\<lambda>f. f)"

definition unizip_deflate :: "'l platform \<Rightarrow> int \<Rightarrow> 'l api" where
  "unizip_deflate P flush = on_stream P deflateCB (\<lambda>f. f flush)"

definition unizip_inflate :: "'l platform \<Rightarrow> int \<Rightarrow> 'l api" where
  "unizip_inflate P flush = on_stream P inflateCB (\<lambda>f. f flush)"

definition unizip_deflateCopy :: "'l platform \<Rightarrow> unizip_stream \<Rightarrow> 'l api" where
  "unizip_deflateCopy P source = on_stream P deflateCopyCB (\<lambda>f dest. f dest source)"

definition unizip_inflateCopy :: "'l platform \<Rightarrow> unizip_stream \<Rightarrow> 'l api" where
  "unizip_inflateCopy P source = on_stream P inflateCopyCB (\<lambda>f dest. f dest source)"

definition unizip_deflateReset :: "'l platform \<Rightarrow> 'l api" where
  "unizip_deflateReset P = on_stream P deflateResetCB (\<lambda>f. f)"

definition unizip_inflateReset :: "'l platform \<Rightarrow> 'l api" where
  "unizip_inflateReset P = on_stream P inflateResetCB (\<lambda>f. f)"

definition unizip_compress ::
  "'l platform \<Rightarrow> addr \<Rightarrow> uLong option \<Rightarrow> addr \<Rightarrow> uLong \<Rightarrow> globals \<Rightarrow> 'l world \<Rightarrow>
   (int \<times> uLong option \<times> globals \<times> 'l world) res" where
  "unizip_compress P dest destLen source sourceLen = checked P
     (\<lambda>g w. Inr (UNIZIP_ALGO_ERROR, destLen, g, w))
     (\<lambda>ck g w. andthen (invoke (compressCB ck)) (\<lambda>f. andthen (f dest destLen source sourceLen w) (\<lambda>(ret, len, w).
        Inr (ret, len, g, w))))"

definition unizip_uncompress ::
  "'l platform \<Rightarrow> addr \<Rightarrow> uLong option \<Rightarrow> addr \<Rightarrow> uLong \<Rightarrow> globals \<Rightarrow> 'l world \<Rightarrow>
   (int \<times> uLong option \<times> globals \<times> 'l world) res" where
  "unizip_uncompress P dest destLen source sourceLen = checked P
     (\<lambda>g w. Inr (UNIZIP_ALGO_ERROR, destLen, g, w))
     (\<lambda>ck g w. andthen (invoke (uncompressCB ck)) (\<lambda>f. andthen (f dest destLen source sourceLen w) (\<lambda>(ret, len, w).
        Inr (ret, len, g, w))))"

definition unizip_compressBound :: "'l platform \<Rightarrow> uLong \<Rightarrow> globals \<Rightarrow> 'l world \<Rightarrow> (uLong \<times> globals \<times> 'l world) res" where
  "unizip_compressBound P sourceLen = checked P
     (\<lambda>g w. Inr (word_of_int UNIZIP_ALGO_ERROR, g, w))
     (\<lambda>ck g w. andthen (invoke (compressBoundCB ck)) (\<lambda>f. andthen (f sourceLen) (\<lambda>n. Inr (n, g, w))))"

definition unizip_deflateInit2 :: "'l platform \<Rightarrow> int \<Rightarrow> int \<Rightarrow> int \<Rightarrow> int \<Rightarrow> int \<Rightarrow> 'l api" where
  "unizip_deflateInit2 P level meth windowBits memLevel strategy = on_stream_tested P deflateInit2CB (\<lambda>f. f level meth windowBits memLevel strategy)"

definition unizip_inflateInit2 :: "'l platform \<Rightarrow> int \<Rightarrow> 'l api" where
  "unizip_inflateInit2 P windowBits = on_stream_tested P inflateInit2CB (\<lambda>f. f windowBits)"

definition unizip_compress2 ::
  "'l platform \<Rightarrow> addr \<Rightarrow> uLong option \<Rightarrow> addr \<Rightarrow> uLong \<Rightarrow> int \<Rightarrow> globals \<Rightarrow> 'l world \<Rightarrow>
   (int \<times> uLong option \<times> globals \<times> 'l world) res" where
  "unizip_compress2 P dest destLen source sourceLen level = checked P
     (\<lambda>g w. Inr (UNIZIP_ALGO_ERROR, destLen, g, w))
     (\<lambda>ck g w. case compress2CB ck of None \<Rightarrow> Inr (UNIZIP_ALGO_ERROR, destLen, g, w)
        | Some f \<Rightarrow> andthen (f dest destLen source sourceLen level w) (\<lambda>(ret, len, w). Inr (ret, len, g, w)))"

definition unizip_uncompress2 ::
  "'l platform \<Rightarrow> addr \<Rightarrow> uLong option \<Rightarrow> addr \<Rightarrow> uLong option \<Rightarrow> globals \<Rightarrow> 'l world \<Rightarrow>
   (int \<times> uLong option \<times> uLong option \<times> globals \<times> 'l world) res" where
  "unizip_uncompress2 P dest destLen source sourceLen = checked P
     (\<lambda>g w. Inr (UNIZIP_ALGO_ERROR, destLen, sourceLen, g, w))
     (\<lambda>ck g w. case uncompress2CB ck of None \<Rightarrow> Inr (UNIZIP_ALGO_ERROR, destLen, sourceLen, g, w)
        | Some f \<Rightarrow> andthen (f dest destLen source sourceLen w) (\<lambda>(ret, dlen, slen, w). Inr (ret, dlen, slen, g, w)))"

definition unizip_deflateParams :: "'l platform \<Rightarrow> int \<Rightarrow> int \<Rightarrow> 'l api" where
  "unizip_deflateParams P level strategy = on_stream P deflateParamsCB (\<lambda>f. f level strategy)"

definition unizip_deflateSetDictionary :: "'l platform \<Rightarrow> addr \<Rightarrow> uInt \<Rightarrow> 'l api" where
  "unizip_deflateSetDictionary P dictionary dictLength = on_stream P deflateSetDictionaryCB (\<lambda>f. f dictionary dictLength)"

definition unizip_deflatePending ::
  "'l platform \<Rightarrow> unizip_stream \<Rightarrow> uInt option \<Rightarrow> int option \<Rightarrow> globals \<Rightarrow> 'l world \<Rightarrow>
   (int \<times> uInt option \<times> int option \<times> globals \<times> 'l world) res" where
  "unizip_deflatePending P strm pending bits = checked P
     (\<lambda>g w. Inr (UNIZIP_ALGO_ERROR, pending, bits, g, w))
     (\<lambda>ck g w. andthen (invoke (deflatePendingCB ck)) (\<lambda>f. andthen (f strm pending bits w) (\<lambda>(ret, pending, bits).
        Inr (ret, pending, bits, g, w))))"

definition unizip_deflateSetHeader :: "'l platform \<Rightarrow> ptr \<Rightarrow> 'l api" where
  "unizip_deflateSetHeader P head = on_stream P deflateSetHeaderCB (\<lambda>f. f head)"

definition unizip_inflateSetDictionary :: "'l platform \<Rightarrow> addr \<Rightarrow> uInt \<Rightarrow> 'l api" where
  "unizip_inflateSetDictionary P dictionary dictLength = on_stream P inflateSetDictionaryCB (\<lambda>f. f dictionary dictLength)"

definition unizip_inflateGetHeader :: "'l platform \<Rightarrow> ptr \<Rightarrow> 'l api" where
  "unizip_inflateGetHeader P head = on_stream P inflateGetHeaderCB (\<lambda>f. f head)"

section \<open>What the check establishes\<close>

text \<open>A choice the check accepts without changing anything: \<open>P\<close> matters for the architecture only.\<close>

definition settled :: "bool \<Rightarrow> globals \<Rightarrow> bool" where
  "settled arm g \<longleftrightarrow> CASE_ZLIB \<le> value_of g \<and> value_of g \<le> CASE_GZIP \<and>
     (value_of g = CASE_UADK \<longrightarrow> arm \<and> inited g \<and> enabled g)"

lemma check_settled: "settled (aarch64 P) g \<Longrightarrow> check_algorithm P g w = Inr (0, g, w)"
  by (auto simp: settled_def check_algorithm_def read_value_def UadkEnabled_def)

lemma UadkEnabled_settles:
  "UadkEnabled P g w = Inr (True, g', w') \<Longrightarrow> aarch64 P \<and> inited g' \<and> enabled g' \<and> value_of g' = value_of g \<and> heap w' = heap w"
  by (auto simp: UadkEnabled_def on_lib_def Let_def andthen_eq_Inr split: if_splits prod.splits)

lemma check_settles:
  assumes "check_algorithm P g w = Inr (0, g', w')"
  shows "settled (aarch64 P) g'"
proof -
  obtain g1 where 1: "CASE_ZLIB \<le> value_of g1" "value_of g1 \<le> CASE_GZIP"
    and 2: "if value_of g1 = CASE_UADK then UadkEnabled P g1 w = Inr (True, g', w') else g' = g1"
    using assms unfolding check_algorithm_def
    by (fastforce simp: andthen_eq_Inr not_less split: if_splits)
  show ?thesis
  proof (cases "value_of g1 = CASE_UADK")
    case True
    with UadkEnabled_settles [of P g1 w g' w'] 1 2 show ?thesis by (simp add: settled_def)
  next
    case False
    with 1 2 show ?thesis by (simp add: settled_def)
  qed
qed

lemma selected_settled: "settled (aarch64 P) g \<Longrightarrow> selected_ck P g = Inr (alg_cks P ! nat (value_of g))"
  by (auto simp: selected_ck_def settled_def alg_cks_def)

lemmas ck_defs = zlib_ck_def bzip2_ck_def brotli_ck_def lz4_ck_def snappy_ck_def zstd_ck_def zip7_ck_def xz_ck_def gzip_ck_def

text \<open>The fourteen basic entries of a table are there.\<close>

definition basic_complete :: "'l callback_t \<Rightarrow> bool" where
  "basic_complete ck \<longleftrightarrow> versionCB ck \<noteq> None \<and> deflateInitCB ck \<noteq> None \<and> deflateCB ck \<noteq> None \<and> deflateEndCB ck \<noteq> None \<and>
     inflateInitCB ck \<noteq> None \<and> inflateCB ck \<noteq> None \<and> inflateEndCB ck \<noteq> None \<and> deflateCopyCB ck \<noteq> None \<and>
     inflateCopyCB ck \<noteq> None \<and> deflateResetCB ck \<noteq> None \<and> inflateResetCB ck \<noteq> None \<and> compressCB ck \<noteq> None \<and>
     uncompressCB ck \<noteq> None \<and> compressBoundCB ck \<noteq> None"

lemma tables_complete:
  "basic_complete (zlib_ck P)" "basic_complete (bzip2_ck P)" "basic_complete (brotli_ck P)" "basic_complete (lz4_ck P)"
  "basic_complete (snappy_ck P)" "basic_complete (zstd_ck P)" "basic_complete (zip7_ck P)" "basic_complete (xz_ck P)"
  "basic_complete (gzip_ck P)" "aarch64 P \<Longrightarrow> basic_complete (uadk_ck P)"
  by (simp_all add: basic_complete_def ck_defs uadk_ck_def basic_ck_def Let_def)

lemma alg_cks_complete: "\<forall>k \<in> {..<10}. k \<noteq> 7 \<or> aarch64 P \<longrightarrow> basic_complete (alg_cks P ! k)"
  by (simp add: below_numeral alg_cks_def tables_complete)

lemma settled_index:
  assumes "settled arm g"
  obtains "nat (value_of g) \<in> {..<10}" "nat (value_of g) = 7 \<Longrightarrow> arm"
  using assms by (auto simp: settled_def)

lemma settled_complete:
  assumes "settled (aarch64 P) g"
  obtains ck where "selected_ck P g = Inr ck" "basic_complete ck"
proof -
  have "basic_complete (alg_cks P ! nat (value_of g))"
    using settled_index [OF assms] alg_cks_complete [of P] by metis
  with selected_settled [OF assms] that show thesis by blast
qed

text \<open>A call through the dispatcher on a settled choice is the call of the back end.\<close>

lemma checked_settled: "settled (aarch64 P) g \<Longrightarrow> checked P bad good g w = good (alg_cks P ! nat (value_of g)) g w"
  by (simp add: checked_def check_settled selected_settled)

lemma selected_by_value [simp]:
  "alg_cks P ! nat 0 = zlib_ck P" "alg_cks P ! nat 1 = bzip2_ck P" "alg_cks P ! nat 2 = brotli_ck P" "alg_cks P ! nat 3 = lz4_ck P"
  "alg_cks P ! nat 4 = snappy_ck P" "alg_cks P ! nat 5 = zstd_ck P" "alg_cks P ! nat 6 = zip7_ck P" "alg_cks P ! nat 7 = uadk_ck P"
  "alg_cks P ! nat 8 = xz_ck P" "alg_cks P ! nat 9 = gzip_ck P"
  by (simp_all add: alg_cks_def)

lemma checked_ok:
  assumes "check_algorithm P g w = Inr (0, g', w')"
  shows "checked P bad good g w = good (alg_cks P ! nat (value_of g')) g' w'"
  by (simp add: checked_def assms selected_settled [OF check_settles [OF assms]])

text \<open>Which tables have the entries beyond the basic ones.\<close>

lemma alg_cks_extended:
  "\<forall>k \<in> {..<10}. let ck = alg_cks P ! k in k \<noteq> 0 \<longrightarrow>
     deflateParamsCB ck = None \<and> deflatePendingCB ck = None \<and> deflateSetDictionaryCB ck = None \<and> inflateSetDictionaryCB ck = None \<and>
     (k \<noteq> 9 \<longrightarrow> deflateSetHeaderCB ck = None \<and> inflateGetHeaderCB ck = None \<and> deflateInit2CB ck = None \<and>
       inflateInit2CB ck = None \<and> compress2CB ck = None \<and> uncompress2CB ck = None)"
  by (simp add: below_numeral alg_cks_def ck_defs uadk_ck_def basic_ck_def Let_def)

lemma tables_extended:
  assumes "settled arm g" and "value_of g \<noteq> CASE_ZLIB"
  shows "let ck = alg_cks P ! nat (value_of g) in
     deflateParamsCB ck = None \<and> deflatePendingCB ck = None \<and> deflateSetDictionaryCB ck = None \<and> inflateSetDictionaryCB ck = None \<and>
     (value_of g \<noteq> CASE_GZIP \<longrightarrow> deflateSetHeaderCB ck = None \<and> inflateGetHeaderCB ck = None \<and> deflateInit2CB ck = None \<and>
       inflateInit2CB ck = None \<and> compress2CB ck = None \<and> uncompress2CB ck = None)"
proof -
  have "nat (value_of g) \<in> {..<10}" "nat (value_of g) \<noteq> 0" "value_of g \<noteq> CASE_GZIP \<Longrightarrow> nat (value_of g) \<noteq> 9"
    using assms by (auto simp: settled_def)
  with alg_cks_extended [of P] show ?thesis by (simp add: Let_def)
qed

section \<open>Properties\<close>

text \<open>The value a witness selects with.\<close>

lemma check_chosen:
  "0 \<le> v \<Longrightarrow> v \<le> 9 \<Longrightarrow> v \<noteq> 7 \<Longrightarrow> check_algorithm P (SetValue v g) w = Inr (0, SetValue v g, w)"
  by (rule check_settled) (simp add: settled_def SetValue_def)

text \<open>
  C12: whenever the check accepts the choice of a back end, the table it selects has all fourteen
  functions of the basic interface, on every architecture: no function of the basic interface
  calls a null pointer.  (The table of UADK is empty where UADK is not compiled, and there the
  check never accepts it.)
\<close>

theorem basic_interface_complete:
  assumes "check_algorithm P g w = Inr (0, g', w')"
  shows "\<exists>ck. selected_ck P g' = Inr ck \<and> basic_complete ck"
  using settled_complete [OF check_settles [OF assms]] by blast

theorem basic_interface_complete_witness:
  "\<forall>P :: ptr list platform. \<exists>ck. selected_ck P (SetValue 6 init_globals) = Inr ck \<and> basic_complete ck"
proof
  fix P :: "ptr list platform"
  show "\<exists>ck. selected_ck P (SetValue 6 init_globals) = Inr ck \<and> basic_complete ck"
    using basic_interface_complete [OF check_chosen [of 6 P init_globals demo_world]] by simp
qed

text \<open>
  C26: the functions of the interface that belong to zlib alone call a null pointer with every
  other back end: \<open>unizip_deflateParams\<close>, the two \<open>SetDictionary\<close> functions and
  \<open>unizip_deflatePending\<close> with all but zlib, the two header functions with all but zlib and gzip.
  They check the choice and do not test the entry.
\<close>

theorem zlib_only_null_calls:
  assumes "check_algorithm P g w = Inr (0, g', w')" and "value_of g' \<noteq> CASE_ZLIB"
  shows "unizip_deflateParams P level strategy strm g w = Inl NullCall \<and>
    unizip_deflateSetDictionary P dict len strm g w = Inl NullCall \<and>
    unizip_inflateSetDictionary P dict len strm g w = Inl NullCall \<and>
    unizip_deflatePending P strm pending bits g w = Inl NullCall \<and>
    (value_of g' \<noteq> CASE_GZIP \<longrightarrow>
      unizip_deflateSetHeader P head strm g w = Inl NullCall \<and> unizip_inflateGetHeader P head strm g w = Inl NullCall)"
  using tables_extended [OF check_settles [OF assms(1)] assms(2), of P]
  by (simp add: Let_def unizip_deflateParams_def unizip_deflateSetDictionary_def unizip_inflateSetDictionary_def unizip_deflatePending_def
      unizip_deflateSetHeader_def unizip_inflateGetHeader_def on_stream_def checked_ok [OF assms(1)] invoke_def)

theorem zlib_only_null_calls_witness:
  "\<forall>P. unizip_deflateParams P 6 0 demo_stream (SetValue 5 init_globals) demo_world = Inl NullCall"
proof
  fix P
  show "unizip_deflateParams P 6 0 demo_stream (SetValue 5 init_globals) demo_world = Inl NullCall"
    using zlib_only_null_calls [OF check_chosen [of 5 P init_globals demo_world], of 6 0 demo_stream] by (simp add: SetValue_def)
qed

text \<open>
  The other four functions of the extended interface, \<open>unizip_deflateInit2\<close>,
  \<open>unizip_inflateInit2\<close>, \<open>unizip_compress2\<close> and \<open>unizip_uncompress2\<close>, are safe with every back end:
  where it lacks them they report \<open>UNIZIP_ALGO_ERROR\<close> and leave the stream, the lengths, the
  memory and the library alone.
\<close>

theorem extended_reports_algo_error:
  assumes "check_algorithm P g w = Inr (0, g', w')" and "value_of g' \<noteq> CASE_ZLIB" and "value_of g' \<noteq> CASE_GZIP"
  shows "unizip_deflateInit2 P level meth windowBits memLevel strategy strm g w = Inr (UNIZIP_ALGO_ERROR, strm, g', w') \<and>
    unizip_inflateInit2 P windowBits strm g w = Inr (UNIZIP_ALGO_ERROR, strm, g', w') \<and>
    unizip_compress2 P dest destLen source sourceLen level g w = Inr (UNIZIP_ALGO_ERROR, destLen, g', w') \<and>
    unizip_uncompress2 P dest destLen source sourceLen' g w = Inr (UNIZIP_ALGO_ERROR, destLen, sourceLen', g', w')"
  using tables_extended [OF check_settles [OF assms(1)] assms(2), of P] assms(3)
  by (simp add: Let_def unizip_deflateInit2_def unizip_inflateInit2_def unizip_compress2_def unizip_uncompress2_def on_stream_tested_def
      checked_ok [OF assms(1)])

theorem extended_reports_algo_error_witness:
  "\<forall>P. unizip_compress2 P 2000 (Some 50) 1000 3 6 (SetValue 5 init_globals) demo_world =
    Inr (UNIZIP_ALGO_ERROR, Some 50, SetValue 5 init_globals, demo_world)"
proof
  fix P
  show "unizip_compress2 P 2000 (Some 50) 1000 3 6 (SetValue 5 init_globals) demo_world =
    Inr (UNIZIP_ALGO_ERROR, Some 50, SetValue 5 init_globals, demo_world)"
    using extended_reports_algo_error [OF check_chosen [of 5 P init_globals demo_world], of 6 0 0 0 0 demo_stream 2000 "Some 50" 1000 3]
    by (simp add: SetValue_def)
qed

text \<open>
  C23: a choice that was accepted once stays: later checks accept it, change nothing and do not
  look at the environment or the hardware again, whatever has become of them.
\<close>

theorem choice_is_stable:
  assumes "check_algorithm P g w = Inr (0, g', w')" and "aarch64 P' = aarch64 P"
  shows "check_algorithm P' g' w'' = Inr (0, g', w'')"
  using check_settled [of P' g' w''] check_settles [OF assms(1)] assms(2) by simp

theorem choice_is_stable_witness:
  "\<forall>P. check_algorithm (P\<lparr>getenv := (\<lambda>_. Some ''3'')\<rparr>) (SetValue 8 init_globals) demo_world =
    Inr (0, SetValue 8 init_globals, demo_world)"
proof
  fix P
  show "check_algorithm (P\<lparr>getenv := (\<lambda>_. Some ''3'')\<rparr>) (SetValue 8 init_globals) demo_world =
      Inr (0, SetValue 8 init_globals, demo_world)"
    by (rule choice_is_stable [OF check_chosen [of 8 P init_globals demo_world]]) simp_all
qed

text \<open>
  C24: a number in the environment variable \<open>UNIZIP_VALUE\<close> selects the same back end as
  \<open>SetValue\<close> of that number, for every number an \<open>int\<close> can hold; the check accepts it exactly
  from 0 to 9 (for UADK, 7, it asks the driver as well).
\<close>

theorem environment_selects:
  assumes "getenv P ''UNIZIP_VALUE'' = Some (decimal n)" and "n < 2 ^ 31"
  shows "check_algorithm P (SetValue CASE_INVALID g) w = check_algorithm P (SetValue (int n) g) w \<and>
    (n \<noteq> 7 \<longrightarrow> check_algorithm P (SetValue CASE_INVALID g) w =
      Inr (if n \<le> 9 then 0 else UNIZIP_ALGO_ERROR, SetValue (int n) g, w))"
  using assms by (auto simp: check_algorithm_def read_value_def SetValue_def atoi_decimal)

theorem environment_selects_witness:
  "\<forall>P. check_algorithm (P\<lparr>getenv := (\<lambda>_. Some (decimal 12))\<rparr>) (SetValue CASE_INVALID init_globals) demo_world =
    Inr (UNIZIP_ALGO_ERROR, SetValue 12 init_globals, demo_world)"
proof
  fix P
  show "check_algorithm (P\<lparr>getenv := (\<lambda>_. Some (decimal 12))\<rparr>) (SetValue CASE_INVALID init_globals) demo_world =
      Inr (UNIZIP_ALGO_ERROR, SetValue 12 init_globals, demo_world)"
    using conjunct2 [OF environment_selects [of "P\<lparr>getenv := (\<lambda>_. Some (decimal 12))\<rparr>" 12 init_globals demo_world]] by simp
qed

text \<open>
  The gzip back end is the zlib back end: every function it has is the one of zlib, and it
  lacks the four for dictionaries, parameters and pending output.  In particular \<open>compress\<close>,
  \<open>deflateInit\<close> and \<open>inflateInit\<close> of \<open>CASE_GZIP\<close> use the zlib format, not the gzip format.
\<close>

theorem gzip_is_zlib:
  "gzip_ck P = (zlib_ck P)\<lparr>alg := ALG_GZIP, deflateSetDictionaryCB := None, inflateSetDictionaryCB := None,
     deflateParamsCB := None, deflatePendingCB := None\<rparr>"
proof -
  have same: "versionCB_gzip L = versionCB_zlib L" "deflateInitCB_gzip L = deflateInitCB_zlib L" "deflateCB_gzip L = deflateCB_zlib L"
    "deflateEndCB_gzip L = deflateEndCB_zlib L" "inflateInitCB_gzip L = inflateInitCB_zlib L" "inflateCB_gzip L = inflateCB_zlib L"
    "inflateEndCB_gzip L = inflateEndCB_zlib L" "deflateCopyCB_gzip L = deflateCopyCB_zlib L" "inflateCopyCB_gzip L = inflateCopyCB_zlib L"
    "deflateResetCB_gzip L = deflateResetCB_zlib L" "inflateResetCB_gzip L = inflateResetCB_zlib L" "compressCB_gzip L = compressCB_zlib L"
    "uncompressCB_gzip L = uncompressCB_zlib L" "compressBoundCB_gzip L = compressBoundCB_zlib L" "deflateInit2CB_gzip L = deflateInit2CB_zlib L"
    "inflateInit2CB_gzip L = inflateInit2CB_zlib L" "compress2CB_gzip L = compress2CB_zlib L" "uncompress2CB_gzip L = uncompress2CB_zlib L"
    "deflateSetHeaderCB_gzip L = deflateSetHeaderCB_zlib L" "inflateGetHeaderCB_gzip L = inflateGetHeaderCB_zlib L" for L :: "'a zlib_lib"
    by (simp_all add: fun_eq_iff versionCB_gzip_def versionCB_zlib_def deflateInitCB_gzip_def deflateInitCB_zlib_def
        deflateCB_gzip_def deflateCB_zlib_def deflateEndCB_gzip_def deflateEndCB_zlib_def inflateInitCB_gzip_def inflateInitCB_zlib_def
        inflateCB_gzip_def inflateCB_zlib_def inflateEndCB_gzip_def inflateEndCB_zlib_def deflateCopyCB_gzip_def deflateCopyCB_zlib_def
        inflateCopyCB_gzip_def inflateCopyCB_zlib_def deflateResetCB_gzip_def deflateResetCB_zlib_def inflateResetCB_gzip_def
        inflateResetCB_zlib_def compressCB_gzip_def compressCB_zlib_def uncompressCB_gzip_def uncompressCB_zlib_def
        compressBoundCB_gzip_def compressBoundCB_zlib_def deflateInit2CB_gzip_def deflateInit2CB_zlib_def inflateInit2CB_gzip_def
        inflateInit2CB_zlib_def compress2CB_gzip_def compress2CB_zlib_def uncompress2CB_gzip_def uncompress2CB_zlib_def
        deflateSetHeaderCB_gzip_def deflateSetHeaderCB_zlib_def inflateGetHeaderCB_gzip_def inflateGetHeaderCB_zlib_def)
  show ?thesis by (simp add: gzip_ck_def zlib_ck_def basic_ck_def Let_def same)
qed

end
