(* ===== verification/Interface.thy ===== *)
theory Interface
  imports Adapt
begin

text \<open>
  Clients of the interface \<open>unizip_adapt.c\<close>: whole sessions of stream calls in either
  direction and one-shot calls, through the table of the selected back end.  \<open>on_stream_settled\<close>
  and \<open>run_api_settled\<close> reduce them to the callbacks; \<open>back_end_session\<close> and \<open>back_end_shots\<close>
  say that every table implements the session and one-shot interfaces, from the
  interpretations of the back ends.
\<close>

section \<open>The stream functions of the interface, by direction\<close>

fun table_init :: "direction \<Rightarrow> 'l callback_t \<Rightarrow> (int \<Rightarrow> 'l stream_op) option" where
  "table_init Deflating ck = deflateInitCB ck"
| "table_init Inflating ck = map_option (\<lambda>f level. f) (inflateInitCB ck)"

fun table_call :: "direction \<Rightarrow> 'l callback_t \<Rightarrow> (int \<Rightarrow> 'l stream_op) option" where
  "table_call Deflating ck = deflateCB ck"
| "table_call Inflating ck = inflateCB ck"

fun table_end :: "direction \<Rightarrow> 'l callback_t \<Rightarrow> 'l stream_op option" where
  "table_end Deflating ck = deflateEndCB ck"
| "table_end Inflating ck = inflateEndCB ck"

fun api_init :: "'l platform \<Rightarrow> direction \<Rightarrow> int \<Rightarrow> 'l api" where
  "api_init P Deflating level = unizip_deflateInit P level"
| "api_init P Inflating level = unizip_inflateInit P"

fun api_call :: "'l platform \<Rightarrow> direction \<Rightarrow> int \<Rightarrow> 'l api" where
  "api_call P Deflating = unizip_deflate P"
| "api_call P Inflating = unizip_inflate P"

fun api_end :: "'l platform \<Rightarrow> direction \<Rightarrow> 'l api" where
  "api_end P Deflating = unizip_deflateEnd P"
| "api_end P Inflating = unizip_inflateEnd P"

lemma api_on_stream:
  "api_init P d level = on_stream P (table_init d) (\<lambda>f. f level)"
  "api_call P d = (\<lambda>flush. on_stream P (table_call d) (\<lambda>f. f flush))"
  "api_end P d = on_stream P (table_end d) (\<lambda>f. f)"
  by (cases d; auto simp: fun_eq_iff unizip_deflateInit_def unizip_inflateInit_def unizip_deflate_def unizip_inflate_def
      unizip_deflateEnd_def unizip_inflateEnd_def on_stream_def checked_def invoke_def andthen_def split: option.splits sum.splits)+

lemma basic_complete_direction:
  assumes "basic_complete ck"
  obtains init step fin where "table_init d ck = Some init" "table_call d ck = Some step" "table_end d ck = Some fin"
  using assms by (cases d) (auto simp: basic_complete_def)

section \<open>Sessions through the interface\<close>

text \<open>A client's calls through the dispatcher; \<open>run_calls\<close> is the same on one back end.\<close>

fun run_api ::
  "(int \<Rightarrow> 'l api) \<Rightarrow> (refill \<times> int) list \<Rightarrow> unizip_stream \<Rightarrow> globals \<Rightarrow> 'l world \<Rightarrow>
   (int list \<times> unizip_stream \<times> globals \<times> 'l world) res" where
  "run_api step [] s g w = Inr ([], s, g, w)"
| "run_api step ((rf, f) # cs) s g w =
     andthen (step f (apply_refill rf s) g (refill_world rf w)) (\<lambda>(r, s, g, w).
     andthen (run_api step cs s g w) (\<lambda>(rs, s, g, w). Inr (r # rs, s, g, w)))"

lemma on_stream_settled:
  assumes "settled (aarch64 P) g" and "selected_ck P g = Inr ck" and "field ck = Some f"
  shows "on_stream P field call s g w = stream_result g (call f s w)"
proof -
  have "alg_cks P ! nat (value_of g) = ck" using selected_settled [OF assms(1)] assms(2) by simp
  then show ?thesis using assms(3) by (simp add: on_stream_def checked_settled [OF assms(1)] invoke_def)
qed

lemma run_api_settled:
  assumes "settled (aarch64 P) g" and "selected_ck P g = Inr ck" and "table_call d ck = Some step"
  shows "run_api (api_call P d) cs s g w = andthen (run_calls step cs s w) (\<lambda>(rs, s, w). Inr (rs, s, g, w))"
proof (induction cs arbitrary: s w)
  case Nil
  then show ?case by simp
next
  case (Cons c cs)
  obtain rf f where c: "c = (rf, f)" by (cases c)
  show ?case
    unfolding c run_api.simps run_calls.simps api_on_stream(2)
      on_stream_settled [where field = "table_call d" and f = step, OF assms] stream_result_def
    by (auto simp: andthen_def Cons [unfolded api_on_stream(2)] split: sum.splits)
qed

lemma check_returns: "check_algorithm P g w = Inr (ret, g', w') \<Longrightarrow> ret = 0 \<or> ret = UNIZIP_ALGO_ERROR"
  by (auto simp: check_algorithm_def andthen_eq_Inr split: if_splits)

lemma check_world: "check_algorithm P g w = Inr (0, g', w') \<Longrightarrow> value_of g' \<noteq> CASE_UADK \<Longrightarrow> w' = w"
  by (auto simp: check_algorithm_def andthen_eq_Inr dest: UadkEnabled_settles split: if_splits)

text \<open>A function of the interface that succeeds has accepted the choice of a back end.\<close>

lemma checked_success:
  assumes "checked P bad good g w = Inr x" and "\<And>g w. bad g w \<noteq> Inr x"
  obtains g' w0 where "check_algorithm P g w = Inr (0, g', w0)" "settled (aarch64 P) g'"
    "good (alg_cks P ! nat (value_of g')) g' w0 = Inr x"
proof -
  obtain ret g' w0 where c: "check_algorithm P g w = Inr (ret, g', w0)" and "ret \<noteq> UNIZIP_ALGO_ERROR"
    using assms by (auto simp: checked_def andthen_eq_Inr split: if_splits)
  with check_returns [OF c] have c: "check_algorithm P g w = Inr (0, g', w0)" by simp
  show thesis using that [OF c check_settles [OF c]] assms(1) by (simp add: checked_ok [OF c])
qed

lemma api_session:
  assumes "api_init P d level s g w = Inr (UNIZIP_OK, s1, g1, w1)"
  obtains ck init step fin w0 where "check_algorithm P g w = Inr (0, g1, w0)" "selected_ck P g1 = Inr ck"
    "table_init d ck = Some init" "table_call d ck = Some step" "table_end d ck = Some fin"
    "init level s w0 = Inr (UNIZIP_OK, s1, w1)"
    "run_api (api_call P d) cs s1 g1 w1 = andthen (run_calls step cs s1 w1) (\<lambda>(rs, s, w). Inr (rs, s, g1, w))"
    "andthen (run_api (api_call P d) cs s1 g1 w1) (\<lambda>(rs, s, g, w). api_end P d s g w) =
     stream_result g1 (andthen (run_calls step cs s1 w1) (\<lambda>(rs, s, w). fin s w))"
proof -
  obtain g' w0 where c: "check_algorithm P g w = Inr (0, g', w0)" and st: "settled (aarch64 P) g'"
    and i: "andthen (invoke (table_init d (alg_cks P ! nat (value_of g')))) (\<lambda>f. stream_result g' (f level s w0)) =
      Inr (UNIZIP_OK, s1, g1, w1)"
    by (rule checked_success [OF assms [unfolded api_on_stream(1) on_stream_def]]) auto
  obtain ck where ck: "selected_ck P g' = Inr ck" "basic_complete ck" by (rule settled_complete [OF st])
  obtain init step fin where f: "table_init d ck = Some init" "table_call d ck = Some step" "table_end d ck = Some fin"
    by (rule basic_complete_direction [OF ck(2)])
  have "alg_cks P ! nat (value_of g') = ck" using selected_settled [OF st] ck(1) by simp
  with i f(1) have init: "init level s w0 = Inr (UNIZIP_OK, s1, w1)" "g1 = g'"
    by (auto simp: stream_result_def andthen_eq_Inr invoke_def)
  note run = run_api_settled [OF st ck(1) f(2), of cs s1 w1]
  have "andthen (run_api (api_call P d) cs s1 g' w1) (\<lambda>(rs, s, g, w). api_end P d s g w) =
      andthen (run_calls step cs s1 w1) (\<lambda>(rs, s, w). stream_result g' (fin s w))"
    unfolding run api_on_stream(3)
    by (auto simp: andthen_def on_stream_settled [where field = "table_end d" and f = fin, OF st ck(1) f(3)] split: sum.split)
  also have "\<dots> = stream_result g' (andthen (run_calls step cs s1 w1) (\<lambda>(rs, s, w). fin s w))"
    by (simp add: stream_result_def andthen_assoc split_def)
  finally show thesis using that [OF _ _ f init(1)] c ck(1) init(2) run by simp
qed

section \<open>The structs behind the streams\<close>

text \<open>The C type of an object, and the types of the heap.\<close>

datatype c_struct = Lz4_struct | Zstd_struct | Xz_struct | Bzip2_struct | Brotli_struct | Snappy_struct | Other_object

fun struct_of :: "obj \<Rightarrow> c_struct" where
  "struct_of (Lz4_obj _) = Lz4_struct"
| "struct_of (Zstd_obj _) = Zstd_struct"
| "struct_of (Xz_obj _) = Xz_struct"
| "struct_of (Bzip2_obj _) = Bzip2_struct"
| "struct_of (Brotli_obj _) = Brotli_struct"
| "struct_of (Snappy_obj _) = Snappy_struct"
| "struct_of _ = Other_object"

definition heap_type :: "'l world \<Rightarrow> ptr \<rightharpoonup> c_struct" where
  "heap_type w = map_option struct_of \<circ> heap w"

text \<open>The struct that \<open>ud\<close> points to with back end \<open>v\<close>.\<close>

definition ctx_struct :: "int \<Rightarrow> c_struct" where
  "ctx_struct v = (if v = 1 then Bzip2_struct else if v = 2 then Brotli_struct else if v = 3 then Lz4_struct
     else if v = 4 then Snappy_struct else if v = 5 then Zstd_struct else if v = 8 then Xz_struct else Other_object)"

lemma holds_heap_type:
  "holds as_lz4 p w \<Longrightarrow> heap_type w p = Some Lz4_struct" "holds as_zstd p w \<Longrightarrow> heap_type w p = Some Zstd_struct"
  "holds as_xz p w \<Longrightarrow> heap_type w p = Some Xz_struct" "holds as_bzip2 p w \<Longrightarrow> heap_type w p = Some Bzip2_struct"
  "holds as_brotli p w \<Longrightarrow> heap_type w p = Some Brotli_struct" "holds as_snappy p w \<Longrightarrow> heap_type w p = Some Snappy_struct"
  unfolding holds_iff heap_type_def by (elim conjE exE; case_tac ob; simp)+

lemma heap_type_but: "heap_type w p = Some t \<Longrightarrow> heap_type w = (map_option struct_of \<circ> heap_but p w)(p \<mapsto> t)"
  by (auto simp: heap_type_def heap_but_def)

text \<open>A session over the heap whose context has a given struct type.\<close>

definition typed_session :: "c_struct \<Rightarrow> (int \<Rightarrow> 'l stream_op) \<Rightarrow> (int \<Rightarrow> 'l stream_op) \<Rightarrow> 'l stream_op \<Rightarrow> bool" where
  "typed_session t init step fin \<longleftrightarrow>
     (\<exists>owns. session init step fin wf_heap owns heap heap_but \<and> (\<forall>p w. owns p w \<longrightarrow> heap_type w p = Some t))"

lemma typed_session_facts:
  assumes t: "typed_session t init step fin" and w: "wf_heap w" and i: "init level s w = Inr (UNIZIP_OK, s1, w1)"
  shows "ensures (andthen (run_calls step cs s1 w1) (\<lambda>(rs, s, w). fin s w)) (\<lambda>(r, s', w'). heap w' = heap w)" (is ?clean)
    and "heap_but (ud s1) w1 = heap w \<and> heap_type w1 = (heap_type w)(ud s1 \<mapsto> t)" (is ?new)
    and "ensures (run_calls step cs s1 w1) (\<lambda>(rs, s2, w2). length rs = length cs \<and> ud s2 = ud s1 \<and>
      heap_but (ud s1) w2 = heap w \<and> heap_type w2 = heap_type w1)" (is ?calls)
proof -
  from t obtain owns where S: "session init step fin wf_heap owns heap heap_but"
    and owns: "\<And>p w. owns p w \<Longrightarrow> heap_type w p = Some t" unfolding typed_session_def by blast
  show ?clean by (rule session.session_clean [OF S w i])
  from session.init_owns [OF S w i] have o: "wf_heap w1" "owns (ud s1) w1" "heap_but (ud s1) w1 = heap w" by auto
  have ht: "heap_type w2 = (heap_type w)(ud s1 \<mapsto> t)" if "owns (ud s1) w2" "heap_but (ud s1) w2 = heap w" for w2
    using heap_type_but [OF owns [OF that(1)]] that(2) by (simp add: heap_type_def)
  then show ?new using o by simp
  show ?calls using o by (intro ensures_mono3 [OF session.run_owns [OF S o(1,2)]]) (simp add: ht)
qed

lemma context_typed:
  fixes init :: "int \<Rightarrow> 'l stream_op"
  assumes "context_session as init step fin" and "\<And>p (w :: 'l world). holds as p w \<Longrightarrow> heap_type w p = Some t"
  shows "typed_session t init step fin"
  using context_session.over_heap [OF assms(1)] assms(2) unfolding typed_session_def by blast

lemma handle_typed:
  fixes init :: "int \<Rightarrow> 'l stream_op"
  assumes "handle_session as handle live ok init step fin" and ok
    and "\<And>p (w :: 'l world). holds as p w \<Longrightarrow> heap_type w p = Some t"
  shows "typed_session t init step fin"
proof -
  have "session init step fin wf_heap (owns_handle as handle live) heap heap_but"
    using handle_session.over_heap [OF assms(1,2)] .
  moreover have "owns_handle as handle live p w \<Longrightarrow> heap_type w p = Some t" for p and w :: "'l world"
    using assms(3) [of p w] by (auto simp: owns_handle_def holds_def)
  ultimately show ?thesis unfolding typed_session_def by blast
qed

lemmas lz4_sessions_typed =
  context_typed [OF lz4_deflate.context_session_axioms holds_heap_type(1)]
  context_typed [OF lz4_inflate.context_session_axioms holds_heap_type(1)]

lemmas snappy_sessions_typed =
  context_typed [OF snappy_deflate.context_session_axioms holds_heap_type(6)]
  context_typed [OF snappy_inflate.context_session_axioms holds_heap_type(6)]

lemmas zstd_sessions_typed =
  handle_typed [OF zstd_deflate.handle_session_axioms _ holds_heap_type(2)]
  handle_typed [OF zstd_inflate.handle_session_axioms _ holds_heap_type(2)]

lemmas xz_sessions_typed =
  handle_typed [OF xz_deflate.handle_session_axioms _ holds_heap_type(3)]
  handle_typed [OF xz_inflate.handle_session_axioms _ holds_heap_type(3)]

lemmas bzip2_sessions_typed =
  handle_typed [OF bzip2_deflate.handle_session_axioms _ holds_heap_type(4)]
  handle_typed [OF bzip2_inflate.handle_session_axioms _ holds_heap_type(4)]

lemmas brotli_sessions_typed =
  handle_typed [OF brotli_deflate.handle_session_axioms _ holds_heap_type(5)]
  handle_typed [OF brotli_inflate.handle_session_axioms _ holds_heap_type(5)]

text \<open>
  The back ends whose sessions give back everything, and what their libraries document about
  the handles of direction \<open>d\<close>: bzip2 (1), Brotli (2), LZ4 (3), Snappy (4), Zstandard (5) and XZ (8).
\<close>

definition documented :: "'l platform \<Rightarrow> direction \<Rightarrow> int \<Rightarrow> bool" where
  "documented P d v \<longleftrightarrow> v \<in> {1, 2, 3, 4, 5, 8} \<and> (v = 1 \<longrightarrow> (\<exists>live. bz_coders (bzip2_of P) live)) \<and>
     (v = 2 \<longrightarrow> (\<exists>live. if d = Deflating then brotli_encoders (brotli_of P) live else brotli_decoders (brotli_of P) live)) \<and>
     (v = 5 \<longrightarrow> (\<exists>live. if d = Deflating then cstreams (zstd_of P) live else dstreams (zstd_of P) live)) \<and>
     (v = 8 \<longrightarrow> (\<exists>live. lzma_coders (lzma_of P) live))"

lemma documented_not_uadk: "documented P d v \<Longrightarrow> v \<noteq> CASE_UADK"
  by (auto simp: documented_def)

lemma back_end_session:
  assumes "documented P d (value_of g)" and "selected_ck P g = Inr ck"
    and "table_init d ck = Some init" "table_call d ck = Some step" "table_end d ck = Some fin"
  shows "typed_session (ctx_struct (value_of g)) init step fin"
proof -
  note defs = selected_ck_def alg_cks_def ck_defs basic_ck_def Let_def ctx_struct_def documented_def
  from assms(1) consider "value_of g = 1" | "value_of g = 2" | "value_of g = 3" | "value_of g = 4" | "value_of g = 5"
    | "value_of g = 8" by (auto simp: documented_def)
  then show ?thesis
    using assms by cases (cases d; auto simp: defs intro: lz4_sessions_typed snappy_sessions_typed zstd_sessions_typed xz_sessions_typed
        bzip2_sessions_typed brotli_sessions_typed)+
qed

section \<open>One-shot calls through the interface\<close>

text \<open>
  What the library of back end \<open>v\<close> promises of its one-shot functions: all but UADK (7), whose
  one-shot functions are loops over its streams.
\<close>

definition restores :: "'l platform \<Rightarrow> int \<Rightarrow> bool" where
  "restores P v \<longleftrightarrow> v \<in> {0, 1, 2, 3, 4, 5, 6, 8, 9} \<and>
     (v \<in> {0, 9} \<longrightarrow> restoring (zlib_enc (zlib_of P)) (zlib_dec (zlib_of P))) \<and>
     (v = 1 \<longrightarrow> bz_shot_codes (bzip2_of P) \<and> restoring (bzip2_enc (bzip2_of P)) (bzip2_dec (bzip2_of P))) \<and>
     (v = 2 \<longrightarrow> restoring (brotli_enc (brotli_of P)) (brotli_dec (brotli_of P))) \<and>
     (v = 3 \<longrightarrow> restoring (lz4_enc (lz4_of P)) (lz4_dec (lz4_of P))) \<and>
     (v = 4 \<longrightarrow> restoring (snappy_enc (snappy_of P)) (snappy_dec (snappy_of P))) \<and>
     (v = 5 \<longrightarrow> zstd_errors (zstd_of P) \<and> restoring (zstd_enc (zstd_of P)) (zstd_dec (zstd_of P))) \<and>
     (v = 6 \<longrightarrow> restoring (zip7_enc (sdk_of P)) (zip7_dec (sdk_of P))) \<and>
     (v = 8 \<longrightarrow> (\<exists>enc dec. lzma_one_shot (lzma_of P) enc dec \<and> restoring enc dec))"

text \<open>The bytes that the reported length leaves out: the properties in front of a 7-Zip stream.\<close>

definition uncounted :: "'l platform \<Rightarrow> int \<Rightarrow> uLong" where
  "uncounted P v = (if v = 6 then LZMA_PROPS_SIZE (sdk_of P) else 0)"

lemma back_end_shots:
  assumes "restores P (value_of g)" and ck: "selected_ck P g = Inr ck"
  obtains comp uncomp ok trusted enc dec where "compressCB ck = Some comp" "uncompressCB ck = Some uncomp"
    "one_shot ok (uncounted P (value_of g)) trusted enc dec comp uncomp" ok "restoring enc dec"
    "\<forall>cap len. value_of g \<noteq> 8 \<or> len \<noteq> cap \<longrightarrow> trusted cap len"
proof -
  note defs = selected_ck_def alg_cks_def ck_defs basic_ck_def Let_def
  from assms(1) consider "value_of g = 0" | "value_of g = 1" | "value_of g = 2" | "value_of g = 3" | "value_of g = 4"
    | "value_of g = 5" | "value_of g = 6" | "value_of g = 8" | "value_of g = 9" unfolding restores_def by blast
  then show thesis
  proof cases
    case 1
    with ck assms(1) zlib_shots.one_shot_axioms [of "zlib_of P"] show thesis
      by (intro that) (auto simp: restores_def uncounted_def defs)
  next
    case 2
    with ck assms(1) bzip2_shots.one_shot_axioms [of "bzip2_of P"] show thesis
      by (intro that) (auto simp: restores_def uncounted_def defs)
  next
    case 3
    with ck assms(1) brotli_shots.one_shot_axioms [of "brotli_of P"] show thesis
      by (intro that) (auto simp: restores_def uncounted_def defs)
  next
    case 4
    with ck assms(1) lz4_shots.one_shot_axioms [of "lz4_of P"] show thesis
      by (intro that) (auto simp: restores_def uncounted_def defs)
  next
    case 5
    with ck assms(1) snappy_shots.one_shot_axioms [of "snappy_of P"] show thesis
      by (intro that) (auto simp: restores_def uncounted_def defs)
  next
    case 6
    with ck assms(1) zstd_shots.one_shot_axioms [of "zstd_of P"] show thesis
      by (intro that) (auto simp: restores_def uncounted_def defs)
  next
    case 7
    with ck assms(1) zip7_shots.one_shot_axioms [of "sdk_of P"] show thesis
      by (intro that) (auto simp: restores_def uncounted_def defs)
  next
    case 8
    with assms(1) obtain enc dec where "lzma_one_shot (lzma_of P) enc dec" "restoring enc dec" by (auto simp: restores_def)
    with 8 ck xz_shots.one_shot_axioms [of "lzma_of P" enc dec] show thesis
      by (intro that [where trusted = "\<lambda>cap len. len \<noteq> cap"]) (auto simp: uncounted_def defs)
  next
    case 9
    with ck assms(1) gzip_shots.one_shot_axioms [of "zlib_of P"] show thesis
      by (intro that) (auto simp: restores_def uncounted_def defs)
  qed
qed

lemma api_compress:
  assumes "unizip_compress P dest destLen source n g w = Inr (UNIZIP_OK, len, g1, w1)"
  obtains ck w0 where "check_algorithm P g w = Inr (0, g1, w0)" "selected_ck P g1 = Inr ck"
    "\<forall>comp. compressCB ck = Some comp \<longrightarrow> comp dest destLen source n w0 = Inr (UNIZIP_OK, len, w1)"
proof -
  obtain g' w0 where c: "check_algorithm P g w = Inr (0, g', w0)" and st: "settled (aarch64 P) g'"
    and r: "andthen (invoke (compressCB (alg_cks P ! nat (value_of g')))) (\<lambda>f. andthen (f dest destLen source n w0)
      (\<lambda>(ret, len, w). Inr (ret, len, g', w))) = Inr (UNIZIP_OK, len, g1, w1)"
    by (rule checked_success [OF assms [unfolded unizip_compress_def]]) auto
  then have "g' = g1" by (auto simp: andthen_eq_Inr)
  with r have "\<forall>comp. compressCB (alg_cks P ! nat (value_of g1)) = Some comp \<longrightarrow>
      comp dest destLen source n w0 = Inr (UNIZIP_OK, len, w1)" by (auto simp: invoke_def andthen_eq_Inr)
  with that c selected_settled [OF st] \<open>g' = g1\<close> show thesis by simp
qed

lemma api_uncompress:
  assumes "settled (aarch64 P) g" and "selected_ck P g = Inr ck" and "uncompressCB ck = Some uncomp"
  shows "unizip_uncompress P dest destLen source n g w =
    andthen (uncomp dest destLen source n w) (\<lambda>(ret, len, w). Inr (ret, len, g, w))"
proof -
  have "alg_cks P ! nat (value_of g) = ck" using selected_settled [OF assms(1)] assms(2) by simp
  then show ?thesis using assms(3) by (simp add: unizip_uncompress_def checked_settled [OF assms(1)] invoke_def)
qed

section \<open>The data of stream sessions\<close>

text \<open>\<open>run_api\<close> with what each call consumed and produced; \<open>run_io\<close> is the same on one back end.\<close>

fun run_api_io ::
  "(int \<Rightarrow> 'l api) \<Rightarrow> (refill \<times> int) list \<Rightarrow> unizip_stream \<Rightarrow> globals \<Rightarrow> 'l world \<Rightarrow>
   (int list \<times> byte list \<times> byte list \<times> unizip_stream \<times> globals \<times> 'l world) res" where
  "run_api_io step [] s g w = Inr ([], [], [], s, g, w)"
| "run_api_io step ((rf, f) # cs) s g w =
     (let s0 = apply_refill rf s; w0 = refill_world rf w
      in andthen (step f s0 g w0) (\<lambda>(r, s', g', w').
         andthen (run_api_io step cs s' g' w') (\<lambda>(rs, us, vs, s2, g2, w2).
         Inr (r # rs, consumed s0 w0 s' @ us, produced s0 s' w' @ vs, s2, g2, w2))))"

lemma run_api_io_settled:
  assumes "settled (aarch64 P) g" and "selected_ck P g = Inr ck" and "table_call d ck = Some step"
  shows "run_api_io (api_call P d) cs s g w = andthen (run_io step cs s w) (\<lambda>(rs, us, vs, s, w). Inr (rs, us, vs, s, g, w))"
proof (induction cs arbitrary: s w)
  case Nil
  then show ?case by simp
next
  case (Cons c cs)
  obtain rf f where c: "c = (rf, f)" by (cases c)
  show ?case
    unfolding c run_api_io.simps run_io.simps api_on_stream(2) Let_def
      on_stream_settled [where field = "table_call d" and f = step, OF assms] stream_result_def
    by (auto simp: andthen_def Cons [unfolded api_on_stream(2)] split: sum.splits)
qed

text \<open>
  The back ends that hand their data to the library as they come, zlib (0), bzip2 (1), Brotli (2),
  XZ (8) and gzip (9), and what their libraries promise of the data of a stream of direction \<open>d\<close>.
\<close>

definition transcoding :: "'l platform \<Rightarrow> (byte list \<Rightarrow> byte list option) \<Rightarrow> direction \<Rightarrow> int \<Rightarrow> bool" where
  "transcoding P dec d v \<longleftrightarrow> v \<in> {0, 1, 2, 8, 9} \<and>
     (v \<in> {0, 9} \<longrightarrow> (\<exists>codes. if d = Deflating then z_encodes (zlib_of P) dec codes else z_decodes (zlib_of P) dec codes)) \<and>
     (v = 1 \<longrightarrow> (\<exists>codes. if d = Deflating then bz_encodes (bzip2_of P) dec codes else bz_decodes (bzip2_of P) dec codes)) \<and>
     (v = 2 \<longrightarrow> (\<exists>codes. if d = Deflating then brotli_encodes (brotli_of P) dec codes else brotli_decodes (brotli_of P) dec codes)) \<and>
     (v = 8 \<longrightarrow> (\<exists>codes. if d = Deflating then lzma_encodes (lzma_of P) dec codes else lzma_decodes (lzma_of P) dec codes))"

text \<open>A table implements the streaming interface in one direction.\<close>

definition streams :: "(byte list \<Rightarrow> byte list \<Rightarrow> bool) \<Rightarrow> (int \<Rightarrow> 'l stream_op) \<Rightarrow> (int \<Rightarrow> 'l stream_op) \<Rightarrow> bool" where
  "streams complete init step \<longleftrightarrow> (\<exists>ok inv. ok \<and> streaming ok complete init step inv)"

lemma streamsI: "streaming ok complete init step coding \<Longrightarrow> ok \<Longrightarrow> streams complete init step"
  unfolding streams_def by blast

lemmas coders_stream =
  zlib_encoding.streaming_axioms [THEN streamsI] zlib_decoding.streaming_axioms [THEN streamsI]
  gzip_encoding.streaming_axioms [THEN streamsI] gzip_decoding.streaming_axioms [THEN streamsI]
  bzip2_encoding.streaming_axioms [THEN streamsI] bzip2_decoding.streaming_axioms [THEN streamsI]
  brotli_encoder.streaming_axioms [THEN streamsI] brotli_decoder.streaming_axioms [THEN streamsI]
  xz_encoding.streaming_axioms [THEN streamsI] xz_decoding.streaming_axioms [THEN streamsI]

lemma transcodes_fun: "transcodes dec Deflating = (\<lambda>xs ys. dec ys = Some xs)" "transcodes dec Inflating = (\<lambda>xs ys. dec xs = Some ys)"
  by (simp_all add: fun_eq_iff)

lemma back_end_streams:
  assumes "transcoding P dec d (value_of g)" and "selected_ck P g = Inr ck" and "table_init d ck = Some init" "table_call d ck = Some step"
  shows "streams (transcodes dec d) init step"
proof -
  note defs = selected_ck_def alg_cks_def ck_defs basic_ck_def Let_def transcoding_def transcodes_fun
  from assms(1) consider "value_of g = 0" | "value_of g = 1" | "value_of g = 2" | "value_of g = 8" | "value_of g = 9"
    by (auto simp: transcoding_def)
  then show ?thesis using assms by cases (cases d; auto simp: defs intro: coders_stream)+
qed

text \<open>A session through the interface that runs to the end of the stream.\<close>

lemma api_session_transcodes:
  assumes lib: "transcoding P dec d (value_of g1)" and i: "api_init P d level s g w = Inr (UNIZIP_OK, s1, g1, w1)"
    and rs: "set rs \<subseteq> {UNIZIP_OK}" and run: "run_api_io (api_call P d) cs s1 g1 w1 = Inr (rs @ [UNIZIP_STREAM_END], xs, ys, s2, g2, w2)"
  shows "transcodes dec d xs ys"
proof (rule api_session [OF i, of "[]"])
  fix ck init step fin w0
  assume a: "check_algorithm P g w = Inr (0, g1, w0)" "selected_ck P g1 = Inr ck"
    "table_init d ck = Some init" "table_call d ck = Some step" "table_end d ck = Some fin"
    "init level s w0 = Inr (UNIZIP_OK, s1, w1)"
  from back_end_streams [OF lib a(2-4)] obtain ok inv where S: "streaming ok (transcodes dec d) init step inv" ok
    unfolding streams_def by blast
  from run have "run_io step cs s1 w1 = Inr (rs @ [UNIZIP_STREAM_END], xs, ys, s2, w2)"
    unfolding run_api_io_settled [OF check_settles [OF a(1)] a(2,4)] by (auto simp: andthen_eq_Inr)
  from streaming.session_streams [OF S a(6) rs this] show "transcodes dec d xs ys" .
qed

end
