(* ===== verification/Pools.thy ===== *)
theory Pools
  imports Interface
begin

text \<open>
  What lets any number of streams of one back end be open at once.  The locale \<open>shared\<close> is the
  contract: opening a stream takes a context that belongs to no other, and calling, ending or
  resetting it touches nothing else.  \<open>pool\<close> gives it from laws about one stream, the object of its
  context in the heap and its handles of the library; it is interpreted for the six back ends whose
  sessions are clean.
\<close>

section \<open>Resets\<close>

text \<open>A reset that succeeds has ended the stream and initialised it again, and may differ in what it leaves in the stream object.\<close>

definition restarts :: "(int \<Rightarrow> 'l stream_op) \<Rightarrow> 'l stream_op \<Rightarrow> 'l stream_op \<Rightarrow> bool" where
  "restarts init fin reset \<longleftrightarrow> (\<forall>s w s' w'. reset s w = Inr (UNIZIP_OK, s', w') \<longrightarrow>
     (\<exists>s0 r s1 w1 level s2. ud s0 = ud s \<and> fin s0 w = Inr (r, s1, w1) \<and> init level s1 w1 = Inr (UNIZIP_OK, s2, w') \<and> ud s2 = ud s'))"

lemma restartsD:
  assumes "restarts init fin reset" and "reset s w = Inr (UNIZIP_OK, s', w')"
  shows "\<exists>s0 r s1 w1 level s2. ud s0 = ud s \<and> fin s0 w = Inr (r, s1, w1) \<and> init level s1 w1 = Inr (UNIZIP_OK, s2, w') \<and> ud s2 = ud s'"
  using assms unfolding restarts_def by blast

lemma resettable_restarts:
  assumes "resettable init step fin ok owns whole rest reset prep lvl"
  shows "restarts init fin reset"
  unfolding restarts_def
proof (intro allI impI)
  fix s w s' w'
  assume "reset s w = Inr (UNIZIP_OK, s', w')"
  then have "andthen (fin (prep s) w) (\<lambda>(r, s', w'). init (lvl s) s' w') = Inr (UNIZIP_OK, s', w')"
    by (simp add: resettable.reset_end_init [OF assms])
  then show "\<exists>s0 r s1 w1 level s2. ud s0 = ud s \<and> fin s0 w = Inr (r, s1, w1) \<and> init level s1 w1 = Inr (UNIZIP_OK, s2, w') \<and> ud s2 = ud s'"
    using resettable.prep_ud [OF assms, of s] by (fastforce simp: andthen_eq_Inr)
qed

section \<open>What streams that live side by side rely on\<close>

text \<open>
  \<open>I D H w\<close>: the contexts of the open streams are those in the domain of \<open>D\<close>, which gives their
  directions, and the rest of the heap of \<open>w\<close> is \<open>H\<close>.  \<open>t\<close> is the type of the contexts.
\<close>

locale shared =
  fixes init step :: "direction \<Rightarrow> int \<Rightarrow> 'l stream_op"
    and fin reset :: "direction \<Rightarrow> 'l stream_op"
    and I :: "(ptr \<rightharpoonup> direction) \<Rightarrow> (ptr \<rightharpoonup> obj) \<Rightarrow> 'l world \<Rightarrow> bool"
    and t :: c_struct
    and ok :: bool
  assumes begins: "ok \<Longrightarrow> wf_heap w \<Longrightarrow> I Map.empty (heap w) w"
    and opens: "I D H w \<Longrightarrow> init d level s w = Inr (UNIZIP_OK, s', w') \<Longrightarrow>
      D (ud s') = None \<and> I (D(ud s' \<mapsto> d)) H w' \<and> frame (ud s') w w'"
    and calls: "I D H w \<Longrightarrow> D (ud s) = Some d \<Longrightarrow>
      ensures (step d f s w) (\<lambda>(r, s', w'). ud s' = ud s \<and> I D H w' \<and> frame (ud s) w w')"
    and closes: "I D H w \<Longrightarrow> D (ud s) = Some d \<Longrightarrow>
      ensures (fin d s w) (\<lambda>(r, s', w'). I (D(ud s := None)) H w' \<and> frame (ud s) w w')"
    and resets: "restarts (init d) (fin d) (reset d)"
    and memory: "I D H w \<Longrightarrow> I D H (w\<lparr>bytes := m\<rparr>)"
    and owns: "I D H w \<Longrightarrow> wf_heap w \<and> heap w |` (- dom D) = H \<and> (\<forall>p \<in> dom D. heap_type w p = Some t)"
begin

lemma refills: "I D H w \<Longrightarrow> I D H (refill_world rf w)"
  by (cases rf) (simp_all add: memory)

text \<open>A stream that is reset may move to another context, which belongs to no other stream.\<close>

lemma resets_own:
  assumes i: "I D H w" "D (ud s) = Some d" and r: "reset d s w = Inr (UNIZIP_OK, s', w')"
  shows "(ud s' = ud s \<or> D (ud s') = None) \<and> I (D(ud s := None, ud s' \<mapsto> d)) H w' \<and>
    (\<forall>p. p \<noteq> ud s \<longrightarrow> p \<noteq> ud s' \<longrightarrow> heap w' p = heap w p)"
proof -
  obtain s0 r s1 w1 level s2 where 1: "ud s0 = ud s" "fin d s0 w = Inr (r, s1, w1)"
    "init d level s1 w1 = Inr (UNIZIP_OK, s2, w')" "ud s2 = ud s'" using restartsD [OF resets r] by blast
  have "I (D(ud s := None)) H w1 \<and> frame (ud s) w w1" using closes [of D H w s0 d] i 1(1,2) by simp
  moreover from opens [OF conjunct1 [OF this] 1(3)] 1(4)
  have "(D(ud s := None)) (ud s') = None \<and> I (D(ud s := None, ud s' \<mapsto> d)) H w' \<and> frame (ud s') w1 w'" by simp
  ultimately show ?thesis by (auto simp: frame_def split: if_splits)
qed

end

section \<open>From one stream to many\<close>

text \<open>The handles of the library that belong to the context at \<open>p\<close>.\<close>

definition held :: "(obj \<Rightarrow> 'c option) \<Rightarrow> (direction \<Rightarrow> ptr \<Rightarrow> 'c \<Rightarrow> 'h set) \<Rightarrow> direction \<Rightarrow> ptr \<Rightarrow> 'l world \<Rightarrow> 'h set" where
  "held as handles d p w = (case load as p w of Inl _ \<Rightarrow> {} | Inr c \<Rightarrow> handles d p c)"

lemma held_frame: "frame p w w' \<Longrightarrow> q \<noteq> p \<Longrightarrow> held as handles d q w' = held as handles d q w \<and> holds as q w' = holds as q w"
  by (simp add: held_def holds_def load_def deref_def frame_def)

lemma held_bytes [simp]: "held as handles d p (w\<lparr>bytes := m\<rparr>) = held as handles d p w"
  by (simp add: held_def load_def deref_def)

text \<open>The heap outside of the contexts.\<close>

lemma rest_opened: "frame p w w' \<Longrightarrow> heap w p = None \<Longrightarrow> D p = None \<Longrightarrow> heap w' |` (- dom (D(p \<mapsto> d))) = heap w |` (- dom D)"
  by (auto simp: restrict_map_def frame_def fun_eq_iff)

lemma rest_called: "frame p w w' \<Longrightarrow> D p = Some d \<Longrightarrow> heap w' |` (- dom D) = heap w |` (- dom D)"
  by (rule ext) (auto simp: restrict_map_def frame_def)

lemma rest_closed: "frame p w w' \<Longrightarrow> heap w' p = None \<Longrightarrow> D p = Some d \<Longrightarrow> heap w' |` (- dom (D(p := None))) = heap w |` (- dom D)"
  by (rule ext) (auto simp: restrict_map_def frame_def)

text \<open>Every open context is live, its handles exist, and no two contexts have one in common.\<close>

definition pooled ::
  "(obj \<Rightarrow> 'c option) \<Rightarrow> (direction \<Rightarrow> ptr \<Rightarrow> 'c \<Rightarrow> 'h set) \<Rightarrow> ('l \<Rightarrow> 'h set) \<Rightarrow>
   (ptr \<rightharpoonup> direction) \<Rightarrow> (ptr \<rightharpoonup> obj) \<Rightarrow> 'l world \<Rightarrow> bool" where
  "pooled as handles live D H w \<longleftrightarrow> wf_heap w \<and> heap w |` (- dom D) = H \<and>
     (\<forall>p d. D p = Some d \<longrightarrow> holds as p w \<and> held as handles d p w \<subseteq> live (lib w)) \<and>
     (\<forall>p d q e. D p = Some d \<longrightarrow> D q = Some e \<longrightarrow> p \<noteq> q \<longrightarrow> held as handles d p w \<inter> held as handles e q w = {})"

locale pool =
  fixes as :: "obj \<Rightarrow> 'c option"
    and t :: c_struct
    and handles :: "direction \<Rightarrow> ptr \<Rightarrow> 'c \<Rightarrow> 'h set"
    and live :: "'l \<Rightarrow> 'h set"
    and init step :: "direction \<Rightarrow> int \<Rightarrow> 'l stream_op"
    and fin reset :: "direction \<Rightarrow> 'l stream_op"
    and ok :: bool
  assumes init_new: "ok \<Longrightarrow> wf_heap w \<Longrightarrow> init d level s w = Inr (UNIZIP_OK, s', w') \<Longrightarrow>
      acquires as (ud s') w w' \<and> wf_heap w' \<and> held as handles d (ud s') w' \<inter> live (lib w) = {} \<and>
      live (lib w') = live (lib w) \<union> held as handles d (ud s') w'"
    and step_own: "ok \<Longrightarrow> holds as (ud s) w \<Longrightarrow> held as handles d (ud s) w \<subseteq> live (lib w) \<Longrightarrow>
      ensures (step d f s w) (\<lambda>(r, s', w'). ud s' = ud s \<and> keeps as (ud s) w w' \<and>
        live (lib w') = live (lib w) \<and> held as handles d (ud s) w' = held as handles d (ud s) w)"
    and fin_own: "ok \<Longrightarrow> wf_heap w \<Longrightarrow> holds as (ud s) w \<Longrightarrow> held as handles d (ud s) w \<subseteq> live (lib w) \<Longrightarrow>
      ensures (fin d s w) (\<lambda>(r, s', w'). wf_heap w' \<and> releases (ud s) w w' \<and>
        live (lib w') = live (lib w) - held as handles d (ud s) w)"
    and reset_parts: "restarts (init d) (fin d) (reset d)"
    and struct_type: "holds as p w \<Longrightarrow> heap_type w p = Some t"
begin

lemma pooled_open:
  assumes ok: ok and p: "pooled as handles live D H w" and i: "init d level s w = Inr (UNIZIP_OK, s', w')"
  shows "D (ud s') = None \<and> pooled as handles live (D(ud s' \<mapsto> d)) H w' \<and> frame (ud s') w w'"
proof -
  let ?p = "ud s'"
  have w: "wf_heap w" using p by (simp add: pooled_def)
  note new = init_new [OF ok w i]
  have f: "frame ?p w w'" and fresh: "heap w ?p = None" and h: "holds as ?p w'" using new by (simp_all add: acquires_def)
  have D: "D ?p = None"
  proof (rule ccontr)
    assume "D ?p \<noteq> None"
    then have "holds as ?p w" using p by (auto simp: pooled_def)
    with fresh show False by (simp add: holds_iff)
  qed
  have old: "held as handles e q w' = held as handles e q w \<and> holds as q w' = holds as q w \<and> q \<noteq> ?p" if "D q = Some e'" for q e e'
  proof -
    have "q \<noteq> ?p" using that D by auto
    with held_frame [OF f this, of as handles e] show ?thesis by simp
  qed
  have "heap w' |` (- dom (D(?p \<mapsto> d))) = H"
    using p rest_opened [where D = D, OF f fresh D] by (simp add: pooled_def)
  moreover have "held as handles e q w' \<inter> held as handles d ?p w' = {}" if "D q = Some e" for q e
  proof -
    have "held as handles e q w \<subseteq> live (lib w)" using p that by (auto simp: pooled_def)
    then show ?thesis using new old [OF that] by auto
  qed
  moreover have "holds as q w' \<and> held as handles e q w' \<subseteq> live (lib w')" if "D q = Some e" for q e
  proof -
    have "holds as q w" "held as handles e q w \<subseteq> live (lib w)" using p that by (simp_all add: pooled_def)
    then show ?thesis using new old [OF that, of e] by auto
  qed
  moreover have "held as handles e q w' \<inter> held as handles e' q' w' = {}"
    if "D q = Some e" "D q' = Some e'" "q \<noteq> q'" for q q' e e'
  proof -
    have "held as handles e q w \<inter> held as handles e' q' w = {}" using p that unfolding pooled_def by blast
    then show ?thesis using old [OF that(1), of e] old [OF that(2), of e'] by simp
  qed
  ultimately show ?thesis using new D h f unfolding pooled_def by (auto simp: Int_commute split: if_splits)
qed

lemma pooled_call:
  assumes ok: ok and p: "pooled as handles live D H w" and d: "D (ud s) = Some d"
  shows "ensures (step d f s w) (\<lambda>(r, s', w'). ud s' = ud s \<and> pooled as handles live D H w' \<and> frame (ud s) w w')"
proof -
  have own: "holds as (ud s) w" "held as handles d (ud s) w \<subseteq> live (lib w)" and w: "wf_heap w" using p d by (simp_all add: pooled_def)
  show ?thesis
  proof (rule ensures_mono3 [OF step_own [OF ok own]])
    fix r s' w'
    assume *: "ud s' = ud s \<and> keeps as (ud s) w w' \<and> live (lib w') = live (lib w) \<and>
      held as handles d (ud s) w' = held as handles d (ud s) w"
    then have f: "frame (ud s) w w'" and h: "holds as (ud s) w'" by (simp_all add: keeps_def)
    have same: "held as handles e q w' = held as handles e q w \<and> holds as q w' = holds as q w" if "D q = Some e" for q e
      using held_frame [OF f, of q as handles e] * h own(1) that d by (cases "q = ud s") auto
    have "heap w' |` (- dom D) = H"
      using p rest_called [where D = D, OF f d] by (simp add: pooled_def)
    then show "ud s' = ud s \<and> pooled as handles live D H w' \<and> frame (ud s) w w'"
      using p * f same keeps_wf [OF w own(1)] unfolding pooled_def by auto
  qed
qed

lemma pooled_close:
  assumes ok: ok and p: "pooled as handles live D H w" and d: "D (ud s) = Some d"
  shows "ensures (fin d s w) (\<lambda>(r, s', w'). pooled as handles live (D(ud s := None)) H w' \<and> frame (ud s) w w')"
proof -
  have own: "holds as (ud s) w" "held as handles d (ud s) w \<subseteq> live (lib w)" and w: "wf_heap w" using p d by (simp_all add: pooled_def)
  show ?thesis
  proof (rule ensures_mono3 [OF fin_own [OF ok w own]])
    fix r :: int and s' :: unizip_stream and w'
    assume *: "wf_heap w' \<and> releases (ud s) w w' \<and> live (lib w') = live (lib w) - held as handles d (ud s) w"
    then have f: "frame (ud s) w w'" and gone: "heap w' (ud s) = None" by (simp_all add: releases_def)
    have same: "held as handles e q w' = held as handles e q w \<and> holds as q w' = holds as q w" if "q \<noteq> ud s" for q e
      using held_frame [OF f that, of as handles e] by simp
    have "heap w' |` (- dom (D(ud s := None))) = H"
      using p rest_closed [where D = D, OF f gone d] by (simp add: pooled_def)
    moreover have "holds as q w' \<and> held as handles e q w' \<subseteq> live (lib w')" if "D q = Some e" "q \<noteq> ud s" for q e
    proof -
      have "holds as q w" "held as handles e q w \<subseteq> live (lib w)" using p that(1) by (simp_all add: pooled_def)
      moreover have "held as handles e q w \<inter> held as handles d (ud s) w = {}" using p that d unfolding pooled_def by blast
      ultimately show ?thesis using * same [OF that(2), of e] by auto
    qed
    moreover have "held as handles e q w' \<inter> held as handles e' q' w' = {}"
      if "D q = Some e" "D q' = Some e'" "q \<noteq> q'" "q \<noteq> ud s" "q' \<noteq> ud s" for q q' e e'
    proof -
      have "held as handles e q w \<inter> held as handles e' q' w = {}" using p that(1-3) unfolding pooled_def by blast
      then show ?thesis using same [OF that(4), of e] same [OF that(5), of e'] by simp
    qed
    ultimately show "pooled as handles live (D(ud s := None)) H w' \<and> frame (ud s) w w'"
      using * f unfolding pooled_def by (simp add: fun_upd_apply)
  qed
qed

end

sublocale pool \<subseteq> shared init step fin reset "\<lambda>D H w. ok \<and> pooled as handles live D H w" t ok
proof unfold_locales
  fix D H d level s s' f m and w w' :: "'l world"
  show "ok \<Longrightarrow> wf_heap w \<Longrightarrow> ok \<and> pooled as handles live Map.empty (heap w) w" by (simp add: pooled_def restrict_map_def)
  show "ok \<and> pooled as handles live D H w \<Longrightarrow> ok \<and> pooled as handles live D H (w\<lparr>bytes := m\<rparr>)" by (simp add: pooled_def)
  show "ok \<and> pooled as handles live D H w \<Longrightarrow> wf_heap w \<and> heap w |` (- dom D) = H \<and> (\<forall>p \<in> dom D. heap_type w p = Some t)"
    by (auto simp: pooled_def intro: struct_type)
  show "restarts (init d) (fin d) (reset d)" by (rule reset_parts)
  show "ok \<and> pooled as handles live D H w \<Longrightarrow> init d level s w = Inr (UNIZIP_OK, s', w') \<Longrightarrow>
      D (ud s') = None \<and> (ok \<and> pooled as handles live (D(ud s' \<mapsto> d)) H w') \<and> frame (ud s') w w'"
    using pooled_open by blast
qed (simp_all add: pooled_call pooled_close)

section \<open>The back ends\<close>

text \<open>One thing for each direction.\<close>

fun both :: "'a \<Rightarrow> 'a \<Rightarrow> direction \<Rightarrow> 'a" where
  "both x y Deflating = x"
| "both x y Inflating = y"

lemma held_load: "load as p w = Inr c \<Longrightarrow> held as handles d p w = handles d p c"
  by (simp add: held_def)

lemma context_pool:
  assumes 1: "context_session as i1 s1 f1" and 2: "context_session as i2 s2 f2"
    and r: "restarts i1 f1 r1" "restarts i2 f2 r2" and t: "\<And>p (w :: 'l world). holds as p w \<Longrightarrow> heap_type w p = Some t"
  shows "pool as t (\<lambda>_ _ _. {} :: unit set) (\<lambda>_ :: 'l. {}) (both i1 i2) (both s1 s2) (both f1 f2) (both r1 r2) True"
proof -
  have none: "held as (\<lambda>_ _ _. {} :: unit set) d p w = {}" for d p w by (simp add: held_def split: sum.split)
  have C: "context_session as (both i1 i2 d) (both s1 s2 d) (both f1 f2 d)" "restarts (both i1 i2 d) (both f1 f2 d) (both r1 r2 d)" for d
    using 1 2 r by (cases d; simp)+
  show ?thesis
    by unfold_locales (simp_all add: none C(2) t context_session.init_acquires [OF C(1)] context_session.step_keeps [OF C(1)]
        context_session.fin_frees [OF C(1)])
qed

lemma handle_pool:
  fixes live :: "'l \<Rightarrow> 'h set"
  assumes 1: "handle_session as h1 live ok1 i1 s1 f1" and 2: "handle_session as h2 live ok2 i2 s2 f2"
    and r: "restarts i1 f1 r1" "restarts i2 f2 r2" and t: "\<And>p (w :: 'l world). holds as p w \<Longrightarrow> heap_type w p = Some t"
  shows "pool as t (both (\<lambda>p c. {h1 p c}) (\<lambda>p c. {h2 p c})) live (both i1 i2) (both s1 s2) (both f1 f2) (both r1 r2) (ok1 \<and> ok2)"
proof -
  let ?h = "both h1 h2" and ?H = "both (\<lambda>p c. {h1 p c}) (\<lambda>p c. {h2 p c})"
  have H: "?H d p c = {?h d p c}" for d p c by (cases d) simp_all
  have C: "handle_session as (?h d) live (both ok1 ok2 d) (both i1 i2 d) (both s1 s2 d) (both f1 f2 d)"
    "restarts (both i1 i2 d) (both f1 f2 d) (both r1 r2 d)" for d
    using 1 2 r by (cases d; simp)+
  show ?thesis
  proof unfold_locales
    fix w w' d level s s' f
    assume "ok1 \<and> ok2"
    then have ok: "both ok1 ok2 d" by (cases d) simp_all
    show "acquires as (ud s') w w' \<and> wf_heap w' \<and> held as ?H d (ud s') w' \<inter> live (lib w) = {} \<and>
        live (lib w') = live (lib w) \<union> held as ?H d (ud s') w'"
      if i: "wf_heap w" "both i1 i2 d level s w = Inr (UNIZIP_OK, s', w')"
    proof -
      obtain c where "acquires as (ud s') w w'" "wf_heap w'" "load as (ud s') w' = Inr c" "?h d (ud s') c \<notin> live (lib w)"
        "live (lib w') = insert (?h d (ud s') c) (live (lib w))"
        using handle_session.init_acquires [OF C(1) ok i] by blast
      then show ?thesis by (simp add: held_load H)
    qed
    show "ensures (both s1 s2 d f s w) (\<lambda>(r, s', w'). ud s' = ud s \<and> keeps as (ud s) w w' \<and>
        live (lib w') = live (lib w) \<and> held as ?H d (ud s) w' = held as ?H d (ud s) w)"
      if own: "holds as (ud s) w" and l: "held as ?H d (ud s) w \<subseteq> live (lib w)"
    proof -
      obtain c where c: "load as (ud s) w = Inr c" using own by (auto simp: holds_def)
      with l have "?h d (ud s) c \<in> live (lib w)" by (simp add: held_load H)
      from handle_session.step_keeps [OF C(1) ok c this] show ?thesis
        by (rule ensures_mono3) (auto simp: held_load H c)
    qed
    show "ensures (both f1 f2 d s w) (\<lambda>(r, s', w'). wf_heap w' \<and> releases (ud s) w w' \<and>
        live (lib w') = live (lib w) - held as ?H d (ud s) w)"
      if wf: "wf_heap w" and own: "holds as (ud s) w" and l: "held as ?H d (ud s) w \<subseteq> live (lib w)"
    proof -
      obtain c where c: "load as (ud s) w = Inr c" using own by (auto simp: holds_def)
      with l have "?h d (ud s) c \<in> live (lib w)" by (simp add: held_load H)
      from handle_session.fin_frees [OF C(1) ok wf c this] show ?thesis
        by (rule ensures_mono3) (simp add: held_load H c)
    qed
  qed (simp_all add: C(2) t)
qed

text \<open>Snappy and Brotli reset the counters of the stream in their initialisation and not in their reset.\<close>

lemma reset_shape:
  assumes "andthen e (\<lambda>(_, w). let (p, w) = alloc w; strm = s\<lparr>ud := p\<rparr>
     in if ud strm = NULL_ptr then Inr (UNIZIP_MEM_ERROR, strm, w)
        else andthen (ini strm w) (\<lambda>(ret, w). Inr (ret, strm, w))) = Inr (UNIZIP_OK, s', w')"
  obtains r w1 p w2 where "e = Inr (r, w1)" "alloc w1 = (p, w2)" "p \<noteq> 0" "ini (s\<lparr>ud := p\<rparr>) w2 = Inr (UNIZIP_OK, w')" "s' = s\<lparr>ud := p\<rparr>"
proof -
  obtain r w1 where e: "e = Inr (r, w1)" using assms by (auto simp: andthen_eq_Inr)
  obtain p w2 where "alloc w1 = (p, w2)" by fastforce
  with assms e that show thesis by (auto simp: andthen_eq_Inr Let_def split: if_splits)
qed

lemma snappy_restarts:
  "restarts (deflateInitCB_snappy L) deflateEndCB_snappy (deflateResetCB_snappy L)" (is ?deflate)
  "restarts (\<lambda>level. inflateInitCB_snappy L) inflateEndCB_snappy (inflateResetCB_snappy L)" (is ?inflate)
proof -
  show ?deflate
    unfolding restarts_def
  proof (intro allI impI)
    fix s s' and w w' :: "'a world"
    assume "deflateResetCB_snappy L s w = Inr (UNIZIP_OK, s', w')"
    then obtain r w1 p w2 where "snappy_deflateEnd (ud s) w = Inr (r, w1)" "snappy_allocate L w1 = (p, w2)" "p \<noteq> 0"
      "snappy_deflateInit p (compression_flag s) w2 = Inr (UNIZIP_OK, w')" "s' = s\<lparr>ud := p\<rparr>"
      unfolding deflateResetCB_snappy_def by (rule reset_shape) simp
    then have "ud s = ud s \<and> deflateEndCB_snappy s w = Inr (r, resetSnappy s, w1) \<and>
      deflateInitCB_snappy L (compression_flag s) (resetSnappy s) w1 =
        Inr (UNIZIP_OK, resetSnappy ((resetSnappy s)\<lparr>ud := p, compression_flag := compression_flag s\<rparr>), w') \<and>
      ud (resetSnappy ((resetSnappy s)\<lparr>ud := p, compression_flag := compression_flag s\<rparr>)) = ud s'"
      by (simp add: deflateEndCB_snappy_def deflateInitCB_snappy_def Let_def resetSnappy_def)
    then show "\<exists>s0 r s1 w1 level s2. ud s0 = ud s \<and> deflateEndCB_snappy s0 w = Inr (r, s1, w1) \<and>
        deflateInitCB_snappy L level s1 w1 = Inr (UNIZIP_OK, s2, w') \<and> ud s2 = ud s'" by blast
  qed
  show ?inflate
    unfolding restarts_def
  proof (intro allI impI)
    fix s s' and w w' :: "'b world"
    assume "inflateResetCB_snappy L s w = Inr (UNIZIP_OK, s', w')"
    then obtain r w1 p w2 where "snappy_inflateEnd (ud s) w = Inr (r, w1)" "snappy_allocate L w1 = (p, w2)" "p \<noteq> 0"
      "snappy_inflateInit p w2 = Inr (UNIZIP_OK, w')" "s' = s\<lparr>ud := p\<rparr>"
      unfolding inflateResetCB_snappy_def by (rule reset_shape) simp
    then have "ud s = ud s \<and> inflateEndCB_snappy s w = Inr (r, resetSnappy s, w1) \<and>
      (\<exists>s2. inflateInitCB_snappy L (resetSnappy s) w1 = Inr (UNIZIP_OK, s2, w') \<and> ud s2 = ud s')"
      by (simp add: inflateEndCB_snappy_def inflateInitCB_snappy_def Let_def resetSnappy_def)
    then show "\<exists>s0 r s1 w1 level s2. ud s0 = ud s \<and> inflateEndCB_snappy s0 w = Inr (r, s1, w1) \<and>
        inflateInitCB_snappy L s1 w1 = Inr (UNIZIP_OK, s2, w') \<and> ud s2 = ud s'" by blast
  qed
qed

lemma brotli_restarts:
  "restarts (deflateInitCB_brotli L) (deflateEndCB_brotli L) (deflateResetCB_brotli L)" (is ?deflate)
  "restarts (\<lambda>level. inflateInitCB_brotli L) (inflateEndCB_brotli L) (inflateResetCB_brotli L)" (is ?inflate)
proof -
  show ?deflate
    unfolding restarts_def
  proof (intro allI impI)
    fix s s' and w w' :: "'a world"
    assume "deflateResetCB_brotli L s w = Inr (UNIZIP_OK, s', w')"
    then obtain r w1 p w2 where "brotli_deflateEnd L (ud s) w = Inr (r, w1)" "brotli_allocate L w1 = (p, w2)" "p \<noteq> 0"
      "brotli_deflateInit L p (compression_flag s) w2 = Inr (UNIZIP_OK, w')" "s' = s\<lparr>ud := p\<rparr>"
      unfolding deflateResetCB_brotli_def by (rule reset_shape) simp
    then have "ud s = ud s \<and> deflateEndCB_brotli L s w = Inr (r, resetBrotli s, w1) \<and>
      (\<exists>s2. deflateInitCB_brotli L (compression_flag s) (resetBrotli s) w1 = Inr (UNIZIP_OK, s2, w') \<and> ud s2 = ud s')"
      by (simp add: deflateEndCB_brotli_def deflateInitCB_brotli_def Let_def resetBrotli_def)
    then show "\<exists>s0 r s1 w1 level s2. ud s0 = ud s \<and> deflateEndCB_brotli L s0 w = Inr (r, s1, w1) \<and>
        deflateInitCB_brotli L level s1 w1 = Inr (UNIZIP_OK, s2, w') \<and> ud s2 = ud s'" by blast
  qed
  show ?inflate
    unfolding restarts_def
  proof (intro allI impI)
    fix s s' and w w' :: "'a world"
    assume "inflateResetCB_brotli L s w = Inr (UNIZIP_OK, s', w')"
    then obtain r w1 p w2 where "brotli_inflateEnd L (ud s) w = Inr (r, w1)" "brotli_allocate L w1 = (p, w2)" "p \<noteq> 0"
      "brotli_inflateInit L p w2 = Inr (UNIZIP_OK, w')" "s' = s\<lparr>ud := p\<rparr>"
      unfolding inflateResetCB_brotli_def by (rule reset_shape) simp
    then have "ud s = ud s \<and> inflateEndCB_brotli L s w = Inr (r, resetBrotli s, w1) \<and>
      (\<exists>s2. inflateInitCB_brotli L (resetBrotli s) w1 = Inr (UNIZIP_OK, s2, w') \<and> ud s2 = ud s')"
      by (simp add: inflateEndCB_brotli_def inflateInitCB_brotli_def Let_def resetBrotli_def)
    then show "\<exists>s0 r s1 w1 level s2. ud s0 = ud s \<and> inflateEndCB_brotli L s0 w = Inr (r, s1, w1) \<and>
        inflateInitCB_brotli L s1 w1 = Inr (UNIZIP_OK, s2, w') \<and> ud s2 = ud s'" by blast
  qed
qed

interpretation lz4_pool: pool as_lz4 Lz4_struct "\<lambda>_ _ _. {} :: unit set" "\<lambda>_. {}"
  "both (deflateInitCB_lz4 L) (\<lambda>level. inflateInitCB_lz4 L)" "both (deflateCB_lz4 L) (inflateCB_lz4 L)"
  "both deflateEndCB_lz4 inflateEndCB_lz4" "both (deflateResetCB_lz4 L) (inflateResetCB_lz4 L)" True for L
  by (rule context_pool [OF lz4_deflate.context_session_axioms lz4_inflate.context_session_axioms
        resettable_restarts [OF lz4_deflate_session.resettable_axioms] resettable_restarts [OF lz4_inflate_session.resettable_axioms]])
    (rule holds_heap_type)

interpretation snappy_pool: pool as_snappy Snappy_struct "\<lambda>_ _ _. {} :: unit set" "\<lambda>_. {}"
  "both (deflateInitCB_snappy L) (\<lambda>level. inflateInitCB_snappy L)" "both (deflateCB_snappy L) (inflateCB_snappy L)"
  "both deflateEndCB_snappy inflateEndCB_snappy" "both (deflateResetCB_snappy L) (inflateResetCB_snappy L)" True for L
  by (rule context_pool [OF snappy_deflate.context_session_axioms snappy_inflate.context_session_axioms snappy_restarts]) (rule holds_heap_type)

interpretation zstd_pool: pool as_zstd Zstd_struct "both (\<lambda>p c. {zcstream c}) (\<lambda>p c. {zdstream c})" live
  "both (deflateInitCB_zstd L) (\<lambda>level. inflateInitCB_zstd L)" "both (deflateCB_zstd L) (inflateCB_zstd L)"
  "both (deflateEndCB_zstd L) (inflateEndCB_zstd L)" "both (deflateResetCB_zstd L) (inflateResetCB_zstd L)"
  "cstreams L live \<and> dstreams L live" for L live
  by (rule handle_pool [OF zstd_deflate.handle_session_axioms zstd_inflate.handle_session_axioms
        resettable_restarts [OF zstd_deflate_session.resettable_axioms] resettable_restarts [OF zstd_inflate_session.resettable_axioms]])
    (rule holds_heap_type)

interpretation xz_pool: pool as_xz Xz_struct "both (\<lambda>p c. {coder c}) (\<lambda>p c. {coder c})" live
  "both (deflateInitCB_xz L) (\<lambda>level. inflateInitCB_xz L)" "both (deflateCB_xz L) (inflateCB_xz L)"
  "both (deflateEndCB_xz L) (inflateEndCB_xz L)" "both (deflateResetCB_xz L) (inflateResetCB_xz L)"
  "lzma_coders L live \<and> lzma_coders L live" for L live
  by (rule handle_pool [OF xz_deflate.handle_session_axioms xz_inflate.handle_session_axioms
        resettable_restarts [OF xz_deflate_session.resettable_axioms] resettable_restarts [OF xz_inflate_session.resettable_axioms]])
    (rule holds_heap_type)

interpretation bzip2_pool: pool as_bzip2 Bzip2_struct "both (\<lambda>p c. {bz_handle p c}) (\<lambda>p c. {bz_handle p c})" live
  "both (deflateInitCB_bzip2 L) (\<lambda>level. inflateInitCB_bzip2 L)" "both (deflateCB_bzip2 L) (inflateCB_bzip2 L)"
  "both (deflateEndCB_bzip2 L) (inflateEndCB_bzip2 L)" "both (deflateResetCB_bzip2 L) (inflateResetCB_bzip2 L)"
  "bz_coders L live \<and> bz_coders L live" for L live
  by (rule handle_pool [OF bzip2_deflate.handle_session_axioms bzip2_inflate.handle_session_axioms
        resettable_restarts [OF bzip2_deflate_session.resettable_axioms] resettable_restarts [OF bzip2_inflate_session.resettable_axioms]])
    (rule holds_heap_type)

interpretation brotli_pool: pool as_brotli Brotli_struct "both (\<lambda>p c. {Enstate c}) (\<lambda>p c. {Destate c})" live
  "both (deflateInitCB_brotli L) (\<lambda>level. inflateInitCB_brotli L)" "both (deflateCB_brotli L) (\<lambda>f. inflateCB_brotli L)"
  "both (deflateEndCB_brotli L) (inflateEndCB_brotli L)" "both (deflateResetCB_brotli L) (inflateResetCB_brotli L)"
  "brotli_encoders L live \<and> brotli_decoders L live" for L live
  by (rule handle_pool [OF brotli_deflate.handle_session_axioms brotli_inflate.handle_session_axioms brotli_restarts]) (rule holds_heap_type)

end
