(* ===== verification/Clients.thy ===== *)
theory Clients
  imports Pools
begin

text \<open>
  A client that has any number of streams open at once, of both directions and in any interleaving,
  and uses the one-shot functions in between, through the interface.  \<open>client_step\<close> is one thing it
  does, \<open>client_reach\<close> what it can get to; \<open>client_ok\<close> is the invariant, which every step keeps
  (\<open>client_step_ok\<close>) by the contract \<open>shared\<close> of the selected back end.
\<close>

section \<open>The client\<close>

fun api_reset :: "'l platform \<Rightarrow> direction \<Rightarrow> 'l api" where
  "api_reset P Deflating = unizip_deflateReset P"
| "api_reset P Inflating = unizip_inflateReset P"

fun api_shot ::
  "'l platform \<Rightarrow> direction \<Rightarrow> addr \<Rightarrow> uLong option \<Rightarrow> addr \<Rightarrow> uLong \<Rightarrow> globals \<Rightarrow> 'l world \<Rightarrow>
   (int \<times> uLong option \<times> globals \<times> 'l world) res" where
  "api_shot P Deflating = unizip_compress P"
| "api_shot P Inflating = unizip_uncompress P"

fun table_reset :: "direction \<Rightarrow> 'l callback_t \<Rightarrow> 'l stream_op option" where
  "table_reset Deflating ck = deflateResetCB ck"
| "table_reset Inflating ck = inflateResetCB ck"

fun table_shot :: "direction \<Rightarrow> 'l callback_t \<Rightarrow> 'l shot_op option" where
  "table_shot Deflating ck = compressCB ck"
| "table_shot Inflating ck = uncompressCB ck"

lemma api_reset_table: "api_reset P d = on_stream P (table_reset d) (\<lambda>f. f)"
  by (cases d) (auto simp: fun_eq_iff unizip_deflateReset_def unizip_inflateReset_def on_stream_def)

text \<open>The streams a client has open, by the names it gives them, and the rest of the program.\<close>

record 'l client =
  opened :: "nat \<rightharpoonup> direction \<times> unizip_stream"
  globals_of :: globals
  world_of :: "'l world"

datatype event =
    Choose int
  | Open nat direction int unizip_stream
  | Call nat refill int
  | Reset nat
  | Close nat
  | Shot direction addr "uLong option" addr uLong

text \<open>
  What the client may do: it chooses a back end only while no stream is open, uses those of \<open>V\<close>, and
  gives up when an initialisation or a reset fails (and so no rule is about that).  The one-shot
  functions of XZ are left out: they leak coders.
\<close>

inductive client_step :: "'l platform \<Rightarrow> int set \<Rightarrow> event \<Rightarrow> 'l client \<Rightarrow> 'l client \<Rightarrow> bool" for P V where
  choice: "opened c = Map.empty \<Longrightarrow> client_step P V (Choose v) c (c\<lparr>globals_of := SetValue v (globals_of c)\<rparr>)"
| session_start: "opened c n = None \<Longrightarrow> api_init P d level s (globals_of c) (world_of c) = Inr (UNIZIP_OK, s', g', w') \<Longrightarrow> value_of g' \<in> V \<Longrightarrow>
    client_step P V (Open n d level s) c \<lparr>opened = (opened c)(n \<mapsto> (d, s')), globals_of = g', world_of = w'\<rparr>"
| session_call: "opened c n = Some (d, s) \<Longrightarrow>
    api_call P d f (apply_refill rf s) (globals_of c) (refill_world rf (world_of c)) = Inr (r, s', g', w') \<Longrightarrow>
    client_step P V (Call n rf f) c \<lparr>opened = (opened c)(n \<mapsto> (d, s')), globals_of = g', world_of = w'\<rparr>"
| session_reset: "opened c n = Some (d, s) \<Longrightarrow> api_reset P d s (globals_of c) (world_of c) = Inr (UNIZIP_OK, s', g', w') \<Longrightarrow>
    client_step P V (Reset n) c \<lparr>opened = (opened c)(n \<mapsto> (d, s')), globals_of = g', world_of = w'\<rparr>"
| session_end: "opened c n = Some (d, s) \<Longrightarrow> api_end P d s (globals_of c) (world_of c) = Inr (r, s', g', w') \<Longrightarrow>
    client_step P V (Close n) c \<lparr>opened = (opened c)(n := None), globals_of = g', world_of = w'\<rparr>"
| one_call: "api_shot P d dest destLen source k (globals_of c) (world_of c) = Inr (r, len, g', w') \<Longrightarrow>
    value_of g' \<in> V - {8} \<Longrightarrow>
    client_step P V (Shot d dest destLen source k) c \<lparr>opened = opened c, globals_of = g', world_of = w'\<rparr>"

inductive_cases choose_step: "client_step P V (Choose v) c c'"
inductive_cases open_step: "client_step P V (Open n d level s) c c'"
inductive_cases call_step: "client_step P V (Call n rf f) c c'"
inductive_cases reset_step: "client_step P V (Reset n) c c'"
inductive_cases close_step: "client_step P V (Close n) c c'"
inductive_cases shot_step: "client_step P V (Shot d dest destLen source k) c c'"

inductive client_reach :: "'l platform \<Rightarrow> int set \<Rightarrow> 'l client \<Rightarrow> 'l client \<Rightarrow> bool" for P V c0 where
  here: "client_reach P V c0 c0"
| further: "client_reach P V c0 c \<Longrightarrow> client_step P V e c c' \<Longrightarrow> client_reach P V c0 c'"

text \<open>The back ends whose streams may live side by side, and what their libraries document.\<close>

definition side_by_side :: "'l platform \<Rightarrow> int \<Rightarrow> bool" where
  "side_by_side P v \<longleftrightarrow> v \<in> {1, 2, 3, 4, 5, 8} \<and> (v = 1 \<longrightarrow> (\<exists>live. bz_coders (bzip2_of P) live)) \<and>
     (v = 2 \<longrightarrow> (\<exists>live. brotli_encoders (brotli_of P) live \<and> brotli_decoders (brotli_of P) live)) \<and>
     (v = 5 \<longrightarrow> (\<exists>live. cstreams (zstd_of P) live \<and> dstreams (zstd_of P) live)) \<and>
     (v = 8 \<longrightarrow> (\<exists>live. lzma_coders (lzma_of P) live))"

text \<open>A table whose streams can live side by side.\<close>

definition shares :: "c_struct \<Rightarrow> 'l callback_t \<Rightarrow> ((ptr \<rightharpoonup> direction) \<Rightarrow> (ptr \<rightharpoonup> obj) \<Rightarrow> 'l world \<Rightarrow> bool) \<Rightarrow> bool" where
  "shares t ck I \<longleftrightarrow> (\<exists>init step fin reset. shared init step fin reset I t True \<and>
     (\<forall>d. table_init d ck = Some (init d) \<and> table_call d ck = Some (step d) \<and> table_end d ck = Some (fin d) \<and> table_reset d ck = Some (reset d)))"

lemma sharesI:
  assumes "shared (both i1 i2) (both s1 s2) (both f1 f2) (both r1 r2) I t ok" and ok
    and "table_init Deflating ck = Some i1" "table_init Inflating ck = Some i2" "table_call Deflating ck = Some s1" "table_call Inflating ck = Some s2"
    "table_end Deflating ck = Some f1" "table_end Inflating ck = Some f2" "table_reset Deflating ck = Some r1" "table_reset Inflating ck = Some r2"
  shows "\<exists>I. shares t ck I"
proof -
  have "shared (both i1 i2) (both s1 s2) (both f1 f2) (both r1 r2) I t True" using assms(1,2) by simp
  moreover have "table_init d ck = Some (both i1 i2 d) \<and> table_call d ck = Some (both s1 s2 d) \<and>
      table_end d ck = Some (both f1 f2 d) \<and> table_reset d ck = Some (both r1 r2 d)" for d
    using assms(3-) by (cases d) simp_all
  ultimately show ?thesis unfolding shares_def by blast
qed

lemma back_end_shares:
  assumes "side_by_side P (value_of g)" and "selected_ck P g = Inr ck"
  shows "\<exists>I. shares (ctx_struct (value_of g)) ck I"
proof -
  note defs = selected_ck_def alg_cks_def ck_defs basic_ck_def Let_def ctx_struct_def side_by_side_def
  from assms(1) consider "value_of g = 1" | "value_of g = 2" | "value_of g = 3" | "value_of g = 4" | "value_of g = 5"
    | "value_of g = 8" by (auto simp: side_by_side_def)
  then show ?thesis
  proof cases
    case 1
    with assms show ?thesis by (auto simp: defs intro: sharesI [OF bzip2_pool.shared_axioms])
  next
    case 2
    with assms show ?thesis by (auto simp: defs intro: sharesI [OF brotli_pool.shared_axioms])
  next
    case 3
    with assms show ?thesis by (auto simp: defs intro: sharesI [OF lz4_pool.shared_axioms])
  next
    case 4
    with assms show ?thesis by (auto simp: defs intro: sharesI [OF snappy_pool.shared_axioms])
  next
    case 5
    with assms show ?thesis by (auto simp: defs intro: sharesI [OF zstd_pool.shared_axioms])
  next
    case 6
    with assms show ?thesis by (auto simp: defs intro: sharesI [OF xz_pool.shared_axioms])
  qed
qed

text \<open>The one-shot functions change the byte memory and nothing else.\<close>

lemma bytes_same: "w\<lparr>bytes := bytes w\<rparr> = w"
  by (cases w) simp

lemma shot_memory:
  assumes "side_by_side P (value_of g)" "value_of g \<noteq> 8" and "selected_ck P g = Inr ck"
    and "table_shot d ck = Some shot" and "shot dest destLen source k w = Inr (r, len, w')"
  shows "w\<lparr>bytes := bytes w'\<rparr> = w'"
proof -
  note defs = selected_ck_def alg_cks_def ck_defs basic_ck_def Let_def side_by_side_def sure_def bytes_same
  from assms(1,2) consider "value_of g = 1" | "value_of g = 2" | "value_of g = 3" | "value_of g = 4" | "value_of g = 5"
    by (auto simp: side_by_side_def)
  then show ?thesis
  proof cases
    case 1
    with assms show ?thesis by (cases d) (auto simp: defs compressCB_bzip2_def uncompressCB_bzip2_def bzip2_compress_def bzip2_decompress_def split: prod.splits)
  next
    case 2
    with assms show ?thesis by (cases d) (auto simp: defs compressCB_brotli_def uncompressCB_brotli_def brotli_compress_def brotli_decompress_def split: prod.splits)
  next
    case 3
    with assms show ?thesis by (cases d) (auto simp: defs compressCB_lz4_def uncompressCB_lz4_def lz4_compress_def lz4_decompress_def split: prod.splits option.splits if_splits)
  next
    case 4
    with assms show ?thesis by (cases d) (auto simp: defs compressCB_snappy_def uncompressCB_snappy_def snappy_compress_new_def snappy_decompress_new_def split: prod.splits option.splits if_splits)
  next
    case 5
    with assms show ?thesis by (cases d) (auto simp: defs compressCB_zstd_def uncompressCB_zstd_def zstd_compress_def zstd_decompress_def split: prod.splits option.splits if_splits)
  qed
qed

section \<open>Every state a client can get to\<close>

text \<open>The contexts of the open streams, each of one stream.\<close>

definition contexts :: "(ptr \<rightharpoonup> direction) \<Rightarrow> (nat \<rightharpoonup> direction \<times> unizip_stream) \<Rightarrow> bool" where
  "contexts D S \<longleftrightarrow> (\<forall>n d s. S n = Some (d, s) \<longrightarrow> D (ud s) = Some d) \<and>
     (\<forall>p d. D p = Some d \<longrightarrow> (\<exists>n s. S n = Some (d, s) \<and> ud s = p)) \<and>
     (\<forall>n m d e s t. S n = Some (d, s) \<longrightarrow> S m = Some (e, t) \<longrightarrow> ud s = ud t \<longrightarrow> n = m)"

lemma contextsI:
  assumes "\<And>n d s. S n = Some (d, s) \<Longrightarrow> D (ud s) = Some d" and "\<And>p d. D p = Some d \<Longrightarrow> \<exists>n s. S n = Some (d, s) \<and> ud s = p"
    and "\<And>n m d e s t. S n = Some (d, s) \<Longrightarrow> S m = Some (e, t) \<Longrightarrow> ud s = ud t \<Longrightarrow> n = m"
  shows "contexts D S"
  using assms unfolding contexts_def by blast

lemma contextsD:
  assumes "contexts D S"
  shows "S n = Some (d, s) \<Longrightarrow> D (ud s) = Some d" and "D p = Some d \<Longrightarrow> \<exists>n s. S n = Some (d, s) \<and> ud s = p"
    and "S n = Some (d, s) \<Longrightarrow> S m = Some (e, t) \<Longrightarrow> ud s = ud t \<Longrightarrow> n = m"
  using assms unfolding contexts_def by blast+

lemma contexts_none: "contexts D Map.empty \<longleftrightarrow> D = Map.empty"
proof
  assume "contexts D Map.empty"
  from contextsD(2) [OF this] have "D p = None" for p by (cases "D p") auto
  then show "D = Map.empty" by (simp add: fun_eq_iff)
qed (simp add: contexts_def)

lemma contexts_new:
  assumes c: "contexts D S" and "D (ud s) = None" and "S n = None"
  shows "contexts (D(ud s \<mapsto> d)) (S(n \<mapsto> (d, s)))"
proof -
  have ne: "ud t \<noteq> ud s" if "S m = Some (e, t)" for m e t using contextsD(1) [OF c that] assms(2) by auto
  show ?thesis
  proof (rule contextsI)
    fix m e t
    assume "(S(n \<mapsto> (d, s))) m = Some (e, t)"
    then show "(D(ud s \<mapsto> d)) (ud t) = Some e" using ne contextsD(1) [OF c] by (auto split: if_splits)
  next
    fix p e
    assume p: "(D(ud s \<mapsto> d)) p = Some e"
    show "\<exists>m t. (S(n \<mapsto> (d, s))) m = Some (e, t) \<and> ud t = p"
    proof (cases "p = ud s")
      case True
      with p show ?thesis by auto
    next
      case False
      with p obtain m t where "S m = Some (e, t)" "ud t = p" using contextsD(2) [OF c, of p e] by auto
      with assms(3) show ?thesis by (intro exI [of _ m] exI [of _ t]) auto
    qed
  next
    fix k m e e' t t'
    assume "(S(n \<mapsto> (d, s))) k = Some (e, t)" "(S(n \<mapsto> (d, s))) m = Some (e', t')" "ud t = ud t'"
    then show "k = m" using ne contextsD(3) [OF c, of k e t m e' t'] by (auto split: if_splits)
  qed
qed

lemma contexts_gone:
  assumes c: "contexts D S" and n: "S n = Some (d, s)"
  shows "contexts (D(ud s := None)) (S(n := None))"
proof (rule contextsI)
  fix m e t
  assume "(S(n := None)) m = Some (e, t)"
  then have m: "m \<noteq> n" "S m = Some (e, t)" by (auto split: if_splits)
  with contextsD(3) [OF c n m(2)] contextsD(1) [OF c m(2)] show "(D(ud s := None)) (ud t) = Some e" by auto
next
  fix p e
  assume "(D(ud s := None)) p = Some e"
  then have p: "p \<noteq> ud s" "D p = Some e" by (auto split: if_splits)
  obtain m t where "S m = Some (e, t)" "ud t = p" using contextsD(2) [OF c p(2)] by blast
  with p(1) n show "\<exists>m t. (S(n := None)) m = Some (e, t) \<and> ud t = p" by (intro exI [of _ m] exI [of _ t]) auto
next
  fix k m e e' t t'
  assume "(S(n := None)) k = Some (e, t)" "(S(n := None)) m = Some (e', t')" "ud t = ud t'"
  then show "k = m" using contextsD(3) [OF c, of k e t m e' t'] by (auto split: if_splits)
qed

lemma contexts_moved:
  assumes "contexts D S" and "S n = Some (d, s)" and "ud s' = ud s \<or> D (ud s') = None"
  shows "contexts (D(ud s := None, ud s' \<mapsto> d)) (S(n \<mapsto> (d, s')))"
  using contexts_new [OF contexts_gone [OF assms(1,2)], of s' n d] assms(3) by auto

lemma contexts_kept:
  assumes "contexts D S" and "S n = Some (d, s)" and "ud s' = ud s"
  shows "contexts D (S(n \<mapsto> (d, s')))"
  using contexts_moved [OF assms(1,2), of s'] contextsD(1) [OF assms(1,2)] assms(3) by (simp add: fun_upd_idem)

text \<open>The invariant, with the heap \<open>H\<close> the client began with.\<close>

definition client_ok :: "'l platform \<Rightarrow> int set \<Rightarrow> (ptr \<rightharpoonup> obj) \<Rightarrow> 'l client \<Rightarrow> bool" where
  "client_ok P V H c \<longleftrightarrow> (opened c = Map.empty \<and> wf_heap (world_of c) \<and> heap (world_of c) = H) \<or>
     (settled (aarch64 P) (globals_of c) \<and> value_of (globals_of c) \<in> V \<and> (\<exists>ck I D. selected_ck P (globals_of c) = Inr ck \<and>
        shares (ctx_struct (value_of (globals_of c))) ck I \<and> contexts D (opened c) \<and> I D H (world_of c)))"

lemma client_okI:
  assumes "settled (aarch64 P) g" "value_of g \<in> V" "selected_ck P g = Inr ck" "shares (ctx_struct (value_of g)) ck I" "contexts D S" "I D H w"
  shows "client_ok P V H \<lparr>opened = S, globals_of = g, world_of = w\<rparr>"
  using assms unfolding client_ok_def by auto

lemma shares_owns: "shares t ck I \<Longrightarrow> I D H w \<Longrightarrow> wf_heap w \<and> heap w |` (- dom D) = H \<and> (\<forall>p \<in> dom D. heap_type w p = Some t)"
  unfolding shares_def by (blast dest: shared.owns)

lemma shares_memory: "shares t ck I \<Longrightarrow> I D H w \<Longrightarrow> I D H (w\<lparr>bytes := m\<rparr>)"
  unfolding shares_def by (blast dest: shared.memory)

lemma client_ok_idle:
  assumes "client_ok P V H c" and "opened c = Map.empty"
  shows "wf_heap (world_of c) \<and> heap (world_of c) = H"
  using assms shares_owns unfolding client_ok_def by (fastforce simp: contexts_none restrict_map_def)

lemma client_ok_busy:
  assumes "client_ok P V H c" and "opened c n = Some x"
  obtains ck I D where "settled (aarch64 P) (globals_of c)" "value_of (globals_of c) \<in> V" "selected_ck P (globals_of c) = Inr ck"
    "shares (ctx_struct (value_of (globals_of c))) ck I" "contexts D (opened c)" "I D H (world_of c)"
  using assms unfolding client_ok_def by auto

text \<open>A check that accepts one of the back ends finds the streams as they are.\<close>

lemma client_ok_checked:
  assumes ok: "client_ok P V H c" and lib: "\<forall>v \<in> V. side_by_side P v"
    and c: "check_algorithm P (globals_of c) (world_of c) = Inr (ret, g', w0)" and v: "value_of g' \<in> V"
  obtains ck I D where "ret = 0" "w0 = world_of c" "settled (aarch64 P) g'" "selected_ck P g' = Inr ck"
    "shares (ctx_struct (value_of g')) ck I" "contexts D (opened c)" "I D H (world_of c)"
proof -
  have s: "side_by_side P (value_of g')" using lib v by blast
  then have range: "CASE_ZLIB \<le> value_of g'" "value_of g' \<le> CASE_GZIP" "value_of g' \<noteq> CASE_UADK" by (auto simp: side_by_side_def)
  have "ret = 0 \<and> w0 = world_of c"
    using c range by (auto simp: check_algorithm_def andthen_eq_Inr UadkEnabled_def on_lib_def Let_def split: if_splits prod.splits)
  then have r: "ret = 0" "w0 = world_of c" by simp_all
  have st: "settled (aarch64 P) g'" using check_settles c r by blast
  then obtain ck where ck: "selected_ck P g' = Inr ck" by (rule settled_complete)
  show thesis
  proof (cases "opened c = Map.empty")
    case True
    from client_ok_idle [OF ok True] have w: "wf_heap (world_of c)" "heap (world_of c) = H" by simp_all
    obtain I where I: "shares (ctx_struct (value_of g')) ck I" using back_end_shares [OF s ck] by blast
    then have "I Map.empty H (world_of c)" using shared.begins w unfolding shares_def by blast
    with that [OF r st ck I] True show thesis by (simp add: contexts_none)
  next
    case False
    then obtain n x where "opened c n = Some x" by (auto simp: fun_eq_iff)
    from client_ok_busy [OF ok this] obtain ck' I D where b: "settled (aarch64 P) (globals_of c)"
      "selected_ck P (globals_of c) = Inr ck'" "shares (ctx_struct (value_of (globals_of c))) ck' I" "contexts D (opened c)" "I D H (world_of c)"
      by metis
    from check_settled [OF b(1)] c have "g' = globals_of c" by simp
    with that [OF r st ck] b ck show thesis by simp
  qed
qed

text \<open>The stream an event is about.\<close>

fun about :: "event \<Rightarrow> nat option" where
  "about (Open n _ _ _) = Some n"
| "about (Call n _ _) = Some n"
| "about (Reset n) = Some n"
| "about (Close n) = Some n"
| "about _ = None"

text \<open>Streams the event is not about are as they were.\<close>

definition others_kept :: "nat option \<Rightarrow> 'l client \<Rightarrow> 'l client \<Rightarrow> bool" where
  "others_kept a c c' \<longleftrightarrow> (\<forall>m d s. opened c m = Some (d, s) \<longrightarrow> a \<noteq> Some m \<longrightarrow>
     opened c' m = Some (d, s) \<and> heap (world_of c') (ud s) = heap (world_of c) (ud s))"

lemma others_framed:
  assumes "contexts D (opened c)" and "opened c n = Some (d, s)" and "opened c' = (opened c)(n := x)"
    and "\<forall>p. p \<noteq> ud s \<longrightarrow> D p \<noteq> None \<longrightarrow> heap (world_of c') p = heap (world_of c) p"
  shows "others_kept (Some n) c c'"
  unfolding others_kept_def
proof (intro allI impI)
  fix m e t
  assume m: "opened c m = Some (e, t)" "Some n \<noteq> Some m"
  then have "ud t \<noteq> ud s" "D (ud t) \<noteq> None" using contextsD(3) [OF assms(1,2) m(1)] contextsD(1) [OF assms(1) m(1)] by auto
  with m assms(3,4) show "opened c' m = Some (e, t) \<and> heap (world_of c') (ud t) = heap (world_of c) (ud t)" by simp
qed

lemma api_reset_settled:
  assumes "settled (aarch64 P) g" "selected_ck P g = Inr ck" "table_reset d ck = Some reset"
  shows "api_reset P d s g w = stream_result g (reset s w)"
  unfolding api_reset_table by (rule on_stream_settled [where field = "table_reset d" and f = reset, OF assms])

text \<open>One thing the client does on an open stream, through the table of the selected back end.\<close>

lemma busy_stream:
  assumes ok: "client_ok P V H c" and n: "opened c n = Some (d, s)"
  obtains init step fin reset ck I D where "settled (aarch64 P) (globals_of c)" "value_of (globals_of c) \<in> V"
    "selected_ck P (globals_of c) = Inr ck" "shares (ctx_struct (value_of (globals_of c))) ck I" "contexts D (opened c)" "I D H (world_of c)"
    "shared init step fin reset I (ctx_struct (value_of (globals_of c))) True" "D (ud s) = Some d"
    "\<forall>f s w. api_call P d f s (globals_of c) w = stream_result (globals_of c) (step d f s w)"
    "\<forall>s w. api_end P d s (globals_of c) w = stream_result (globals_of c) (fin d s w)"
    "\<forall>s w. api_reset P d s (globals_of c) w = stream_result (globals_of c) (reset d s w)"
proof (rule client_ok_busy [OF ok n])
  fix ck I D
  assume b: "settled (aarch64 P) (globals_of c)" "value_of (globals_of c) \<in> V" "selected_ck P (globals_of c) = Inr ck"
    "shares (ctx_struct (value_of (globals_of c))) ck I" "contexts D (opened c)" "I D H (world_of c)"
  from b(4) obtain init step fin reset where S: "shared init step fin reset I (ctx_struct (value_of (globals_of c))) True"
    and tab: "table_call d ck = Some (step d)" "table_end d ck = Some (fin d)" "table_reset d ck = Some (reset d)"
    unfolding shares_def by blast
  show thesis
  proof (rule that [OF b S contextsD(1) [OF b(5) n]]; intro allI)
    fix f s w
    show "api_call P d f s (globals_of c) w = stream_result (globals_of c) (step d f s w)"
      unfolding api_on_stream(2) by (rule on_stream_settled [where field = "table_call d" and f = "step d", OF b(1,3) tab(1)])
    show "api_end P d s (globals_of c) w = stream_result (globals_of c) (fin d s w)"
      unfolding api_on_stream(3) by (rule on_stream_settled [where field = "table_end d" and f = "fin d", OF b(1,3) tab(2)])
    show "api_reset P d s (globals_of c) w = stream_result (globals_of c) (reset d s w)"
      by (rule api_reset_settled [OF b(1,3) tab(3)])
  qed
qed

lemma stream_result_Inr: "stream_result g m = Inr (r, s, g', w) \<longleftrightarrow> m = Inr (r, s, w) \<and> g' = g"
  by (auto simp: stream_result_def andthen_eq_Inr)

lemma session_start_ok:
  assumes ok: "client_ok P V H c" and lib: "\<forall>v \<in> V. side_by_side P v" and n: "opened c n = None"
    and i: "api_init P d level s (globals_of c) (world_of c) = Inr (UNIZIP_OK, s', g', w')" and v: "value_of g' \<in> V"
  shows "client_ok P V H \<lparr>opened = (opened c)(n \<mapsto> (d, s')), globals_of = g', world_of = w'\<rparr> \<and>
    others_kept (Some n) c \<lparr>opened = (opened c)(n \<mapsto> (d, s')), globals_of = g', world_of = w'\<rparr>"
proof (rule api_session [OF i, of "[]"])
  fix ck init step fin w0
  assume a: "check_algorithm P (globals_of c) (world_of c) = Inr (0, g', w0)" "selected_ck P g' = Inr ck"
    "table_init d ck = Some init" "init level s w0 = Inr (UNIZIP_OK, s', w')"
  obtain I D where b: "w0 = world_of c" "settled (aarch64 P) g'" "shares (ctx_struct (value_of g')) ck I" "contexts D (opened c)" "I D H (world_of c)"
    using client_ok_checked [OF ok lib a(1) v] a(2) by (metis sum.inject(2))
  obtain init' step' fin' reset' where S: "shared init' step' fin' reset' I (ctx_struct (value_of g')) True" and "table_init d ck = Some (init' d)"
    using b(3) unfolding shares_def by blast
  then have "init' d level s (world_of c) = Inr (UNIZIP_OK, s', w')" using a(3,4) b(1) by simp
  from shared.opens [OF S b(5) this] have new: "D (ud s') = None" "I (D(ud s' \<mapsto> d)) H w'" "frame (ud s') (world_of c) w'" by blast+
  have "ud t \<noteq> ud s'" if "opened c m = Some (e, t)" for m e t using contextsD(1) [OF b(4) that] new(1) by auto
  then have "others_kept (Some n) c \<lparr>opened = (opened c)(n \<mapsto> (d, s')), globals_of = g', world_of = w'\<rparr>"
    using new(3) by (auto simp: others_kept_def frame_def)
  with client_okI [OF b(2) v a(2) b(3) contexts_new [OF b(4) new(1) n] new(2)] show ?thesis by simp
qed

lemma api_shot_checked:
  assumes "api_shot P d dest destLen source k g w = Inr (r, len, g', w')"
  obtains ret w0 where "check_algorithm P g w = Inr (ret, g', w0)"
    "\<And>ck. ret = 0 \<Longrightarrow> selected_ck P g' = Inr ck \<Longrightarrow>
      \<exists>shot. table_shot d ck = Some shot \<and> shot dest destLen source k w0 = Inr (r, len, w')"
proof -
  have "api_shot P d dest destLen source k g w = checked P (\<lambda>g w. Inr (UNIZIP_ALGO_ERROR, destLen, g, w))
      (\<lambda>ck g w. andthen (invoke (table_shot d ck)) (\<lambda>f. andthen (f dest destLen source k w) (\<lambda>(ret, len, w). Inr (ret, len, g, w)))) g w"
    by (cases d) (simp_all add: unizip_compress_def unizip_uncompress_def)
  note this [unfolded assms, symmetric]
  then have "\<exists>ret w0. check_algorithm P g w = Inr (ret, g', w0) \<and> (\<forall>ck. ret = 0 \<longrightarrow> selected_ck P g' = Inr ck \<longrightarrow>
      (\<exists>shot. table_shot d ck = Some shot \<and> shot dest destLen source k w0 = Inr (r, len, w')))"
    by (auto simp: checked_def andthen_eq_Inr invoke_def split: if_splits option.splits)
  with that show thesis by blast
qed

lemma shot_ok:
  assumes ok: "client_ok P V H c" and lib: "\<forall>v \<in> V. side_by_side P v"
    and r: "api_shot P d dest destLen source k (globals_of c) (world_of c) = Inr (r, len, g', w')" and v: "value_of g' \<in> V" "value_of g' \<noteq> 8"
  shows "client_ok P V H \<lparr>opened = opened c, globals_of = g', world_of = w'\<rparr> \<and>
    others_kept None c \<lparr>opened = opened c, globals_of = g', world_of = w'\<rparr>"
proof (rule api_shot_checked [OF r])
  fix ret w0
  assume c: "check_algorithm P (globals_of c) (world_of c) = Inr (ret, g', w0)"
    and shot: "\<And>ck. ret = 0 \<Longrightarrow> selected_ck P g' = Inr ck \<Longrightarrow>
      \<exists>shot. table_shot d ck = Some shot \<and> shot dest destLen source k w0 = Inr (r, len, w')"
  obtain ck I D where b: "ret = 0" "w0 = world_of c" "settled (aarch64 P) g'" "selected_ck P g' = Inr ck"
    "shares (ctx_struct (value_of g')) ck I" "contexts D (opened c)" "I D H (world_of c)"
    by (rule client_ok_checked [OF ok lib c v(1)])
  obtain f where "table_shot d ck = Some f" "f dest destLen source k (world_of c) = Inr (r, len, w')"
    using shot [OF b(1,4)] b(2) by blast
  from shot_memory [OF _ v(2) b(4) this] lib v(1) have w': "world_of c\<lparr>bytes := bytes w'\<rparr> = w'" by blast
  from shares_memory [OF b(5,7), of "bytes w'"] have "I D H w'" unfolding w' .
  moreover have "heap w' = heap (world_of c)" by (subst w' [symmetric]) simp
  ultimately show ?thesis using client_okI [OF b(3) v(1) b(4-6)] by (simp add: others_kept_def)
qed

lemma client_step_ok:
  assumes "client_step P V e c c'" and ok: "client_ok P V H c" and lib: "\<forall>v \<in> V. side_by_side P v"
  shows "client_ok P V H c' \<and> others_kept (about e) c c'"
  using assms(1)
proof cases
  case (choice v)
  with client_ok_idle [OF ok choice(3)] show ?thesis by (simp add: client_ok_def others_kept_def)
next
  case (session_start n d level s s' g' w')
  then show ?thesis using session_start_ok [OF ok lib session_start(3-5)] by simp
next
  case (session_call n d s f rf r s' g' w')
  let ?s = "apply_refill rf s" and ?w = "refill_world rf (world_of c)"
  from ok session_call(3) show ?thesis
  proof (rule busy_stream)
    fix init step fin reset ck I D
    assume b: "settled (aarch64 P) (globals_of c)" "value_of (globals_of c) \<in> V" "selected_ck P (globals_of c) = Inr ck"
      "shares (ctx_struct (value_of (globals_of c))) ck I" "contexts D (opened c)" "I D H (world_of c)"
      "shared init step fin reset I (ctx_struct (value_of (globals_of c))) True" "D (ud s) = Some d"
      and "\<forall>f s w. api_call P d f s (globals_of c) w = stream_result (globals_of c) (step d f s w)"
    then have r: "step d f ?s ?w = Inr (r, s', w')" "g' = globals_of c" using session_call(4) by (simp_all add: stream_result_Inr)
    have "D (ud ?s) = Some d" using b(8) by simp
    from shared.calls [OF b(7) shared.refills [OF b(7,6)] this, of f rf] r(1)
    have new: "ud s' = ud s" "I D H w'" "frame (ud s) ?w w'" by simp_all
    show ?thesis unfolding session_call(1,2) about.simps r(2)
      using client_okI [OF b(1-4) contexts_kept [OF b(5) session_call(3) new(1)] new(2)]
        others_framed [OF b(5) session_call(3), of "\<lparr>opened = (opened c)(n \<mapsto> (d, s')), globals_of = globals_of c, world_of = w'\<rparr>"] new(3)
      by (simp add: frame_def)
  qed
next
  case (session_reset n d s s' g' w')
  from ok session_reset(3) show ?thesis
  proof (rule busy_stream)
    fix init step fin reset ck I D
    assume b: "settled (aarch64 P) (globals_of c)" "value_of (globals_of c) \<in> V" "selected_ck P (globals_of c) = Inr ck"
      "shares (ctx_struct (value_of (globals_of c))) ck I" "contexts D (opened c)" "I D H (world_of c)"
      "shared init step fin reset I (ctx_struct (value_of (globals_of c))) True" "D (ud s) = Some d"
      and "\<forall>s w. api_reset P d s (globals_of c) w = stream_result (globals_of c) (reset d s w)"
    then have r: "reset d s (world_of c) = Inr (UNIZIP_OK, s', w')" "g' = globals_of c"
      using session_reset(4) by (simp_all add: stream_result_Inr)
    note new = shared.resets_own [OF b(7,6,8) r(1)]
    have "heap w' p = heap (world_of c) p" if "p \<noteq> ud s" "D p \<noteq> None" for p using new that by metis
    with others_framed [OF b(5) session_reset(3), of "\<lparr>opened = (opened c)(n \<mapsto> (d, s')), globals_of = globals_of c, world_of = w'\<rparr>" "Some (d, s')"]
    have "others_kept (Some n) c \<lparr>opened = (opened c)(n \<mapsto> (d, s')), globals_of = globals_of c, world_of = w'\<rparr>" by simp
    with client_okI [OF b(1-4) contexts_moved [OF b(5) session_reset(3) conjunct1 [OF new]] conjunct1 [OF conjunct2 [OF new]]]
    show ?thesis unfolding session_reset(1,2) about.simps r(2) by blast
  qed
next
  case (session_end n d s r s' g' w')
  from ok session_end(3) show ?thesis
  proof (rule busy_stream)
    fix init step fin reset ck I D
    assume b: "settled (aarch64 P) (globals_of c)" "value_of (globals_of c) \<in> V" "selected_ck P (globals_of c) = Inr ck"
      "shares (ctx_struct (value_of (globals_of c))) ck I" "contexts D (opened c)" "I D H (world_of c)"
      "shared init step fin reset I (ctx_struct (value_of (globals_of c))) True" "D (ud s) = Some d"
      and "\<forall>s w. api_end P d s (globals_of c) w = stream_result (globals_of c) (fin d s w)"
    then have r: "fin d s (world_of c) = Inr (r, s', w')" "g' = globals_of c" using session_end(4) by (simp_all add: stream_result_Inr)
    from shared.closes [OF b(7,6,8), unfolded r(1) ensures_Inr prod.case]
    have new: "I (D(ud s := None)) H w'" "frame (ud s) (world_of c) w'" by blast+
    show ?thesis unfolding session_end(1,2) about.simps r(2)
      using client_okI [OF b(1-4) contexts_gone [OF b(5) session_end(3)] new(1)]
        others_framed [OF b(5) session_end(3), of "\<lparr>opened = (opened c)(n := None), globals_of = globals_of c, world_of = w'\<rparr>"] new(2)
      by (simp add: frame_def)
  qed
next
  case (one_call d dest destLen source k r len g' w')
  from one_call(4) have v: "value_of g' \<in> V" "value_of g' \<noteq> 8" by simp_all
  from shot_ok [OF ok lib one_call(3) v] show ?thesis unfolding one_call(1,2) about.simps .
qed

lemma client_reach_ok:
  assumes "client_reach P V c0 c" and "\<forall>v \<in> V. side_by_side P v" and "client_ok P V H c0"
  shows "client_ok P V H c"
  using assms(1,3)
proof induction
  case (further c e c')
  with client_step_ok [OF further.hyps(2) _ assms(2)] show ?case by blast
qed

lemma client_began:
  assumes "\<forall>v \<in> V. side_by_side P v" "opened c0 = Map.empty" "wf_heap (world_of c0)" "client_reach P V c0 c"
  shows "client_ok P V (heap (world_of c0)) c"
  using client_reach_ok [OF assms(4,1)] assms(2,3) by (simp add: client_ok_def)

lemma client_off_streams:
  assumes ok: "client_ok P V H c" and p: "\<forall>n d s. opened c n = Some (d, s) \<longrightarrow> ud s \<noteq> p"
  shows "heap (world_of c) p = H p"
proof (cases "opened c = Map.empty")
  case True
  with client_ok_idle [OF ok] show ?thesis by simp
next
  case False
  then obtain n x where "opened c n = Some x" by (auto simp: fun_eq_iff)
  with ok show ?thesis
  proof (rule client_ok_busy)
    fix ck I D
    assume b: "shares (ctx_struct (value_of (globals_of c))) ck I" "contexts D (opened c)" "I D H (world_of c)"
    have "D p = None" using contextsD(2) [OF b(2), of p] p by (cases "D p") blast+
    then have "p \<in> - dom D" by auto
    moreover have "heap (world_of c) |` (- dom D) = H" using shares_owns [OF b(1,3)] by blast
    ultimately show ?thesis by (metis restrict_in)
  qed
qed

lemma client_stream_owned:
  assumes ok: "client_ok P V H c" and n: "opened c n = Some (d, s)"
  shows "H (ud s) = None \<and> heap_type (world_of c) (ud s) = Some (ctx_struct (value_of (globals_of c))) \<and>
    (\<forall>m e t. opened c m = Some (e, t) \<longrightarrow> ud s = ud t \<longrightarrow> n = m)"
  using ok n
proof (rule client_ok_busy)
  fix ck I D
  assume b: "shares (ctx_struct (value_of (globals_of c))) ck I" "contexts D (opened c)" "I D H (world_of c)"
  have D: "ud s \<in> dom D" using contextsD(1) [OF b(2) n] by auto
  have "heap (world_of c) |` (- dom D) = H" "heap_type (world_of c) (ud s) = Some (ctx_struct (value_of (globals_of c)))"
    using shares_owns [OF b(1,3)] D by blast+
  then show ?thesis using D contextsD(3) [OF b(2) n] by (auto simp: restrict_map_def)
qed

lemma client_stream_lives:
  assumes ok: "client_ok P V H c" and n: "opened c n = Some (d, s)"
  shows "ensures (api_call P d f (apply_refill rf s) (globals_of c) (refill_world rf (world_of c)))
      (\<lambda>(r, s', g', w'). g' = globals_of c \<and> ud s' = ud s \<and> frame (ud s) (refill_world rf (world_of c)) w')" (is ?call)
    and "ensures (api_end P d s (globals_of c) (world_of c))
      (\<lambda>(r, s', g', w'). g' = globals_of c \<and> heap w' (ud s) = None \<and> frame (ud s) (world_of c) w')" (is ?close)
proof -
  have "?call \<and> ?close"
    using ok n
  proof (rule busy_stream)
    fix init step fin reset ck I D
    assume b: "contexts D (opened c)" "I D H (world_of c)" "shared init step fin reset I (ctx_struct (value_of (globals_of c))) True" "D (ud s) = Some d"
      and api: "\<forall>f s w. api_call P d f s (globals_of c) w = stream_result (globals_of c) (step d f s w)"
      "\<forall>s w. api_end P d s (globals_of c) w = stream_result (globals_of c) (fin d s w)"
    from shared.calls [OF b(3) shared.refills [OF b(3,2)], of "apply_refill rf s" d f rf] b(4) api(1)
    have ?call by (auto simp: ensures_def stream_result_def)
    moreover have gone: "heap w' (ud s) = None" if "I (D(ud s := None)) H w'" for w'
    proof -
      have "heap w' |` (- dom (D(ud s := None))) = H" "heap (world_of c) |` (- dom D) = H"
        using shared.owns [OF b(3) that] shared.owns [OF b(3,2)] by blast+
      then have "(heap w' |` (- dom (D(ud s := None)))) (ud s) = (heap (world_of c) |` (- dom D)) (ud s)" by simp
      then show ?thesis using b(4) by (simp add: restrict_map_def domIff)
    qed
    moreover from shared.closes [OF b(3,2,4)] gone api(2) have ?close
      by (auto simp: ensures_def stream_result_def simp del: fun_upd_apply)
    ultimately show "?call \<and> ?close" by blast
  qed
  then show ?call ?close by simp_all
qed

section \<open>Properties\<close>




section \<open>A client with two streams\<close>

lemma lz4_begins:
  assumes "\<forall>k. \<not> oom w k"
  shows "\<exists>s' w'. both (deflateInitCB_lz4 L) (\<lambda>level. inflateInitCB_lz4 L) d level s w = Inr (UNIZIP_OK, s', w') \<and> oom w' = oom w"
  using assms by (cases d) (auto simp: deflateInitCB_lz4_def inflateInitCB_lz4_def lz4_allocate_def lz4_deflateInit_def
      lz4_inflateInit_def malloc_def load_def deref_def store_def Let_def)

lemma lz4_opens:
  assumes g: "value_of (globals_of c) = 3" and w: "\<forall>k. \<not> oom (world_of c) k" and n: "opened c n = None"
  obtains s' w' where "client_step P {3} (Open n d level s) c \<lparr>opened = (opened c)(n \<mapsto> (d, s')), globals_of = globals_of c, world_of = w'\<rparr>"
    "\<forall>k. \<not> oom w' k"
proof -
  obtain s' w' where i: "both (deflateInitCB_lz4 (lz4_of P)) (\<lambda>level. inflateInitCB_lz4 (lz4_of P)) d level s (world_of c) = Inr (UNIZIP_OK, s', w')"
    "oom w' = oom (world_of c)" using lz4_begins [OF w] by metis
  have ck: "selected_ck P (globals_of c) = Inr (lz4_ck P)" by (simp add: selected_ck_def g alg_cks_def)
  have st: "settled (aarch64 P) (globals_of c)" by (simp add: settled_def g)
  have "table_init d (lz4_ck P) = Some (both (deflateInitCB_lz4 (lz4_of P)) (\<lambda>level. inflateInitCB_lz4 (lz4_of P)) d)"
    by (cases d) (auto simp: ck_defs basic_ck_def Let_def)
  from on_stream_settled [where field = "table_init d" and call = "\<lambda>f. f level", OF st ck this] i(1)
  have "api_init P d level s (globals_of c) (world_of c) = Inr (UNIZIP_OK, s', globals_of c, w')"
    by (simp add: api_on_stream stream_result_def)
  from session_start [OF n this] g have "client_step P {3} (Open n d level s) c
      \<lparr>opened = (opened c)(n \<mapsto> (d, s')), globals_of = globals_of c, world_of = w'\<rparr>" by simp
  with that i(2) w show thesis by simp
qed

definition demo_client :: "ptr list client" where
  "demo_client = \<lparr>opened = Map.empty, globals_of = SetValue 3 init_globals, world_of = demo_world\<rparr>"

lemma demo_client_simps [simp]:
  "opened demo_client = Map.empty" "globals_of demo_client = SetValue 3 init_globals" "world_of demo_client = demo_world"
  by (simp_all add: demo_client_def)

lemma lz4_only: "\<forall>v \<in> {3}. side_by_side P v"
  by (simp add: side_by_side_def)

lemma demo_client_wf: "wf_heap (world_of demo_client)"
  by (simp add: wf_heap_def)

lemma two_streams:
  obtains c c' s t where "client_reach P {3} demo_client c" "opened c 0 = Some (Deflating, s)"
    "client_step P {3} (Open 1 Inflating 0 demo_stream) c c'" "opened c' 0 = Some (Deflating, s)" "opened c' 1 = Some (Inflating, t)"
proof -
  obtain s w where 1: "client_step P {3} (Open 0 Deflating 6 demo_stream) demo_client
      \<lparr>opened = (opened demo_client)(0 \<mapsto> (Deflating, s)), globals_of = globals_of demo_client, world_of = w\<rparr>" (is "client_step _ _ _ _ ?c")
    and w: "\<forall>k. \<not> oom w k"
    by (rule lz4_opens [of demo_client 0 P Deflating 6 demo_stream]) (simp_all add: SetValue_def)
  obtain t w' where 2: "client_step P {3} (Open 1 Inflating 0 demo_stream) ?c
      \<lparr>opened = (opened ?c)(1 \<mapsto> (Inflating, t)), globals_of = globals_of ?c, world_of = w'\<rparr>"
    by (rule lz4_opens [of ?c 1 P Inflating 0 demo_stream]) (use w in \<open>simp_all add: SetValue_def\<close>)
  show thesis
    by (rule that [OF client_reach.further [OF client_reach.here 1] _ 2]) simp_all
qed




end
