(* ===== verification/UadkData.thy ===== *)
theory UadkData
  imports Uadk
begin

text \<open>
  The data of the accelerator's one-shot functions.  \<open>wd_codes\<close> is what the UADK library promises
  of the data of a stream; that \<open>compressCB_uadk\<close> and \<open>uncompressCB_uadk\<close> are inverse follows from it
  through the two nested loops and the copies between the caller's buffers and the blocks of the
  driver.
\<close>

section \<open>What the accelerator promises of the data\<close>

text \<open>
  \<open>codes d c l xs ys\<close>: the compression context \<open>c\<close> of direction \<open>d\<close> has consumed \<open>xs\<close> and produced \<open>ys\<close>.
  When a call has taken all the input it was offered, a finishing call of a compression has
  delivered the whole file, and a decompression has delivered everything its input encodes; it
  reports the end (a positive return value or one of the two end statuses) only there.
\<close>

fun delivered :: "(byte list \<Rightarrow> byte list option) \<Rightarrow> direction \<Rightarrow> bool \<Rightarrow> bool \<Rightarrow> byte list \<Rightarrow> byte list \<Rightarrow> bool" where
  "delivered dec Deflating fin ended xs ys \<longleftrightarrow> (fin \<longrightarrow> dec ys = Some xs)"
| "delivered dec Inflating fin ended xs ys \<longleftrightarrow> (\<forall>z. dec xs = Some z \<longrightarrow> z = ys) \<and> (ended \<longrightarrow> dec xs \<noteq> None)"

definition wd_call_codes ::
  "'l wd_lib \<Rightarrow> (byte list \<Rightarrow> byte list option) \<Rightarrow> (direction \<Rightarrow> ptr \<Rightarrow> 'l \<Rightarrow> byte list \<Rightarrow> byte list \<Rightarrow> bool) \<Rightarrow> bool" where
  "wd_call_codes L dec codes \<longleftrightarrow> (\<forall>d c opd m l ret opd' m' l' xs ys. codes d c l xs ys \<longrightarrow>
     wcrypto_do_comp L c opd m l = Inr (ret, opd', m', l') \<longrightarrow> 0 \<le> ret \<longrightarrow>
     in_len_op opd' = in_len_op opd \<and> in_op opd' = in_op opd \<and> out_op opd' = out_op opd \<and>
     consumed_op opd' \<le> in_len_op opd \<and> produced_op opd' \<le> avail_out_op opd \<and>
     (\<exists>us vs. us = read_mem m (in_op opd) (unat (consumed_op opd')) \<and> length vs = unat (produced_op opd') \<and>
        m' = write_mem m (out_op opd) vs \<and> codes d c l' (xs @ us) (ys @ vs) \<and>
        (in_len_op opd \<noteq> 0 \<longrightarrow> consumed_op opd' = in_len_op opd \<longrightarrow>
           delivered dec d (flush_op opd = WCRYPTO_FINISH L)
             (0 < ret \<or> status_op opd' = WCRYPTO_DECOMP_END L \<or> status_op opd' = WCRYPTO_DECOMP_END_NOSPACE L) (xs @ us) (ys @ vs))))"

lemma wd_call_codesD:
  assumes "wd_call_codes L dec codes" and "codes d c l xs ys"
    and "wcrypto_do_comp L c opd m l = Inr (ret, opd', m', l')" and "0 \<le> ret"
  obtains vs where "in_len_op opd' = in_len_op opd" "in_op opd' = in_op opd" "out_op opd' = out_op opd"
    "consumed_op opd' \<le> in_len_op opd" "produced_op opd' \<le> avail_out_op opd"
    "length vs = unat (produced_op opd')" "m' = write_mem m (out_op opd) vs"
    "codes d c l' (xs @ read_mem m (in_op opd) (unat (consumed_op opd'))) (ys @ vs)"
    "in_len_op opd \<noteq> 0 \<longrightarrow> consumed_op opd' = in_len_op opd \<longrightarrow>
       delivered dec d (flush_op opd = WCRYPTO_FINISH L)
         (0 < ret \<or> status_op opd' = WCRYPTO_DECOMP_END L \<or> status_op opd' = WCRYPTO_DECOMP_END_NOSPACE L)
         (xs @ read_mem m (in_op opd) (unat (consumed_op opd'))) (ys @ vs)"
  using assms(1) [unfolded wd_call_codes_def, rule_format, OF assms(2-4)] that by blast

section \<open>One call\<close>

text \<open>
  The stream \<open>zs\<close> uses the blocks \<open>inb\<close> and \<open>outb\<close> and the context \<open>c\<close>, and the next input of the
  accelerator is at \<open>p\<close>.
\<close>

definition hw_at :: "zip_stream \<Rightarrow> 'l world \<Rightarrow> addr \<Rightarrow> addr \<Rightarrow> ptr \<Rightarrow> addr \<Rightarrow> bool" where
  "hw_at zs w inb outb c p \<longleftrightarrow> (\<exists>ctl opd. load as_ctl (reserved_hw zs) w = Inr ctl \<and> load as_op (opdata_ctl ctl) w = Inr opd \<and>
     in_ctl ctl = inb \<and> ctx_ctl ctl = c \<and> in_op opd = p \<and> out_op opd = outb \<and> next_in_hw zs = inb \<and> next_out_hw zs = outb)"

lemma hw_at_cong:
  assumes "reserved_hw zs' = reserved_hw zs" "next_in_hw zs' = next_in_hw zs" "next_out_hw zs' = next_out_hw zs" "heap w' = heap w"
    and "hw_at zs w inb outb c p"
  shows "hw_at zs' w' inb outb c p"
proof -
  have "deref q w' = deref q w" for q by (simp add: deref_def assms(4))
  then show ?thesis using assms(5) unfolding hw_at_def load_def by (simp only: assms(1-3))
qed

lemma ucast_32:
  fixes x :: uLong
  assumes "unat x < 2 ^ 32"
  shows "unat (ucast x :: uInt) = unat x"
  using assms by (simp add: unsigned_ucast_eq take_bit_nat_eq_self)

lemma hw_account_in:
  assumes "hw_account L ctl opd zs = (opd', zs')"
  shows "in_op opd' = (if avail_in_hw zs' = 0 then in_ctl ctl else in_op opd + ucast (consumed_op opd))"
proof -
  have e: "opd' = fst (hw_account L ctl opd zs)" "zs' = snd (hw_account L ctl opd zs)" using assms by simp_all
  show ?thesis unfolding e hw_account_def Let_def fst_conv snd_conv
    by (cases "stream_pos_op opd = WCRYPTO_COMP_STREAM_NEW L") (auto simp: word_gt_0)
qed

lemma hw_status_end: "hw_status L ret flush st = UNIZIP_STREAM_END \<Longrightarrow> flush \<noteq> WCRYPTO_FINISH L \<Longrightarrow> 0 \<le> ret \<Longrightarrow>
    0 < WD_VERIFY_ERR L \<Longrightarrow> 0 < WD_IN_EPARA L \<Longrightarrow>
    0 < ret \<or> st = WCRYPTO_DECOMP_END L \<or> st = WCRYPTO_DECOMP_END_NOSPACE L"
  by (auto simp: hw_status_def split: if_splits)

lemma hw_call_codes:
  assumes law: "wd_call_codes L dec codes" and errs: "0 < WD_VERIFY_ERR L" "0 < WD_IN_EPARA L"
    and at: "hw_at zs w inb outb c p" and codes: "codes d c (lib w) xs ys"
    and small: "avail_in_hw zs \<noteq> 0" "unat (avail_in_hw zs) < 2 ^ 32" "unat (avail_out_hw zs) < 2 ^ 32"
    and call: "hw_call L flush zs w = Inr (r, zs', w')" "0 \<le> r"
  obtains k vs where "k \<le> unat (avail_in_hw zs)" "length vs \<le> unat (avail_out_hw zs)" "unat (avail_in_hw zs') = unat (avail_in_hw zs) - k"
    "avail_out_hw zs' = avail_out_hw zs - of_nat (length vs)" "bytes w' = write_mem (bytes w) outb vs"
    "codes d c (lib w') (xs @ read_mem (bytes w) p k) (ys @ vs)"
    "hw_at zs' w' inb outb c (if avail_in_hw zs' = 0 then inb else p + of_nat k)"
    "avail_in_hw zs' = 0 \<Longrightarrow> delivered dec d (flush = WCRYPTO_FINISH L) (flush \<noteq> WCRYPTO_FINISH L \<and> r = UNIZIP_STREAM_END)
       (xs @ read_mem (bytes w) p k) (ys @ vs)"
proof -
  obtain ctl opd where l: "load as_ctl (reserved_hw zs) w = Inr ctl" "load as_op (opdata_ctl ctl) w = Inr opd"
    and o: "in_ctl ctl = inb" "ctx_ctl ctl = c" "in_op opd = p" "out_op opd = outb" "next_in_hw zs = inb" "next_out_hw zs = outb"
    using at unfolding hw_at_def by auto
  define opd1 where "opd1 = opd\<lparr>flush_op := flush, in_len_op := ucast (avail_in_hw zs), avail_out_op := ucast (avail_out_hw zs)\<rparr>"
  from call small(1) obtain ret opd2 m l2 where do: "wcrypto_do_comp L c opd1 (bytes w) (lib w) = Inr (ret, opd2, m, l2)"
    by (auto simp: hw_call_def hw_send_and_recv_def l o Let_def andthen_eq_Inr simp flip: opd1_def)
  have ret: "0 \<le> ret"
  proof (rule ccontr)
    assume "\<not> 0 \<le> ret"
    with call small(1) do show False by (auto simp: hw_call_def hw_send_and_recv_def l o Let_def simp flip: opd1_def)
  qed
  obtain opd' zs1 where acc: "hw_account L ctl opd2 zs = (opd', zs1)" by fastforce
  note parts = hw_account_result [OF acc] hw_account_in [OF acc]
  have out: "zs' = zs1" "w' = store (opdata_ctl ctl) (Op_obj opd') (w\<lparr>bytes := m, lib := l2\<rparr>)"
    and r: "r = hw_status L ret flush (status_op opd2)"
    using call small(1) do ret acc parts(8) by (auto simp: hw_call_def hw_send_and_recv_def l o Let_def simp flip: opd1_def split: if_splits)
  obtain vs where same: "in_len_op opd2 = in_len_op opd1" "in_op opd2 = in_op opd1" "out_op opd2 = out_op opd1"
    and le: "consumed_op opd2 \<le> in_len_op opd1" "produced_op opd2 \<le> avail_out_op opd1"
    and vs: "length vs = unat (produced_op opd2)" "m = write_mem (bytes w) (out_op opd1) vs"
    and new: "codes d c l2 (xs @ read_mem (bytes w) (in_op opd1) (unat (consumed_op opd2))) (ys @ vs)"
    and dlv: "in_len_op opd1 \<noteq> 0 \<longrightarrow> consumed_op opd2 = in_len_op opd1 \<longrightarrow>
       delivered dec d (flush_op opd1 = WCRYPTO_FINISH L)
         (0 < ret \<or> status_op opd2 = WCRYPTO_DECOMP_END L \<or> status_op opd2 = WCRYPTO_DECOMP_END_NOSPACE L)
         (xs @ read_mem (bytes w) (in_op opd1) (unat (consumed_op opd2))) (ys @ vs)"
    by (rule wd_call_codesD [OF law codes do ret])
  let ?k = "unat (consumed_op opd2)"
  have in_len: "unat (in_len_op opd1) = unat (avail_in_hw zs)" "unat (avail_out_op opd1) = unat (avail_out_hw zs)"
    by (simp_all add: opd1_def ucast_32 [OF small(2)] ucast_32 [OF small(3)])
  have k: "?k \<le> unat (avail_in_hw zs)" "length vs \<le> unat (avail_out_hw zs)" using le in_len vs by (simp_all add: word_le_nat_alt)
  have ai: "unat (avail_in_hw zs') = unat (avail_in_hw zs) - ?k"
    using le(1) in_len by (simp add: out parts same unat_ucast_up unat_sub)
  have ao: "avail_out_hw zs' = avail_out_hw zs - of_nat (length vs)" by (simp add: out parts vs)
  have opd1: "in_op opd1 = p" "out_op opd1 = outb" "flush_op opd1 = flush" by (simp_all add: opd1_def o)
  have p: "opdata_ctl ctl \<noteq> 0" "opdata_ctl ctl \<noteq> reserved_hw zs" using l by (auto simp: load_eq_Inr)
  have at': "hw_at zs' w' inb outb c (if avail_in_hw zs' = 0 then inb else p + of_nat ?k)"
    using l p unfolding hw_at_def by (auto simp: out parts o same opd1 load_eq_Inr)
  have "delivered dec d (flush = WCRYPTO_FINISH L) (flush \<noteq> WCRYPTO_FINISH L \<and> r = UNIZIP_STREAM_END)
       (xs @ read_mem (bytes w) p ?k) (ys @ vs)" if "avail_in_hw zs' = 0"
  proof -
    have "unat (in_len_op opd1) \<le> ?k" using ai that in_len by simp
    with le(1) have "consumed_op opd2 = in_len_op opd1" by (simp add: word_le_nat_alt word_unat_eq_iff)
    moreover have "in_len_op opd1 \<noteq> 0" using in_len(1) small(1) by (auto simp flip: unat_eq_zero)
    ultimately have "delivered dec d (flush = WCRYPTO_FINISH L)
         (0 < ret \<or> status_op opd2 = WCRYPTO_DECOMP_END L \<or> status_op opd2 = WCRYPTO_DECOMP_END_NOSPACE L)
         (xs @ read_mem (bytes w) p ?k) (ys @ vs)" using dlv by (simp add: opd1)
    then show ?thesis using hw_status_end [OF _ _ ret errs, of flush "status_op opd2"] r by (cases d) auto
  qed
  then show thesis using that [OF k ai ao _ _ at'] new by (simp add: out vs opd1)
qed

section \<open>Memory\<close>

lemma disjoint_ranges_add:
  "disjoint_ranges a n b (i + j) \<longleftrightarrow> disjoint_ranges a n b i \<and> disjoint_ranges a n (b + of_nat i) j" (is "?l \<longleftrightarrow> ?r")
proof
  assume l: ?l
  have "disjoint_ranges a n (b + of_nat i) j"
    unfolding disjoint_ranges_def
  proof (intro allI impI)
    fix x y assume "x < n" "y < j"
    with l have "a + of_nat x \<noteq> b + of_nat (i + y)" unfolding disjoint_ranges_def by (metis nat_add_left_cancel_less)
    then show "a + of_nat x \<noteq> b + of_nat i + of_nat y" by (simp add: add.assoc)
  qed
  then show ?r using disjoint_ranges_mono [OF l] by simp
next
  assume r: ?r
  show ?l unfolding disjoint_ranges_def
  proof (intro allI impI)
    fix x y assume x: "x < n" and y: "y < i + j"
    show "a + of_nat x \<noteq> b + of_nat y"
    proof (cases "y < i")
      case False
      then obtain z where z: "y = i + z" by (metis le_add_diff_inverse not_less)
      with y have "z < j" by simp
      with r x have "a + of_nat x \<noteq> b + of_nat i + of_nat z" unfolding disjoint_ranges_def by blast
      then show ?thesis by (simp add: z add.assoc)
    qed (use r x in \<open>auto simp: disjoint_ranges_def\<close>)
  qed
qed

lemma unat_addr: "n < 2 ^ 64 \<Longrightarrow> unat (of_nat n :: addr) = n"
  by (simp add: unat_of_nat)

lemma disjoint_ranges_next:
  assumes "i + j \<le> 2 ^ 64"
  shows "disjoint_ranges a i (a + of_nat i) j"
  unfolding disjoint_ranges_def
proof (intro allI impI notI)
  fix x y assume x: "x < i" and y: "y < j" and "a + of_nat x = a + of_nat i + of_nat y"
  then have "(of_nat x :: addr) = of_nat (i + y)" by (simp add: add.assoc)
  then have "unat (of_nat x :: addr) = unat (of_nat (i + y) :: addr)" by simp
  moreover have "x < 2 ^ 64" "i + y < 2 ^ 64" using x y assms by linarith+
  ultimately have "x = i + y" by (simp only: unat_addr)
  with x show False by simp
qed

text \<open>A range outside of the set \<open>S\<close>.\<close>

definition apart :: "addr set \<Rightarrow> addr \<Rightarrow> nat \<Rightarrow> bool" where
  "apart S a n \<longleftrightarrow> (\<forall>i < n. a + of_nat i \<notin> S)"

lemma apart_add: "apart S a (i + j) \<longleftrightarrow> apart S a i \<and> apart S (a + of_nat i) j"
proof -
  have "apart S a n \<longleftrightarrow> (\<forall>x \<in> S. disjoint_ranges x 1 a n)" for a n
    by (auto simp: apart_def disjoint_ranges_def)
  then show ?thesis by (auto simp: disjoint_ranges_add)
qed

lemma apart_mono: "apart S a n \<Longrightarrow> T \<subseteq> S \<Longrightarrow> k \<le> n \<Longrightarrow> apart T a k"
  by (auto simp: apart_def)

definition block :: "addr \<Rightarrow> nat \<Rightarrow> addr set" where
  "block a n = (\<lambda>i. a + of_nat i) ` {..<n}"

lemma apart_block: "apart (block b k) a n \<longleftrightarrow> disjoint_ranges a n b k"
  by (auto simp: apart_def block_def disjoint_ranges_def)

lemma block_mono: "n \<le> k \<Longrightarrow> block a n \<subseteq> block a k"
  by (auto simp: block_def)

text \<open>
  From memory \<open>m\<close> to \<open>m'\<close> the bytes \<open>us\<close> at \<open>src\<close> were used and \<open>vs\<close> was put at \<open>dst\<close>, and apart from
  that only the scratch space \<open>S\<close> was written, if the ranges are apart.
\<close>

definition transfers :: "addr set \<Rightarrow> mem \<Rightarrow> mem \<Rightarrow> addr \<Rightarrow> addr \<Rightarrow> byte list \<Rightarrow> byte list \<Rightarrow> bool" where
  "transfers S m m' src dst us vs \<longleftrightarrow>
     (length vs < 2 ^ 64 \<longrightarrow> apart S src (length us) \<longrightarrow> apart S dst (length vs) \<longrightarrow> disjoint_ranges src (length us) dst (length vs) \<longrightarrow>
        us = read_mem m src (length us) \<and> read_mem m' dst (length vs) = vs) \<and>
     (\<forall>q n. apart S q n \<longrightarrow> disjoint_ranges q n dst (length vs) \<longrightarrow> read_mem m' q n = read_mem m q n)"

lemma transfers_nothing: "transfers S m m src dst [] []"
  by (simp add: transfers_def)

lemma transfers_one:
  assumes "length vs \<le> k"
  shows "transfers (block outb k) m (write_mem (write_mem m outb vs) dst vs) src dst (read_mem m src i) vs"
proof -
  have "apart (block outb k) q n \<Longrightarrow> disjoint_ranges q n outb (length vs)" for q n
    using assms by (auto simp: apart_block intro: disjoint_ranges_mono)
  then show ?thesis by (auto simp: transfers_def read_write_mem read_write_disjoint)
qed

lemma transfers_trans:
  assumes 1: "transfers S m m1 src dst us vs" and 2: "transfers S m1 m2 (src + of_nat (length us)) (dst + of_nat (length vs)) us' vs'"
  shows "transfers S m m2 src dst (us @ us') (vs @ vs')"
proof -
  let ?i = "length us" and ?j = "length us'" and ?k = "length vs" and ?l = "length vs'"
  let ?src = "src + of_nat ?i" and ?dst = "dst + of_nat ?k"
  have frame1: "apart S q n \<Longrightarrow> disjoint_ranges q n dst ?k \<Longrightarrow> read_mem m1 q n = read_mem m q n" for q n
    using 1 by (simp add: transfers_def)
  have frame2: "apart S q n \<Longrightarrow> disjoint_ranges q n ?dst ?l \<Longrightarrow> read_mem m2 q n = read_mem m1 q n" for q n
    using 2 by (simp add: transfers_def)
  have "us @ us' = read_mem m src (?i + ?j) \<and> read_mem m2 dst (?k + ?l) = vs @ vs'"
    if a: "?k + ?l < 2 ^ 64" "apart S src (?i + ?j)" "apart S dst (?k + ?l)" "disjoint_ranges src (?i + ?j) dst (?k + ?l)"
  proof -
    have s: "apart S src ?i" "apart S ?src ?j" "apart S dst ?k" "apart S ?dst ?l" using a by (simp_all add: apart_add)
    have d: "disjoint_ranges src ?i dst ?k" "disjoint_ranges ?src ?j ?dst ?l" "disjoint_ranges ?src ?j dst ?k"
      using a(4) by (metis disjoint_ranges_add disjoint_ranges_sym)+
    have 1: "us = read_mem m src ?i" "read_mem m1 dst ?k = vs" using 1 a(1) s d(1) by (simp_all add: transfers_def)
    have 2: "us' = read_mem m1 ?src ?j" "read_mem m2 ?dst ?l = vs'" using 2 a(1) s d(2) by (simp_all add: transfers_def)
    have "read_mem m1 ?src ?j = read_mem m ?src ?j" by (rule frame1 [OF s(2) d(3)])
    moreover have "read_mem m2 dst ?k = read_mem m1 dst ?k" using frame2 [OF s(3)] disjoint_ranges_next [of ?k ?l dst] a(1) by simp
    ultimately show ?thesis using 1 2 by (simp add: read_mem_add)
  qed
  moreover have "read_mem m2 q n = read_mem m q n" if "apart S q n" "disjoint_ranges q n dst (?k + ?l)" for q n
    using frame1 frame2 that by (simp add: disjoint_ranges_add)
  ultimately show ?thesis by (simp add: transfers_def)
qed

text \<open>Input that is first copied to the driver's input block.\<close>

definition driver_memory :: "addr set \<Rightarrow> addr \<Rightarrow> addr \<Rightarrow> bool" where
  "driver_memory D inb outb \<longleftrightarrow> block inb (2 ^ 20) \<subseteq> D \<and> block outb (2 ^ 20) \<subseteq> D \<and> disjoint_ranges inb (2 ^ 20) outb (2 ^ 20)"

lemma transfers_fed:
  assumes t: "transfers (block outb k) (write_mem m inb (read_mem m src i)) m' inb dst us vs" and i: "length us = i"
    and d: "driver_memory D inb outb" and le: "i \<le> 2 ^ 20" "k \<le> 2 ^ 20"
  shows "transfers D m m' src dst us vs"
proof -
  let ?m1 = "write_mem m inb (read_mem m src i)"
  have sub: "block inb i \<subseteq> D" "block outb k \<subseteq> D" using d block_mono [OF le(1)] block_mono [OF le(2)] unfolding driver_memory_def by blast+
  have inout: "disjoint_ranges inb i outb k" using d le disjoint_ranges_mono unfolding driver_memory_def by blast
  have frame: "read_mem m' q n = read_mem ?m1 q n \<and> read_mem ?m1 q n = read_mem m q n"
    if a: "apart D q n" "disjoint_ranges q n dst (length vs)" for q n
  proof -
    have "apart (block outb k) q n" "disjoint_ranges q n inb i"
      using apart_mono [OF a(1) sub(2)] apart_mono [OF a(1) sub(1)] by (simp_all flip: apart_block)
    then show ?thesis using t a(2) by (simp add: transfers_def read_write_disjoint)
  qed
  have "us = read_mem m src i \<and> read_mem m' dst (length vs) = vs"
    if a: "length vs < 2 ^ 64" "apart D src i" "apart D dst (length vs)" "disjoint_ranges src i dst (length vs)"
  proof -
    have "disjoint_ranges dst (length vs) inb i" using apart_mono [OF a(3) sub(1)] by (simp add: apart_block)
    then have "disjoint_ranges inb i dst (length vs)" by (rule disjoint_ranges_sym)
    moreover have "apart (block outb k) dst (length vs)" using apart_mono [OF a(3) sub(2)] by simp
    moreover have "apart (block outb k) inb i" using inout by (simp add: apart_block)
    ultimately have "us = read_mem ?m1 inb i" "read_mem m' dst (length vs) = vs" using t a(1) i by (simp_all add: transfers_def)
    moreover have "read_mem ?m1 inb i = read_mem m src i" using read_write_mem [of "read_mem m src i" m inb] le(1) by simp
    ultimately show ?thesis by simp
  qed
  then show ?thesis using frame i by (auto simp: transfers_def)
qed

section \<open>The loops\<close>

text \<open>A library whose calls keep the promise, and whose error numbers and flushes are what their names say.\<close>

definition wd_coder ::
  "'l wd_lib \<Rightarrow> (byte list \<Rightarrow> byte list option) \<Rightarrow> (direction \<Rightarrow> ptr \<Rightarrow> 'l \<Rightarrow> byte list \<Rightarrow> byte list \<Rightarrow> bool) \<Rightarrow> bool" where
  "wd_coder L dec codes \<longleftrightarrow> wd_call_codes L dec codes \<and> 0 < WD_VERIFY_ERR L \<and> 0 < WD_IN_EPARA L \<and>
     WCRYPTO_SYNC_FLUSH L \<noteq> WCRYPTO_FINISH L"

text \<open>A round of either inner loop: a call and the copy of what it produced.\<close>

lemma hw_round:
  assumes ok: "wd_coder L dec codes" and at: "hw_at zs w inb outb c p" and codes: "codes d c (lib w) xs ys"
    and small: "avail_in_hw zs \<noteq> 0" "unat (avail_in_hw zs) < 2 ^ 32" "unat chunk < 2 ^ 31"
    and call: "hw_call L flush (zs\<lparr>avail_out_hw := chunk\<rparr>) w = Inr (r, zs1, w1)" "0 \<le> r"
  obtains us vs where "unat (avail_in_hw zs) = length us + unat (avail_in_hw zs1)" "have_out chunk zs1 = of_nat (length vs)"
    "transfers (block outb (unat chunk)) (bytes w) (bytes (memcpy dst (next_out_hw zs1) (have_out chunk zs1) w1)) p dst us vs"
    "codes d c (lib w1) (xs @ us) (ys @ vs)"
    "hw_at zs1 (memcpy dst (next_out_hw zs1) (have_out chunk zs1) w1) inb outb c
       (if avail_in_hw zs1 = 0 then inb else p + of_nat (length us))"
    "avail_in_hw zs1 = 0 \<longrightarrow> delivered dec d (flush = WCRYPTO_FINISH L) (flush \<noteq> WCRYPTO_FINISH L \<and> r = UNIZIP_STREAM_END)
       (xs @ us) (ys @ vs)"
proof -
  let ?zs = "zs\<lparr>avail_out_hw := chunk\<rparr>" and ?w2 = "memcpy dst (next_out_hw zs1) (have_out chunk zs1) w1"
  have ok': "wd_call_codes L dec codes" "0 < WD_VERIFY_ERR L" "0 < WD_IN_EPARA L" using ok by (simp_all add: wd_coder_def)
  have at': "hw_at ?zs w inb outb c p" by (rule hw_at_cong [OF _ _ _ _ at]) simp_all
  have sm: "avail_in_hw ?zs \<noteq> 0" "unat (avail_in_hw ?zs) < 2 ^ 32" "unat (avail_out_hw ?zs) < 2 ^ 32" using small by simp_all
  obtain k vs where k: "k \<le> unat (avail_in_hw zs)" "length vs \<le> unat chunk" "unat (avail_in_hw zs1) = unat (avail_in_hw zs) - k"
    and ao: "avail_out_hw zs1 = chunk - of_nat (length vs)" and b: "bytes w1 = write_mem (bytes w) outb vs"
    and new: "codes d c (lib w1) (xs @ read_mem (bytes w) p k) (ys @ vs)"
    and at1: "hw_at zs1 w1 inb outb c (if avail_in_hw zs1 = 0 then inb else p + of_nat k)"
    and dlv: "avail_in_hw zs1 = 0 \<longrightarrow> delivered dec d (flush = WCRYPTO_FINISH L) (flush \<noteq> WCRYPTO_FINISH L \<and> r = UNIZIP_STREAM_END)
       (xs @ read_mem (bytes w) p k) (ys @ vs)"
    using hw_call_codes [OF ok' at' codes sm call] by auto
  have "length vs < 2 ^ 31" using k(2) small(3) by linarith
  then have "c_int (of_nat (length vs) :: uLong) = int (length vs)" using c_int_word_of_int [of "int (length vs)"] by simp
  then have len: "have_out chunk zs1 = of_nat (length vs)" by (simp add: have_out_def ao)
  have outb: "next_out_hw zs1 = outb" using at1 by (auto simp: hw_at_def)
  have u: "unat (of_nat (length vs) :: addr) = length vs" using \<open>length vs < 2 ^ 31\<close> by (intro unat_addr) simp
  have "read_mem (bytes w1) outb (length vs) = vs" using \<open>length vs < 2 ^ 31\<close> by (simp add: b read_write_mem)
  then have bytes2: "bytes ?w2 = write_mem (write_mem (bytes w) outb vs) dst vs" by (simp add: memcpy_def len outb u b)
  have at2: "hw_at zs1 ?w2 inb outb c (if avail_in_hw zs1 = 0 then inb else p + of_nat k)"
    by (rule hw_at_cong [OF _ _ _ _ at1]) simp_all
  have tr: "transfers (block outb (unat chunk)) (bytes w) (bytes ?w2) p dst (read_mem (bytes w) p k) vs"
    unfolding bytes2 by (rule transfers_one [OF k(2)])
  show thesis
    by (rule that [OF _ len tr new _ dlv]) (use k in simp, unfold length_read_mem, rule at2)
qed

lemma pump_codes:
  assumes "pump L flush chunk zs dst w = Some (Inr (ret, zs', dst', w'))" and "0 \<le> ret" and "wd_coder L dec codes"
    and "hw_at zs w inb outb c p" and "codes d c (lib w) xs ys"
    and "avail_in_hw zs \<noteq> 0" "unat (avail_in_hw zs) < 2 ^ 32" "unat chunk < 2 ^ 31"
  shows "\<exists>us vs. length us = unat (avail_in_hw zs) \<and> dst' = dst + of_nat (length vs) \<and>
    transfers (block outb (unat chunk)) (bytes w) (bytes w') p dst us vs \<and>
    codes d c (lib w') (xs @ us) (ys @ vs) \<and> hw_at zs' w' inb outb c inb \<and>
    delivered dec d (flush = WCRYPTO_FINISH L) (flush \<noteq> WCRYPTO_FINISH L \<and> ret = UNIZIP_STREAM_END) (xs @ us) (ys @ vs)"
  using assms
proof (induction L flush chunk zs dst w "Inr (ret, zs', dst', w') :: (int \<times> zip_stream \<times> addr \<times> 'a world) res"
    arbitrary: p xs ys rule: pump.raw_induct [rotated, consumes 1, case_names step])
  case (step pump L flush chunk zs dst w)
  note body = step(2) and ok = step(4) and at = step(5) and codes = step(6) and small = step(7-9)
  obtain r zs1 w1 where call: "hw_call L flush (zs\<lparr>avail_out_hw := chunk\<rparr>) w = Inr (r, zs1, w1)"
    using body by (auto split: sum.splits)
  let ?w2 = "memcpy dst (next_out_hw zs1) (have_out chunk zs1) w1" and ?dst = "dst + have_out chunk zs1"
  have r: "0 \<le> r" using body \<open>0 \<le> ret\<close> by (auto simp: call not_less split: if_splits)
  obtain us vs where us: "unat (avail_in_hw zs) = length us + unat (avail_in_hw zs1)" and len: "have_out chunk zs1 = of_nat (length vs)"
    and tr: "transfers (block outb (unat chunk)) (bytes w) (bytes ?w2) p dst us vs"
    and new: "codes d c (lib w1) (xs @ us) (ys @ vs)"
    and at1: "hw_at zs1 ?w2 inb outb c (if avail_in_hw zs1 = 0 then inb else p + of_nat (length us))"
    and dlv: "avail_in_hw zs1 = 0 \<longrightarrow> delivered dec d (flush = WCRYPTO_FINISH L) (flush \<noteq> WCRYPTO_FINISH L \<and> r = UNIZIP_STREAM_END)
       (xs @ us) (ys @ vs)"
    by (rule hw_round [where dst = dst, OF ok at codes small call r])
  show ?case
  proof (cases "avail_in_hw zs1 = 0")
    case True
    with body r call have "ret = r" "zs' = zs1" "dst' = ?dst" "w' = ?w2" by (auto simp: Let_def)
    then show ?thesis using us len tr new at1 dlv True by (intro exI [of _ us] exI [of _ vs]) auto
  next
    case False
    then have rec: "pump L flush chunk zs1 ?dst ?w2 = Some (Inr (ret, zs', dst', w'))"
      using body r call by (simp add: Let_def word_gt_0)
    have at2: "hw_at zs1 ?w2 inb outb c (p + of_nat (length us))" using at1 False by simp
    have new2: "codes d c (lib ?w2) (xs @ us) (ys @ vs)" using new by simp
    have small2: "unat (avail_in_hw zs1) < 2 ^ 32" using us small(2) by linarith
    obtain us' vs' where IH: "length us' = unat (avail_in_hw zs1)" "dst' = ?dst + of_nat (length vs')"
      "transfers (block outb (unat chunk)) (bytes ?w2) (bytes w') (p + of_nat (length us)) ?dst us' vs'"
      "codes d c (lib w') ((xs @ us) @ us') ((ys @ vs) @ vs')" "hw_at zs' w' inb outb c inb"
      "delivered dec d (flush = WCRYPTO_FINISH L) (flush \<noteq> WCRYPTO_FINISH L \<and> ret = UNIZIP_STREAM_END) ((xs @ us) @ us') ((ys @ vs) @ vs')"
      using step(1) [OF rec \<open>0 \<le> ret\<close> ok at2 new2 False small2 small(3)] by blast
    from transfers_trans [OF tr [unfolded len] IH(3) [unfolded len]] show ?thesis using IH us len
      by (intro exI [of _ "us @ us'"] exI [of _ "vs @ vs'"]) (simp add: add.assoc)
  qed
qed

lemma feed_fed:
  assumes f: "feed chunk zs src srclen w = (zs1, src1, srclen1, w1)" and at: "hw_at zs w inb outb c inb"
  shows "unat (avail_in_hw zs1) \<le> unat chunk" "unat srclen = unat (avail_in_hw zs1) + unat srclen1"
    "src1 = src + of_nat (unat (avail_in_hw zs1))" "0 < chunk \<Longrightarrow> srclen \<noteq> 0 \<Longrightarrow> avail_in_hw zs1 \<noteq> 0"
    "bytes w1 = write_mem (bytes w) inb (read_mem (bytes w) src (unat (avail_in_hw zs1)))" "lib w1 = lib w"
    "hw_at zs1 w1 inb outb c inb"
proof -
  have inb: "next_in_hw zs = inb" using at by (auto simp: hw_at_def)
  show "unat (avail_in_hw zs1) \<le> unat chunk" "src1 = src + of_nat (unat (avail_in_hw zs1))" "lib w1 = lib w"
    "0 < chunk \<Longrightarrow> srclen \<noteq> 0 \<Longrightarrow> avail_in_hw zs1 \<noteq> 0"
    "bytes w1 = write_mem (bytes w) inb (read_mem (bytes w) src (unat (avail_in_hw zs1)))"
    using f inb by (auto simp: feed_def memcpy_def not_less word_le_nat_alt split: if_splits)
  show "unat srclen = unat (avail_in_hw zs1) + unat srclen1"
    using f by (auto simp: feed_def unat_sub less_imp_le word_less_nat_alt word_le_nat_alt split: if_splits)
  show "hw_at zs1 w1 inb outb c inb" by (rule hw_at_cong [OF _ _ _ _ at]) (simp_all add: feed_result [OF f])
qed

lemma compress_loop_codes:
  assumes "compress_loop L chunk zs src srclen dst w = Some (Inr (ret, zs', dst', w'))" and "0 \<le> ret" and "wd_coder L dec codes"
    and "hw_at zs w inb outb c inb" and "codes Deflating c (lib w) xs ys" and "driver_memory D inb outb"
    and "srclen \<noteq> 0" "0 < chunk" "unat chunk \<le> 2 ^ 20"
  shows "\<exists>us vs. length us = unat srclen \<and> dst' = dst + of_nat (length vs) \<and> transfers D (bytes w) (bytes w') src dst us vs \<and>
    codes Deflating c (lib w') (xs @ us) (ys @ vs) \<and> dec (ys @ vs) = Some (xs @ us)"
  using assms
proof (induction L chunk zs src srclen dst w "Inr (ret, zs', dst', w') :: (int \<times> zip_stream \<times> addr \<times> 'a world) res"
    arbitrary: xs ys rule: compress_loop.raw_induct [rotated, consumes 1, case_names step])
  case (step compress_loop L chunk zs src srclen dst w)
  note ok = step(4) and at = step(5) and codes = step(6) and mem = step(7) and sizes = step(8-10)
  obtain zs1 src1 srclen1 w1 where f: "feed chunk zs src srclen w = (zs1, src1, srclen1, w1)" by (metis prod_cases4)
  note fed = feed_fed [OF f at]
  let ?n = "unat (avail_in_hw zs1)"
  define flush where "flush = (if srclen1 \<noteq> 0 then WCRYPTO_SYNC_FLUSH L else WCRYPTO_FINISH L)"
  have body: "(case pump L flush chunk zs1 dst w1 of None \<Rightarrow> None | Some (Inl e) \<Rightarrow> Some (Inl e)
      | Some (Inr (ret, zs, dst, w)) \<Rightarrow>
          if ret < 0 then Some (Inr (ret, zs, dst, w))
          else if flush \<noteq> WCRYPTO_FINISH L then compress_loop L chunk zs src1 srclen1 dst w
          else Some (Inr (UNIZIP_OK, zs, dst, w))) = Some (Inr (ret, zs', dst', w'))"
    using step(2) by (simp only: f Let_def prod.case flush_def)
  have fin: "flush = WCRYPTO_FINISH L \<longleftrightarrow> srclen1 = 0" using ok by (auto simp: flush_def wd_coder_def)
  obtain r zs2 dst2 w2 where p: "pump L flush chunk zs1 dst w1 = Some (Inr (r, zs2, dst2, w2))"
    using body by (auto split: option.splits sum.splits)
  have r: "0 \<le> r" using body \<open>0 \<le> ret\<close> by (auto simp: p not_less split: if_splits)
  have sm: "avail_in_hw zs1 \<noteq> 0" "unat (avail_in_hw zs1) < 2 ^ 32" "unat chunk < 2 ^ 31"
    using fed(1,4) sizes by simp_all
  have codes1: "codes Deflating c (lib w1) xs ys" using codes fed(6) by simp
  obtain us vs where us: "length us = ?n" and dst2: "dst2 = dst + of_nat (length vs)"
    and tr: "transfers (block outb (unat chunk)) (bytes w1) (bytes w2) inb dst us vs"
    and new: "codes Deflating c (lib w2) (xs @ us) (ys @ vs)" and at2: "hw_at zs2 w2 inb outb c inb"
    and dlv: "delivered dec Deflating (flush = WCRYPTO_FINISH L) (flush \<noteq> WCRYPTO_FINISH L \<and> r = UNIZIP_STREAM_END) (xs @ us) (ys @ vs)"
    using pump_codes [OF p r ok fed(7) codes1 sm] by blast
  have "?n \<le> 2 ^ 20" using fed(1) sizes(3) by linarith
  from transfers_fed [OF tr [unfolded fed(5)] us mem this sizes(3)]
  have tr: "transfers D (bytes w) (bytes w2) src dst us vs" .
  show ?case
  proof (cases "srclen1 = 0")
    case True
    with body r fin have "zs' = zs2" "dst' = dst2" "w' = w2" by (auto simp: p)
    then show ?thesis using True us dst2 tr new dlv fed(2) fin by (intro exI [of _ us] exI [of _ vs]) simp
  next
    case False
    then have rec: "compress_loop L chunk zs2 src1 srclen1 dst2 w2 = Some (Inr (ret, zs', dst', w'))"
      using body r fin by (simp add: p)
    obtain us' vs' where IH: "length us' = unat srclen1" "dst' = dst2 + of_nat (length vs')"
      "transfers D (bytes w2) (bytes w') src1 dst2 us' vs'" "codes Deflating c (lib w') ((xs @ us) @ us') ((ys @ vs) @ vs')"
      "dec ((ys @ vs) @ vs') = Some ((xs @ us) @ us')"
      using step(1) [OF rec \<open>0 \<le> ret\<close> ok at2 new mem False sizes(2,3)] by blast
    from transfers_trans [OF tr IH(3) [unfolded fed(3) us [symmetric] dst2]] show ?thesis
      using IH us dst2 fed(2) by (intro exI [of _ "us @ us'"] exI [of _ "vs @ vs'"]) (simp add: add.assoc)
  qed
qed

lemma drain_codes:
  assumes "drain L chunk dstlen zs dst w = Some (Inr (False, ret, zs', dst', w'))" and "wd_coder L dec codes"
    and "hw_at zs w inb outb c p" and "codes Inflating c (lib w) xs ys"
    and "avail_in_hw zs \<noteq> 0" "unat (avail_in_hw zs) < 2 ^ 32" "unat chunk < 2 ^ 31"
  shows "\<exists>us vs. length us = unat (avail_in_hw zs) \<and> dst' = dst + of_nat (length vs) \<and>
    transfers (block outb (unat chunk)) (bytes w) (bytes w') p dst us vs \<and>
    codes Inflating c (lib w') (xs @ us) (ys @ vs) \<and> hw_at zs' w' inb outb c inb \<and>
    delivered dec Inflating False (ret = UNIZIP_STREAM_END) (xs @ us) (ys @ vs)"
  using assms
proof (induction L chunk dstlen zs dst w "Inr (False, ret, zs', dst', w') :: (bool \<times> int \<times> zip_stream \<times> addr \<times> 'a world) res"
    arbitrary: p xs ys rule: drain.raw_induct [rotated, consumes 1, case_names step])
  case (step drain L chunk dstlen zs dst w)
  note body = step(2) and ok = step(3) and at = step(4) and codes = step(5) and small = step(6-8)
  obtain r zs1 w1 where call: "hw_call L (WCRYPTO_SYNC_FLUSH L) (zs\<lparr>avail_out_hw := chunk\<rparr>) w = Inr (r, zs1, w1)"
    using body by (auto split: sum.splits)
  have r: "0 \<le> r" using body by (auto simp: call not_less split: if_splits)
  obtain cap where cap: "dstlen = Some cap" "\<not> cap < total_out_hw zs1" using body r by (auto simp: call split: option.splits if_splits)
  let ?w2 = "memcpy dst (next_out_hw zs1) (have_out chunk zs1) w1" and ?dst = "dst + have_out chunk zs1"
  have sync: "WCRYPTO_SYNC_FLUSH L \<noteq> WCRYPTO_FINISH L" using ok by (simp add: wd_coder_def)
  obtain us vs where us: "unat (avail_in_hw zs) = length us + unat (avail_in_hw zs1)" and len: "have_out chunk zs1 = of_nat (length vs)"
    and tr: "transfers (block outb (unat chunk)) (bytes w) (bytes ?w2) p dst us vs"
    and new: "codes Inflating c (lib w1) (xs @ us) (ys @ vs)"
    and at1: "hw_at zs1 ?w2 inb outb c (if avail_in_hw zs1 = 0 then inb else p + of_nat (length us))"
    and dlv: "avail_in_hw zs1 = 0 \<longrightarrow> delivered dec Inflating (WCRYPTO_SYNC_FLUSH L = WCRYPTO_FINISH L)
       (WCRYPTO_SYNC_FLUSH L \<noteq> WCRYPTO_FINISH L \<and> r = UNIZIP_STREAM_END) (xs @ us) (ys @ vs)"
    by (rule hw_round [where dst = dst, OF ok at codes small call r])
  show ?case
  proof (cases "avail_in_hw zs1 = 0")
    case True
    with body r call cap have "ret = r" "zs' = zs1" "dst' = ?dst" "w' = ?w2" by (auto simp: Let_def)
    then show ?thesis using us len tr new at1 dlv True sync by (intro exI [of _ us] exI [of _ vs]) auto
  next
    case False
    then have rec: "drain L chunk dstlen zs1 ?dst ?w2 = Some (Inr (False, ret, zs', dst', w'))"
      using body r call cap by (simp add: Let_def word_gt_0)
    have at2: "hw_at zs1 ?w2 inb outb c (p + of_nat (length us))" using at1 False by simp
    have new2: "codes Inflating c (lib ?w2) (xs @ us) (ys @ vs)" using new by simp
    have small2: "unat (avail_in_hw zs1) < 2 ^ 32" using us small(2) by linarith
    obtain us' vs' where IH: "length us' = unat (avail_in_hw zs1)" "dst' = ?dst + of_nat (length vs')"
      "transfers (block outb (unat chunk)) (bytes ?w2) (bytes w') (p + of_nat (length us)) ?dst us' vs'"
      "codes Inflating c (lib w') ((xs @ us) @ us') ((ys @ vs) @ vs')" "hw_at zs' w' inb outb c inb"
      "delivered dec Inflating False (ret = UNIZIP_STREAM_END) ((xs @ us) @ us') ((ys @ vs) @ vs')"
      using step(1) [OF rec ok at2 new2 False small2 small(3)] by blast
    from transfers_trans [OF tr [unfolded len] IH(3) [unfolded len]] show ?thesis using IH us len
      by (intro exI [of _ "us @ us'"] exI [of _ "vs @ vs'"]) (simp add: add.assoc)
  qed
qed

text \<open>A decompression that is not stopped early has consumed all of the input, or stopped at the end of a file.\<close>

lemma decompress_loop_codes:
  assumes "decompress_loop L chunk dstlen zs src srclen dst w = Some (Inr (False, ret, zs', dst', w'))" and "wd_coder L dec codes"
    and "hw_at zs w inb outb c inb" and "codes Inflating c (lib w) xs ys" and "driver_memory D inb outb"
    and "0 < chunk" "unat chunk \<le> 2 ^ 20" and "\<forall>z. dec xs = Some z \<longrightarrow> z = ys"
  shows "\<exists>us vs. length us \<le> unat srclen \<and> dst' = dst + of_nat (length vs) \<and> transfers D (bytes w) (bytes w') src dst us vs \<and>
    codes Inflating c (lib w') (xs @ us) (ys @ vs) \<and> (\<forall>z. dec (xs @ us) = Some z \<longrightarrow> z = ys @ vs) \<and>
    (length us < unat srclen \<longrightarrow> dec (xs @ us) \<noteq> None)"
  using assms
proof (induction L chunk dstlen zs src srclen dst w "Inr (False, ret, zs', dst', w') :: (bool \<times> int \<times> zip_stream \<times> addr \<times> 'a world) res"
    arbitrary: xs ys rule: decompress_loop.raw_induct [rotated, consumes 1, case_names step])
  case (step decompress_loop L chunk dstlen zs src srclen dst w)
  note body = step(2) and ok = step(3) and at = step(4) and codes = step(5) and mem = step(6) and sizes = step(7,8) and so_far = step(9)
  obtain zs1 src1 srclen1 w1 where f: "feed chunk zs src srclen w = (zs1, src1, srclen1, w1)" by (metis prod_cases4)
  note fed = feed_fed [OF f at]
  let ?n = "unat (avail_in_hw zs1)"
  show ?case
  proof (cases "avail_in_hw zs1 = 0")
    case True
    then have "srclen = 0" using fed(4) sizes by blast
    have out: "dst' = dst" "w' = w1" using body True by (simp_all add: f)
    have "bytes w1 = bytes w" using fed(5) True by simp
    then show ?thesis using \<open>srclen = 0\<close> out codes fed(6) so_far
      by (intro exI [of _ "[]"]) (simp add: transfers_nothing)
  next
    case False
    obtain r zs2 dst2 w2 where p: "drain L chunk dstlen zs1 dst w1 = Some (Inr (False, r, zs2, dst2, w2))"
      using body False by (auto simp: f split: option.splits sum.splits if_splits)
    have sm: "unat (avail_in_hw zs1) < 2 ^ 32" "unat chunk < 2 ^ 31" using fed(1) sizes by simp_all
    have codes1: "codes Inflating c (lib w1) xs ys" using codes fed(6) by simp
    obtain us vs where us: "length us = ?n" and dst2: "dst2 = dst + of_nat (length vs)"
      and tr: "transfers (block outb (unat chunk)) (bytes w1) (bytes w2) inb dst us vs"
      and new: "codes Inflating c (lib w2) (xs @ us) (ys @ vs)" and at2: "hw_at zs2 w2 inb outb c inb"
      and dlv: "delivered dec Inflating False (r = UNIZIP_STREAM_END) (xs @ us) (ys @ vs)"
      using drain_codes [OF p ok fed(7) codes1 False sm] by blast
    have "?n \<le> 2 ^ 20" using fed(1) sizes(2) by linarith
    from transfers_fed [OF tr [unfolded fed(5)] us mem this sizes(2)]
    have tr: "transfers D (bytes w) (bytes w2) src dst us vs" .
    show ?thesis
    proof (cases "r = UNIZIP_STREAM_END")
      case True
      with body False have "dst' = dst2" "w' = w2" by (simp_all add: f p)
      then show ?thesis using us dst2 tr new dlv fed(2) True by (intro exI [of _ us] exI [of _ vs]) simp
    next
      case rest: False
      then have rec: "decompress_loop L chunk dstlen zs2 src1 srclen1 dst2 w2 = Some (Inr (False, ret, zs', dst', w'))"
        using body False by (simp add: f p)
      have so_far': "\<forall>z. dec (xs @ us) = Some z \<longrightarrow> z = ys @ vs" using dlv by simp
      obtain us' vs' where IH: "length us' \<le> unat srclen1" "dst' = dst2 + of_nat (length vs')"
        "transfers D (bytes w2) (bytes w') src1 dst2 us' vs'" "codes Inflating c (lib w') ((xs @ us) @ us') ((ys @ vs) @ vs')"
        "\<forall>z. dec ((xs @ us) @ us') = Some z \<longrightarrow> z = (ys @ vs) @ vs'" "length us' < unat srclen1 \<longrightarrow> dec ((xs @ us) @ us') \<noteq> None"
        using step(1) [OF rec ok at2 new mem sizes so_far'] by blast
      from transfers_trans [OF tr IH(3) [unfolded fed(3) us [symmetric] dst2]] show ?thesis
        using IH us dst2 fed(2) by (intro exI [of _ "us @ us'"] exI [of _ "vs @ vs'"]) (simp add: add.assoc)
    qed
  qed
qed

section \<open>Setting up\<close>

text \<open>
  What the library promises of queues, blocks and contexts: a context has the direction its
  queue was requested with and has coded nothing yet, the blocks lie in the memory \<open>D\<close> of the
  driver and do not overlap, and no context ever produces \<open>2 ^ 63\<close> bytes.  \<open>dirq l q\<close> is the direction
  of the queue \<open>q\<close>.
\<close>

fun dir_code :: "'l wd_lib \<Rightarrow> direction \<Rightarrow> int" where
  "dir_code L Deflating = WCRYPTO_DEFLATE L"
| "dir_code L Inflating = WCRYPTO_INFLATE L"

definition wd_sets_up ::
  "'l wd_lib \<Rightarrow> (direction \<Rightarrow> ptr \<Rightarrow> 'l \<Rightarrow> byte list \<Rightarrow> byte list \<Rightarrow> bool) \<Rightarrow> ('l \<Rightarrow> ptr \<Rightarrow> direction) \<Rightarrow> addr set \<Rightarrow> bool" where
  "wd_sets_up L codes dirq D \<longleftrightarrow>
     (\<forall>d q qc l qc' l'. direction_queue qc = dir_code L d \<longrightarrow> wd_request_queue L q qc l = (0, qc', l') \<longrightarrow> dirq l' q = d) \<and>
     (\<forall>q q' sz num al l p l'. wd_blkpool_create L q' sz num al l = (p, l') \<longrightarrow> dirq l' q = dirq l q) \<and>
     (\<forall>q p l a l'. wd_alloc_blk L p l = (a, l') \<longrightarrow> dirq l' q = dirq l q) \<and>
     (\<forall>p l a l' b l''. wd_alloc_blk L p l = (a, l') \<longrightarrow> wd_alloc_blk L p l' = (b, l'') \<longrightarrow> a \<noteq> 0 \<longrightarrow> b \<noteq> 0 \<longrightarrow> driver_memory D a b) \<and>
     (\<forall>q p l c l'. wcrypto_create_comp_ctx L q (WCRYPTO_GZIP L) (WCRYPTO_COMP_STATEFUL L) p l = (c, l') \<longrightarrow> c \<noteq> 0 \<longrightarrow>
        codes (dirq l q) c l' [] []) \<and>
     (\<forall>d c l xs ys. codes d c l xs ys \<longrightarrow> length ys < 2 ^ 63)"

lemma wd_sets_upD:
  assumes "wd_sets_up L codes dirq D"
  shows "direction_queue qc = dir_code L d \<Longrightarrow> wd_request_queue L q qc l = (0, qc', l') \<Longrightarrow> dirq l' q = d"
    and "wd_blkpool_create L q' sz num al l = (p, l') \<Longrightarrow> dirq l' q = dirq l q"
    and "wd_alloc_blk L p l = (a, l') \<Longrightarrow> dirq l' q = dirq l q"
    and "wd_alloc_blk L p l = (a, l') \<Longrightarrow> wd_alloc_blk L p l' = (b, l'') \<Longrightarrow> a \<noteq> 0 \<Longrightarrow> b \<noteq> 0 \<Longrightarrow> driver_memory D a b"
    and "wcrypto_create_comp_ctx L q (WCRYPTO_GZIP L) (WCRYPTO_COMP_STATEFUL L) p l = (c, l') \<Longrightarrow> c \<noteq> 0 \<Longrightarrow> codes (dirq l q) c l' [] []"
    and "codes d c l xs ys \<Longrightarrow> length ys < 2 ^ 63"
  using assms unfolding wd_sets_up_def by (metis (no_types))+

lemma malloc_rest: "malloc ob w = (p, w') \<Longrightarrow> lib w' = lib w \<and> bytes w' = bytes w"
  by (auto simp: malloc_def Let_def split: if_splits)

lemma hw_init_ctx_codes:
  assumes up: "wd_sets_up L codes dirq D" and mem: "driver_memory D inb outb"
    and i: "hw_init_ctx L zs (WCRYPTO_GZIP L) ret q pool inb outb w = Inr (0, zs', w')"
  shows "\<exists>c. hw_at zs' w' inb outb c inb \<and> codes (dirq (lib w) q) c (lib w') [] [] \<and> bytes w' = bytes w"
proof -
  obtain c l1 where c: "wcrypto_create_comp_ctx L q (WCRYPTO_GZIP L) (WCRYPTO_COMP_STATEFUL L) pool (lib w) = (c, l1)" by fastforce
  obtain p w1 where m: "malloc (Op_obj zero_op) (w\<lparr>lib := l1\<rparr>) = (p, w1)" by fastforce
  define w2 where "w2 = store p (Op_obj (zero_op\<lparr>in_op := inb, out_op := outb,
      stream_pos_op := WCRYPTO_COMP_STREAM_NEW L, alg_type_op := WCRYPTO_GZIP L\<rparr>)) w1"
  obtain p' w3 where m': "malloc (Ctl_obj zero_ctl) w2 = (p', w3)" by fastforce
  have ne: "c \<noteq> 0" "p \<noteq> 0" "p' \<noteq> 0"
    and r: "zs' = zs\<lparr>next_in_hw := inb, next_out_hw := outb, reserved_hw := p'\<rparr>"
      "w' = store p' (Ctl_obj (zero_ctl\<lparr>pool_ctl := pool, in_ctl := inb, out_ctl := outb,
         ctx_ctl := c, queue_ctl := q, opdata_ctl := p\<rparr>)) w3"
    using i unfolding hw_init_ctx_def Let_def c m split_def fst_conv snd_conv w2_def [symmetric] m'
    by (simp_all add: failing_not_ok cleanup_fails split: if_splits)
  have "p = Suc (allocs w)" "allocs w2 = Suc (allocs w)" using m ne(2) by (auto simp: w2_def malloc_def Let_def split: if_splits)
  moreover have "p' = Suc (allocs w2)" "heap w3 = (heap w2)(p' \<mapsto> Ctl_obj zero_ctl)"
    using m' ne(3) by (auto simp: malloc_def Let_def split: if_splits)
  ultimately have "hw_at zs' w' inb outb c inb" using ne by (auto simp: hw_at_def load_eq_Inr r w2_def)
  moreover have "lib w' = l1" "bytes w' = bytes w" using malloc_rest [OF m] malloc_rest [OF m'] by (simp_all add: r w2_def)
  ultimately show ?thesis using wd_sets_upD(5) [OF up c ne(1)] by blast
qed

lemma hw_init_codes:
  assumes up: "wd_sets_up L codes dirq D" and i: "hw_init L zs (WCRYPTO_GZIP L) (dir_code L d) w = Inr (0, zs', w')"
  obtains inb outb c where "driver_memory D inb outb" "hw_at zs' w' inb outb c inb" "codes d c (lib w') [] []" "bytes w' = bytes w"
proof -
  obtain q w1 where m: "malloc (Queue_obj zero_queue) w = (q, w1)" by fastforce
  let ?qc = "zero_queue\<lparr>alg_queue := Some (if WCRYPTO_GZIP L = WCRYPTO_ZLIB L then ''zlib'' else ''gzip''),
    latency_queue := 0, throughput_queue := 0, direction_queue := dir_code L d\<rparr>"
  obtain ret qc l1 where rq: "wd_request_queue L q ?qc (lib w1) = (ret, qc, l1)" by (metis prod_cases3)
  define w2 where "w2 = store q (Queue_obj qc) (w1\<lparr>lib := l1\<rparr>)"
  have ret: "ret = 0" and pool: "hw_init_pool L zs (WCRYPTO_GZIP L) 0 q w2 = Inr (0, zs', w')"
    using i unfolding hw_init_def m Let_def split_def fst_conv snd_conv rq w2_def [symmetric]
    by (simp_all add: failing_not_ok cleanup_fails split: if_splits)
  have dir: "dirq (lib w2) q = d" using wd_sets_upD(1) [OF up _ rq [unfolded ret]] by (simp add: w2_def)
  obtain p l3 where bp: "wd_blkpool_create L q DMEMSIZE 3 128 (lib w2) = (p, l3)" by fastforce
  obtain inb l4 where b1: "wd_alloc_blk L p l3 = (inb, l4)" by fastforce
  obtain outb l5 where b2: "wd_alloc_blk L p l4 = (outb, l5)" by fastforce
  have nn: "inb \<noteq> 0" "outb \<noteq> 0" and ctx: "hw_init_ctx L zs (WCRYPTO_GZIP L) 0 q p inb outb (w2\<lparr>lib := l5\<rparr>) = Inr (0, zs', w')"
    using pool unfolding hw_init_pool_def bp Let_def split_def fst_conv snd_conv
    by (simp_all add: b1 b2 failing_not_ok cleanup_fails split: if_splits)
  note mem = wd_sets_upD(4) [OF up b1 b2 nn]
  have "dirq l5 q = d" using wd_sets_upD(2) [OF up bp] wd_sets_upD(3) [OF up b1] wd_sets_upD(3) [OF up b2] dir by simp
  moreover have "bytes w2 = bytes w" using malloc_rest [OF m] by (simp add: w2_def)
  ultimately show thesis using hw_init_ctx_codes [OF up mem ctx] that [OF mem] by auto
qed

section \<open>The one-shot functions\<close>

text \<open>The chunk both functions use.\<close>

lemma default_chunk: "0 < (word_of_int DEFAULT_STREAM_CHUNK :: uLong)" "unat (word_of_int DEFAULT_STREAM_CHUNK :: uLong) \<le> 2 ^ 20"
  by simp_all

lemma compressCB_uadk_codes:
  assumes ok: "wd_coder L dec codes" and up: "wd_sets_up L codes dirq D" and gz: "WCRYPTO_GZIP L \<noteq> WCRYPTO_ZLIB L" and n: "n \<noteq> 0"
    and c: "compressCB_uadk L dest (Some cap) source n w = Inr (UNIZIP_OK, Some len, w')"
  shows "\<exists>us vs. length us = unat n \<and> length vs = unat len \<and> transfers D (bytes w) (bytes w') source dest us vs \<and> dec vs = Some us"
proof -
  let ?chunk = "word_of_int DEFAULT_STREAM_CHUNK :: uLong"
  have i: "hw_deflateInit2_fn L zs lv mt (15 + 16) ml st w = hw_init L zs (WCRYPTO_GZIP L) (dir_code L Deflating) w" for zs lv mt ml st
    by (simp add: hw_deflateInit2_init)
  obtain zs w1 zs2 dst2 w2 where h: "hw_init L (zip_stream_indet L) (WCRYPTO_GZIP L) (dir_code L Deflating) w = Inr (0, zs, w1)"
    and l: "compress_loop L ?chunk zs source n dest w1 = Some (Inr (0, zs2, dst2, w2))"
    and e: "hw_end L zs2 w2 = Inr w'" "len = dst2 - dest"
    using c gz unfolding compressCB_uadk_def returning_eq_Inr hw_stream_compress_def ALG_TYPE_def Let_def i
    by (auto simp: andthen_eq_Inr split: if_splits sum.splits)
  obtain inb outb ctx where u: "driver_memory D inb outb" "hw_at zs w1 inb outb ctx inb" "codes Deflating ctx (lib w1) [] []"
    "bytes w1 = bytes w" by (rule hw_init_codes [OF up h])
  obtain us vs where r: "length us = unat n" "dst2 = dest + of_nat (length vs)" "transfers D (bytes w1) (bytes w2) source dest us vs"
    "codes Deflating ctx (lib w2) ([] @ us) ([] @ vs)" "dec ([] @ vs) = Some ([] @ us)"
    using compress_loop_codes [OF l _ ok u(2,3,1) n default_chunk] by auto
  have "length vs < 2 ^ 63" using wd_sets_upD(6) [OF up r(4)] by simp
  then have "unat len = length vs" by (simp add: e(2) r(2) unat_addr)
  then show ?thesis using r u(4) hw_end_bytes [OF e(1)] by auto
qed

lemma drain_stops: "drain L chunk dstlen zs dst w = Some (Inr (True, ret, zs', dst', w')) \<Longrightarrow> ret \<noteq> 0"
proof (induction L chunk dstlen zs dst w "Inr (True, ret, zs', dst', w') :: (bool \<times> int \<times> zip_stream \<times> addr \<times> 'a world) res"
    rule: drain.raw_induct [rotated, consumes 1, case_names step])
  case (step drain L chunk dstlen zs dst w)
  then show ?case by (auto simp: Let_def split: sum.splits option.splits if_splits)
qed

lemma decompress_loop_stops: "decompress_loop L chunk dstlen zs src srclen dst w = Some (Inr (True, ret, zs', dst', w')) \<Longrightarrow> ret \<noteq> 0"
proof (induction L chunk dstlen zs src srclen dst w "Inr (True, ret, zs', dst', w') :: (bool \<times> int \<times> zip_stream \<times> addr \<times> 'a world) res"
    rule: decompress_loop.raw_induct [rotated, consumes 1, case_names step])
  case (step decompress_loop L chunk dstlen zs src srclen dst w)
  obtain zs1 src1 srclen1 w1 where f: "feed chunk zs src srclen w = (zs1, src1, srclen1, w1)" by (metis prod_cases4)
  from step f drain_stops [of L chunk dstlen zs1 dst w1] show ?case by (auto split: sum.splits option.splits if_splits)
qed

lemma uncompressCB_uadk_codes:
  assumes ok: "wd_coder L dec codes" and up: "wd_sets_up L codes dirq D" and gz: "WCRYPTO_GZIP L \<noteq> WCRYPTO_ZLIB L"
    and empty: "dec [] = None"
    and c: "uncompressCB_uadk L dest (Some cap) source n w = Inr (UNIZIP_OK, Some len, w')"
  shows "\<exists>us vs. length us \<le> unat n \<and> length vs = unat len \<and> transfers D (bytes w) (bytes w') source dest us vs \<and>
    (\<forall>z. dec us = Some z \<longrightarrow> z = vs) \<and> (length us < unat n \<longrightarrow> dec us \<noteq> None)"
proof -
  let ?chunk = "word_of_int DEFAULT_STREAM_CHUNK :: uLong"
  have i: "hw_inflateInit2_fn L zs (16 + MAX_WBITS) w = hw_init L zs (WCRYPTO_GZIP L) (dir_code L Inflating) w" for zs
    by (simp add: hw_inflateInit2_init)
  obtain zs w1 stop ret zs2 dst2 w2 where h: "hw_init L (zip_stream_indet L) (WCRYPTO_GZIP L) (dir_code L Inflating) w = Inr (0, zs, w1)"
    and l: "decompress_loop L ?chunk (Some cap) zs source n dest w1 = Some (Inr (stop, ret, zs2, dst2, w2))"
    and e: "hw_end L zs2 w2 = Inr w'" "if stop then ret = 0 else len = dst2 - dest"
    using c gz unfolding uncompressCB_uadk_def returning_eq_Inr hw_stream_decompress_def ALG_TYPE_def Let_def i
    by (auto simp: andthen_eq_Inr split: if_splits sum.splits)
  have "\<not> stop" using decompress_loop_stops [of L ?chunk "Some cap" zs source n dest w1] l e(2) by (cases stop) auto
  then have l: "decompress_loop L ?chunk (Some cap) zs source n dest w1 = Some (Inr (False, ret, zs2, dst2, w2))"
    and len: "len = dst2 - dest" using l e(2) by simp_all
  obtain inb outb ctx where u: "driver_memory D inb outb" "hw_at zs w1 inb outb ctx inb" "codes Inflating ctx (lib w1) [] []"
    "bytes w1 = bytes w" by (rule hw_init_codes [OF up h])
  have start: "\<forall>z. dec [] = Some z \<longrightarrow> z = []" using empty by simp
  obtain us vs where r: "length us \<le> unat n" "dst2 = dest + of_nat (length vs)" "transfers D (bytes w1) (bytes w2) source dest us vs"
    "codes Inflating ctx (lib w2) ([] @ us) ([] @ vs)" "\<forall>z. dec ([] @ us) = Some z \<longrightarrow> z = [] @ vs"
    "length us < unat n \<longrightarrow> dec ([] @ us) \<noteq> None"
    using decompress_loop_codes [OF l ok u(2,3,1) default_chunk start] by blast
  have "length vs < 2 ^ 63" using wd_sets_upD(6) [OF up r(4)] by simp
  then have "unat len = length vs" by (simp add: len r(2) unat_addr)
  then show ?thesis using r u(4) hw_end_bytes [OF e(1)] by auto
qed

section \<open>The codec\<close>

text \<open>No file of the format is the beginning of another one.\<close>

definition self_delimiting :: "(byte list \<Rightarrow> byte list option) \<Rightarrow> bool" where
  "self_delimiting dec \<longleftrightarrow> dec [] = None \<and> (\<forall>xs us. dec xs \<noteq> None \<longrightarrow> dec (xs @ us) \<noteq> None \<longrightarrow> us = [])"

definition wd_transcodes :: "'l wd_lib \<Rightarrow> (byte list \<Rightarrow> byte list option) \<Rightarrow> addr set \<Rightarrow> bool" where
  "wd_transcodes L dec D \<longleftrightarrow> WCRYPTO_GZIP L \<noteq> WCRYPTO_ZLIB L \<and> self_delimiting dec \<and>
     (\<exists>codes dirq. wd_coder L dec codes \<and> wd_sets_up L codes dirq D)"

section \<open>A coder on which the round trip is applied\<close>

text \<open>
  It codes a file in one call or reports an error: a one in front of every byte and a zero
  behind the last.  Its state is the direction of the queue, what the context has coded, and
  which of its two blocks it gives out next.
\<close>

fun marked :: "byte list \<Rightarrow> byte list" where
  "marked [] = [0]"
| "marked (b # bs) = 1 # b # marked bs"

fun unmarked :: "byte list \<Rightarrow> byte list option" where
  "unmarked [b] = (if b = 0 then Some [] else None)"
| "unmarked (t # b # bs) = (if t = 1 then map_option ((#) b) (unmarked bs) else None)"
| "unmarked [] = None"

lemma unmarked_marked [simp]: "unmarked (marked xs) = Some xs"
  by (induction xs rule: marked.induct) simp_all

lemma self_delimiting_unmarked: "self_delimiting unmarked"
proof -
  have "unmarked xs \<noteq> None \<Longrightarrow> unmarked (xs @ us) \<noteq> None \<Longrightarrow> us = []" for xs us
  proof (induction xs rule: unmarked.induct)
    case (1 b)
    then show ?case by (cases us) (auto split: if_splits)
  qed (auto split: if_splits)
  then show ?thesis by (simp add: self_delimiting_def)
qed

record demo_coder =
  way :: direction
  coded :: "byte list \<times> byte list"
  second :: bool

fun demo_job :: "direction \<Rightarrow> int \<Rightarrow> byte list \<Rightarrow> byte list option" where
  "demo_job Deflating flush us = (if flush = 2 then Some (marked us) else None)"
| "demo_job Inflating flush us = unmarked us"

definition demo_comp ::
  "ptr \<Rightarrow> wcrypto_comp_op_data \<Rightarrow> mem \<Rightarrow> demo_coder \<Rightarrow> (int \<times> wcrypto_comp_op_data \<times> mem \<times> demo_coder) res" where
  "demo_comp c opd m l =
     (let us = read_mem m (in_op opd) (unat (in_len_op opd))
      in case demo_job (way l) (flush_op opd) us of
           None \<Rightarrow> Inr (- 1, opd, m, l)
         | Some vs \<Rightarrow>
             if coded l = ([], []) \<and> length vs \<le> unat (avail_out_op opd)
             then Inr (0, opd\<lparr>consumed_op := in_len_op opd, produced_op := of_nat (length vs), status_op := 3\<rparr>,
                    write_mem m (out_op opd) vs, l\<lparr>coded := (us, vs)\<rparr>)
             else Inr (- 1, opd, m, l))"

definition demo_block :: "demo_coder \<Rightarrow> addr" where
  "demo_block l = (if second l then 0x200000 else 0x100000)"

definition demo_coding :: "demo_coder wd_lib" where
  "demo_coding = \<lparr>WCRYPTO_ZLIB = 0, WCRYPTO_GZIP = 1, WCRYPTO_DEFLATE = 0, WCRYPTO_INFLATE = 1, WCRYPTO_COMP_STATEFUL = 1,
     WCRYPTO_COMP_STREAM_NEW = 0, WCRYPTO_COMP_STREAM_OLD = 1, WCRYPTO_NO_FLUSH = 0, WCRYPTO_SYNC_FLUSH = 1,
     WCRYPTO_FINISH = 2, WCRYPTO_DECOMP_END = 3, WCRYPTO_DECOMP_END_NOSPACE = 4, WD_VERIFY_ERR = 10, WD_IN_EPARA = 11,
     wd_request_queue = (\<lambda>q qc l. (0, qc, l\<lparr>way := if direction_queue qc = 0 then Deflating else Inflating\<rparr>)),
     wd_release_queue = (\<lambda>q qc. Inr),
     wd_blkpool_create = (\<lambda>q sz n al l. (1, l)),
     wd_blkpool_destroy = (\<lambda>p. Inr),
     wd_alloc_blk = (\<lambda>p l. (demo_block l, l\<lparr>second := \<not> second l\<rparr>)),
     wd_free_blk = (\<lambda>p a. Inr),
     wcrypto_create_comp_ctx = (\<lambda>q ty sm p l. (1, l\<lparr>coded := ([], [])\<rparr>)),
     wcrypto_del_comp_ctx = (\<lambda>c. Inr),
     wcrypto_do_comp = demo_comp,
     uadk_tool_output = None, buffer_indet = (\<lambda>_. CHR ''?''),
     zip_stream_indet = \<lparr>next_in_hw = 0, avail_in_hw = 0, total_in_hw = 0, next_out_hw = 0, avail_out_hw = 0, total_out_hw = 0,
       msg_hw = 0, workspace_hw = 0, data_type_hw = 0, adler_hw = 0, reserved_hw = 0\<rparr>\<rparr>"

definition demo_codes :: "direction \<Rightarrow> ptr \<Rightarrow> demo_coder \<Rightarrow> byte list \<Rightarrow> byte list \<Rightarrow> bool" where
  "demo_codes d c l xs ys \<longleftrightarrow> way l = d \<and> coded l = (xs, ys) \<and> length ys < 2 ^ 63"

definition demo_driver :: "addr set" where
  "demo_driver = block 0x100000 (2 ^ 20) \<union> block 0x200000 (2 ^ 20)"

lemma demo_job_delivers: "demo_job d flush us = Some vs \<Longrightarrow> delivered unmarked d fin ended us vs"
  by (cases d) (auto split: if_splits)

lemma demo_comp_codes:
  assumes codes: "demo_codes d c l xs ys" and comp: "demo_comp c opd m l = Inr (ret, opd', m', l')" and ret: "0 \<le> ret"
  obtains vs where "xs = []" "ys = []" "in_len_op opd' = in_len_op opd" "in_op opd' = in_op opd" "out_op opd' = out_op opd"
    "consumed_op opd' = in_len_op opd" "produced_op opd' \<le> avail_out_op opd" "length vs = unat (produced_op opd')"
    "m' = write_mem m (out_op opd) vs" "way l' = d" "coded l' = (read_mem m (in_op opd) (unat (in_len_op opd)), vs)"
    "demo_job d (flush_op opd) (read_mem m (in_op opd) (unat (in_len_op opd))) = Some vs"
proof -
  let ?us = "read_mem m (in_op opd) (unat (in_len_op opd))"
  obtain vs where vs: "demo_job d (flush_op opd) ?us = Some vs" "coded l = ([], [])" "length vs \<le> unat (avail_out_op opd)"
    and r: "opd' = opd\<lparr>consumed_op := in_len_op opd, produced_op := of_nat (length vs), status_op := 3\<rparr>"
      "m' = write_mem m (out_op opd) vs" "l' = l\<lparr>coded := (?us, vs)\<rparr>"
    using codes comp ret by (auto simp: demo_comp_def demo_codes_def Let_def split: option.splits if_splits)
  have "unat (of_nat (length vs) :: uInt) = length vs"
    using vs(3) unsigned_less [of "avail_out_op opd", where ?'a = nat] by (simp add: unat_of_nat)
  with that vs r codes show thesis by (simp add: demo_codes_def word_le_nat_alt)
qed

lemma demo_call_codes: "wd_call_codes demo_coding unmarked demo_codes"
  unfolding wd_call_codes_def
proof (intro allI impI)
  fix d c opd m l ret opd' m' l' xs ys
  assume "demo_codes d c l xs ys" and "wcrypto_do_comp demo_coding c opd m l = Inr (ret, opd', m', l')" and "0 \<le> ret"
  then have "demo_codes d c l xs ys" "demo_comp c opd m l = Inr (ret, opd', m', l')" "0 \<le> ret" by (simp_all add: demo_coding_def)
  from demo_comp_codes [OF this] obtain vs where vs: "xs = []" "ys = []" "in_len_op opd' = in_len_op opd" "in_op opd' = in_op opd"
    "out_op opd' = out_op opd" "consumed_op opd' = in_len_op opd" "produced_op opd' \<le> avail_out_op opd" "length vs = unat (produced_op opd')"
    "m' = write_mem m (out_op opd) vs" "way l' = d" "coded l' = (read_mem m (in_op opd) (unat (in_len_op opd)), vs)"
    "demo_job d (flush_op opd) (read_mem m (in_op opd) (unat (in_len_op opd))) = Some vs" by metis
  have "length vs < 2 ^ 63" using vs(8) unsigned_less [of "produced_op opd'", where ?'a = nat] by simp
  then show "in_len_op opd' = in_len_op opd \<and> in_op opd' = in_op opd \<and> out_op opd' = out_op opd \<and>
     consumed_op opd' \<le> in_len_op opd \<and> produced_op opd' \<le> avail_out_op opd \<and>
     (\<exists>us vs. us = read_mem m (in_op opd) (unat (consumed_op opd')) \<and> length vs = unat (produced_op opd') \<and>
        m' = write_mem m (out_op opd) vs \<and> demo_codes d c l' (xs @ us) (ys @ vs) \<and>
        (in_len_op opd \<noteq> 0 \<longrightarrow> consumed_op opd' = in_len_op opd \<longrightarrow>
           delivered unmarked d (flush_op opd = WCRYPTO_FINISH demo_coding)
             (0 < ret \<or> status_op opd' = WCRYPTO_DECOMP_END demo_coding \<or> status_op opd' = WCRYPTO_DECOMP_END_NOSPACE demo_coding)
             (xs @ us) (ys @ vs)))"
    using vs demo_job_delivers [OF vs(12)] by (simp add: demo_codes_def)
qed

lemma below_block:
  assumes "x \<in> block a n" "unat a + n \<le> 2 ^ 64"
  shows "unat a \<le> unat x \<and> unat x < unat a + n"
proof -
  obtain i where i: "x = a + of_nat i" "i < n" using assms(1) by (auto simp: block_def)
  then have "unat x = unat a + i" using assms(2) by (simp add: unat_word_ariths(1) unat_addr)
  with i show ?thesis by simp
qed

lemma disjoint_blocks: "disjoint_ranges a n b k \<longleftrightarrow> block a n \<inter> block b k = {}"
  by (auto simp: disjoint_ranges_def block_def)

lemma demo_blocks: "disjoint_ranges 0x100000 (2 ^ 20) 0x200000 (2 ^ 20)"
  unfolding disjoint_blocks by (auto dest!: below_block)

lemma demo_driver_memory: "wd_alloc_blk demo_coding p l = (a, l') \<Longrightarrow> wd_alloc_blk demo_coding p l' = (b, l'') \<Longrightarrow>
    driver_memory demo_driver a b"
  using demo_blocks disjoint_ranges_sym [OF demo_blocks]
  by (auto simp: demo_coding_def demo_block_def driver_memory_def demo_driver_def split: if_splits)

lemma apart_demo:
  assumes "unat q + n \<le> 0x100000"
  shows "apart demo_driver q n"
proof -
  have "disjoint_ranges q n a (2 ^ 20)" if "a = 0x100000 \<or> a = 0x200000" for a
    unfolding disjoint_blocks using assms that by (auto dest!: below_block)
  then show ?thesis unfolding demo_driver_def apart_def by (auto simp: apart_def simp flip: apart_block)
qed

lemma demo_sets_up: "wd_sets_up demo_coding demo_codes (\<lambda>l q. way l) demo_driver"
proof -
  have "direction_queue qc = dir_code demo_coding d \<Longrightarrow> wd_request_queue demo_coding q qc l = (0, qc', l') \<Longrightarrow> way l' = d" for q d qc qc' l l'
    by (cases d) (auto simp: demo_coding_def)
  then show ?thesis unfolding wd_sets_up_def using demo_driver_memory
    by (auto simp: demo_codes_def) (auto simp: demo_coding_def)
qed

lemma demo_transcodes: "wd_transcodes demo_coding unmarked demo_driver"
  using demo_call_codes demo_sets_up self_delimiting_unmarked
  by (auto simp: wd_transcodes_def wd_coder_def demo_coding_def)


definition demo_coding_world :: "mem \<Rightarrow> demo_coder world" where
  "demo_coding_world m = \<lparr>heap = Map.empty, allocs = 0, oom = (\<lambda>_. False), bytes = m,
     lib = \<lparr>way = Deflating, coded = ([], []), second = False\<rparr>\<rparr>"


definition demo_hw :: zip_stream where
  "demo_hw = (zip_stream_indet demo_coding)\<lparr>next_in_hw := 0x100000, next_out_hw := 0x200000, reserved_hw := Suc (Suc (Suc 0))\<rparr>"

definition demo_hw_op :: wcrypto_comp_op_data where
  "demo_hw_op = zero_op\<lparr>in_op := 0x100000, out_op := 0x200000, alg_type_op := 1\<rparr>"

definition demo_hw_heap :: "int \<Rightarrow> wcrypto_comp_op_data \<Rightarrow> ptr \<rightharpoonup> obj" where
  "demo_hw_heap dir opd = [Suc 0 \<mapsto> Queue_obj (zero_queue\<lparr>alg_queue := Some ''gzip'', direction_queue := dir\<rparr>), Suc (Suc 0) \<mapsto> Op_obj opd,
     Suc (Suc (Suc 0)) \<mapsto> Ctl_obj (zero_ctl\<lparr>pool_ctl := 1, in_ctl := 0x100000, out_ctl := 0x200000, ctx_ctl := 1, queue_ctl := 1, opdata_ctl := Suc (Suc 0)\<rparr>)]"

definition demo_hw_world :: "direction \<Rightarrow> byte list \<times> byte list \<Rightarrow> wcrypto_comp_op_data \<Rightarrow> mem \<Rightarrow> demo_coder world" where
  "demo_hw_world d log opd m = \<lparr>heap = demo_hw_heap (dir_code demo_coding d) opd, allocs = Suc (Suc (Suc 0)), oom = (\<lambda>_. False), bytes = m,
     lib = \<lparr>way = d, coded = log, second = False\<rparr>\<rparr>"

lemma demo_coding_init:
  "hw_init demo_coding (zip_stream_indet demo_coding) 1 (dir_code demo_coding d) (demo_coding_world m) =
    Inr (0, demo_hw, demo_hw_world d ([], []) demo_hw_op m)"
  by (cases d) (simp_all add: demo_coding_world_def malloc_def Let_def demo_coding_def demo_block_def hw_init_def hw_init_pool_def hw_init_ctx_def
        store_def load_def deref_def demo_hw_def demo_hw_world_def demo_hw_heap_def demo_hw_op_def zero_queue_def zero_op_def
        fun_eq_iff)

lemma demo_hw_end: "\<exists>w'. hw_end demo_coding (demo_hw\<lparr>avail_in_hw := a, avail_out_hw := b, total_in_hw := c, total_out_hw := e\<rparr>)
    (demo_hw_world d log opd m) = Inr w' \<and> bytes w' = m"
  by (simp add: hw_end_def demo_hw_world_def demo_hw_heap_def demo_hw_def load_def deref_def demo_coding_def on_lib_def free_def zero_ctl_def)

text \<open>A call of it, and the two one-shot functions on one piece.\<close>

lemma demo_hw_call:
  assumes us: "us = read_mem m 0x100000 (unat n)" "demo_job d flush us = Some vs" and n: "n \<noteq> 0" "unat n < 2 ^ 32" and vs: "length vs \<le> 65536"
  shows "\<exists>opd. hw_call demo_coding flush (demo_hw\<lparr>avail_in_hw := n, avail_out_hw := 65536\<rparr>) (demo_hw_world d ([], []) demo_hw_op m) =
     Inr (UNIZIP_STREAM_END, demo_hw\<lparr>avail_in_hw := 0, avail_out_hw := 65536 - of_nat (length vs), total_in_hw := n, total_out_hw := of_nat (length vs)\<rparr>,
       demo_hw_world d (us, vs) opd (write_mem m 0x200000 vs))"
proof -
  have u: "unat (ucast n :: uInt) = unat n" "ucast (ucast n :: uInt) = n" using n(2) by (simp_all add: ucast_32 word_unat_eq_iff unat_ucast_up)
  have v: "unat (of_nat (length vs) :: uInt) = length vs" using vs by (simp add: unat_of_nat)
  then have v': "ucast (of_nat (length vs) :: uInt) = (of_nat (length vs) :: uLong)" using vs by (simp add: word_unat_eq_iff unat_ucast_up unat_addr)
  define opd where "opd = demo_hw_op\<lparr>flush_op := flush, in_len_op := ucast n, avail_out_op := 65536, stream_pos_op := 0\<rparr>"
  have c: "wcrypto_do_comp demo_coding 1 opd m \<lparr>way = d, coded = ([], []), second = False\<rparr> =
    Inr (0, opd\<lparr>consumed_op := ucast n, produced_op := of_nat (length vs), status_op := 3\<rparr>, write_mem m 0x200000 vs,
      \<lparr>way = d, coded = (us, vs), second = False\<rparr>)"
    using us vs by (simp add: demo_coding_def demo_comp_def Let_def opd_def demo_hw_op_def zero_op_def u)
  let ?w = "demo_hw_world d ([], []) demo_hw_op m"
  obtain ctl where l: "load as_ctl (Suc (Suc (Suc 0))) ?w = Inr ctl" "opdata_ctl ctl = Suc (Suc 0)" "ctx_ctl ctl = 1" "in_ctl ctl = 0x100000"
      "load as_op (Suc (Suc 0)) ?w = Inr demo_hw_op"
    by (simp add: demo_hw_world_def demo_hw_heap_def load_def deref_def zero_ctl_def)
  have st: "demo_hw_op\<lparr>flush_op := flush, in_len_op := ucast n, avail_out_op := 65536\<rparr> = opd"
    by (simp add: opd_def demo_hw_op_def zero_op_def)
  have w: "lib ?w = \<lparr>way = d, coded = ([], []), second = False\<rparr>" "bytes ?w = m" by (simp_all add: demo_hw_world_def)
  have r: "reserved_hw demo_hw = Suc (Suc (Suc 0))" by (simp add: demo_hw_def)
  have acc: "hw_account demo_coding ctl (opd\<lparr>consumed_op := ucast n, produced_op := of_nat (length vs), status_op := 3\<rparr>)
     (demo_hw\<lparr>avail_in_hw := n, avail_out_hw := 65536\<rparr>) =
     (opd\<lparr>consumed_op := ucast n, produced_op := of_nat (length vs), status_op := 3, stream_pos_op := 1, in_op := 0x100000\<rparr>,
      demo_hw\<lparr>avail_in_hw := 0, avail_out_hw := 65536 - of_nat (length vs), total_in_hw := n, total_out_hw := of_nat (length vs)\<rparr>)"
    by (simp add: hw_account_def Let_def l opd_def u v' demo_hw_op_def zero_op_def) (simp add: demo_coding_def)
  have s: "hw_status demo_coding 0 flush 3 = 1" by (simp add: hw_status_def demo_coding_def)
  have "store (Suc (Suc 0)) (Op_obj opd') (?w\<lparr>bytes := write_mem m 0x200000 vs, lib := \<lparr>way = d, coded = (us, vs), second = False\<rparr>\<rparr>) =
    demo_hw_world d (us, vs) opd' (write_mem m 0x200000 vs)" for opd'
    by (simp add: store_def demo_hw_world_def demo_hw_heap_def fun_eq_iff)
  then show ?thesis using n(1) by (simp add: hw_call_def hw_send_and_recv_def r l w st c [simplified] acc s) blast
qed

lemma demo_have: "n \<le> 65536 \<Longrightarrow> have_out 65536 (zs\<lparr>avail_out_hw := 65536 - of_nat n, total_in_hw := i, total_out_hw := j\<rparr>) = of_nat n"
  using c_int_word_of_int [of "int n"] by (simp add: have_out_def)

lemma demo_feed:
  assumes "n \<le> 65536" and "us = read_mem m src (unat n)"
  shows "feed 65536 demo_hw src n (demo_hw_world d log opd m) =
     (demo_hw\<lparr>avail_in_hw := n\<rparr>, src + n, 0, demo_hw_world d log opd (write_mem m 0x100000 us))"
  using assms by (auto simp: feed_def memcpy_def demo_hw_world_def demo_hw_def not_less [symmetric])

lemma demo_memcpy:
  assumes "length vs \<le> 65536"
  shows "memcpy dst 0x200000 (of_nat (length vs)) (demo_hw_world d log opd (write_mem m 0x200000 vs)) =
     demo_hw_world d log opd (write_mem (write_mem m 0x200000 vs) dst vs)"
  using assms by (simp add: memcpy_def demo_hw_world_def unat_addr read_write_mem)

lemma demo_coding_compress:
  assumes us: "us = read_mem m src (unat n)" "src \<noteq> 0" "dst \<noteq> 0" and n: "n \<noteq> 0" "n \<le> 65536" and vs: "length (marked us) \<le> 65536"
  shows "\<exists>w'. compressCB_uadk demo_coding dst (Some cap) src n (demo_coding_world m) = Inr (UNIZIP_OK, Some (of_nat (length (marked us))), w') \<and>
     bytes w' = write_mem (write_mem (write_mem m 0x100000 us) 0x200000 (marked us)) dst (marked us)"
proof -
  let ?m = "write_mem m 0x100000 us" and ?vs = "marked us"
  have len: "length us = unat n" using us by simp
  have "length us < 2 ^ 32" using n(2) by (simp add: len word_le_nat_alt)
  then have us': "us = read_mem ?m 0x100000 (unat n)" "unat n < 2 ^ 32" using len read_write_mem [of us m "0x100000"] by simp_all
  have job: "demo_job Deflating 2 us = Some ?vs" by simp
  obtain opd where "hw_call demo_coding 2 (demo_hw\<lparr>avail_in_hw := n, avail_out_hw := 65536\<rparr>) (demo_hw_world Deflating ([], []) demo_hw_op ?m) =
     Inr (UNIZIP_STREAM_END, demo_hw\<lparr>avail_in_hw := 0, avail_out_hw := 65536 - of_nat (length ?vs), total_in_hw := n, total_out_hw := of_nat (length ?vs)\<rparr>,
       demo_hw_world Deflating (us, ?vs) opd (write_mem ?m 0x200000 ?vs))"
    using demo_hw_call [OF us'(1) job n(1) us'(2) vs] by blast
  moreover have "next_out_hw demo_hw = 0x200000" "WCRYPTO_FINISH demo_coding = 2" by (simp_all add: demo_hw_def demo_coding_def)
  ultimately have "compress_loop demo_coding 65536 demo_hw src n dst (demo_hw_world Deflating ([], []) demo_hw_op m) =
    Some (Inr (UNIZIP_OK, demo_hw\<lparr>avail_in_hw := 0, avail_out_hw := 65536 - of_nat (length ?vs), total_in_hw := n, total_out_hw := of_nat (length ?vs)\<rparr>,
       dst + of_nat (length ?vs), demo_hw_world Deflating (us, ?vs) opd (write_mem (write_mem ?m 0x200000 ?vs) dst ?vs)))"
    using demo_memcpy [OF vs] by (simp add: compress_loop.simps pump.simps demo_feed [OF n(2) us(1)] Let_def demo_have [OF vs])
  moreover obtain w' where "hw_end demo_coding (demo_hw\<lparr>avail_in_hw := 0, avail_out_hw := 65536 - of_nat (length ?vs), total_in_hw := n, total_out_hw := of_nat (length ?vs)\<rparr>)
     (demo_hw_world Deflating (us, ?vs) opd (write_mem (write_mem ?m 0x200000 ?vs) dst ?vs)) = Inr w'"
     "bytes w' = write_mem (write_mem ?m 0x200000 ?vs) dst ?vs" using demo_hw_end by blast
  moreover have "WCRYPTO_ZLIB demo_coding = 0" "WCRYPTO_GZIP demo_coding = 1" by (simp_all add: demo_coding_def)
  ultimately show ?thesis using us(2,3) demo_coding_init [where d = Deflating and m = m]
    by (simp add: compressCB_uadk_def hw_stream_compress_def hw_deflateInit2_init ALG_TYPE_def returning_def)
qed

lemma demo_coding_uncompress:
  assumes us: "us = read_mem m src (unat n)" "src \<noteq> 0" "dst \<noteq> 0" and n: "n \<noteq> 0" "n \<le> 65536"
    and vs: "unmarked us = Some vs" "length vs \<le> 65536" "of_nat (length vs) \<le> cap"
  shows "\<exists>w'. uncompressCB_uadk demo_coding dst (Some cap) src n (demo_coding_world m) = Inr (UNIZIP_OK, Some (of_nat (length vs)), w') \<and>
     bytes w' = write_mem (write_mem (write_mem m 0x100000 us) 0x200000 vs) dst vs"
proof -
  let ?m = "write_mem m 0x100000 us"
  have len: "length us = unat n" using us by simp
  have "length us < 2 ^ 32" using n(2) by (simp add: len word_le_nat_alt)
  then have us': "us = read_mem ?m 0x100000 (unat n)" "unat n < 2 ^ 32" using len read_write_mem [of us m "0x100000"] by simp_all
  have job: "demo_job Inflating 1 us = Some vs" using vs by simp
  obtain opd where "hw_call demo_coding 1 (demo_hw\<lparr>avail_in_hw := n, avail_out_hw := 65536\<rparr>) (demo_hw_world Inflating ([], []) demo_hw_op ?m) =
     Inr (UNIZIP_STREAM_END, demo_hw\<lparr>avail_in_hw := 0, avail_out_hw := 65536 - of_nat (length vs), total_in_hw := n, total_out_hw := of_nat (length vs)\<rparr>,
       demo_hw_world Inflating (us, vs) opd (write_mem ?m 0x200000 vs))"
    using demo_hw_call [OF us'(1) job n(1) us'(2) vs(2)] by blast
  moreover have "next_out_hw demo_hw = 0x200000" "WCRYPTO_SYNC_FLUSH demo_coding = 1" by (simp_all add: demo_hw_def demo_coding_def)
  ultimately have "decompress_loop demo_coding 65536 (Some cap) demo_hw src n dst (demo_hw_world Inflating ([], []) demo_hw_op m) =
    Some (Inr (False, UNIZIP_STREAM_END, demo_hw\<lparr>avail_in_hw := 0, avail_out_hw := 65536 - of_nat (length vs), total_in_hw := n, total_out_hw := of_nat (length vs)\<rparr>,
       dst + of_nat (length vs), demo_hw_world Inflating (us, vs) opd (write_mem (write_mem ?m 0x200000 vs) dst vs)))"
    using demo_memcpy [OF vs(2)] vs(3) n(1)
    by (simp add: decompress_loop.simps drain.simps demo_feed [OF n(2) us(1)] Let_def demo_have [OF vs(2)] flip: not_le)
  moreover obtain w' where "hw_end demo_coding (demo_hw\<lparr>avail_in_hw := 0, avail_out_hw := 65536 - of_nat (length vs), total_in_hw := n, total_out_hw := of_nat (length vs)\<rparr>)
     (demo_hw_world Inflating (us, vs) opd (write_mem (write_mem ?m 0x200000 vs) dst vs)) = Inr w'"
     "bytes w' = write_mem (write_mem ?m 0x200000 vs) dst vs" using demo_hw_end by blast
  moreover have "WCRYPTO_ZLIB demo_coding = 0" "WCRYPTO_GZIP demo_coding = 1" by (simp_all add: demo_coding_def)
  ultimately show ?thesis using us(2,3) demo_coding_init [of Inflating m]
    by (simp add: uncompressCB_uadk_def hw_stream_decompress_def hw_inflateInit2_init ALG_TYPE_def returning_def)
qed

abbreviation "demo_text \<equiv> (\<lambda>_. 0)(1000 := 7, 1001 := 8, 1002 := 9) :: mem"

lemma read_demo_text: "read_mem demo_text 1000 3 = [7, 8, 9]"
  by (simp add: numeral_3_eq_3 read_mem_Suc)

lemma demo_ranges: "unat a + n \<le> unat b \<Longrightarrow> unat b + k \<le> 2 ^ 64 \<Longrightarrow> disjoint_ranges a n b k"
  unfolding disjoint_blocks by (auto dest!: below_block)

section \<open>Properties\<close>

text \<open>
  C9: what \<open>compress\<close> on the accelerator reports as compressed, a successful \<open>uncompress\<close> restores:
  for an input of any length but 0, whatever the pieces the accelerator takes and delivers, if
  the library's coder and decoder are inverse, deliver all they owe when they have taken all
  their input, and work in memory \<open>D\<close> of their own.
\<close>

theorem uadk_roundtrip:
  assumes lib: "wd_transcodes L dec D" and n: "n \<noteq> 0"
    and comp: "compressCB_uadk L dest (Some cap) source n w = Inr (UNIZIP_OK, Some len, w1)"
    and apart1: "apart D source (unat n)" "apart D dest (unat len)" "disjoint_ranges source (unat n) dest (unat len)"
    and moved: "read_mem (bytes w2) source' (unat len) = read_mem (bytes w1) dest (unat len)"
    and uncomp: "uncompressCB_uadk L dest' (Some cap') source' len w2 = Inr (UNIZIP_OK, Some k, w3)"
    and apart2: "apart D source' (unat len)" "apart D dest' (unat k)" "disjoint_ranges source' (unat len) dest' (unat k)"
  shows "k = n \<and> read_mem (bytes w3) dest' (unat n) = read_mem (bytes w) source (unat n)"
proof -
  obtain codes dirq where ok: "wd_coder L dec codes" "wd_sets_up L codes dirq D" "WCRYPTO_GZIP L \<noteq> WCRYPTO_ZLIB L"
    and sd: "self_delimiting dec" using lib by (auto simp: wd_transcodes_def)
  obtain us vs where 1: "length us = unat n" "length vs = unat len" "transfers D (bytes w) (bytes w1) source dest us vs" "dec vs = Some us"
    using compressCB_uadk_codes [OF ok n comp] by blast
  have "dec [] = None" using sd by (simp add: self_delimiting_def)
  from uncompressCB_uadk_codes [OF ok this uncomp]
  obtain us' vs' where 2: "length us' \<le> unat len" "length vs' = unat k" "transfers D (bytes w2) (bytes w3) source' dest' us' vs'"
    "\<forall>z. dec us' = Some z \<longrightarrow> z = vs'" "length us' < unat len \<longrightarrow> dec us' \<noteq> None" by blast
  have "us = read_mem (bytes w) source (unat n)" and vs: "read_mem (bytes w1) dest (unat len) = vs"
    using 1 apart1 unat_uLong [of len] by (simp_all add: transfers_def)
  have le: "apart D source' (length us')" "disjoint_ranges source' (length us') dest' (unat k)"
    using apart_mono [OF apart2(1) order_refl 2(1)] disjoint_ranges_mono [OF apart2(3) 2(1)] by simp_all
  then have us': "us' = read_mem (bytes w2) source' (length us')" and vs': "read_mem (bytes w3) dest' (unat k) = vs'"
    using 2 apart2(2) unat_uLong [of k] by (simp_all add: transfers_def)
  have "vs = us' @ read_mem (bytes w2) (source' + of_nat (length us')) (unat len - length us')"
    using read_mem_add [of "bytes w2" source' "length us'" "unat len - length us'"] 2(1) moved vs us' by simp
  moreover have "length us' = unat len"
  proof (rule ccontr)
    assume "length us' \<noteq> unat len"
    with 2(1,5) have "dec us' \<noteq> None" "unat len - length us' \<noteq> 0" by simp_all
    with sd 1(4) calculation show False unfolding self_delimiting_def by (metis length_0_conv length_read_mem option.distinct(1))
  qed
  ultimately have "vs = us'" by simp
  with 1(4) 2(4) have "vs' = us" by simp
  with 1(1) 2(2) have "k = n" by (simp add: word_unat_eq_iff)
  with vs' \<open>vs' = us\<close> \<open>us = read_mem (bytes w) source (unat n)\<close> show ?thesis by simp
qed

theorem uadk_roundtrip_witness:
  "\<exists>w1 w3. compressCB_uadk demo_coding 2000 (Some 50) 1000 3 (demo_coding_world demo_text) = Inr (UNIZIP_OK, Some 7, w1) \<and>
     uncompressCB_uadk demo_coding 3000 (Some 50) 2000 7 (demo_coding_world (bytes w1)) = Inr (UNIZIP_OK, Some 3, w3) \<and>
     read_mem (bytes w3) 3000 3 = [7, 8, 9]"
proof -
  let ?vs = "[1, 7, 1, 8, 1, 9, 0] :: byte list"
  obtain w1 where c: "compressCB_uadk demo_coding 2000 (Some 50) 1000 3 (demo_coding_world demo_text) = Inr (UNIZIP_OK, Some 7, w1)"
    and b: "bytes w1 = write_mem (write_mem (write_mem demo_text 0x100000 [7, 8, 9]) 0x200000 ?vs) 2000 ?vs"
    using demo_coding_compress [of "[7, 8, 9]" demo_text 1000 3 2000 50] read_demo_text by auto
  have len: "length ?vs = 7" by simp
  have "read_mem (bytes w1) 2000 7 = ?vs" using read_write_mem [of ?vs _ 2000, unfolded len] by (simp add: b del: write_mem.simps)
  then obtain w3 where u: "uncompressCB_uadk demo_coding 3000 (Some 50) 2000 7 (demo_coding_world (bytes w1)) = Inr (UNIZIP_OK, Some 3, w3)"
    using demo_coding_uncompress [of ?vs "bytes w1" 2000 7 3000 "[7, 8, 9]" 50] by auto
  have moved: "read_mem (bytes (demo_coding_world (bytes w1))) 2000 (unat (7 :: uLong)) = read_mem (bytes w1) 2000 (unat (7 :: uLong))"
    by (simp add: demo_coding_world_def)
  have "(3 :: uLong) = 3 \<and> read_mem (bytes w3) 3000 (unat (3 :: uLong)) = read_mem (bytes (demo_coding_world demo_text)) 1000 (unat (3 :: uLong))"
    by (rule uadk_roundtrip [OF demo_transcodes _ c _ _ _ moved u]) (simp_all add: apart_demo demo_ranges)
  then show ?thesis using c u read_demo_text by (simp add: demo_coding_world_def)
qed

end
