(* ===== verification/UadkStream.thy ===== *)
theory UadkStream
  imports UadkData
begin

text \<open>
  The data of a deflate call on the accelerator: the loop over pieces of 1 MiB hands each of them to
  the library with the flush of the caller.
\<close>

lemma deflate_loop_codes:
  assumes "deflate_loop L flush chunk zs src srclen dst w = Some (Inr (ret, zs', src', dst', w'))" and "flush = WCRYPTO_FINISH L"
    and "0 \<le> ret" and "wd_coder L dec codes"
    and "hw_at zs w inb outb c inb" and "codes Deflating c (lib w) xs ys" and "driver_memory D inb outb"
    and "srclen \<noteq> 0" "0 < chunk" "unat chunk \<le> 2 ^ 20"
  shows "\<exists>us vs. length us = unat srclen \<and> dst' = dst + of_nat (length vs) \<and> transfers D (bytes w) (bytes w') src dst us vs \<and>
    codes Deflating c (lib w') (xs @ us) (ys @ vs) \<and> dec (ys @ vs) = Some (xs @ us) \<and>
    (2 ^ 20 < length us \<longrightarrow> (\<exists>j. dec (ys @ take j vs) = Some (xs @ take (2 ^ 20) us)))"
  using assms
proof (induction L flush chunk zs src srclen dst w "Inr (ret, zs', src', dst', w') :: (int \<times> zip_stream \<times> addr \<times> addr \<times> 'a world) res"
    arbitrary: xs ys rule: deflate_loop.raw_induct [rotated, consumes 1, case_names step])
  case (step deflate_loop L flush chunk zs src srclen dst w)
  note flush = step(3) and ok = step(5) and at = step(6) and codes = step(7) and mem = step(8) and sizes = step(9-11)
  obtain zs1 src1 srclen1 w1 where f: "feed MAX_STREAM_CHUNK zs src srclen w = (zs1, src1, srclen1, w1)" by (metis prod_cases4)
  note fed = feed_fed [OF f at]
  let ?n = "unat (avail_in_hw zs1)"
  have body: "(case pump L flush chunk zs1 dst w1 of None \<Rightarrow> None | Some (Inl e) \<Rightarrow> Some (Inl e)
      | Some (Inr (err, zs, dst, w)) \<Rightarrow>
          if err < 0 then Some (Inr (err, zs, src1, dst, w))
          else if srclen1 > 0 then deflate_loop L flush chunk zs src1 srclen1 dst w
          else Some (Inr (err, zs, src1, dst, w))) = Some (Inr (ret, zs', src', dst', w'))"
    using step(2) by (simp only: f Let_def prod.case)
  obtain r zs2 dst2 w2 where p: "pump L flush chunk zs1 dst w1 = Some (Inr (r, zs2, dst2, w2))"
    using body by (auto split: option.splits sum.splits)
  have r: "0 \<le> r" using body \<open>0 \<le> ret\<close> by (auto simp: p not_less split: if_splits)
  have le: "?n \<le> 2 ^ 20" using fed(1) by simp
  have sm: "avail_in_hw zs1 \<noteq> 0" "unat (avail_in_hw zs1) < 2 ^ 32" "unat chunk < 2 ^ 31"
    using le fed(4) sizes by simp_all
  have codes1: "codes Deflating c (lib w1) xs ys" using codes fed(6) by simp
  obtain us vs where us: "length us = ?n" and dst2: "dst2 = dst + of_nat (length vs)"
    and tr: "transfers (block outb (unat chunk)) (bytes w1) (bytes w2) inb dst us vs"
    and new: "codes Deflating c (lib w2) (xs @ us) (ys @ vs)" and at2: "hw_at zs2 w2 inb outb c inb"
    and dlv: "dec (ys @ vs) = Some (xs @ us)"
    using pump_codes [OF p r ok fed(7) codes1 sm] flush by auto
  from transfers_fed [OF tr [unfolded fed(5)] us mem le sizes(3)]
  have tr: "transfers D (bytes w) (bytes w2) src dst us vs" .
  show ?case
  proof (cases "srclen1 = 0")
    case True
    with body r have "zs' = zs2" "dst' = dst2" "w' = w2" by (auto simp: p)
    then show ?thesis using True us dst2 tr new dlv fed(2) le by (intro exI [of _ us] exI [of _ vs]) simp
  next
    case False
    then have rec: "deflate_loop L flush chunk zs2 src1 srclen1 dst2 w2 = Some (Inr (ret, zs', src', dst', w'))"
      using body r by (simp add: p word_gt_0)
    have full: "?n = 2 ^ 20" using f False by (auto simp: feed_def split: if_splits)
    obtain us' vs' where IH: "length us' = unat srclen1" "dst' = dst2 + of_nat (length vs')"
      "transfers D (bytes w2) (bytes w') src1 dst2 us' vs'" "codes Deflating c (lib w') ((xs @ us) @ us') ((ys @ vs) @ vs')"
      "dec ((ys @ vs) @ vs') = Some ((xs @ us) @ us')"
      using step(1) [OF rec flush \<open>0 \<le> ret\<close> ok at2 new mem False sizes(2,3)] by blast
    from transfers_trans [OF tr IH(3) [unfolded fed(3) us [symmetric] dst2]] show ?thesis
      using IH us dst2 fed(2) dlv full by (intro exI [of _ "us @ us'"] exI [of _ "vs @ vs'"]) (auto simp: add.assoc intro!: exI [of _ "length vs"])
  qed
qed

text \<open>An initialisation leaves the objects that exist as they are.\<close>

lemma malloc_old: "malloc ob w = (p, w') \<Longrightarrow> p \<noteq> 0 \<Longrightarrow> p = Suc (allocs w) \<and> allocs w' = Suc (allocs w) \<and> heap w' = (heap w)(p \<mapsto> ob)"
  by (auto simp: malloc_def Let_def split: if_splits)

lemma hw_init_ctx_old:
  assumes i: "hw_init_ctx L zs a ret q pool inb outb w = Inr (0, zs', w')" and x: "x \<le> allocs w"
  shows "heap w' x = heap w x"
proof -
  obtain c l1 where c: "wcrypto_create_comp_ctx L q a (WCRYPTO_COMP_STATEFUL L) pool (lib w) = (c, l1)" by fastforce
  obtain p w1 where m: "malloc (Op_obj zero_op) (w\<lparr>lib := l1\<rparr>) = (p, w1)" by fastforce
  define w2 where "w2 = store p (Op_obj (zero_op\<lparr>in_op := inb, out_op := outb,
      stream_pos_op := WCRYPTO_COMP_STREAM_NEW L, alg_type_op := a\<rparr>)) w1"
  obtain p' w3 where m': "malloc (Ctl_obj zero_ctl) w2 = (p', w3)" by fastforce
  have ne: "p \<noteq> 0" "p' \<noteq> 0"
    and r: "w' = store p' (Ctl_obj (zero_ctl\<lparr>pool_ctl := pool, in_ctl := inb, out_ctl := outb,
         ctx_ctl := c, queue_ctl := q, opdata_ctl := p\<rparr>)) w3"
    using i unfolding hw_init_ctx_def Let_def c m split_def fst_conv snd_conv w2_def [symmetric] m'
    by (simp_all add: failing_not_ok cleanup_fails split: if_splits)
  with malloc_old [OF m] malloc_old [OF m'] x show ?thesis by (simp add: r w2_def)
qed

lemma hw_init_old:
  assumes i: "hw_init L zs a ty w = Inr (0, zs', w')" and x: "x \<le> allocs w"
  shows "heap w' x = heap w x"
proof -
  obtain q w1 where m: "malloc (Queue_obj zero_queue) w = (q, w1)" by fastforce
  have q: "q \<noteq> 0" using i by (cases "q = 0") (simp_all add: hw_init_def m)
  let ?qc = "zero_queue\<lparr>alg_queue := Some (if a = WCRYPTO_ZLIB L then ''zlib'' else ''gzip''),
    latency_queue := 0, throughput_queue := 0, direction_queue := ty\<rparr>"
  obtain ret qc l1 where rq: "wd_request_queue L q ?qc (lib w1) = (ret, qc, l1)" by (metis prod_cases3)
  define w2 where "w2 = store q (Queue_obj qc) (w1\<lparr>lib := l1\<rparr>)"
  have pool: "hw_init_pool L zs a ret q w2 = Inr (0, zs', w')"
    using i q unfolding hw_init_def m Let_def split_def fst_conv snd_conv rq w2_def [symmetric]
    by (simp add: failing_not_ok cleanup_fails split: if_splits)
  obtain p l3 where bp: "wd_blkpool_create L q DMEMSIZE 3 128 (lib w2) = (p, l3)" by fastforce
  obtain inb l4 where b1: "wd_alloc_blk L p l3 = (inb, l4)" by fastforce
  obtain outb l5 where b2: "wd_alloc_blk L p l4 = (outb, l5)" by fastforce
  have "hw_init_ctx L zs a ret q p inb outb (w2\<lparr>lib := l5\<rparr>) = Inr (0, zs', w')"
    using pool unfolding hw_init_pool_def bp Let_def split_def fst_conv snd_conv
    by (simp add: b1 b2 failing_not_ok cleanup_fails split: if_splits)
  from hw_init_ctx_old [OF this, of x] malloc_old [OF m q] x show ?thesis by (simp add: w2_def)
qed

text \<open>The stream after an initialisation.\<close>

lemma hw_at_store:
  assumes at: "hw_at zs w inb outb c p" and h: "heap w q = Some (Hw_obj z)"
  shows "hw_at zs (store q (Hw_obj z') w) inb outb c p"
proof -
  obtain ctl opd where l: "load as_ctl (reserved_hw zs) w = Inr ctl" "load as_op (opdata_ctl ctl) w = Inr opd"
    and o: "in_ctl ctl = inb" "ctx_ctl ctl = c" "in_op opd = p" "out_op opd = outb" "next_in_hw zs = inb" "next_out_hw zs = outb"
    using at unfolding hw_at_def by auto
  have "load as_ctl (reserved_hw zs) (store q (Hw_obj z') w) = Inr ctl" "load as_op (opdata_ctl ctl) (store q (Hw_obj z') w) = Inr opd"
    using l by (auto intro!: load_store_other [OF _ _ h])
  with o show ?thesis unfolding hw_at_def by blast
qed

lemma deflateInitCB_uadk_codes:
  assumes up: "wd_sets_up L codes dirq D" and gz: "WCRYPTO_GZIP L \<noteq> WCRYPTO_ZLIB L" "compression_flag s0 = WCRYPTO_GZIP L"
    and i: "deflateInitCB_uadk L level s0 w0 = Inr (UNIZIP_OK, s, w)"
  obtains zs inb outb c where "load as_hw (ud s) w = Inr zs" "driver_memory D inb outb" "hw_at zs w inb outb c inb"
    "codes Deflating c (lib w) [] []"
proof -
  obtain p w1 where m: "malloc (Hw_obj (zip_stream_indet L)) w0 = (p, w1)" by fastforce
  have or31: "(15 :: int) OR 16 = 31" by code_simp
  from i gz have p: "p \<noteq> 0" "ud s = p" and a: "at_hw p (on_hw (\<lambda>zs. hw_init L zs (WCRYPTO_GZIP L) (dir_code L Deflating))) w1 = Inr (0, w)"
    by (auto simp: deflateInitCB_uadk_def m Let_def andthen_eq_Inr hw_deflateInit_fn_def hw_init_fns or31 split: if_splits)
  note old = malloc_old [OF m p(1)]
  have "load as_hw p w1 = Inr (zip_stream_indet L)" using old p by (simp add: load_eq_Inr)
  with a p obtain zs w2 where h: "hw_init L (zip_stream_indet L) (WCRYPTO_GZIP L) (dir_code L Deflating) w1 = Inr (0, zs, w2)"
    and w: "w = store p (Hw_obj zs) w2" by (auto simp: at_hw_def load_hw_def on_hw_def andthen_eq_Inr)
  obtain inb outb c where u: "driver_memory D inb outb" "hw_at zs w2 inb outb c inb" "codes Deflating c (lib w2) [] []"
    by (rule hw_init_codes [OF up h])
  have "heap w2 p = Some (Hw_obj (zip_stream_indet L))" using hw_init_old [OF h, of p] old by simp
  from that [OF _ u(1) hw_at_store [OF u(2) this, of zs, folded w]] u(3) p show thesis by (simp add: w)
qed

section \<open>Properties\<close>


text \<open>A call on three bytes, for the witness.\<close>

definition demo_ctl :: zip_ctl where
  "demo_ctl = zero_ctl\<lparr>pool_ctl := 1, in_ctl := 0x100000, out_ctl := 0x200000, ctx_ctl := 1, queue_ctl := 2, opdata_ctl := 3\<rparr>"

definition fresh_at :: "ptr \<Rightarrow> demo_coder world \<Rightarrow> bool" where
  "fresh_at p w \<longleftrightarrow> load as_hw p w = Inr (demo_hw\<lparr>reserved_hw := 4\<rparr>) \<and> load as_ctl 4 w = Inr demo_ctl \<and> load as_op 3 w = Inr demo_hw_op \<and>
     lib w = \<lparr>way = Deflating, coded = ([], []), second = False\<rparr>"

lemma fresh_at_bytes [simp]: "fresh_at p (w\<lparr>bytes := m\<rparr>) = fresh_at p w"
  by (simp add: fresh_at_def)

lemma demo_coding_begins:
  "\<exists>s w. deflateInitCB_uadk demo_coding 6 (demo_stream\<lparr>compression_flag := 1\<rparr>) (demo_coding_world m) = Inr (UNIZIP_OK, s, w) \<and> fresh_at (ud s) w"
  by (simp add: deflateInitCB_uadk_def demo_coding_world_def malloc_def Let_def demo_coding_def at_hw_def load_hw_def fresh_at_def
      hw_deflateInit2_init on_hw_def hw_init_fns hw_init_def hw_init_pool_def hw_init_ctx_def store_def load_def deref_def
      demo_block_def demo_hw_def demo_hw_op_def demo_ctl_def zero_op_def)

lemma demo_comp_three:
  assumes "length us = 3" "read_mem m 0x100000 3 = us"
  shows "wcrypto_do_comp demo_coding 1 (demo_hw_op\<lparr>flush_op := 2, in_len_op := 3, avail_out_op := 65536\<rparr>) m
      \<lparr>way = Deflating, coded = ([], []), second = False\<rparr> =
    Inr (0, demo_hw_op\<lparr>flush_op := 2, in_len_op := 3, avail_out_op := 65536, consumed_op := 3, produced_op := 7, status_op := 3\<rparr>,
      write_mem m 0x200000 (marked us), \<lparr>way = Deflating, coded = (us, marked us), second = False\<rparr>)"
proof -
  obtain x y z where us: "us = [x, y, z]" using assms(1) by (auto simp: numeral_3_eq_3 length_Suc_conv)
  then show ?thesis using assms(2) by (simp add: demo_coding_def demo_comp_def Let_def demo_hw_op_def zero_op_def del: write_mem.simps)
qed

lemma demo_call_three:
  assumes w: "fresh_at p w" and us: "length us = 3" "read_mem (bytes w) 0x100000 3 = us"
    and zs: "reserved_hw zs = 4" "avail_in_hw zs = 3" "avail_out_hw zs = 65536"
  shows "\<exists>zs' w'. hw_call demo_coding 2 zs w = Inr (1, zs', w') \<and> avail_in_hw zs' = 0 \<and> avail_out_hw zs' = 65529"
proof -
  have l: "load as_ctl 4 w = Inr demo_ctl" "load as_op 3 w = Inr demo_hw_op" "lib w = \<lparr>way = Deflating, coded = ([], []), second = False\<rparr>"
    using w by (simp_all add: fresh_at_def)
  have c: "opdata_ctl demo_ctl = 3" "ctx_ctl demo_ctl = 1" by (simp_all add: demo_ctl_def)
  have d: "WCRYPTO_FINISH demo_coding = 2" "hw_status demo_coding 0 2 3 = 1" by (simp_all add: hw_status_def demo_coding_def)
  show ?thesis
    using l c d zs demo_comp_three [OF us]
    by (simp add: hw_call_def hw_send_and_recv_def Let_def hw_account_def)
qed

lemma demo_deflates_three:
  assumes w: "fresh_at (ud s) w" and s: "avail_in s = 3" "avail_out s = 65536"
  shows "\<exists>s' w'. deflateCB_uadk demo_coding Z_FINISH s w = Inr (1, s', w') \<and> next_out s' = next_out s + 7"
proof -
  let ?zs = "(hw_start s (demo_hw\<lparr>reserved_hw := 4\<rparr>))\<lparr>avail_in_hw := 3\<rparr>" and ?w = "memcpy 0x100000 (next_in s) 3 w"
  have f: "feed MAX_STREAM_CHUNK (hw_start s (demo_hw\<lparr>reserved_hw := 4\<rparr>)) (next_in s) 3 w = (?zs, next_in s + 3, 0, ?w)"
    by (simp add: feed_def hw_start_def demo_hw_def)
  let ?us = "read_mem (bytes w) (next_in s) 3"
  have w1: "fresh_at (ud s) ?w" using w by (simp add: memcpy_def)
  have "read_mem (bytes ?w) 0x100000 3 = ?us" using read_write_mem [of ?us "bytes w" "0x100000"] by (simp add: memcpy_def)
  then obtain zs' w' where call: "hw_call demo_coding 2 (?zs\<lparr>avail_out_hw := 65536\<rparr>) ?w = Inr (1, zs', w')" "avail_in_hw zs' = 0" "avail_out_hw zs' = 65529"
    using demo_call_three [OF w1, where us = ?us and zs = "?zs\<lparr>avail_out_hw := 65536\<rparr>"] by (auto simp: hw_start_def)
  have "have_out 65536 zs' = 7" using c_int_word_of_int [of 7] by (simp add: have_out_def call(3))
  then have "pump demo_coding 2 65536 ?zs (next_out s) ?w = Some (Inr (1, zs', next_out s + 7, memcpy (next_out s) (next_out_hw zs') 7 w'))"
    using call by (simp add: pump.simps)
  then have l: "deflate_loop demo_coding 2 65536 (hw_start s (demo_hw\<lparr>reserved_hw := 4\<rparr>)) (next_in s) 3 (next_out s) w =
      Some (Inr (1, zs', next_in s + 3, next_out s + 7, memcpy (next_out s) (next_out_hw zs') 7 w'))"
    by (subst deflate_loop.simps, unfold f Let_def prod.case) simp
  have "out_chunk DEFLATE_MIN_CHUNK 65536 = 65536" "hw_flush demo_coding Z_FINISH = 2" "load as_hw (ud s) w = Inr (demo_hw\<lparr>reserved_hw := 4\<rparr>)"
    using w by (simp_all add: out_chunk_def hw_flush_def demo_coding_def fresh_at_def)
  with l s show ?thesis by (simp add: deflateCB_uadk_def returning_def hw_finish_def Let_def)
qed


end
