(* ===== verification/ZstdData.thy ===== *)
theory ZstdData
  imports Zstd
begin

text \<open>
  The data of Zstandard streams.  The back end moves \<open>next_in\<close> and \<open>next_out\<close> only when the stream ends
  and keeps positions in the context in between, so that the whole input and the whole output lie in
  one buffer each.  The locale \<open>in_place\<close> is about such back ends: a session that reaches the end of
  the stream has coded the bytes of the input buffer, as they were when it began, to those of the
  output buffer.
\<close>

section \<open>Sessions in one buffer\<close>

lemma write_mem_behind:
  assumes "n + length vs \<le> 2 ^ 64"
  shows "read_mem (write_mem m (a + of_nat n) vs) a n = read_mem m a n"
proof (rule read_write_mem_disjoint)
  fix i j assume "i < n" "j < length vs"
  then have "unat (of_nat i :: uLong) = i" "unat (of_nat (n + j) :: uLong) = n + j" "i \<noteq> n + j"
    using assms by (simp_all add: unat_of_nat del: of_nat_add)
  then have "(of_nat i :: uLong) \<noteq> of_nat (n + j)" by metis
  then show "a + of_nat i \<noteq> a + of_nat n + of_nat j" by (simp add: add.assoc)
qed

lemma grown_output:
  assumes "read_mem m b (length ys) = ys" and "length (ys @ vs) \<le> 2 ^ 64"
  shows "read_mem (write_mem m (b + of_nat (length ys)) vs) b (length (ys @ vs)) = ys @ vs"
  using assms write_mem_behind [of "length ys" vs m b] by (simp add: read_mem_add read_write_mem)

text \<open>
  \<open>inv a b s w xs ys\<close>: the input buffer begins at \<open>a\<close>, the output buffer at \<open>b\<close>, and the library has
  consumed \<open>xs\<close> of the one and produced \<open>ys\<close> in the other.
\<close>

locale in_place =
  fixes ok :: bool
    and complete :: "byte list \<Rightarrow> byte list \<Rightarrow> bool"
    and init step :: "int \<Rightarrow> 'l stream_op"
    and inv :: "addr \<Rightarrow> addr \<Rightarrow> unizip_stream \<Rightarrow> 'l world \<Rightarrow> byte list \<Rightarrow> byte list \<Rightarrow> bool"
  assumes starts: "ok \<Longrightarrow> init level s w = Inr (UNIZIP_OK, s', w') \<Longrightarrow>
      inv a b (s'\<lparr>next_in := a, avail_in := n, next_out := b, avail_out := k\<rparr>) (w'\<lparr>bytes := m\<rparr>) [] []"
    and steps: "ok \<Longrightarrow> inv a b s w xs ys \<Longrightarrow> step f s w = Inr (r, s', w') \<Longrightarrow> r = UNIZIP_OK \<or> r = UNIZIP_STREAM_END \<Longrightarrow>
      \<exists>us vs. us = read_mem (bytes w) (a + of_nat (length xs)) (length us) \<and>
        bytes w' = write_mem (bytes w) (b + of_nat (length ys)) vs \<and>
        unat (total_in s') = length (xs @ us) \<and> unat (total_out s') = length (ys @ vs) \<and>
        (r = UNIZIP_OK \<longrightarrow> inv a b s' w' (xs @ us) (ys @ vs)) \<and> (r = UNIZIP_STREAM_END \<longrightarrow> complete (xs @ us) (ys @ vs))"
    and refills: "keeps_buffers rf \<Longrightarrow> inv a b s w xs ys \<Longrightarrow> inv a b (apply_refill rf s) (refill_world rf w) xs ys"
begin

lemma run_in_place:
  assumes ok and "inv a b s w xs ys" and "\<forall>(rf, f) \<in> set cs. keeps_buffers rf" and "set rs \<subseteq> {UNIZIP_OK}"
    and "run_calls step cs s w = Inr (rs @ [UNIZIP_STREAM_END], s', w')"
  shows "\<exists>us vs. complete (xs @ us) (ys @ vs) \<and> unat (total_in s') = length (xs @ us) \<and> unat (total_out s') = length (ys @ vs) \<and>
    (disjoint_ranges a (length (xs @ us)) b (length (ys @ vs)) \<longrightarrow> read_mem (bytes w) a (length xs) = xs \<longrightarrow>
     read_mem (bytes w) b (length ys) = ys \<longrightarrow>
     read_mem (bytes w) a (length (xs @ us)) = xs @ us \<and> read_mem (bytes w') b (length (ys @ vs)) = ys @ vs)"
  using assms(2-)
proof (induction cs arbitrary: s w xs ys rs)
  case Nil
  then show ?case by simp
next
  case (Cons c cs)
  obtain rf f where c: "c = (rf, f)" by (cases c)
  with Cons.prems(2) have keep: "keeps_buffers rf" "\<forall>(rf, f) \<in> set cs. keeps_buffers rf" by simp_all
  then have same: "bytes (refill_world rf w) = bytes w" by (cases rf) simp_all
  from Cons.prems(4) c obtain r s1 w1 rs1 where one: "step f (apply_refill rf s) (refill_world rf w) = Inr (r, s1, w1)"
    and rest: "run_calls step cs s1 w1 = Inr (rs1, s', w')" and r: "r # rs1 = rs @ [UNIZIP_STREAM_END]"
    by (auto simp: andthen_eq_Inr)
  have "r = UNIZIP_OK \<or> r = UNIZIP_STREAM_END" using r Cons.prems(3) by (cases rs) auto
  from steps [OF \<open>ok\<close> refills [OF keep(1) Cons.prems(1)] one this, unfolded same]
  obtain us vs where us: "us = read_mem (bytes w) (a + of_nat (length xs)) (length us)"
    and w1: "bytes w1 = write_mem (bytes w) (b + of_nat (length ys)) vs"
    and t: "unat (total_in s1) = length (xs @ us)" "unat (total_out s1) = length (ys @ vs)"
    and go: "r = UNIZIP_OK \<Longrightarrow> inv a b s1 w1 (xs @ us) (ys @ vs)" "r = UNIZIP_STREAM_END \<Longrightarrow> complete (xs @ us) (ys @ vs)" by metis
  have grow: "read_mem (bytes w) a (length (xs @ us)) = xs @ us \<and> read_mem (bytes w1) b (length (ys @ vs)) = ys @ vs"
    if "read_mem (bytes w) a (length xs) = xs" "read_mem (bytes w) b (length ys) = ys"
    using that us t(2) unat_uLong [of "total_out s1"] grown_output [of "bytes w" b ys vs] w1 by (simp add: read_mem_add)
  show ?case
  proof (cases rs)
    case Nil
    with r rest have "r = UNIZIP_STREAM_END" "s' = s1" "w' = w1" by (cases cs; auto simp: andthen_eq_Inr)+
    with go(2) t grow show ?thesis by blast
  next
    case (Cons r0 rs0)
    with r Cons.prems(3) have r0: "r = UNIZIP_OK" "rs1 = rs0 @ [UNIZIP_STREAM_END]" "set rs0 \<subseteq> {UNIZIP_OK}" by auto
    from Cons.IH [OF go(1) [OF r0(1)] keep(2) r0(3) rest [unfolded r0(2)]]
    obtain us' vs' where end': "complete ((xs @ us) @ us') ((ys @ vs) @ vs')"
      "unat (total_in s') = length ((xs @ us) @ us')" "unat (total_out s') = length ((ys @ vs) @ vs')"
      and ih: "disjoint_ranges a (length ((xs @ us) @ us')) b (length ((ys @ vs) @ vs')) \<Longrightarrow>
        read_mem (bytes w1) a (length (xs @ us)) = xs @ us \<Longrightarrow> read_mem (bytes w1) b (length (ys @ vs)) = ys @ vs \<Longrightarrow>
        read_mem (bytes w1) a (length ((xs @ us) @ us')) = (xs @ us) @ us' \<and>
        read_mem (bytes w') b (length ((ys @ vs) @ vs')) = (ys @ vs) @ vs'" by blast
    have kept: "read_mem (bytes w1) a k = read_mem (bytes w) a k"
      if d: "disjoint_ranges a (length ((xs @ us) @ us')) b (length ((ys @ vs) @ vs'))" and k: "k \<le> length ((xs @ us) @ us')" for k
      unfolding w1
    proof (rule read_write_mem_disjoint)
      fix i j assume "i < k" "j < length vs"
      then have "i < length ((xs @ us) @ us')" "length ys + j < length ((ys @ vs) @ vs')" using k by simp_all
      with d have "a + of_nat i \<noteq> b + of_nat (length ys + j)" unfolding disjoint_ranges_def by blast
      then show "a + of_nat i \<noteq> b + of_nat (length ys) + of_nat j" by (simp add: add.assoc)
    qed
    show ?thesis
    proof (rule exI [of _ "us @ us'"], rule exI [of _ "vs @ vs'"], intro conjI impI)
      assume d: "disjoint_ranges a (length (xs @ us @ us')) b (length (ys @ vs @ vs'))"
        and begins: "read_mem (bytes w) a (length xs) = xs" "read_mem (bytes w) b (length ys) = ys"
      then have d': "disjoint_ranges a (length ((xs @ us) @ us')) b (length ((ys @ vs) @ vs'))" by simp
      note both = ih [OF d' _ conjunct2 [OF grow [OF begins]]] kept [OF d']
      show "read_mem (bytes w) a (length (xs @ us @ us')) = xs @ us @ us'"
        "read_mem (bytes w') b (length (ys @ vs @ vs')) = ys @ vs @ vs'"
        using both grow [OF begins] by simp_all
    qed (use end' in simp_all)
  qed
qed

text \<open>A session that begins with new buffers and keeps them.\<close>

theorem session_in_place:
  assumes ok and "init level s0 w0 = Inr (UNIZIP_OK, s, w)" and "\<forall>(rf, f) \<in> set cs. keeps_buffers rf" and "set rs \<subseteq> {UNIZIP_OK}"
    and "run_calls step ((Buffers src a n b k, f) # cs) s w = Inr (rs @ [UNIZIP_STREAM_END], s', w')"
    and "disjoint_ranges a (unat (total_in s')) b (unat (total_out s'))"
  shows "complete (read_mem (write_mem (bytes w) a src) a (unat (total_in s'))) (read_mem (bytes w') b (unat (total_out s')))"
proof -
  let ?s = "s\<lparr>next_in := a, avail_in := n, next_out := b, avail_out := k\<rparr>" and ?w = "w\<lparr>bytes := write_mem (bytes w) a src\<rparr>"
  have "run_calls step ((Keep, f) # cs) ?s ?w = Inr (rs @ [UNIZIP_STREAM_END], s', w')" using assms(5) by simp
  from run_in_place [OF assms(1) starts [OF assms(1,2)] _ assms(4) this] assms(3,6) show ?thesis by auto
qed

end

section \<open>What the library documents of its streams\<close>

text \<open>
  A call that is no error moves the positions of both buffers, reads the bytes it moves over in the
  one and writes those it moves over in the other.  \<open>codes h l xs ys\<close>: on the stream \<open>h\<close> the library has
  consumed \<open>xs\<close> and produced \<open>ys\<close>; \<open>ends\<close> is what a return value of 0 means for them.
\<close>

definition zstd_moves :: "ZSTD_inBuffer \<Rightarrow> ZSTD_outBuffer \<Rightarrow> mem \<Rightarrow> ZSTD_inBuffer \<Rightarrow> ZSTD_outBuffer \<Rightarrow> mem \<Rightarrow> byte list \<Rightarrow> byte list \<Rightarrow> bool" where
  "zstd_moves ib ob m ib' ob' m' us vs \<longleftrightarrow> unat (pos_in ib') = unat (pos_in ib) + length us \<and>
     unat (pos_out ob') = unat (pos_out ob) + length vs \<and> us = read_mem m (src_in ib + pos_in ib) (length us) \<and>
     m' = write_mem m (dst_out ob + pos_out ob) vs"

definition zstd_streams ::
  "'l zstd_lib \<Rightarrow> (byte list \<Rightarrow> byte list \<Rightarrow> bool) \<Rightarrow> (ptr \<Rightarrow> 'l \<Rightarrow> byte list \<Rightarrow> byte list \<Rightarrow> bool) \<Rightarrow>
   (ptr \<Rightarrow> ZSTD_outBuffer \<Rightarrow> ZSTD_inBuffer \<Rightarrow> mem \<Rightarrow> 'l \<Rightarrow> (uLong \<times> ZSTD_outBuffer \<times> ZSTD_inBuffer \<times> mem \<times> 'l) res) \<Rightarrow> bool" where
  "zstd_streams L ends codes call \<longleftrightarrow> (\<forall>h ob ib m l r ob' ib' m' l' xs ys. codes h l xs ys \<longrightarrow>
     call h ob ib m l = Inr (r, ob', ib', m', l') \<longrightarrow> \<not> ZSTD_isError L r \<longrightarrow>
     (\<exists>us vs. zstd_moves ib ob m ib' ob' m' us vs \<and> codes h l' (xs @ us) (ys @ vs) \<and> (r = 0 \<longrightarrow> ends (xs @ us) (ys @ vs))))"

text \<open>\<open>ZSTD_endStream\<close> takes no input.\<close>

definition zstd_finishes ::
  "'l zstd_lib \<Rightarrow> ptr \<Rightarrow> ZSTD_outBuffer \<Rightarrow> ZSTD_inBuffer \<Rightarrow> mem \<Rightarrow> 'l \<Rightarrow> (uLong \<times> ZSTD_outBuffer \<times> ZSTD_inBuffer \<times> mem \<times> 'l) res" where
  "zstd_finishes L h ob ib m l = andthen (ZSTD_endStream L h ob m l) (\<lambda>(r, ob, m, l). Inr (r, ob, ib, m, l))"

definition zstd_encodes :: "'l zstd_lib \<Rightarrow> (byte list \<Rightarrow> byte list option) \<Rightarrow> (ptr \<Rightarrow> 'l \<Rightarrow> byte list \<Rightarrow> byte list \<Rightarrow> bool) \<Rightarrow> bool" where
  "zstd_encodes L unzstd codes \<longleftrightarrow> ZSTD_error_no_error L = 0 \<and>
     (\<forall>h lv l r l'. ZSTD_initCStream L h lv l = Inr (r, l') \<longrightarrow> \<not> ZSTD_isError L r \<longrightarrow> codes h l' [] []) \<and>
     zstd_streams L (\<lambda>_ _. True) codes (ZSTD_compressStream L) \<and>
     zstd_streams L (\<lambda>xs ys. unzstd ys = Some xs) codes (zstd_finishes L)"

definition zstd_decodes :: "'l zstd_lib \<Rightarrow> (byte list \<Rightarrow> byte list option) \<Rightarrow> (ptr \<Rightarrow> 'l \<Rightarrow> byte list \<Rightarrow> byte list \<Rightarrow> bool) \<Rightarrow> bool" where
  "zstd_decodes L unzstd codes \<longleftrightarrow>
     (\<forall>l h l'. ZSTD_createDStream L l = (h, l') \<longrightarrow> h \<noteq> NULL_ptr \<longrightarrow> codes h l' [] []) \<and>
     zstd_streams L (\<lambda>xs ys. unzstd xs = Some ys) codes (ZSTD_decompressStream L)"

lemma zstd_streamsE:
  assumes "zstd_streams L ends codes call" and "codes h l xs ys" and "call h ob ib m l = Inr (r, ob', ib', m', l')" and "\<not> ZSTD_isError L r"
  obtains us vs where "zstd_moves ib ob m ib' ob' m' us vs" "codes h l' (xs @ us) (ys @ vs)" "r = 0 \<Longrightarrow> ends (xs @ us) (ys @ vs)"
  using assms unfolding zstd_streams_def by metis

section \<open>The positions of a stream and the data\<close>

definition zstd_coding ::
  "(zstd_ctx \<Rightarrow> ptr) \<Rightarrow> (ptr \<Rightarrow> 'l \<Rightarrow> byte list \<Rightarrow> byte list \<Rightarrow> bool) \<Rightarrow> addr \<Rightarrow> addr \<Rightarrow> unizip_stream \<Rightarrow> 'l world \<Rightarrow> byte list \<Rightarrow> byte list \<Rightarrow> bool" where
  "zstd_coding handle codes a b s w xs ys \<longleftrightarrow> next_in s = a \<and> next_out s = b \<and> (\<exists>c. load as_zstd (ud s) w = Inr c \<and>
     codes (handle c) (lib w) xs ys \<and> unat (pos_in (in_zstd c)) = length xs \<and> unat (pos_out (out_zstd c)) = length ys \<and>
     total_in s = pos_in (in_zstd c) \<and> total_out s = pos_out (out_zstd c))"

lemma zstd_coding_refill:
  "keeps_buffers rf \<Longrightarrow> zstd_coding handle codes a b s w xs ys \<Longrightarrow> zstd_coding handle codes a b (apply_refill rf s) (refill_world rf w) xs ys"
  by (cases rf) (simp_all add: zstd_coding_def)

lemma zstd_buffers_pointers [simp]:
  "src_in (in_zstd (zstd_deflate_buffers a c)) = next_in_zstd c" "dst_out (out_zstd (zstd_deflate_buffers a c)) = next_out_zstd c"
  "src_in (in_zstd (zstd_inflate_buffers c)) = next_in_zstd c" "dst_out (out_zstd (zstd_inflate_buffers c)) = next_out_zstd c"
  by (simp_all add: zstd_deflate_buffers_def zstd_inflate_buffers_def zstd_set_pointers_def zstd_more_in_def zstd_more_out_def Let_def)

text \<open>
  What a successful call of either direction does: one call of the library on the caller's pointers and
  the positions of the context, which keeps the new positions.
\<close>

definition zstd_called ::
  "'l zstd_lib \<Rightarrow> (zstd_ctx \<Rightarrow> ptr) \<Rightarrow>
   (ptr \<Rightarrow> ZSTD_outBuffer \<Rightarrow> ZSTD_inBuffer \<Rightarrow> mem \<Rightarrow> 'l \<Rightarrow> (uLong \<times> ZSTD_outBuffer \<times> ZSTD_inBuffer \<times> mem \<times> 'l) res) \<Rightarrow>
   zstd_ctx \<Rightarrow> unizip_stream \<Rightarrow> 'l world \<Rightarrow> int \<Rightarrow> unizip_stream \<Rightarrow> 'l world \<Rightarrow> bool" where
  "zstd_called L handle call c s w r s' w' \<longleftrightarrow> (\<exists>ib ob ret ib' ob' c'.
     src_in ib = next_in s \<and> pos_in ib = pos_in (in_zstd c) \<and> dst_out ob = next_out s \<and> pos_out ob = pos_out (out_zstd c) \<and>
     call (handle c) ob ib (bytes w) (lib w) = Inr (ret, ob', ib', bytes w', lib w') \<and> \<not> ZSTD_isError L ret \<and> (r = 1 \<longrightarrow> ret = 0) \<and>
     load as_zstd (ud s') w' = Inr c' \<and> handle c' = handle c \<and> in_zstd c' = ib' \<and> out_zstd c' = ob' \<and>
     total_in s' = total_in s + (pos_in ib' - pos_in ib) \<and> total_out s' = total_out s + (pos_out ob' - pos_out ob) \<and>
     (r = 0 \<longrightarrow> next_in s' = next_in s \<and> next_out s' = next_out s))"

lemma zstd_deflate_called:
  assumes c: "load as_zstd (ud s) w = Inr c" and d: "deflateCB_zstd L f s w = Inr (r, s', w')"
    and lib: "zstd_errors L" "ZSTD_error_no_error L = 0" and r: "r = 0 \<or> r = 1"
  shows "r = 0 \<and> zstd_called L zcstream (ZSTD_compressStream L) c s w r s' w' \<or> zstd_called L zcstream (zstd_finishes L) c s w r s' w'"
proof -
  let ?d = "zstd_deflate_buffers (if f = 4 then 1 else 0) (zstd_pull s c)"
  have p: "src_in (in_zstd ?d) = next_in s" "pos_in (in_zstd ?d) = pos_in (in_zstd c)" "dst_out (out_zstd ?d) = next_out s"
    "pos_out (out_zstd ?d) = pos_out (out_zstd c)" "zcstream ?d = zcstream c" "total_in_zstd ?d = total_in s" "total_out_zstd ?d = total_out s"
    "next_in_zstd ?d = next_in s" "next_out_zstd ?d = next_out s" by (simp_all add: zstd_pull_def)
  show ?thesis
  proof (cases "f = 4")
    case True
    with d c p r load_nonnull [OF c] map_error_zstd_not_ok [OF lib(1)]
    obtain ret ob m l where e: "ZSTD_endStream L (zcstream c) (out_zstd ?d) (bytes w) (lib w) = Inr (ret, ob, m, l)" "\<not> ZSTD_isError L ret"
      by (fastforce simp: deflateCB_zstd_def zstd_deflate_def Let_def andthen_eq_Inr split: if_splits)
    let ?c = "zstd_count (pos_in (in_zstd ?d)) (pos_out (out_zstd ?d)) (?d\<lparr>out_zstd := ob\<rparr>)"
    let ?c' = "if ret = 0 then zstd_advance ?c else ?c"
    have "r = (if ret = 0 then 1 else 0)" "s' = zstd_push ?c' s" "w' = store (ud s) (Zstd_obj ?c') (w\<lparr>bytes := m, lib := l\<rparr>)"
      using d c e True load_nonnull [OF c] lib(2) by (auto simp: deflateCB_zstd_def zstd_deflate_def Let_def split: if_splits)
    moreover have "zstd_finishes L (zcstream c) (out_zstd ?d) (in_zstd ?d) (bytes w) (lib w) = Inr (ret, ob, in_zstd ?d, m, l)"
      using e by (simp add: zstd_finishes_def)
    ultimately have "zstd_called L zcstream (zstd_finishes L) c s w r s' w'"
      unfolding zstd_called_def using p e(2) load_nonnull [OF c]
      by (intro exI [of _ "in_zstd ?d"] exI [of _ "out_zstd ?d"] exI [of _ ret] exI [of _ ob] exI [of _ ?c'])
        (auto simp: zstd_push_def zstd_count_def zstd_advance_def)
    then show ?thesis by blast
  next
    case False
    with d c p r load_nonnull [OF c] map_error_zstd_not_ok [OF lib(1)]
    obtain ret ob ib m l where e: "ZSTD_compressStream L (zcstream c) (out_zstd ?d) (in_zstd ?d) (bytes w) (lib w) = Inr (ret, ob, ib, m, l)"
      "\<not> ZSTD_isError L ret"
      by (fastforce simp: deflateCB_zstd_def zstd_deflate_def Let_def andthen_eq_Inr split: if_splits)
    let ?c = "zstd_count (pos_in (in_zstd ?d)) (pos_out (out_zstd ?d)) (?d\<lparr>out_zstd := ob, in_zstd := ib\<rparr>)"
    have "r = 0" "s' = zstd_push ?c s" "w' = store (ud s) (Zstd_obj ?c) (w\<lparr>bytes := m, lib := l\<rparr>)"
      using d c e False load_nonnull [OF c] lib(2) by (auto simp: deflateCB_zstd_def zstd_deflate_def Let_def split: if_splits)
    then have "r = 0 \<and> zstd_called L zcstream (ZSTD_compressStream L) c s w r s' w'"
      unfolding zstd_called_def using p e load_nonnull [OF c]
      by (intro conjI exI [of _ "in_zstd ?d"] exI [of _ "out_zstd ?d"] exI [of _ ret] exI [of _ ib] exI [of _ ob] exI [of _ ?c])
        (auto simp: zstd_push_def zstd_count_def)
    then show ?thesis by blast
  qed
qed

lemma zstd_inflate_called:
  assumes c: "load as_zstd (ud s) w = Inr c" and d: "inflateCB_zstd L f s w = Inr (r, s', w')"
    and lib: "zstd_errors L" and r: "r = 0 \<or> r = 1"
  shows "zstd_called L zdstream (ZSTD_decompressStream L) c s w r s' w'"
proof -
  let ?d = "zstd_inflate_buffers (zstd_pull s c)"
  have p: "src_in (in_zstd ?d) = next_in s" "pos_in (in_zstd ?d) = pos_in (in_zstd c)" "dst_out (out_zstd ?d) = next_out s"
    "pos_out (out_zstd ?d) = pos_out (out_zstd c)" "zdstream ?d = zdstream c" "total_in_zstd ?d = total_in s" "total_out_zstd ?d = total_out s"
    "next_in_zstd ?d = next_in s" "next_out_zstd ?d = next_out s" by (simp_all add: zstd_pull_def)
  with d c r load_nonnull [OF c] map_error_zstd_not_ok [OF lib]
  obtain ret ob ib m l where e: "ZSTD_decompressStream L (zdstream c) (out_zstd ?d) (in_zstd ?d) (bytes w) (lib w) = Inr (ret, ob, ib, m, l)"
    "\<not> ZSTD_isError L ret"
    by (fastforce simp: inflateCB_zstd_def zstd_inflate_def Let_def andthen_eq_Inr split: if_splits)
  let ?c = "zstd_count (pos_in (in_zstd ?d)) (pos_out (out_zstd ?d)) (?d\<lparr>out_zstd := ob, in_zstd := ib\<rparr>)"
  let ?c' = "if ret = 0 then zstd_advance ?c else ?c"
  have "r = (if ret = 0 then 1 else 0)" "s' = zstd_push ?c' s" "w' = store (ud s) (Zstd_obj ?c') (w\<lparr>bytes := m, lib := l\<rparr>)"
    using d c e load_nonnull [OF c] by (auto simp: inflateCB_zstd_def zstd_inflate_def Let_def split: if_splits)
  then show ?thesis
    unfolding zstd_called_def using p e load_nonnull [OF c]
    by (intro exI [of _ "in_zstd ?d"] exI [of _ "out_zstd ?d"] exI [of _ ret] exI [of _ ib] exI [of _ ob] exI [of _ ?c'])
      (auto simp: zstd_push_def zstd_count_def zstd_advance_def)
qed

lemma zstd_called_streams:
  assumes i: "zstd_coding handle codes a b s w xs ys" and c: "load as_zstd (ud s) w = Inr c"
    and called: "zstd_called L handle call c s w r s' w'" and lib: "zstd_streams L ends codes call"
  shows "\<exists>us vs. us = read_mem (bytes w) (a + of_nat (length xs)) (length us) \<and> bytes w' = write_mem (bytes w) (b + of_nat (length ys)) vs \<and>
    unat (total_in s') = length (xs @ us) \<and> unat (total_out s') = length (ys @ vs) \<and>
    (r = 0 \<longrightarrow> zstd_coding handle codes a b s' w' (xs @ us) (ys @ vs)) \<and> (r = 1 \<longrightarrow> ends (xs @ us) (ys @ vs))"
proof -
  from called obtain ib ob ret ib' ob' c' where in0: "src_in ib = next_in s" "pos_in ib = pos_in (in_zstd c)" "dst_out ob = next_out s"
      "pos_out ob = pos_out (out_zstd c)" "call (handle c) ob ib (bytes w) (lib w) = Inr (ret, ob', ib', bytes w', lib w')" "\<not> ZSTD_isError L ret"
    and new: "r = 1 \<Longrightarrow> ret = 0" "load as_zstd (ud s') w' = Inr c'" "handle c' = handle c" "in_zstd c' = ib'" "out_zstd c' = ob'"
      "total_in s' = total_in s + (pos_in ib' - pos_in ib)" "total_out s' = total_out s + (pos_out ob' - pos_out ob)"
      "r = 0 \<Longrightarrow> next_in s' = next_in s \<and> next_out s' = next_out s" unfolding zstd_called_def by blast
  from i c have old: "next_in s = a" "next_out s = b" "codes (handle c) (lib w) xs ys" "unat (pos_in (in_zstd c)) = length xs"
    "unat (pos_out (out_zstd c)) = length ys" "total_in s = pos_in (in_zstd c)" "total_out s = pos_out (out_zstd c)"
    by (simp_all add: zstd_coding_def)
  then have at: "pos_in (in_zstd c) = of_nat (length xs)" "pos_out (out_zstd c) = of_nat (length ys)" by (metis of_nat_unat ucast_id)+
  obtain us vs where m: "zstd_moves ib ob (bytes w) ib' ob' (bytes w') us vs" "codes (handle c) (lib w') (xs @ us) (ys @ vs)"
    "ret = 0 \<Longrightarrow> ends (xs @ us) (ys @ vs)" using zstd_streamsE [OF lib old(3) in0(5,6)] by blast
  have "unat (total_in s') = length (xs @ us)" "unat (total_out s') = length (ys @ vs)"
    using m(1) new(6,7) old(4-7) in0(2,4) by (simp_all add: zstd_moves_def)
  moreover have "us = read_mem (bytes w) (a + of_nat (length xs)) (length us)" "bytes w' = write_mem (bytes w) (b + of_nat (length ys)) vs"
    using m(1) in0(1-4) old(1,2) at unfolding zstd_moves_def by simp_all
  moreover have "zstd_coding handle codes a b s' w' (xs @ us) (ys @ vs)" if "r = 0"
    using that new m(1,2) old in0(2,4) by (simp add: zstd_coding_def zstd_moves_def)
  ultimately show ?thesis using new(1) m(3) by blast
qed

lemma zstd_deflateInit_coding:
  assumes "zstd_encodes L unzstd codes" and "deflateInitCB_zstd L level s0 w0 = Inr (UNIZIP_OK, s, w)"
  shows "zstd_coding zcstream codes a b (s\<lparr>next_in := a, avail_in := n, next_out := b, avail_out := k\<rparr>) (w\<lparr>bytes := m\<rparr>) [] []"
proof -
  obtain p w1 where al: "zstd_allocate L w0 = (p, w1)" by fastforce
  with assms(2) have p: "p \<noteq> 0" "ud s = p" "total_in s = 0" "total_out s = 0" and d: "zstd_deflateInit L p level w1 = Inr (0, w)"
    by (auto simp: deflateInitCB_zstd_def resetZstd_def Let_def andthen_eq_Inr split: if_splits)
  obtain h l where h: "ZSTD_createCStream L (lib w1) = (h, l)" by fastforce
  from d h p assms(1) show ?thesis
    by (auto simp: zstd_deflateInit_def Let_def zstd_coding_def zstd_no_in_def zstd_no_out_def zstd_encodes_def andthen_eq_Inr split: if_splits)
qed

lemma zstd_inflateInit_coding:
  assumes "zstd_decodes L unzstd codes" and "inflateInitCB_zstd L s0 w0 = Inr (UNIZIP_OK, s, w)"
  shows "zstd_coding zdstream codes a b (s\<lparr>next_in := a, avail_in := n, next_out := b, avail_out := k\<rparr>) (w\<lparr>bytes := m\<rparr>) [] []"
proof -
  obtain p w1 where al: "zstd_allocate L w0 = (p, w1)" by fastforce
  with assms(2) have p: "p \<noteq> 0" "ud s = p" "total_in s = 0" "total_out s = 0" and d: "zstd_inflateInit L p w1 = Inr (0, w)"
    by (auto simp: inflateInitCB_zstd_def resetZstd_def Let_def andthen_eq_Inr split: if_splits)
  obtain h l where h: "ZSTD_createDStream L (lib w1) = (h, l)" by fastforce
  from d h p assms(1) show ?thesis
    by (auto simp: zstd_inflateInit_def Let_def zstd_coding_def zstd_no_in_def zstd_no_out_def zstd_decodes_def andthen_eq_Inr split: if_splits)
qed

interpretation zstd_encoding: in_place "zstd_errors L \<and> zstd_encodes L unzstd codes" "\<lambda>xs ys. unzstd ys = Some xs"
  "deflateInitCB_zstd L" "deflateCB_zstd L" "zstd_coding zcstream codes" for L unzstd codes
proof (unfold_locales, goal_cases)
  case (2 a b s w xs ys f r s' w')
  from 2(2) obtain c where c: "load as_zstd (ud s) w = Inr c" by (auto simp: zstd_coding_def)
  from 2(1) have lib: "zstd_errors L" "ZSTD_error_no_error L = 0" "zstd_streams L (\<lambda>_ _. True) codes (ZSTD_compressStream L)"
    "zstd_streams L (\<lambda>xs ys. unzstd ys = Some xs) codes (zstd_finishes L)" by (simp_all add: zstd_encodes_def)
  from zstd_deflate_called [OF c 2(3) lib(1,2) 2(4)] show ?case
  proof
    assume "r = 0 \<and> zstd_called L zcstream (ZSTD_compressStream L) c s w r s' w'"
    with zstd_called_streams [OF 2(2) c _ lib(3)] show ?thesis by (metis zero_neq_one)
  next
    assume "zstd_called L zcstream (zstd_finishes L) c s w r s' w'"
    from zstd_called_streams [OF 2(2) c this lib(4)] show ?thesis .
  qed
qed (auto intro: zstd_deflateInit_coding zstd_coding_refill)

interpretation zstd_decoding: in_place "zstd_errors L \<and> zstd_decodes L unzstd codes" "\<lambda>xs ys. unzstd xs = Some ys"
  "\<lambda>level. inflateInitCB_zstd L" "inflateCB_zstd L" "zstd_coding zdstream codes" for L unzstd codes
proof (unfold_locales, goal_cases)
  case (2 a b s w xs ys f r s' w')
  from 2(2) obtain c where c: "load as_zstd (ud s) w = Inr c" by (auto simp: zstd_coding_def)
  from 2(1) have lib: "zstd_errors L" "zstd_streams L (\<lambda>xs ys. unzstd xs = Some ys) codes (ZSTD_decompressStream L)"
    by (simp_all add: zstd_decodes_def)
  from zstd_called_streams [OF 2(2) c zstd_inflate_called [OF c 2(3) lib(1) 2(4)] lib(2)] show ?case .
qed (auto intro: zstd_inflateInit_coding zstd_coding_refill)

section \<open>Properties\<close>

text \<open>
  C10: what a Zstandard deflate session encodes, an inflate session restores.  Both use one buffer for
  their input and one for their output, which do not overlap, and any number of calls with any amounts
  and flushes, up to the end of the stream; the deflate session has taken all of \<open>src\<close>, and the inflate
  session all that the deflate session gave.
\<close>

theorem zstd_stream_roundtrip:
  assumes "zstd_errors L" and "zstd_encodes L unzstd codes" and "zstd_decodes L unzstd codes'"
    and "deflateInitCB_zstd L level s0 w0 = Inr (UNIZIP_OK, s, w)"
    and "run_calls (deflateCB_zstd L) ((Buffers src a n b k, f) # cs) s w = Inr (rs @ [UNIZIP_STREAM_END], s', w')"
    and "\<forall>(rf, f) \<in> set cs. keeps_buffers rf" and "set rs \<subseteq> {UNIZIP_OK}"
    and "disjoint_ranges a (unat (total_in s')) b (unat (total_out s'))" and "unat (total_in s') = length src"
    and "inflateInitCB_zstd L t0 v0 = Inr (UNIZIP_OK, t, v)"
    and "run_calls (inflateCB_zstd L) ((Buffers (read_mem (bytes w') b (unat (total_out s'))) a' n' b' k', f') # cs') t v =
      Inr (rs' @ [UNIZIP_STREAM_END], t', v')"
    and "\<forall>(rf, f) \<in> set cs'. keeps_buffers rf" and "set rs' \<subseteq> {UNIZIP_OK}"
    and "disjoint_ranges a' (unat (total_in t')) b' (unat (total_out t'))" and "total_in t' = total_out s'"
  shows "read_mem (bytes v') b' (unat (total_out t')) = src"
proof -
  let ?ys = "read_mem (bytes w') b (unat (total_out s'))"
  have small: "length src \<le> 2 ^ 64" "length ?ys \<le> 2 ^ 64"
    using unat_uLong [of "total_in s'"] unat_uLong [of "total_out s'"] assms(9) by simp_all
  from zstd_encoding.session_in_place [OF conjI [OF assms(1,2)] assms(4,6,7,5,8)]
  have "unzstd ?ys = Some src" using small(1) unfolding assms(9) by (simp add: read_write_mem)
  moreover from zstd_decoding.session_in_place [OF conjI [OF assms(1,3)] assms(10,12,13,11,14)]
  have "unzstd ?ys = Some (read_mem (bytes v') b' (unat (total_out t')))"
    using read_write_mem [OF small(2), of "bytes v" a'] unfolding assms(15) by simp
  ultimately show ?thesis by simp
qed

text \<open>
  A library for the witness: streams copy their input, and a call that is given positions behind the
  sizes of its buffers is an error, as the documentation says.
\<close>

definition checked_copy ::
  "(bool \<Rightarrow> uLong) \<Rightarrow> ptr \<Rightarrow> ZSTD_outBuffer \<Rightarrow> ZSTD_inBuffer \<Rightarrow> mem \<Rightarrow> ptr list \<Rightarrow>
   (uLong \<times> ZSTD_outBuffer \<times> ZSTD_inBuffer \<times> mem \<times> ptr list) res" where
  "checked_copy code h ob ib m l = andthen (demo_use h () l) (\<lambda>_.
     if size_in ib < pos_in ib \<or> size_out ob < pos_out ob then Inr (- 70, ob, ib, m, l)
     else let (ob, ib, m) = demo_zstd_copy ob ib m in Inr (code (pos_in ib = size_in ib), ob, ib, m, l))"

definition copy_zstd :: "ptr list zstd_lib" where
  "copy_zstd = demo_zstd\<lparr>ZSTD_compressStream := checked_copy (\<lambda>_. 0),
     ZSTD_decompressStream := checked_copy (\<lambda>full. if full then 0 else 1)\<rparr>"

definition copied :: "ptr \<Rightarrow> ptr list \<Rightarrow> byte list \<Rightarrow> byte list \<Rightarrow> bool" where
  "copied h l xs ys \<longleftrightarrow> xs = ys"

lemma demo_zstd_copy_moves:
  assumes "pos_in ib \<le> size_in ib" "pos_out ob \<le> size_out ob" and "demo_zstd_copy ob ib m = (ob', ib', m')"
  shows "\<exists>us. zstd_moves ib ob m ib' ob' m' us us"
proof -
  let ?k = "min (size_in ib - pos_in ib) (size_out ob - pos_out ob)"
  have "unat (pos_in ib) + unat ?k \<le> unat (size_in ib)" "unat (pos_out ob) + unat ?k \<le> unat (size_out ob)"
    using assms(1,2) by (auto simp: min_def unat_sub word_le_nat_alt)
  then have "unat (pos_in ib + ?k) = unat (pos_in ib) + unat ?k" "unat (pos_out ob + ?k) = unat (pos_out ob) + unat ?k"
    using unat_uLong [of "size_in ib"] unat_uLong [of "size_out ob"] by (simp_all add: unat_word_ariths)
  with assms(3) show ?thesis
    by (intro exI [of _ "read_mem m (src_in ib + pos_in ib) (unat ?k)"]) (auto simp: zstd_moves_def demo_zstd_copy_def Let_def)
qed

lemma checked_copy_streams: "(\<And>xs. ends xs xs) \<Longrightarrow> zstd_streams copy_zstd ends copied (checked_copy code)"
  unfolding zstd_streams_def
proof (intro allI impI)
  fix h ob ib m l r ob' ib' m' l' xs ys
  assume ends: "\<And>xs. ends xs xs" and c: "copied h l xs ys"
    and call: "checked_copy code h ob ib m l = Inr (r, ob', ib', m', l')" and ok: "\<not> ZSTD_isError copy_zstd r"
  from call ok have "pos_in ib \<le> size_in ib" "pos_out ob \<le> size_out ob" "demo_zstd_copy ob ib m = (ob', ib', m')"
    by (auto simp: checked_copy_def andthen_eq_Inr copy_zstd_def demo_zstd_def split: if_splits prod.splits)
  with demo_zstd_copy_moves obtain us where "zstd_moves ib ob m ib' ob' m' us us" by blast
  with c ends show "\<exists>us vs. zstd_moves ib ob m ib' ob' m' us vs \<and> copied h l' (xs @ us) (ys @ vs) \<and> (r = 0 \<longrightarrow> ends (xs @ us) (ys @ vs))"
    unfolding copied_def by blast
qed

lemma copy_zstd_library: "zstd_errors copy_zstd" "zstd_encodes copy_zstd Some copied" "zstd_decodes copy_zstd Some copied"
proof -
  show "zstd_errors copy_zstd" using demo_zstd_errors by (simp add: zstd_errors_def copy_zstd_def)
  have "zstd_streams copy_zstd (\<lambda>xs ys. Some ys = Some xs) copied (zstd_finishes copy_zstd)"
    by (auto simp: zstd_streams_def zstd_finishes_def zstd_moves_def copied_def copy_zstd_def demo_zstd_def andthen_eq_Inr
        intro!: exI [of _ "[]"])
  moreover have "zstd_streams copy_zstd (\<lambda>_ _. True) copied (checked_copy (\<lambda>_. 0))" by (rule checked_copy_streams) simp
  ultimately show "zstd_encodes copy_zstd Some copied"
    by (simp add: zstd_encodes_def copy_zstd_def copied_def) (simp add: demo_zstd_def)
  have "zstd_streams copy_zstd (\<lambda>xs ys. Some xs = Some ys) copied (checked_copy (\<lambda>full. if full then 0 else 1))"
    by (rule checked_copy_streams) auto
  then show "zstd_decodes copy_zstd Some copied" by (simp add: zstd_decodes_def copy_zstd_def copied_def)
qed

lemma copy_zstd_begins:
  "\<exists>s w c. deflateInitCB_zstd copy_zstd 3 demo_stream demo_world = Inr (0, s, w) \<and> load as_zstd 1 w = Inr c \<and> zcstream c = 1 \<and>
    lib w = [1] \<and> ud s = 1 \<and> in_zstd c = zstd_no_in \<and> out_zstd c = zstd_no_out \<and> total_in s = 0 \<and> total_out s = 0 \<and> bytes w = bytes demo_world"
  "\<exists>t v c. inflateInitCB_zstd copy_zstd demo_stream demo_world = Inr (0, t, v) \<and> load as_zstd 1 v = Inr c \<and> zdstream c = 1 \<and>
    lib v = [1] \<and> ud t = 1 \<and> in_zstd c = zstd_no_in \<and> out_zstd c = zstd_no_out \<and> total_in t = 0 \<and> total_out t = 0 \<and> bytes v = bytes demo_world"
  by (simp_all add: deflateInitCB_zstd_def inflateInitCB_zstd_def zstd_allocate_def malloc_ok zstd_deflateInit_def zstd_inflateInit_def
      Let_def load_def deref_def resetZstd_def copy_zstd_def demo_zstd_def demo_create_def demo_use_def)

text \<open>One call that copies three bytes, and one that finishes.\<close>

abbreviation in_at :: "addr \<Rightarrow> uLong \<Rightarrow> ZSTD_inBuffer" where "in_at a i \<equiv> \<lparr>src_in = a, size_in = 3, pos_in = i\<rparr>"
abbreviation out_at :: "addr \<Rightarrow> uLong \<Rightarrow> ZSTD_outBuffer" where "out_at b i \<equiv> \<lparr>dst_out = b, size_out = 50, pos_out = i\<rparr>"

lemma checked_copy_three:
  "checked_copy code 1 (out_at b 0) (in_at a 0) m [1] = Inr (code True, out_at b 3, in_at a 3, write_mem m b (read_mem m a 3), [1])"
  by (simp add: checked_copy_def demo_zstd_copy_def demo_use_def del: write_mem.simps)

lemma fresh_buffers:
  assumes "in_zstd c = zstd_no_in" "out_zstd c = zstd_no_out" "avail_in s = 3" "avail_out s = 50"
  shows "zstd_deflate_buffers 0 (zstd_pull s c) = (zstd_pull s c)\<lparr>in_zstd := in_at (next_in s) 0, out_zstd := out_at (next_out s) 0\<rparr>"
    and "zstd_inflate_buffers (zstd_pull s c) = (zstd_pull s c)\<lparr>in_zstd := in_at (next_in s) 0, out_zstd := out_at (next_out s) 0\<rparr>"
  using assms by (simp_all add: zstd_deflate_buffers_def zstd_inflate_buffers_def zstd_set_pointers_def zstd_more_in_def zstd_more_out_def
      zstd_pull_def zstd_no_in_def zstd_no_out_def Let_def)

lemma copy_zstd_simps:
  "ZSTD_compressStream copy_zstd = checked_copy (\<lambda>_. 0)" "ZSTD_decompressStream copy_zstd = checked_copy (\<lambda>full. if full then 0 else 1)"
  "ZSTD_endStream copy_zstd 1 ob m [1] = Inr (0, ob, m, [1])" "\<not> ZSTD_isError copy_zstd 0" "ZSTD_error_no_error copy_zstd = 0"
  by (simp_all add: copy_zstd_def demo_zstd_def demo_use_def)

lemma zstd_inflate_eq:
  assumes "load as_zstd (ud s) w = Inr c" and "zstd_inflate_buffers (zstd_pull s c) = d"
    and "ZSTD_decompressStream L (zdstream c) (out_zstd d) (in_zstd d) (bytes w) (lib w) = Inr (0, ob, ib, m, l)" and "\<not> ZSTD_isError L 0"
  shows "\<exists>d'. d' = zstd_advance (zstd_count (pos_in (in_zstd d)) (pos_out (out_zstd d)) (d\<lparr>out_zstd := ob, in_zstd := ib\<rparr>)) \<and>
    inflateCB_zstd L f s w = Inr (1, zstd_push d' s, store (ud s) (Zstd_obj d') (w\<lparr>bytes := m, lib := l\<rparr>))"
proof -
  have "zdstream d = zdstream c" unfolding assms(2) [symmetric] by (simp add: zstd_inflate_buffers_def zstd_set_pointers_def
      zstd_more_in_def zstd_more_out_def zstd_pull_def Let_def)
  with assms load_nonnull [OF assms(1)] show ?thesis by (simp add: inflateCB_zstd_def zstd_inflate_def)
qed

lemma copy_zstd_deflates:
  assumes "load as_zstd 1 w = Inr c" "zcstream c = 1" "lib w = [1]" "ud s = 1" "in_zstd c = zstd_no_in" "out_zstd c = zstd_no_out"
    and "total_in s = 0" "total_out s = 0" "avail_in s = 3" "avail_out s = 50"
  shows "\<exists>s' w'. run_calls (deflateCB_zstd copy_zstd) [(Keep, 0), (Keep, 4)] s w = Inr ([0, 1], s', w') \<and>
    total_in s' = 3 \<and> total_out s' = 3 \<and> bytes w' = write_mem (bytes w) (next_out s) (read_mem (bytes w) (next_in s) 3)"
proof -
  let ?m = "write_mem (bytes w) (next_out s) (read_mem (bytes w) (next_in s) 3)"
  note call = checked_copy_three [of "\<lambda>_. 0" "next_out s" "next_in s" "bytes w"]
  have b: "zstd_deflate_buffers 0 (zstd_pull s c) = (zstd_pull s c)\<lparr>in_zstd := in_at (next_in s) 0, out_zstd := out_at (next_out s) 0\<rparr>" (is "_ = ?d")
    using assms by (intro fresh_buffers)
  have "ZSTD_compressStream copy_zstd (zcstream c) (out_zstd ?d) (in_zstd ?d) (bytes w) (lib w) =
      Inr (0, out_at (next_out s) 3, in_at (next_in s) 3, ?m, [1])"
    using call assms(2,3) by (simp add: copy_zstd_simps)
  from zstd_process_eq [OF assms(1) [folded assms(4)] _ b this copy_zstd_simps(4) refl, of 0]
  obtain s1 w1 c1 where 1: "deflateCB_zstd copy_zstd 0 s w = Inr (0, s1, w1)" and c1: "load as_zstd 1 w1 = Inr c1" "zcstream c1 = 1"
    "lib w1 = [1]" "ud s1 = 1" "bytes w1 = ?m" "in_zstd c1 = in_at (next_in s) 3" "out_zstd c1 = out_at (next_out s) 3"
    "total_in s1 = 3" "total_out s1 = 3"
    using assms by (simp add: zstd_count_def zstd_pull_def zstd_push_def)
  have "\<exists>s' w'. deflateCB_zstd copy_zstd 4 s1 w1 = Inr (1, s', w') \<and> total_in s' = 3 \<and> total_out s' = 3 \<and> bytes w' = ?m"
    using c1 by (simp add: deflateCB_zstd_def zstd_deflate_def Let_def zstd_deflate_buffers_def zstd_set_pointers_def
        zstd_pull_def zstd_push_def zstd_count_def zstd_advance_def copy_zstd_simps del: One_nat_def)
  with 1 show ?thesis by auto
qed

lemma copy_zstd_inflates:
  assumes "load as_zstd 1 w = Inr c" "zdstream c = 1" "lib w = [1]" "ud s = 1" "in_zstd c = zstd_no_in" "out_zstd c = zstd_no_out"
    and "total_in s = 0" "total_out s = 0" "avail_in s = 3" "avail_out s = 50"
  shows "\<exists>s' w'. run_calls (inflateCB_zstd copy_zstd) [(Keep, 0)] s w = Inr ([1], s', w') \<and>
    total_in s' = 3 \<and> total_out s' = 3 \<and> bytes w' = write_mem (bytes w) (next_out s) (read_mem (bytes w) (next_in s) 3)"
proof -
  let ?m = "write_mem (bytes w) (next_out s) (read_mem (bytes w) (next_in s) 3)"
  have b: "zstd_inflate_buffers (zstd_pull s c) = (zstd_pull s c)\<lparr>in_zstd := in_at (next_in s) 0, out_zstd := out_at (next_out s) 0\<rparr>" (is "_ = ?d")
    using assms by (intro fresh_buffers)
  have "ZSTD_decompressStream copy_zstd (zdstream c) (out_zstd ?d) (in_zstd ?d) (bytes w) (lib w) =
      Inr (0, out_at (next_out s) 3, in_at (next_in s) 3, ?m, [1])"
    using checked_copy_three [of "\<lambda>full. if full then 0 else 1" "next_out s" "next_in s" "bytes w"] assms(2,3)
    by (simp add: copy_zstd_simps)
  from zstd_inflate_eq [OF assms(1) [folded assms(4)] b this copy_zstd_simps(4)]
  show ?thesis using assms by (simp add: zstd_count_def zstd_pull_def zstd_push_def zstd_advance_def)
qed

theorem zstd_stream_roundtrip_witness:
  "\<exists>s w s' w' t v t' v'. deflateInitCB_zstd copy_zstd 3 demo_stream demo_world = Inr (0, s, w) \<and>
     run_calls (deflateCB_zstd copy_zstd) [(Buffers [7, 8, 9] 1000 3 2000 50, 0), (Keep, 4)] s w = Inr ([0, 1], s', w') \<and>
     inflateInitCB_zstd copy_zstd demo_stream demo_world = Inr (0, t, v) \<and>
     run_calls (inflateCB_zstd copy_zstd) [(Buffers (read_mem (bytes w') 2000 3) 3000 3 4000 50, 0)] t v = Inr ([1], t', v') \<and>
     read_mem (bytes v') 4000 3 = [7, 8, 9]"
proof -
  obtain s w c where s: "deflateInitCB_zstd copy_zstd 3 demo_stream demo_world = Inr (0, s, w)" "load as_zstd 1 w = Inr c" "zcstream c = 1"
    "lib w = [1]" "ud s = 1" "in_zstd c = zstd_no_in" "out_zstd c = zstd_no_out" "total_in s = 0" "total_out s = 0"
    using copy_zstd_begins(1) by blast
  obtain t v d where t: "inflateInitCB_zstd copy_zstd demo_stream demo_world = Inr (0, t, v)" "load as_zstd 1 v = Inr d" "zdstream d = 1"
    "lib v = [1]" "ud t = 1" "in_zstd d = zstd_no_in" "out_zstd d = zstd_no_out" "total_in t = 0" "total_out t = 0"
    using copy_zstd_begins(2) by blast
  let ?s = "s\<lparr>next_in := 1000, avail_in := 3, next_out := 2000, avail_out := 50\<rparr>" and ?w = "w\<lparr>bytes := write_mem (bytes w) 1000 [7, 8, 9]\<rparr>"
  obtain s' w' where 1: "run_calls (deflateCB_zstd copy_zstd) [(Keep, 0), (Keep, 4)] ?s ?w = Inr ([0, 1], s', w')"
    "total_in s' = 3" "total_out s' = 3"
    using copy_zstd_deflates [of ?w c ?s] s by auto
  let ?ys = "read_mem (bytes w') 2000 3"
  let ?t = "t\<lparr>next_in := 3000, avail_in := 3, next_out := 4000, avail_out := 50\<rparr>" and ?v = "v\<lparr>bytes := write_mem (bytes v) 3000 ?ys\<rparr>"
  obtain t' v' where 2: "run_calls (inflateCB_zstd copy_zstd) [(Keep, 0)] ?t ?v = Inr ([1], t', v')" "total_in t' = 3" "total_out t' = 3"
    using copy_zstd_inflates [of ?v d ?t] t by auto
  have r: "run_calls (deflateCB_zstd copy_zstd) ((Buffers [7, 8, 9] 1000 3 2000 50, 0) # [(Keep, 4)]) s w = Inr ([0] @ [1], s', w')"
    "run_calls (inflateCB_zstd copy_zstd) ((Buffers ?ys 3000 3 4000 50, 0) # []) t v = Inr ([] @ [1], t', v')"
    using 1(1) 2(1) by simp_all
  have u: "unat (3 :: uLong) = 3" by simp
  have far: "disjoint_ranges 1000 3 2000 3" "disjoint_ranges 3000 3 4000 3"
    by (auto simp: disjoint_ranges_def less_Suc_eq numeral_3_eq_3)
  have "read_mem (bytes v') 4000 (unat (total_out t')) = [7, 8, 9]"
    by (rule zstd_stream_roundtrip [OF copy_zstd_library s(1) r(1) _ _ _ _ t(1) r(2) [folded u, folded 1(3)]])
      (use far in \<open>simp_all add: 1(2,3) 2(2,3)\<close>)
  with s(1) t(1) r show ?thesis unfolding 2(3) u by auto
qed

end
