(* ===== verification/Zip7Data.thy ===== *)
theory Zip7Data
  imports Zip7
begin

text \<open>
  The data of 7-Zip streams: what the SDK documents of its encoder and decoder, the data of an
  \<open>inflate\<close> session, which interprets \<open>streaming\<close>, and what the two directions make of each other.
\<close>

section \<open>What the SDK documents\<close>

text \<open>
  \<open>unlzma\<close> maps a whole file, the properties and the stream behind them with its end mark, to what
  it encodes.  An encoder that succeeds writes such a file when the properties and the stream have
  adjacent places.
\<close>

definition zip7_encodes :: "'l sdk_lib \<Rightarrow> (byte list \<Rightarrow> byte list option) \<Rightarrow> bool" where
  "zip7_encodes L unlzma \<longleftrightarrow> (\<forall>dst cap src n props m k m'.
     LzmaEncode L (dst + LZMA_PROPS_SIZE L) cap src n props dst (LZMA_PROPS_SIZE L) 1 m = (SZ_OK L, k, LZMA_PROPS_SIZE L, m') \<longrightarrow>
     disjoint_ranges src (unat n) dst (unat (LZMA_PROPS_SIZE L) + unat cap) \<longrightarrow>
     unlzma (read_mem m' dst (unat (LZMA_PROPS_SIZE L) + unat k)) = Some (read_mem m src (unat n)))"

text \<open>
  \<open>codes d l xs ys\<close>: the decoder \<open>d\<close> has been given the properties and the stream \<open>xs\<close> and has
  produced \<open>ys\<close>.  It begins with the properties it was allocated from, a call reads the input it
  reports and writes the output it reports, and the end mark means that \<open>xs\<close> is a whole file of \<open>ys\<close>.
\<close>

definition zip7_decodes :: "'l sdk_lib \<Rightarrow> (byte list \<Rightarrow> byte list option) \<Rightarrow> (byte list \<Rightarrow> 'l \<Rightarrow> byte list \<Rightarrow> byte list \<Rightarrow> bool) \<Rightarrow> bool" where
  "zip7_decodes L unlzma codes \<longleftrightarrow> sz_codes L \<and> LZMA_PROPS_SIZE L = 5 \<and>
     (\<forall>d a m l d' l'. LzmaDec_Allocate L d a (LZMA_PROPS_SIZE L) m l = Inr (SZ_OK L, d', l') \<longrightarrow>
        codes (LzmaDec_Init L d') l' (read_mem m a (unat (LZMA_PROPS_SIZE L))) []) \<and>
     (\<forall>d dst cap src n m l d' k i st m' l' xs ys. codes d l xs ys \<longrightarrow>
        LzmaDec_DecodeToBuf L d dst cap src n (LZMA_FINISH_ANY L) m l = Inr (d', k, i, st, m', l') \<longrightarrow> i \<le> n \<and>
        (\<exists>vs. length vs = unat k \<and> m' = write_mem m dst vs \<and> codes d' l' (xs @ read_mem m src (unat i)) (ys @ vs) \<and>
          (st = LZMA_STATUS_FINISHED_WITH_MARK L \<longrightarrow> unlzma (xs @ read_mem m src (unat i)) = Some (ys @ vs))))"

lemma zip7_decodesD:
  assumes "zip7_decodes L unlzma codes"
  shows "sz_codes L" and "LZMA_PROPS_SIZE L = 5"
    and "LzmaDec_Allocate L d a 5 m l = Inr (0, d', l') \<Longrightarrow> codes (LzmaDec_Init L d') l' (read_mem m a 5) []"
  using assms by (auto simp: zip7_decodes_def sz_codes_def)

lemma zip7_decodesE:
  assumes "zip7_decodes L unlzma codes" and "codes d l xs ys"
    and "LzmaDec_DecodeToBuf L d dst cap src n (LZMA_FINISH_ANY L) m l = Inr (d', k, i, st, m', l')"
  obtains vs where "i \<le> n" "length vs = unat k" "m' = write_mem m dst vs" "codes d' l' (xs @ read_mem m src (unat i)) (ys @ vs)"
    "st = LZMA_STATUS_FINISHED_WITH_MARK L \<Longrightarrow> unlzma (xs @ read_mem m src (unat i)) = Some (ys @ vs)"
proof -
  from assms(1) have "codes d l xs ys \<longrightarrow> LzmaDec_DecodeToBuf L d dst cap src n (LZMA_FINISH_ANY L) m l = Inr (d', k, i, st, m', l') \<longrightarrow> i \<le> n \<and>
      (\<exists>vs. length vs = unat k \<and> m' = write_mem m dst vs \<and> codes d' l' (xs @ read_mem m src (unat i)) (ys @ vs) \<and>
        (st = LZMA_STATUS_FINISHED_WITH_MARK L \<longrightarrow> unlzma (xs @ read_mem m src (unat i)) = Some (ys @ vs)))"
    unfolding zip7_decodes_def by (elim conjE allE) assumption
  with assms(2,3) that show thesis by blast
qed

section \<open>The data of an inflate session\<close>

text \<open>
  \<open>inflate\<close> answers a call without input with the end of the stream, wherever the decoder stands; a
  client that relies on the end of the stream calls it with input only.  \<open>zip7_fed\<close> is \<open>inflate\<close> for
  such a client, and refuses the other calls as zlib does.
\<close>

definition zip7_fed :: "'l sdk_lib \<Rightarrow> int \<Rightarrow> 'l stream_op" where
  "zip7_fed L f s w = (if 0 < sint (avail_in s) then inflateCB_7zip L f s w else Inr (UNIZIP_BUF_ERROR, s, w))"

fun feeds :: "refill \<Rightarrow> bool" where
  "feeds Keep = False"
| "feeds (Amounts n k) = (0 < sint n)"
| "feeds (Buffers src a n b k) = (0 < sint n)"

lemma zip7_fed_io:
  "\<forall>(rf, f) \<in> set cs. feeds rf \<Longrightarrow> run_io (zip7_fed L) cs s w = run_io (inflateCB_7zip L) cs s w"
proof (induction cs arbitrary: s w)
  case (Cons c cs)
  obtain rf f where c: "c = (rf, f)" by (cases c)
  with Cons.prems have "0 < sint (avail_in (apply_refill rf s))" by (cases rf) auto
  then have "zip7_fed L f (apply_refill rf s) = inflateCB_7zip L f (apply_refill rf s)" by (simp add: zip7_fed_def fun_eq_iff)
  with Cons c show ?case by (simp add: Let_def)
qed simp

text \<open>Where the decoder of a call comes from and how far behind the input pointer its input begins.\<close>

definition zip7_decoder :: "'l sdk_lib \<Rightarrow> zip7_ctx \<Rightarrow> unizip_stream \<Rightarrow> 'l world \<Rightarrow> byte list \<Rightarrow> 'l \<Rightarrow> uLong \<Rightarrow> bool" where
  "zip7_decoder L c s w d l off \<longleftrightarrow>
     (if total_in s = 0 then \<exists>d0. LzmaDec_Allocate L (dec_7zip c) (next_in s) (LZMA_PROPS_SIZE L) (bytes w) (lib w) = Inr (0, d0, l) \<and>
        d = LzmaDec_Init L d0 \<and> off = LZMA_PROPS_SIZE L
      else d = dec_7zip c \<and> l = lib w \<and> off = 0)"

lemma zip7_open_decoder:
  assumes "zip7_open L (zip7_pull s c) w = Inr (None, c', w')"
  shows "\<exists>off. zip7_decoder L c s w (dec_7zip c') (lib w') off \<and> w' = w\<lparr>lib := lib w'\<rparr> \<and>
    next_in_7zip c' = next_in s + off \<and> total_in_7zip c' = total_in s + off \<and> next_out_7zip c' = next_out s \<and>
    avail_in_7zip c' = avail_in s \<and> avail_out_7zip c' = avail_out s"
proof -
  have "dec_7zip (zip7_pull s c) = dec_7zip c" by (simp add: zip7_pull_def)
  with assms show ?thesis
    by (auto simp: zip7_open_def zip7_decoder_def andthen_eq_Inr Let_def split: if_splits)
qed

lemma unat_scast_positive:
  assumes "0 < sint (n :: uInt)"
  shows "unat (scast n :: uLong) < 2 ^ 63"
proof -
  have s: "sint n < 2 ^ 31" using sint_lt [of n] by simp
  have "(scast n :: uLong) = word_of_int (sint n)" by (rule scast_eq)
  then have "uint (scast n :: uLong) = sint n mod 2 ^ 64" by (simp only: uint_word_of_int) simp
  also have "\<dots> = sint n" using s assms by (intro mod_pos_pos_trivial) simp_all
  finally have "(scast n :: uLong) < 2 ^ 63" using s by (simp add: word_less_def)
  then show ?thesis by (simp add: word_less_nat_alt)
qed

lemma zip7_decode_eq:
  assumes "avail_in_7zip c \<noteq> 0" and "LzmaDec_DecodeToBuf L (dec_7zip c) (next_out_7zip c) (scast (avail_out_7zip c)) (next_in_7zip c)
      (scast (avail_in_7zip c)) (LZMA_FINISH_ANY L) (bytes w) (lib w) = Inr (d, k, i, st, m, l)"
  shows "\<exists>c'. zip7_decode L c w = Inr (if st = LZMA_STATUS_FINISHED_WITH_MARK L then 1 else 0, c', w\<lparr>bytes := m, lib := l\<rparr>) \<and>
    dec_7zip c' = d \<and> next_in_7zip c' = next_in_7zip c + i \<and> next_out_7zip c' = next_out_7zip c + k \<and> total_in_7zip c' = total_in_7zip c + i"
  using assms by (simp add: zip7_decode_def Let_def)

lemma zip7_inflate_decodes:
  assumes c: "load as_zip7 (ud s) w = Inr c" and call: "inflateCB_7zip L f s w = Inr (r, s', w')"
    and "sz_codes L" and r: "r = 0 \<or> r = 1" and "avail_in s \<noteq> 0"
  shows "\<exists>d l off d' k i st c'. zip7_decoder L c s w d l off \<and>
    LzmaDec_DecodeToBuf L d (next_out s) (scast (avail_out s)) (next_in s + off) (scast (avail_in s)) (LZMA_FINISH_ANY L) (bytes w) l =
      Inr (d', k, i, st, bytes w', lib w') \<and> (r = 1 \<longrightarrow> st = LZMA_STATUS_FINISHED_WITH_MARK L) \<and>
    load as_zip7 (ud s') w' = Inr c' \<and> dec_7zip c' = d' \<and> next_in s' = next_in s + off + i \<and> next_out s' = next_out s + k \<and>
    total_in s' = total_in s + off + i"
proof -
  note p = load_nonnull [OF c]
  let ?w = "store (ud s) (Zip7_obj (zip7_pull s c)) w"
  from call c p obtain e c1 w1 where o: "zip7_open L (zip7_pull s c) ?w = Inr (e, c1, w1)"
    by (auto simp: inflateCB_7zip_def zip7_inflate_def andthen_eq_Inr)
  have "e = None"
  proof (rule ccontr)
    assume "e \<noteq> None"
    then obtain x where e: "e = Some x" by blast
    with o obtain rc where "x = zip7_map_error L rc" "rc \<noteq> 0"
      by (auto simp: zip7_open_def andthen_eq_Inr Let_def split: if_splits)
    with assms(3) have "x \<noteq> 0" "x \<noteq> 1" by (auto simp: zip7_map_error_def sz_codes_def)
    moreover from call c p o e have "r = x" by (auto simp: inflateCB_7zip_def zip7_inflate_def andthen_eq_Inr)
    ultimately show False using r by blast
  qed
  with zip7_open_decoder [of L s c ?w c1 w1] o obtain off where off: "zip7_decoder L c s ?w (dec_7zip c1) (lib w1) off" "w1 = ?w\<lparr>lib := lib w1\<rparr>"
      "next_in_7zip c1 = next_in s + off" "total_in_7zip c1 = total_in s + off" "next_out_7zip c1 = next_out s"
      "avail_in_7zip c1 = avail_in s" "avail_out_7zip c1 = avail_out s" by blast
  from off(1) have dec: "zip7_decoder L c s w (dec_7zip c1) (lib w1) off" by (simp add: zip7_decoder_def cong: if_cong)
  from off(2) have "bytes w1 = bytes (?w\<lparr>lib := lib w1\<rparr>)" by (rule arg_cong)
  then have b: "bytes w1 = bytes w" by simp
  from call c p o \<open>e = None\<close> obtain c2 w2 where d: "zip7_decode L c1 w1 = Inr (r, c2, w2)"
    and s': "s' = zip7_push c2 s" "w' = store (ud s) (Zip7_obj c2) w2"
    by (auto simp: inflateCB_7zip_def zip7_inflate_def andthen_eq_Inr)
  have in1: "avail_in_7zip c1 \<noteq> 0" using off(6) assms(5) by simp
  obtain y where "LzmaDec_DecodeToBuf L (dec_7zip c1) (next_out_7zip c1) (scast (avail_out_7zip c1)) (next_in_7zip c1) (scast (avail_in_7zip c1))
      (LZMA_FINISH_ANY L) (bytes w1) (lib w1) = Inr y"
    using d in1 by (auto simp: zip7_decode_def andthen_eq_Inr Let_def)
  then obtain d' k i st m l where e: "LzmaDec_DecodeToBuf L (dec_7zip c1) (next_out_7zip c1) (scast (avail_out_7zip c1)) (next_in_7zip c1)
      (scast (avail_in_7zip c1)) (LZMA_FINISH_ANY L) (bytes w1) (lib w1) = Inr (d', k, i, st, m, l)"
    by (cases y) simp
  from zip7_decode_eq [OF in1 e] obtain c3 where "zip7_decode L c1 w1 = Inr (if st = LZMA_STATUS_FINISHED_WITH_MARK L then 1 else 0, c3, w1\<lparr>bytes := m, lib := l\<rparr>)"
    and c3: "dec_7zip c3 = d'" "next_in_7zip c3 = next_in_7zip c1 + i" "next_out_7zip c3 = next_out_7zip c1 + k" "total_in_7zip c3 = total_in_7zip c1 + i"
    by blast
  with d have 2: "r = (if st = LZMA_STATUS_FINISHED_WITH_MARK L then 1 else 0)" "c2 = c3" "w2 = w1\<lparr>bytes := m, lib := l\<rparr>" by simp_all
  show ?thesis
  proof (intro exI conjI)
    show "zip7_decoder L c s w (dec_7zip c1) (lib w1) off" by (rule dec)
    show "LzmaDec_DecodeToBuf L (dec_7zip c1) (next_out s) (scast (avail_out s)) (next_in s + off) (scast (avail_in s)) (LZMA_FINISH_ANY L)
        (bytes w) (lib w1) = Inr (d', k, i, st, bytes w', lib w')" using e by (simp add: off(3,5-7) b s' 2)
    show "load as_zip7 (ud s') w' = Inr c3" "dec_7zip c3 = d'" using p c3 by (simp_all add: s' 2)
    show "r = 1 \<longrightarrow> st = LZMA_STATUS_FINISHED_WITH_MARK L" using 2(1) by (auto split: if_splits)
  qed (simp_all add: s' 2 c3 off(3-5) zip7_push_def)
qed

text \<open>
  \<open>total_in\<close> tells whether the decoder was allocated, and wraps around at 16 EiB; what a session of
  that length does is left open.
\<close>

definition zip7_decoding :: "'l sdk_lib \<Rightarrow> (byte list \<Rightarrow> 'l \<Rightarrow> byte list \<Rightarrow> byte list \<Rightarrow> bool) \<Rightarrow> unizip_stream \<Rightarrow> 'l world \<Rightarrow> byte list \<Rightarrow> byte list \<Rightarrow> bool" where
  "zip7_decoding L codes s w xs ys \<longleftrightarrow> 2 ^ 64 \<le> length xs \<or> total_in s = of_nat (length xs) \<and>
     (\<exists>c. load as_zip7 (ud s) w = Inr c \<and> (if xs = [] then ys = [] else codes (dec_7zip c) (lib w) xs ys))"

lemma zip7_decoding_refill: "zip7_decoding L codes s w xs ys \<Longrightarrow> zip7_decoding L codes (apply_refill rf s) (refill_world rf w) xs ys"
  by (cases rf) (auto simp: zip7_decoding_def)

lemma inflateInitCB_7zip_decoding:
  assumes "inflateInitCB_7zip L s0 w0 = Inr (UNIZIP_OK, s, w)"
  shows "zip7_decoding L codes s w [] []"
proof -
  obtain p w1 where "zip7_allocate L w0 = (p, w1)" by fastforce
  with assms have d: "zip7_inflateInit L p w1 = Inr (0, w)" "ud s = p" "total_in s = 0"
    by (auto simp: inflateInitCB_7zip_def reset_7zip_def Let_def andthen_eq_Inr)
  then obtain c where "load as_zip7 p w1 = Inr c" by (auto simp: zip7_inflateInit_def andthen_eq_Inr)
  with d load_nonnull [OF this] show ?thesis by (auto simp: zip7_decoding_def zip7_inflateInit_def Let_def)
qed

text \<open>The decoder of a call has been given what the session has consumed, with the properties on the first call.\<close>

lemma zip7_decoder_codes:
  assumes lib: "zip7_decodes L unlzma codes" and d: "zip7_decoder L c s w d l off"
    and xs: "total_in s = of_nat (length xs)" "length xs < 2 ^ 64" and ys: "if xs = [] then ys = [] else codes (dec_7zip c) (lib w) xs ys"
  shows "codes d l (xs @ read_mem (bytes w) (next_in s) (unat off)) ys \<and> unat off \<le> 5 \<and> (xs = [] \<longrightarrow> off = 5)"
proof (cases "xs = []")
  case True
  with d xs(1) obtain d0 where "LzmaDec_Allocate L (dec_7zip c) (next_in s) 5 (bytes w) (lib w) = Inr (0, d0, l)" "d = LzmaDec_Init L d0" "off = 5"
    by (auto simp: zip7_decoder_def zip7_decodesD(2) [OF lib])
  with zip7_decodesD(3) [OF lib] True ys show ?thesis by auto
next
  case False
  with xs have "total_in s \<noteq> 0" using of_nat_addr_neq_0 [of "length xs"] by simp
  with d False ys show ?thesis by (simp add: zip7_decoder_def)
qed

lemma zip7_inflate_streams:
  assumes lib: "zip7_decodes L unlzma codes" and i: "zip7_decoding L codes s w xs ys"
    and call: "zip7_fed L f s w = Inr (r, s', w')" and r: "r = UNIZIP_OK \<or> r = UNIZIP_STREAM_END"
  shows "zip7_decoding L codes s' w' (xs @ consumed s w s') (ys @ produced s s' w') \<and> (r = UNIZIP_STREAM_END \<longrightarrow>
    2 ^ 64 \<le> length (xs @ consumed s w s') \<or> unlzma (xs @ consumed s w s') = Some (ys @ produced s s' w'))"
proof (cases "2 ^ 64 \<le> length xs")
  case False
  from call r have fed: "0 < sint (avail_in s)" and call: "inflateCB_7zip L f s w = Inr (r, s', w')"
    by (auto simp: zip7_fed_def split: if_splits)
  from i False obtain c where xs: "total_in s = of_nat (length xs)" "length xs < 2 ^ 64" and c: "load as_zip7 (ud s) w = Inr c"
    and ys: "if xs = [] then ys = [] else codes (dec_7zip c) (lib w) xs ys" by (auto simp: zip7_decoding_def)
  have "avail_in s \<noteq> 0" using fed by auto
  from zip7_inflate_decodes [OF c call zip7_decodesD(1) [OF lib] r this] obtain d l off d' k n st c' where dec: "zip7_decoder L c s w d l off"
    and e: "LzmaDec_DecodeToBuf L d (next_out s) (scast (avail_out s)) (next_in s + off) (scast (avail_in s)) (LZMA_FINISH_ANY L) (bytes w) l =
      Inr (d', k, n, st, bytes w', lib w')" and st: "r = 1 \<Longrightarrow> st = LZMA_STATUS_FINISHED_WITH_MARK L"
    and c': "load as_zip7 (ud s') w' = Inr c'" "dec_7zip c' = d'" "next_in s' = next_in s + off + n" "next_out s' = next_out s + k"
      "total_in s' = total_in s + off + n" by blast
  note cs = zip7_decoder_codes [OF lib dec xs ys]
  from zip7_decodesE [OF lib conjunct1 [OF cs] e] obtain vs where n: "n \<le> scast (avail_in s)" and k: "length vs = unat k"
    and w': "bytes w' = write_mem (bytes w) (next_out s) vs"
    and codes: "codes d' (lib w') ((xs @ read_mem (bytes w) (next_in s) (unat off)) @ read_mem (bytes w) (next_in s + off) (unat n)) (ys @ vs)"
    and mark: "st = LZMA_STATUS_FINISHED_WITH_MARK L \<Longrightarrow>
      unlzma ((xs @ read_mem (bytes w) (next_in s) (unat off)) @ read_mem (bytes w) (next_in s + off) (unat n)) = Some (ys @ vs)" by blast
  have "unat (scast (avail_in s) :: uLong) < 2 ^ 63" using fed by (rule unat_scast_positive)
  then have small: "unat off + unat n < 2 ^ 64" using n cs by (simp add: word_le_nat_alt)
  have us: "consumed s w s' = read_mem (bytes w) (next_in s) (unat off) @ read_mem (bytes w) (next_in s + off) (unat n)"
    using consumed_moved [of s' s "unat off + unat n" w] small c'(3) by (simp add: read_mem_add add.assoc)
  have vs: "produced s s' w' = vs"
    using produced_moved [of s' s vs w' "bytes w"] c'(4) k w' unat_uLong [of k] by simp
  have "0 < length (xs @ consumed s w s')" unfolding us using cs by (cases xs) auto
  then have "xs @ consumed s w s' \<noteq> []" by (rule iffD1 [OF length_greater_0_conv])
  moreover have "total_in s' = of_nat (length (xs @ consumed s w s'))" using c'(5) xs(1) by (simp add: us)
  moreover have "codes (dec_7zip c') (lib w') (xs @ consumed s w s') (ys @ produced s s' w')" using codes by (simp add: us vs c'(2))
  ultimately have "zip7_decoding L codes s' w' (xs @ consumed s w s') (ys @ produced s s' w')"
    using c'(1) unfolding zip7_decoding_def by auto
  moreover have "unlzma (xs @ consumed s w s') = Some (ys @ produced s s' w')" if "r = 1"
    using mark [OF st [OF that]] by (simp add: us vs)
  ultimately show ?thesis by simp
qed (simp add: zip7_decoding_def)

interpretation zip7_decoder: streaming "zip7_decodes L unlzma codes" "\<lambda>xs ys. 2 ^ 64 \<le> length xs \<or> unlzma xs = Some ys"
  "\<lambda>level. inflateInitCB_7zip L" "zip7_fed L" "zip7_decoding L codes" for L unlzma codes
proof (unfold_locales, goal_cases)
  case 2
  then show ?case by (rule zip7_inflate_streams)
qed (auto intro: inflateInitCB_7zip_decoding zip7_decoding_refill)

section \<open>Properties\<close>

text \<open>A finishing call that ends the stream has encoded what the calls before it have taken.\<close>

lemma zip7_deflate_encodes:
  assumes lib: "sz_codes L" "zip7_encodes L unlzma" and init: "deflateInitCB_7zip L level s0 w0 = Inr (UNIZIP_OK, s, w)"
    and cs: "\<forall>(rf, f) \<in> set cs. keeps_buffers rf \<and> f \<noteq> 4"
    and run: "run_calls (deflateCB_7zip L) cs (s\<lparr>next_in := a, avail_in := n, next_out := b, avail_out := k\<rparr>) (w\<lparr>bytes := m\<rparr>) = Inr (rs, s1, w1)"
    and fin: "deflateCB_7zip L 4 s1 w1 = Inr (UNIZIP_STREAM_END, s2, w2)" and bound: "zip7_compressBound (total_in s1) = Inr cap"
    and apart: "disjoint_ranges a (unat (total_in s1)) b (unat (LZMA_PROPS_SIZE L) + unat cap)"
  shows "total_in s2 = total_in s1 \<and>
    unlzma (read_mem (bytes w2) b (unat (LZMA_PROPS_SIZE L) + unat (total_out s2))) = Some (read_mem m a (unat (total_in s1)))"
proof -
  let ?s = "s\<lparr>next_in := a, avail_in := n, next_out := b, avail_out := k\<rparr>" and ?w = "w\<lparr>bytes := m\<rparr>"
  obtain p w' where "zip7_allocate L w0 = (p, w')" by fastforce
  with init have d: "zip7_deflateInit p level w' = Inr (0, w)" "ud s = p" "total_in s = 0"
    by (auto simp: deflateInitCB_7zip_def reset_7zip_def Let_def andthen_eq_Inr)
  then obtain c0 where "load as_zip7 p w' = Inr c0" by (auto simp: zip7_deflateInit_def andthen_eq_Inr)
  with d load_nonnull [OF this] obtain c where c: "load as_zip7 (ud ?s) ?w = Inr c" by (auto simp: zip7_deflateInit_def Let_def)
  then have "zip7_collected a b (level_7zip c) m ?s ?w" using d(3) by (simp add: zip7_collected_def)
  from zip7_collected_run [OF this cs run] obtain c1 where c1: "load as_zip7 (ud s1) w1 = Inr c1"
    and i: "next_in s1 = a + total_in s1" "next_out s1 = b + total_in s1" "total_in s1 = 0 \<or> src_7zip c1 = a \<and> dest_7zip c1 = b"
    and m: "bytes w1 = m" by (auto simp: zip7_collected_def)
  define e where "e = zip7_begin (zip7_pull s1 c1)"
  have e: "src_7zip e = a" "dest_7zip e = b" "total_in_7zip e = total_in s1" using zip7_begin_collected [OF i] by (simp_all add: e_def)
  obtain ret len ps m' where enc: "LzmaEncode L (b + LZMA_PROPS_SIZE L) cap a (total_in s1) ((LzmaEncProps_Init L)\<lparr>level_props := level_7zip c1\<rparr>)
      b (LZMA_PROPS_SIZE L) 1 m = (ret, len, ps, m')" by (metis prod_cases4)
  from fin have "zip7_answer L ret ps = 1" and s2: "total_out s2 = len" "total_in s2 = total_in s1" "bytes w2 = m'"
    by (auto simp: zip7_finish_eq [OF c1 e_def] bound e m enc Let_def zip7_push_def)
  with lib(1) have "ret = SZ_OK L" "ps = LZMA_PROPS_SIZE L"
    by (auto simp: zip7_answer_def zip7_map_error_def sz_codes_def Let_def split: if_splits)
  with lib(2) enc apart s2 show ?thesis unfolding zip7_encodes_def by blast
qed

text \<open>
  C11: what 7-Zip's \<open>deflate\<close> encodes, its \<open>inflate\<close> restores.  The \<open>deflate\<close> session takes its input in
  any number of calls in one buffer and ends with a finishing call that reports the end of the stream;
  the \<open>inflate\<close> session gets its input in any portions and places, with some in every call, up to a
  call that reports the end.  It has to be given the properties too, which \<open>total_out\<close> leaves out.
\<close>

theorem zip7_stream_roundtrip:
  assumes lib: "zip7_encodes L unlzma" "zip7_decodes L unlzma codes"
    and enc: "deflateInitCB_7zip L level s0 w0 = Inr (UNIZIP_OK, s, w)" "\<forall>(rf, f) \<in> set cs. keeps_buffers rf \<and> f \<noteq> 4" "f \<noteq> 4"
      "run_calls (deflateCB_7zip L) ((Buffers src a n b k, f) # cs) s w = Inr (rs, s1, w1)"
      "deflateCB_7zip L 4 s1 w1 = Inr (UNIZIP_STREAM_END, s2, w2)"
    and room: "zip7_compressBound (total_in s1) = Inr cap" "disjoint_ranges a (unat (total_in s1)) b (5 + unat cap)" "5 + unat (total_out s2) < 2 ^ 64"
    and dec: "inflateInitCB_7zip L t0 v0 = Inr (UNIZIP_OK, t, v)" "\<forall>(rf, f) \<in> set ds. feeds rf" "set rs' \<subseteq> {UNIZIP_OK}"
      "run_io (inflateCB_7zip L) ds t v = Inr (rs' @ [UNIZIP_STREAM_END], us, vs, t', v')"
    and given: "us = read_mem (bytes w2) b (5 + unat (total_out s2))"
  shows "vs = read_mem (write_mem (bytes w) a src) a (unat (total_in s2))"
proof -
  note L = zip7_decodesD(1,2) [OF lib(2)]
  have "run_calls (deflateCB_7zip L) ((Keep, f) # cs) (s\<lparr>next_in := a, avail_in := n, next_out := b, avail_out := k\<rparr>)
      (w\<lparr>bytes := write_mem (bytes w) a src\<rparr>) = Inr (rs, s1, w1)" using enc(4) by simp
  from zip7_deflate_encodes [OF L(1) lib(1) enc(1) _ this enc(5) room(1)] enc(2,3) room(2) L(2)
  have "total_in s2 = total_in s1" "unlzma us = Some (read_mem (write_mem (bytes w) a src) a (unat (total_in s1)))"
    by (simp_all add: given)
  moreover have "run_io (zip7_fed L) ds t v = Inr (rs' @ [UNIZIP_STREAM_END], us, vs, t', v')"
    using dec(2,4) by (simp only: zip7_fed_io)
  from zip7_decoder.session_streams [OF lib(2) dec(1,3) this] room(3) have "unlzma us = Some vs" by (simp add: given)
  ultimately show ?thesis by simp
qed

text \<open>A library for the witnesses: a file is its length, four more bytes and the data.\<close>

definition copy_sdk :: "ptr list sdk_lib" where
  "copy_sdk = demo_sdk\<lparr>LzmaEncode := (\<lambda>dst cap src n props pdst psize emark m. if n < 256 \<and> n \<le> cap
       then (0, n, psize, write_mem m pdst ([ucast n, 0, 0, 1, 0] @ read_mem m src (unat n))) else (7, cap, psize, m)),
     LzmaDec_Allocate := (\<lambda>d a n m l. Inr (0, [m a], l)),
     LzmaDec_DecodeToBuf := (\<lambda>d dst cap src n fm m l. if d = [] then Inl NullDeref
       else let k = min (min cap n) (ucast (hd d)) in Inr ([hd d - ucast k], k, k, if k = ucast (hd d) then 1 else 0,
         write_mem m dst (read_mem m src (unat k)), l))\<rparr>"

definition stored :: "byte list \<Rightarrow> byte list option" where
  "stored xs = (if 5 \<le> length xs \<and> length xs = 5 + unat (hd xs) then Some (drop 5 xs) else None)"

definition storing :: "byte list \<Rightarrow> ptr list \<Rightarrow> byte list \<Rightarrow> byte list \<Rightarrow> bool" where
  "storing d l xs ys \<longleftrightarrow> 5 \<le> length xs \<and> ys = drop 5 xs \<and> (\<exists>r. d = [r] \<and> unat (hd xs) = length ys + unat r)"

lemma copy_sdk_simps [simp]:
  "LZMA_PROPS_SIZE copy_sdk = 5" "SZ_OK copy_sdk = 0" "LZMA_STATUS_FINISHED_WITH_MARK copy_sdk = 1" "LZMA_FINISH_ANY copy_sdk = 0"
  "LzmaDec_Init copy_sdk d = d" "LzmaDec_Allocate copy_sdk d a n m l = Inr (0, [m a], l)"
  "LzmaEncode copy_sdk dst cap src n props pdst psize emark m = (if n < 256 \<and> n \<le> cap
     then (0, n, psize, write_mem m pdst ([ucast n, 0, 0, 1, 0] @ read_mem m src (unat n))) else (7, cap, psize, m))"
  by (simp_all add: copy_sdk_def demo_sdk_def del: write_mem.simps)

lemma copy_sdk_decode:
  "LzmaDec_DecodeToBuf copy_sdk d dst cap src n fm m l = (if d = [] then Inl NullDeref
     else let k = min (min cap n) (ucast (hd d)) in Inr ([hd d - ucast k], k, k, if k = ucast (hd d) then 1 else 0,
       write_mem m dst (read_mem m src (unat k)), l))"
  by (simp add: copy_sdk_def)

lemma unat_ucast_byte: "unat (ucast (n :: uLong) :: byte) = unat n mod 256" "unat (ucast (r :: byte) :: uLong) = unat r"
proof -
  have "unat r < 2 ^ LENGTH(8)" by (rule unsigned_less)
  then show "unat (ucast r :: uLong) = unat r" by (simp add: unsigned_ucast_eq take_bit_eq_mod)
qed (simp add: unsigned_ucast_eq take_bit_eq_mod)

lemma copy_sdk_codes: "sz_codes copy_sdk"
  using demo_sdk_codes by (simp add: sz_codes_def copy_sdk_def)

lemma copy_sdk_encodes: "zip7_encodes copy_sdk stored"
  unfolding zip7_encodes_def
proof (intro allI impI)
  fix dst cap src n props m k m'
  assume "LzmaEncode copy_sdk (dst + LZMA_PROPS_SIZE copy_sdk) cap src n props dst (LZMA_PROPS_SIZE copy_sdk) 1 m =
    (SZ_OK copy_sdk, k, LZMA_PROPS_SIZE copy_sdk, m')"
  then have n: "n < 256" "k = n" "m' = write_mem m dst ([ucast n, 0, 0, 1, 0] @ read_mem m src (unat n))" by (auto split: if_splits)
  then have u: "unat n < 256" by (simp add: word_less_nat_alt)
  let ?file = "[ucast n, 0, 0, 1, 0] @ read_mem m src (unat n)"
  have len: "length ?file = 5 + unat n" by simp
  have "length ?file \<le> 2 ^ 64" unfolding len using u by simp
  from read_write_mem [OF this, of m dst] have "read_mem m' dst (5 + unat n) = ?file" unfolding len n(3) .
  with u n(2) show "stored (read_mem m' dst (unat (LZMA_PROPS_SIZE copy_sdk) + unat k)) = Some (read_mem m src (unat n))"
    by (simp add: stored_def unat_ucast_byte)
qed

lemma copy_sdk_decodes: "zip7_decodes copy_sdk stored storing"
proof -
  have call: "i \<le> n \<and> (\<exists>vs. length vs = unat k \<and> m' = write_mem m dst vs \<and> storing d' l' (xs @ read_mem m src (unat i)) (ys @ vs) \<and>
      (st = LZMA_STATUS_FINISHED_WITH_MARK copy_sdk \<longrightarrow> stored (xs @ read_mem m src (unat i)) = Some (ys @ vs)))"
    if s: "storing d l xs ys" and c: "LzmaDec_DecodeToBuf copy_sdk d dst cap src n (LZMA_FINISH_ANY copy_sdk) m l = Inr (d', k, i, st, m', l')"
    for d dst cap src n m l d' k i st m' l' xs ys
  proof -
    from s obtain r where r: "d = [r]" "unat (hd xs) = length ys + unat r" "5 \<le> length xs" "ys = drop 5 xs" by (auto simp: storing_def)
    from c r(1) have i: "i = k" "k = min (min cap n) (ucast r)" "d' = [r - ucast k]" "m' = write_mem m dst (read_mem m src (unat k))"
      "st = 1 \<longleftrightarrow> k = ucast r" by (auto simp: copy_sdk_decode Let_def split: if_splits)
    have le: "i \<le> n" "k \<le> ucast r" using i(1,2) by (simp_all add: min_le_iff_disj)
    then have u: "unat k \<le> unat r" by (simp add: word_le_nat_alt unat_ucast_byte)
    moreover have "unat r < 2 ^ LENGTH(8)" by (rule unsigned_less)
    ultimately have k: "unat (ucast k :: byte) = unat k" by (simp add: unat_ucast_byte)
    then have v: "unat (r - ucast k) = unat r - unat k" using u by (simp add: unat_sub word_le_nat_alt)
    from r(3) have "xs \<noteq> []" by auto
    then have "storing d' l' (xs @ read_mem m src (unat i)) (ys @ read_mem m src (unat k))" using r u v i(1,3) by (simp add: storing_def)
    moreover have "stored (xs @ read_mem m src (unat i)) = Some (ys @ read_mem m src (unat k))" if "k = ucast r"
      using that r u \<open>xs \<noteq> []\<close> i(1) by (simp add: stored_def unat_ucast_byte)
    ultimately show ?thesis using le(1) i(1,4,5) by (intro conjI exI [of _ "read_mem m src (unat k)"]) simp_all
  qed
  have "storing [m a] l (read_mem m a 5) []" for a m l by (simp add: storing_def numeral_eq_Suc read_mem_Suc)
  with call show ?thesis using copy_sdk_codes unfolding zip7_decodes_def by (auto simp del: write_mem.simps)
qed

lemma read_written: "length xs = n \<Longrightarrow> n \<le> 2 ^ 64 \<Longrightarrow> read_mem (write_mem m a xs) a n = xs"
  using read_write_mem by blast

lemma copy_sdk_deflates:
  "\<exists>s w s1 w1 s2 w2. deflateInitCB_7zip copy_sdk 5 demo_stream demo_world = Inr (0, s, w) \<and>
     run_calls (deflateCB_7zip copy_sdk) [(Buffers [7, 8, 9] 1000 3 2000 50, 0)] s w = Inr ([0], s1, w1) \<and> total_in s1 = 3 \<and>
     deflateCB_7zip copy_sdk 4 s1 w1 = Inr (1, s2, w2) \<and> total_out s2 = 3 \<and> total_in s2 = 3 \<and>
     read_mem (bytes w2) 2000 8 = [3, 0, 0, 1, 0, 7, 8, 9]"
proof -
  obtain s0 w c where s: "deflateInitCB_7zip demo_sdk 5 demo_stream demo_world = Inr (0, s0, w)" "load as_zip7 (ud s0) w = Inr c" "total_in s0 = 0"
    by (rule demo_sdk_init)
  have init: "deflateInitCB_7zip copy_sdk 5 demo_stream demo_world = Inr (0, s0, w)"
    using s(1) by (simp add: deflateInitCB_7zip_def zip7_allocate_def copy_sdk_def)
  let ?s = "s0\<lparr>next_in := 1000, avail_in := 3, next_out := 2000, avail_out := 50\<rparr>" and ?m = "write_mem (bytes w) 1000 [7, 8, 9]"
  have "zip7_collected 1000 2000 (level_7zip c) ?m ?s (w\<lparr>bytes := ?m\<rparr>)"
    using s(2,3) by (simp add: zip7_collected_def del: write_mem.simps)
  from zip7_collected_call [OF this, of 0 copy_sdk] s(3) obtain s1 w1 where 1: "deflateCB_7zip copy_sdk 0 ?s (w\<lparr>bytes := ?m\<rparr>) = Inr (0, s1, w1)"
    "zip7_collected 1000 2000 (level_7zip c) ?m s1 w1" "total_in s1 = 3" by (auto simp: ensures_def simp del: write_mem.simps)
  from 1(2) obtain c1 where c1: "load as_zip7 (ud s1) w1 = Inr c1" and i: "next_in s1 = 1000 + total_in s1" "next_out s1 = 2000 + total_in s1"
      "total_in s1 = 0 \<or> src_7zip c1 = 1000 \<and> dest_7zip c1 = 2000" and m: "bytes w1 = ?m" by (auto simp: zip7_collected_def simp del: write_mem.simps)
  define e where "e = zip7_begin (zip7_pull s1 c1)"
  have e: "src_7zip e = 1000" "dest_7zip e = 2000" "total_in_7zip e = 3" using zip7_begin_collected [OF i] 1(3) by (simp_all add: e_def)
  have rd: "read_mem ?m 1000 3 = [7, 8, 9]" by (rule read_written) simp_all
  have "zip7_answer copy_sdk 0 5 = 1" by (simp add: zip7_answer_def zip7_map_error_def)
  then obtain s2 w2 where 2: "deflateCB_7zip copy_sdk 4 s1 w1 = Inr (1, s2, w2)" "total_out s2 = 3" "total_in s2 = 3"
      "bytes w2 = write_mem ?m 2000 [3, 0, 0, 1, 0, 7, 8, 9]"
    by (simp add: zip7_finish_eq [OF c1 e_def] 1(3) zip7_compressBound_3 e m rd zip7_push_def Let_def del: write_mem.simps)
  have "read_mem (bytes w2) 2000 8 = [3, 0, 0, 1, 0, 7, 8, 9]"
    unfolding 2(4) by (rule read_written) simp_all
  moreover have "run_calls (deflateCB_7zip copy_sdk) [(Buffers [7, 8, 9] 1000 3 2000 50, 0)] s0 w = Inr ([0], s1, w1)"
    using 1(1) by (simp del: write_mem.simps)
  ultimately show ?thesis using init 1(3) 2(1-3) by blast
qed

lemma copy_sdk_inflates:
  assumes "xs = [3, 0, 0, 1, 0, 7, 8, 9]"
  shows "\<exists>t v vs t' v'. inflateInitCB_7zip copy_sdk demo_stream demo_world = Inr (0, t, v) \<and>
     run_io (inflateCB_7zip copy_sdk) [(Buffers xs 3000 3 4000 50, 0)] t v = Inr ([1], xs, vs, t', v')"
proof -
  obtain t v c where t: "inflateInitCB_7zip copy_sdk demo_stream demo_world = Inr (0, t, v)" "load as_zip7 (ud t) v = Inr c" "total_in t = 0" "total_out t = 0"
    by (simp add: inflateInitCB_7zip_def zip7_allocate_def malloc_ok zip7_inflateInit_def Let_def load_def deref_def reset_7zip_def)
  let ?t = "t\<lparr>next_in := 3000, avail_in := 3, next_out := 4000, avail_out := 50\<rparr>" and ?m = "write_mem (bytes v) 3000 xs"
  have rd: "read_mem ?m 3000 8 = xs" by (rule read_written) (simp_all add: assms)
  then have "read_mem ?m 3000 (Suc 7) = xs" by (simp del: write_mem.simps)
  then have "?m 3000 = hd xs" unfolding read_mem_Suc by (metis list.sel(1))
  then have "?m 3000 = 3" by (simp add: assms del: write_mem.simps)
  then have "\<exists>t' v'. inflateCB_7zip copy_sdk 0 ?t (v\<lparr>bytes := ?m\<rparr>) = Inr (1, t', v') \<and> next_in t' = 3008 \<and> next_out t' = 4003"
    using t load_nonnull [OF t(2)] by (simp add: inflateCB_7zip_def zip7_inflate_def zip7_open_def zip7_decode_def zip7_pull_def zip7_push_def
        copy_sdk_decode Let_def del: write_mem.simps)
  then obtain t' v' where 1: "inflateCB_7zip copy_sdk 0 ?t (v\<lparr>bytes := ?m\<rparr>) = Inr (1, t', v')" "next_in t' = 3008" by blast
  then have "consumed ?t (v\<lparr>bytes := ?m\<rparr>) t' = xs" using rd by (simp add: consumed_def del: write_mem.simps)
  with 1(1) have "run_io (inflateCB_7zip copy_sdk) [(Buffers xs 3000 3 4000 50, 0)] t v =
      Inr ([1], xs, produced ?t t' v', t', v')" by (simp add: Let_def del: write_mem.simps)
  with t(1) show ?thesis by blast
qed

theorem zip7_stream_roundtrip_witness:
  "\<exists>s w s1 w1 s2 w2 t v vs t' v'. deflateInitCB_7zip copy_sdk 5 demo_stream demo_world = Inr (0, s, w) \<and>
     run_calls (deflateCB_7zip copy_sdk) [(Buffers [7, 8, 9] 1000 3 2000 50, 0)] s w = Inr ([0], s1, w1) \<and>
     deflateCB_7zip copy_sdk 4 s1 w1 = Inr (1, s2, w2) \<and>
     inflateInitCB_7zip copy_sdk demo_stream demo_world = Inr (0, t, v) \<and>
     run_io (inflateCB_7zip copy_sdk) [(Buffers (read_mem (bytes w2) 2000 8) 3000 3 4000 50, 0)] t v =
       Inr ([1], read_mem (bytes w2) 2000 8, vs, t', v') \<and> vs = [7, 8, 9]"
proof -
  obtain s w s1 w1 s2 w2 where s: "deflateInitCB_7zip copy_sdk 5 demo_stream demo_world = Inr (0, s, w)"
     "run_calls (deflateCB_7zip copy_sdk) ((Buffers [7, 8, 9] 1000 3 2000 50, 0) # []) s w = Inr ([0], s1, w1)" "total_in s1 = 3"
     "deflateCB_7zip copy_sdk 4 s1 w1 = Inr (1, s2, w2)" "total_out s2 = 3" "total_in s2 = 3"
     "read_mem (bytes w2) 2000 8 = [3, 0, 0, 1, 0, 7, 8, 9]" using copy_sdk_deflates by blast
  from copy_sdk_inflates [OF s(7)] obtain t v vs t' v' where t: "inflateInitCB_7zip copy_sdk demo_stream demo_world = Inr (0, t, v)"
     "run_io (inflateCB_7zip copy_sdk) [(Buffers (read_mem (bytes w2) 2000 8) 3000 3 4000 50, 0)] t v =
       Inr ([] @ [1], read_mem (bytes w2) 2000 8, vs, t', v')" by auto
  have b: "zip7_compressBound (total_in s1) = Inr 132" by (simp add: s(3) zip7_compressBound_3)
  have far: "disjoint_ranges 1000 (unat (total_in s1)) 2000 (5 + unat (132 :: uLong))" by (rule disjoint_ranges_far) (simp_all add: s(3))
  have "vs = read_mem (write_mem (bytes w) 1000 [7, 8, 9]) 1000 (unat (total_in s2))"
    by (rule zip7_stream_roundtrip [OF copy_sdk_encodes copy_sdk_decodes s(1) _ _ s(2,4) b far _ t(1) _ _ t(2)]) (simp_all add: s(5))
  also have "\<dots> = [7, 8, 9]" by (rule read_written) (simp_all add: s(6))
  finally have "vs = [7, 8, 9]" .
  moreover have "run_io (inflateCB_7zip copy_sdk) [(Buffers (read_mem (bytes w2) 2000 8) 3000 3 4000 50, 0)] t v =
       Inr ([1], read_mem (bytes w2) 2000 8, vs, t', v')" using t(2) by simp
  ultimately show ?thesis using s(1,2,4) t(1) by blast
qed

text \<open>
  C38: an \<open>inflate\<close> call that is given no input reports the end of the stream, wherever the decoder
  stands: in the middle of a stream, and on the first call, which moves on behind properties it was
  not given and has decoded nothing.
\<close>

theorem zip7_inflate_starved:
  assumes c: "load as_zip7 (ud s) w = Inr c" and none: "avail_in s = 0"
    and alloc: "total_in s = 0 \<Longrightarrow> LzmaDec_Allocate L (dec_7zip c) (next_in s) (LZMA_PROPS_SIZE L) (bytes w) (lib w) = Inr (0, d, l)"
  shows "ensures (inflateCB_7zip L f s w) (\<lambda>(r, s', w'). r = UNIZIP_STREAM_END \<and> bytes w' = bytes w \<and> total_out s' = total_out s \<and>
    next_out s' = next_out s \<and> next_in s' = next_in s + (if total_in s = 0 then LZMA_PROPS_SIZE L else 0))"
proof -
  have "dec_7zip (zip7_pull s c) = dec_7zip c" by (simp add: zip7_pull_def)
  with load_nonnull [OF c] c none alloc show ?thesis
    by (simp add: inflateCB_7zip_def zip7_inflate_def zip7_open_def zip7_decode_def zip7_push_def Let_def)
qed

theorem zip7_inflate_starved_witness:
  "\<exists>t v. inflateInitCB_7zip copy_sdk demo_stream demo_world = Inr (0, t, v) \<and>
     ensures (inflateCB_7zip copy_sdk 0 (t\<lparr>next_in := 3000, next_out := 4000, avail_out := 50\<rparr>) v) (\<lambda>(r, s', w').
       r = 1 \<and> total_out s' = 0 \<and> next_in s' = 3005 \<and> next_out s' = 4000)"
proof -
  obtain t v c where t: "inflateInitCB_7zip copy_sdk demo_stream demo_world = Inr (0, t, v)" "load as_zip7 (ud t) v = Inr c"
      "total_in t = 0" "total_out t = 0" "avail_in t = 0"
    by (simp add: inflateInitCB_7zip_def zip7_allocate_def malloc_ok zip7_inflateInit_def Let_def load_def deref_def reset_7zip_def)
  let ?t = "t\<lparr>next_in := 3000, next_out := 4000, avail_out := 50\<rparr>"
  have "ensures (inflateCB_7zip copy_sdk 0 ?t v) (\<lambda>(r, s', w'). r = UNIZIP_STREAM_END \<and> bytes w' = bytes v \<and> total_out s' = total_out ?t \<and>
    next_out s' = next_out ?t \<and> next_in s' = next_in ?t + (if total_in ?t = 0 then LZMA_PROPS_SIZE copy_sdk else 0))"
    by (rule zip7_inflate_starved [where c = c and d = "[bytes v 3000]" and l = "lib v"]) (simp_all add: t)
  with t show ?thesis by (auto elim!: ensures_mono)
qed

end
