(* ===== verification/Spec2Isabelle.thy ===== *)
theory Spec2Isabelle
  imports Clients UadkStream ZstdData Zip7Data
begin

text \<open>
  A model of the unizip library: a zlib-compatible interface over ten compression back ends, one
  of which is chosen at run time.  All of the C code under \<open>src/src/\<close> is translated.

  \<^bold>\<open>The program.\<close>  A client calls the functions of \<open>src/src/unizip_adapt.c\<close> (\<open>unizip_deflate\<close>,
  \<open>unizip_compress\<close>, \<dots>).  Each of them checks the choice of a back end (\<open>check_algorithm\<close>: the
  variable \<open>value\<close>, the environment variable \<open>UNIZIP_VALUE\<close>, and for UADK whether the hardware
  answers) and calls the entry of that back end's table of function pointers.  A back end has two
  layers.  The callbacks (\<open>unizip_callback_*.c\<close>) copy the six buffer fields of the client's stream
  into a context that the stream's \<open>ud\<close> points to, call the algorithm layer, and copy them back;
  the algorithm layer (\<open>unizip_algorithm_*.c\<close>) drives the third-party library.  zlib and gzip have no
  context: the stream itself is cast to a \<open>z_stream\<close>.

  \<^bold>\<open>How it is modelled.\<close>  A C function is an Isabelle function from its arguments and the
  \<open>world\<close> to its result and the new world.  The world has the byte memory that buffers lie in, a
  heap of typed objects (contexts and the structs they point to), an oracle that says which
  allocations fail, and the state of the libraries.  Undefined behaviour is the left side of the
  result type \<open>res\<close>: null dereference, use after free, double free, a call through a null
  pointer, an index out of bounds, an invalid library call.  \<open>int\<close> is \<open>int\<close>, \<open>unsigned int\<close> and
  \<open>unsigned long\<close> are words of 32 and 64 bits, and conversions are written out.  Structs are
  records, passed by value where one function owns them and stored in the heap where the code
  shares them.  Third-party libraries are records of functions, the parameters \<open>lz4_lib\<close>,
  \<open>snappy_lib\<close>, \<open>zstd_lib\<close>, \<open>lzma_lib\<close>, \<open>bz_lib\<close>, \<open>brotli_lib\<close>, \<open>sdk_lib\<close>, \<open>zlib_lib\<close> and \<open>wd_lib\<close>;
  what a theorem supposes of one of them is a named hypothesis, and its witness is a concrete library.

  \<^bold>\<open>The theories.\<close>

  \<^item> \<open>Prelude\<close>: C types, faults, sequencing (\<open>andthen\<close>), the postcondition predicate \<open>ensures\<close>,
    the byte memory.  \<open>Doubles\<close>: the floating-point arithmetic of the \<open>compressBound\<close> functions.
    \<open>Cstrings\<close>: \<open>snprintf\<close> and \<open>atoi\<close> as far as the code uses them.
  \<^item> \<open>Structs\<close>: \<open>unizip_error_code.h\<close>, \<open>unizip_struct.h\<close>, the contexts of all back ends, the heap with
    \<open>malloc\<close> and \<open>free\<close>.
  \<^item> \<open>Sessions\<close>, \<open>Streams\<close>, \<open>Codecs\<close>: what clients rely on, as locales.  \<open>session\<close> (initialise, call,
    end: nothing faults, nothing leaks) with its two forms \<open>context_session\<close> (the back end owns one
    heap object) and \<open>handle_session\<close> (it also owns a handle of the library), \<open>resettable\<close>,
    \<open>accounting\<close> and \<open>deferred\<close> (pointers and totals agree, at once or at the end of the stream),
    \<open>streaming\<close> (what the calls consume and produce is what the library codes), \<open>one_shot\<close>
    (\<open>uncompress\<close> inverts \<open>compress\<close>).  \<open>Instances\<close>: the codec and the world of the witnesses.
  \<^item> \<open>Lz4\<close>, \<open>Snappy\<close>, \<open>Zstd\<close>, \<open>Xz\<close>, \<open>Bzip2\<close>, \<open>Brotli\<close>, \<open>Zip7\<close>, \<open>Zlib\<close> (zlib and gzip): one back end each,
    both layers, every function under its C name; \<open>UadkAlg\<close> and \<open>Uadk\<close>: the two layers of the
    accelerator back end; \<open>UadkData\<close>: the data that its one-shot functions pass through them;
    \<open>UadkStream\<close>: the data of a finishing deflate call;
    \<open>ZstdData\<close>: the data of Zstandard streams (the locale \<open>in_place\<close>);
    \<open>Zip7Data\<close>: the data of 7-Zip streams, for clients that call \<open>inflate\<close> with input only.  Each
    interprets the locales whose laws its code keeps; where the code does not keep them, a theorem
    says how it differs.
  \<^item> \<open>Adapt\<close>: the tables, the choice and all functions of the interface.  \<open>Interface\<close>: clients of the
    interface with one stream, reduced to the selected back end.  \<open>Pools\<close>: what lets streams of a back
    end live side by side, the locale \<open>shared\<close>, which \<open>pool\<close> gives from laws about one stream.
    \<open>Clients\<close>: clients with any number of streams in any interleaving, as a step relation.  This
    theory: the theorems about one session and about round trips.

  \<^bold>\<open>What the theorems show.\<close>  For the whole library: sessions through the interface are those of the
  selected back end; they neither fault nor leak; the \<open>ud\<close> pointer always has the struct type that
  the selected back end expects; streams and one-shot calls round-trip.  Streams that a client has
  open at once, and the one-shot calls it makes in between, do not disturb each other, and each can
  always go on and end (\<open>Clients\<close>).  For the choice: an accepted
  choice has a complete table and stays; which functions of the extended interface call null pointers.  For
  the back ends: the lifecycle of sessions with and without resets, the functional behaviour of the
  calls, accounting, bounds, and the places where the code departs from its contract (input that is
  lost, buffers that are overrun, resources that are leaked or freed twice, errors that are
  misreported), each proved for all inputs and shown on a concrete one.

  \<^bold>\<open>Loops.\<close>  The loops of the UADK back end are \<open>partial_function (option)\<close>, so that a loop that does not
  end is \<open>None\<close>: \<open>uadk_compress_returns\<close> and \<open>uadk_uncompress_bounded\<close> prove that the one-shot loops return,
  by the progress the driver documents (\<open>uadk_roundtrip\<close>
  says what they have done when they return).  All other code is loop-free or structurally recursive; no
  fuel is used.

  \<^bold>\<open>Not modelled.\<close>  The headers other than the structs and constants they define, which are
  declarations; messages on \<open>stderr\<close> (\<open>ERR_CODE\<close>, \<open>fprintf\<close>), which have no effect on results;
  \<open>hw_copy\<close>, which is declared and defined nowhere; the test programs in C++ and the build files.
  Threads are not modelled: the code has no threads or locks of its own, and \<open>value\<close> is an
  unprotected global variable.  The interleaved calls of \<open>Clients\<close> are those of one thread.  A client
  there gives up when an initialisation or a reset fails, changes the back end only while it has no
  stream open, and uses the six back ends whose sessions are clean; the one-shot functions of XZ, which
  leak, are left to \<open>Xz\<close>.
\<close>

section \<open>Sessions\<close>

text \<open>
  C8: a whole session through the interface, in either direction, is the session of the
  selected back end: once the initialisation has succeeded, one back end was selected and
  initialised the stream, and any calls followed by the end do exactly what the callbacks of
  that back end do, the choice staying as it is.
\<close>

theorem interface_refines_back_end:
  assumes "api_init P d level s g w = Inr (UNIZIP_OK, s1, g1, w1)"
  shows "\<exists>ck init step fin w0. check_algorithm P g w = Inr (0, g1, w0) \<and> selected_ck P g1 = Inr ck \<and>
    table_init d ck = Some init \<and> table_call d ck = Some step \<and> table_end d ck = Some fin \<and>
    init level s w0 = Inr (UNIZIP_OK, s1, w1) \<and>
    andthen (run_api (api_call P d) cs s1 g1 w1) (\<lambda>(rs, s, g, w). api_end P d s g w) =
    stream_result g1 (andthen (run_calls step cs s1 w1) (\<lambda>(rs, s, w). fin s w))"
  by (rule api_session [OF assms, of cs]) blast

lemma lz4_api_init:
  "\<exists>s1 w1. unizip_deflateInit (P\<lparr>lz4_of := demo_lz4\<rparr>) 3 demo_stream (SetValue 3 init_globals) demo_world =
     Inr (UNIZIP_OK, s1, SetValue 3 init_globals, w1)"
proof -
  let ?P = "P\<lparr>lz4_of := demo_lz4\<rparr>"
  have c: "check_algorithm ?P (SetValue 3 init_globals) demo_world = Inr (0, SetValue 3 init_globals, demo_world)"
    by (rule check_chosen) simp_all
  show ?thesis
    unfolding unizip_deflateInit_def on_stream_def checked_ok [OF c]
    by (simp add: invoke_def SetValue_def alg_cks_def lz4_ck_def basic_ck_def stream_result_def deflateInitCB_lz4_def
        lz4_allocate_def malloc_ok lz4_deflateInit_def Let_def load_def deref_def)
qed

lemma lz4_api_session:
  fixes P :: "ptr list platform"
  obtains s1 w1 where "unizip_deflateInit (P\<lparr>lz4_of := demo_lz4\<rparr>) 3 demo_stream (SetValue 3 init_globals) demo_world =
      Inr (UNIZIP_OK, s1, SetValue 3 init_globals, w1)"
    and "api_init (P\<lparr>lz4_of := demo_lz4\<rparr>) Deflating 3 demo_stream (SetValue 3 init_globals) demo_world =
      Inr (UNIZIP_OK, s1, SetValue 3 init_globals, w1)"
    and "documented (P\<lparr>lz4_of := demo_lz4\<rparr>) Deflating (value_of (SetValue 3 init_globals))"
  using lz4_api_init [of P] by (auto simp: documented_def SetValue_def)

theorem interface_refines_back_end_witness:
  "\<forall>P :: ptr list platform. \<exists>s1 w1 ck step fin. selected_ck (P\<lparr>lz4_of := demo_lz4\<rparr>) (SetValue 3 init_globals) = Inr ck \<and>
    deflateCB ck = Some step \<and> deflateEndCB ck = Some fin \<and>
    andthen (run_api (unizip_deflate (P\<lparr>lz4_of := demo_lz4\<rparr>)) [(Keep, 4)] s1 (SetValue 3 init_globals) w1)
      (\<lambda>(rs, s, g, w). unizip_deflateEnd (P\<lparr>lz4_of := demo_lz4\<rparr>) s g w) =
    stream_result (SetValue 3 init_globals) (andthen (run_calls step [(Keep, 4)] s1 w1) (\<lambda>(rs, s, w). fin s w))"
proof
  fix P :: "ptr list platform"
  let ?P = "P\<lparr>lz4_of := demo_lz4\<rparr>"
  obtain s1 w1 where "api_init ?P Deflating 3 demo_stream (SetValue 3 init_globals) demo_world =
     Inr (UNIZIP_OK, s1, SetValue 3 init_globals, w1)" by (rule lz4_api_session)
  from interface_refines_back_end [OF this, of "[(Keep, 4)]"]
  show "\<exists>s1 w1 ck step fin. selected_ck ?P (SetValue 3 init_globals) = Inr ck \<and>
    deflateCB ck = Some step \<and> deflateEndCB ck = Some fin \<and>
    andthen (run_api (unizip_deflate ?P) [(Keep, 4)] s1 (SetValue 3 init_globals) w1)
      (\<lambda>(rs, s, g, w). unizip_deflateEnd ?P s g w) =
    stream_result (SetValue 3 init_globals) (andthen (run_calls step [(Keep, 4)] s1 w1) (\<lambda>(rs, s, w). fin s w))"
    unfolding api_call.simps api_end.simps table_call.simps table_end.simps by blast
qed





section \<open>One-shot calls\<close>

text \<open>
  C4: what \<open>unizip_compress\<close> reports as compressed, \<open>unizip_uncompress\<close> restores, with every back
  end but UADK and under nothing but the round trip of the library it was built with, for
  non-empty inputs and buffers of less than 2 GiB that do not overlap.  The compressed data
  may have been moved, and anything else may have happened to the memory, the heap and the
  library meanwhile.  With 7-Zip the data are 5 bytes longer than reported; with XZ a reported
  length that is the capacity is no success.
\<close>

theorem interface_roundtrip:
  assumes lib: "restores P (value_of g1)" and xz: "value_of g1 \<noteq> 8 \<or> len \<noteq> cap"
    and comp: "unizip_compress P dest (Some cap) source n g w = Inr (UNIZIP_OK, Some len, g1, w1)"
    and ptrs: "source \<noteq> 0" "dest \<noteq> 0" "source' \<noteq> 0" "dest' \<noteq> 0"
    and small: "0 < n" "uint n < 2 ^ 31" "uint cap + uint (uncounted P (value_of g1)) < 2 ^ 31" "n \<le> cap'"
      "uint cap' < 2 ^ 31" "uint len < 2 ^ 31"
    and apart: "disjoint_ranges source (unat n) dest (unat (cap + uncounted P (value_of g1)))"
      "disjoint_ranges source' (unat (len + uncounted P (value_of g1))) dest' (unat cap')"
    and moved: "read_mem (bytes w2) source' (unat (len + uncounted P (value_of g1))) =
      read_mem (bytes w1) dest (unat (len + uncounted P (value_of g1)))"
  shows "\<exists>w3. unizip_uncompress P dest' (Some cap') source' len g1 w2 = Inr (UNIZIP_OK, Some n, g1, w3) \<and>
    read_mem (bytes w3) dest' (unat n) = read_mem (bytes w) source (unat n)"
proof -
  obtain ck w0 where a: "check_algorithm P g w = Inr (0, g1, w0)" "selected_ck P g1 = Inr ck"
    "\<forall>comp. compressCB ck = Some comp \<longrightarrow> comp dest (Some cap) source n w0 = Inr (UNIZIP_OK, Some len, w1)"
    by (rule api_compress [OF comp])
  obtain comp uncomp ok trusted enc dec where s: "compressCB ck = Some comp" "uncompressCB ck = Some uncomp"
    "one_shot ok (uncounted P (value_of g1)) trusted enc dec comp uncomp" ok "restoring enc dec" "\<forall>cap len. value_of g1 \<noteq> 8 \<or> len \<noteq> cap \<longrightarrow> trusted cap len"
    by (rule back_end_shots [OF lib a(2)])
  have "value_of g1 \<noteq> CASE_UADK" using lib by (intro notI) (simp add: restores_def)
  then have "w0 = w" by (rule check_world [OF a(1)])
  with a(3) s(1) have "comp dest (Some cap) source n w = Inr (UNIZIP_OK, Some len, w1)" by simp
  from one_shot.roundtrip [OF s(3-5) ptrs small(1-5) this s(6) [rule_format, OF xz] small(6) apart moved]
  show ?thesis by (auto simp: api_uncompress [OF check_settles [OF a(1)] a(2) s(2)])
qed

theorem interface_roundtrip_witness:
  "\<forall>P :: ptr list platform. \<exists>w1 w3. unizip_compress (P\<lparr>zstd_of := demo_zstd\<rparr>) 2000 (Some 50) 1000 3 (SetValue 5 init_globals) demo_world =
      Inr (UNIZIP_OK, Some 4, SetValue 5 init_globals, w1) \<and>
    unizip_uncompress (P\<lparr>zstd_of := demo_zstd\<rparr>) 3000 (Some 50) 2000 4 (SetValue 5 init_globals) w1 =
      Inr (UNIZIP_OK, Some 3, SetValue 5 init_globals, w3) \<and> read_mem (bytes w3) 3000 3 = [7, 8, 9]"
proof
  fix P :: "ptr list platform"
  let ?P = "P\<lparr>zstd_of := demo_zstd\<rparr>" and ?g = "SetValue 5 init_globals"
  have v: "value_of ?g = 5" by (simp add: SetValue_def)
  have c: "check_algorithm ?P ?g demo_world = Inr (0, ?g, demo_world)" by (rule check_chosen) simp_all
  obtain w1 where comp: "unizip_compress ?P 2000 (Some 50) 1000 3 ?g demo_world = Inr (UNIZIP_OK, Some 4, ?g, w1)"
    unfolding unizip_compress_def checked_ok [OF c]
    by (simp add: v invoke_def alg_cks_def ck_defs basic_ck_def compressCB_zstd_def zstd_compress_def demo_zstd_def Let_def del: write_mem.simps)
  have r: "restores ?P (value_of ?g)" by (simp add: v restores_def demo_zstd_errors zstd_restoring [OF demo_zstd_lossless])
  have "disjoint_ranges 1000 (unat (3 :: uLong)) 2000 (unat (50 :: uLong))"
    "disjoint_ranges 2000 (unat (4 :: uLong)) 3000 (unat (50 :: uLong))"
    by (rule disjoint_ranges_far; simp)+
  then have "\<exists>w3. unizip_uncompress ?P 3000 (Some 50) 2000 4 ?g w1 = Inr (UNIZIP_OK, Some 3, ?g, w3) \<and>
      read_mem (bytes w3) 3000 (unat (3 :: uLong)) = read_mem (bytes demo_world) 1000 (unat (3 :: uLong))"
    by (intro interface_roundtrip [OF r _ comp]) (simp_all add: v uncounted_def)
  with comp demo_bytes show "\<exists>w1 w3. unizip_compress ?P 2000 (Some 50) 1000 3 ?g demo_world = Inr (UNIZIP_OK, Some 4, ?g, w1) \<and>
      unizip_uncompress ?P 3000 (Some 50) 2000 4 ?g w1 = Inr (UNIZIP_OK, Some 3, ?g, w3) \<and> read_mem (bytes w3) 3000 3 = [7, 8, 9]"
    by auto
qed

section \<open>Stream round trips\<close>

text \<open>
  C1: with zlib, bzip2, Brotli, XZ or gzip selected, a deflate session through the interface that runs
  to \<open>UNIZIP_STREAM_END\<close>, fed and drained in any portions, and an inflate session, at any
  later time and in any other portions, that consumes the bytes the first one produced and runs to
  its end, produce the bytes the first one consumed, if the library's coder and decoder are
  inverse on its format.
\<close>

theorem interface_stream_roundtrip:
  assumes lib: "transcoding P dec Deflating v" "transcoding P dec Inflating v"
    and chosen: "value_of g1 = v" "value_of h1 = v"
    and defl: "unizip_deflateInit P level s g w = Inr (UNIZIP_OK, s1, g1, w1)" "set rs \<subseteq> {UNIZIP_OK}"
      "run_api_io (unizip_deflate P) cs s1 g1 w1 = Inr (rs @ [UNIZIP_STREAM_END], xs, ys, s2, g2, w2)"
    and infl: "unizip_inflateInit P t h u = Inr (UNIZIP_OK, t1, h1, u1)" "set qs \<subseteq> {UNIZIP_OK}"
      "run_api_io (unizip_inflate P) ds t1 h1 u1 = Inr (qs @ [UNIZIP_STREAM_END], ys, zs, t2, h2, u2)"
  shows "zs = xs"
proof -
  have "transcodes dec Deflating xs ys"
    by (rule api_session_transcodes [where d = Deflating]) (use lib(1) chosen(1) defl in auto)
  moreover have "transcodes dec Inflating ys zs"
    by (rule api_session_transcodes [where d = Inflating]) (use lib(2) chosen(2) infl in auto)
  ultimately show ?thesis by simp
qed

text \<open>Both sessions with a zlib that stores.\<close>

lemma storing_api:
  fixes P :: "'l platform" and w :: "'l world"
  defines "Q \<equiv> P\<lparr>zlib_of := storing_zlib (zlib_of P)\<rparr>" and "g \<equiv> SetValue 0 init_globals"
  shows "unizip_deflateInit Q level s g w = Inr (UNIZIP_OK, s, g, w)" "unizip_inflateInit Q s g w = Inr (UNIZIP_OK, s, g, w)"
    and "transcoding Q Some d 0" "value_of g = 0"
    and "unizip_deflate Q f s g w = stream_result g (on_z (storing_call f) s w)"
    and "unizip_inflate Q f s g w = stream_result g (on_z (storing_call f) s w)"
proof -
  have c: "check_algorithm Q g w = Inr (0, g, w)" unfolding g_def by (rule check_chosen) simp_all
  show v: "value_of g = 0" by (simp add: g_def SetValue_def)
  show "unizip_deflateInit Q level s g w = Inr (UNIZIP_OK, s, g, w)" "unizip_inflateInit Q s g w = Inr (UNIZIP_OK, s, g, w)"
    "unizip_deflate Q f s g w = stream_result g (on_z (storing_call f) s w)"
    "unizip_inflate Q f s g w = stream_result g (on_z (storing_call f) s w)"
    unfolding unizip_deflateInit_def unizip_inflateInit_def unizip_deflate_def unizip_inflate_def on_stream_def checked_ok [OF c]
    by (simp_all add: v Q_def invoke_def alg_cks_def ck_defs basic_ck_def stream_result_def deflateInitCB_zlib_def inflateInitCB_zlib_def
        deflateCB_zlib_def inflateCB_zlib_def storing_zlib_def on_z_def Let_def)
  show "transcoding Q Some d 0" using storing_codes [of "zlib_of P"] by (auto simp: transcoding_def Q_def)
qed

lemma storing_runs:
  "\<exists>s2 w2. run_api_io (\<lambda>f s g w. stream_result g (on_z (storing_call f) s w)) [(Amounts 3 2, 0), (Amounts 1 50, 4)] demo_stream g demo_world =
     Inr ([UNIZIP_OK, UNIZIP_STREAM_END], [7, 8, 9], [7, 8, 9], s2, g, w2)"
  "\<exists>t2 u2. run_api_io (\<lambda>f s g w. stream_result g (on_z (storing_call f) s w)) [(Buffers [7, 8, 9] 5000 3 6000 50, 4)] demo_stream g demo_world =
     Inr ([UNIZIP_STREAM_END], [7, 8, 9], [7, 8, 9], t2, g, u2)"
  by (simp_all add: storing_call_def on_z_def stream_result_def consumed_def produced_def Let_def demo_stream_def as_z_def put_z_def
      read_mem_def demo_world_def upt_rec)

theorem interface_stream_roundtrip_witness:
  "\<forall>P :: ptr list platform. \<exists>s2 w2 t2 u2 zs.
    run_api_io (unizip_deflate (P\<lparr>zlib_of := storing_zlib (zlib_of P)\<rparr>)) [(Amounts 3 2, 0), (Amounts 1 50, 4)] demo_stream
      (SetValue 0 init_globals) demo_world = Inr ([UNIZIP_OK] @ [UNIZIP_STREAM_END], [7, 8, 9], [7, 8, 9], s2, SetValue 0 init_globals, w2) \<and>
    run_api_io (unizip_inflate (P\<lparr>zlib_of := storing_zlib (zlib_of P)\<rparr>)) [(Buffers [7, 8, 9] 5000 3 6000 50, 4)] demo_stream
      (SetValue 0 init_globals) demo_world = Inr ([] @ [UNIZIP_STREAM_END], [7, 8, 9], zs, t2, SetValue 0 init_globals, u2) \<and> zs = [7, 8, 9]"
proof
  fix P :: "ptr list platform"
  let ?Q = "P\<lparr>zlib_of := storing_zlib (zlib_of P)\<rparr>" and ?g = "SetValue 0 init_globals"
  obtain s2 w2 where d: "run_api_io (unizip_deflate ?Q) [(Amounts 3 2, 0), (Amounts 1 50, 4)] demo_stream ?g demo_world =
      Inr ([UNIZIP_OK] @ [UNIZIP_STREAM_END], [7, 8, 9], [7, 8, 9], s2, ?g, w2)"
    using storing_runs(1) [of ?g] by (auto simp: storing_api(5) stream_result_def andthen_eq_Inr Let_def)
  obtain zs t2 u2 where i: "run_api_io (unizip_inflate ?Q) [(Buffers [7, 8, 9] 5000 3 6000 50, 4)] demo_stream ?g demo_world =
      Inr ([] @ [UNIZIP_STREAM_END], [7, 8, 9], zs, t2, ?g, u2)"
    using storing_runs(2) [of ?g] by (auto simp: storing_api(6) stream_result_def andthen_eq_Inr Let_def)
  have "zs = [7, 8, 9]"
    by (rule interface_stream_roundtrip [OF storing_api(3) storing_api(3) storing_api(4) storing_api(4) storing_api(1) _ d storing_api(2) _ i]) simp_all
  with d i show "\<exists>s2 w2 t2 u2 zs.
      run_api_io (unizip_deflate ?Q) [(Amounts 3 2, 0), (Amounts 1 50, 4)] demo_stream ?g demo_world =
        Inr ([UNIZIP_OK] @ [UNIZIP_STREAM_END], [7, 8, 9], [7, 8, 9], s2, ?g, w2) \<and>
      run_api_io (unizip_inflate ?Q) [(Buffers [7, 8, 9] 5000 3 6000 50, 4)] demo_stream ?g demo_world =
        Inr ([] @ [UNIZIP_STREAM_END], [7, 8, 9], zs, t2, ?g, u2) \<and> zs = [7, 8, 9]" by blast
qed

end
